(* ===== verification/Prelude.thy ===== *)
theory Prelude
  imports Main "HOL-Library.Word" "HOL-Library.AList" "HOL-Library.Multiset"
begin

text \<open>
  Shared vocabulary of the development.

  \<^item> Machine integers: Go's \<open>uint8\<close>, \<open>uint16\<close>, \<open>uint32\<close>, \<open>uint64\<close> are words of that width.
  \<^item> Go maps are association lists with distinct keys (\<open>gomap\<close>); \<open>gm_put\<close> and \<open>gm_del\<close> are the
    assignment and the builtin \<open>delete\<close>. Go leaves the iteration order of \<open>range\<close> over a map
    unspecified: an operation that iterates over a map takes the order as an argument, a function
    that permutes the list of keys (locale \<open>range_order\<close>), and its theorems hold for every order.
  \<^item> Effects: an operation on a state of type \<open>'s\<close> that may fail is a function
    \<open>'s \<Rightarrow> (error + 'a) \<times> 's\<close> (\<open>act\<close>). A failing operation keeps the state changes made
    before the failure, as the Go code does.
  \<^item> The theorem collections \<open>act_simps\<close> and \<open>gm_simps\<close> carry the component proofs.
\<close>

named_theorems act_simps "unfolding of the state-and-error combinators"
named_theorems gm_simps "lookup laws of Go maps"

type_synonym u8 = "8 word"
type_synonym u16 = "16 word"
type_synonym u32 = "32 word"
type_synonym u64 = "64 word"
type_synonym bytes = "8 word list"

subsection \<open>Errors\<close>

text \<open>One constructor per failure the modelled code reports; \<open>ErrVpp\<close> is any non-zero return value or
  transport failure govpp hands to \<open>exec\<close> and \<open>dumpAll\<close>.\<close>

datatype error =
    ErrVpp int
  | ErrNotHealthy
  | ErrUnknownMask
  | ErrFamilyMismatch
  | ErrUnknownRateType
  | ErrUnknownAction
  | ErrInvalidSpec
  | ErrUnknownPolicer string
  | ErrHitsMismatch nat nat
  | ErrMissingIfaces "string list"
  | ErrUnexpectedReply
  | ErrClosed
  | ErrIO
  | ErrMalformed string
  | ErrCommand int string
  | ErrNoNextHop
  | ErrInvalidPrefix nat
  | ErrMapped nat
  | ErrHostBits nat
  | ErrDuplicate
  | ErrCheckRejected
  | ErrConfigureFailed
  | ErrFile string
  | ErrStatsDisconnected
  | ErrStats
  | ErrRejected int
  | ErrConfig string
  | ErrNotReady
  | ErrUnparseable string
  | ErrCanceled

subsection \<open>State-and-error actions\<close>

type_synonym ('s, 'a) act = "'s \<Rightarrow> (error + 'a) \<times> 's"

definition ret :: "'a \<Rightarrow> ('s, 'a) act" where
  [act_simps]: "ret a = (\<lambda>s. (Inr a, s))"

definition raise :: "error \<Rightarrow> ('s, 'a) act" where
  [act_simps]: "raise e = (\<lambda>s. (Inl e, s))"

definition andThen :: "('s, 'a) act \<Rightarrow> ('a \<Rightarrow> ('s, 'b) act) \<Rightarrow> ('s, 'b) act" where
  "andThen m f = (\<lambda>s. case m s of (Inl e, s') \<Rightarrow> (Inl e, s') | (Inr a, s') \<Rightarrow> f a s')"

lemma andThen_Inr: "m s = (Inr a, s') \<Longrightarrow> andThen m f s = f a s'"
  by (simp add: andThen_def)

lemma andThen_Inl: "m s = (Inl e, s') \<Longrightarrow> andThen m f s = (Inl e, s')"
  by (simp add: andThen_def)

lemma andThen_split_Inr:
  "andThen m f s = (Inr b, t) \<longleftrightarrow> (\<exists>a s'. m s = (Inr a, s') \<and> f a s' = (Inr b, t))"
  by (auto simp: andThen_def split: prod.splits sum.splits)

lemma andThen_InrE:
  assumes "andThen m f s = (Inr b, t)"
  obtains a s' where "m s = (Inr a, s')" and "f a s' = (Inr b, t)"
  using assms by (auto simp: andThen_split_Inr)

lemma andThen_ret [simp]: "andThen (ret a) f = f a"
  by (simp add: andThen_def ret_def)

text \<open>A loop body over a slice: stop at the first error, keep the effects so far.\<close>

fun forEach :: "'x list \<Rightarrow> ('x \<Rightarrow> 'c \<Rightarrow> ('s, 'c) act) \<Rightarrow> 'c \<Rightarrow> ('s, 'c) act" where
  "forEach [] body c = ret c"
| "forEach (x # xs) body c = andThen (body x c) (forEach xs body)"

lemma forEach_Nil_iff [simp]: "forEach [] body c s = (Inr c', s') \<longleftrightarrow> c' = c \<and> s' = s"
  by (auto simp: ret_def)

lemma forEach_append:
  "forEach (xs @ ys) body c = andThen (forEach xs body c) (forEach ys body)"
proof (induction xs arbitrary: c)
  case (Cons x xs)
  show ?case
    by (rule ext) (simp add: andThen_def Cons.IH split: prod.splits sum.splits)
qed simp

text \<open>The invariant rule of the loop: a relation between the items done, the accumulator and the
  state, established at the start and kept by every body that returns normally.\<close>

lemma forEach_inv:
  assumes "forEach xs body c s = (Inr c', s')"
    and "I [] c s"
    and "\<And>done x rest c s c1 s1. xs = done @ x # rest \<Longrightarrow> I done c s \<Longrightarrow>
           body x c s = (Inr c1, s1) \<Longrightarrow> I (done @ [x]) c1 s1"
  shows "I xs c' s'"
proof -
  have "I (pre @ xs) c' s'"
    if "forEach xs body c s = (Inr c', s')" and "I pre c s"
      and "\<And>done x rest c s c1 s1. xs = done @ x # rest \<Longrightarrow> I (pre @ done) c s \<Longrightarrow>
           body x c s = (Inr c1, s1) \<Longrightarrow> I (pre @ done @ [x]) c1 s1" for pre
    using that
  proof (induction xs arbitrary: pre c s)
    case (Cons x xs)
    from Cons.prems(1) obtain c1 s1 where b: "body x c s = (Inr c1, s1)"
      and r: "forEach xs body c1 s1 = (Inr c', s')"
      by (auto elim: andThen_InrE)
    have "I (pre @ [x]) c1 s1"
      using Cons.prems(3)[of "[]" x xs c s c1 s1] Cons.prems(2) b by simp
    moreover have "I ((pre @ [x]) @ done @ [y]) c2 s2"
      if "xs = done @ y # rest" "I ((pre @ [x]) @ done) c0 s0" "body y c0 s0 = (Inr c2, s2)"
      for "done" y rest c0 s0 c2 s2
      using Cons.prems(3)[of "x # done" y rest c0 s0 c2 s2] that by simp
    ultimately have "I ((pre @ [x]) @ xs) c' s'"
      by (rule Cons.IH [OF r])
    then show ?case by simp
  qed (simp add: ret_def)
  from this [of "[]"] assms show ?thesis by simp
qed

text \<open>If no body fails on the states the loop reaches, the loop returns.\<close>

lemma forEach_total:
  assumes "P c s"
    and "\<And>x c s. x \<in> set xs \<Longrightarrow> P c s \<Longrightarrow> \<exists>c1 s1. body x c s = (Inr c1, s1) \<and> P c1 s1"
  shows "\<exists>c' s'. forEach xs body c s = (Inr c', s') \<and> P c' s'"
  using assms
proof (induction xs arbitrary: c s)
  case Nil
  then show ?case by (simp add: ret_def)
next
  case (Cons x xs)
  from Cons.prems obtain c1 s1 where "body x c s = (Inr c1, s1)" "P c1 s1"
    by (meson list.set_intros(1))
  with Cons.IH [of c1 s1] Cons.prems(2) show ?case
    by (simp add: andThen_def)
qed

text \<open>An operation keeps an observation of the state whether it succeeds or fails.\<close>

definition keeps :: "('s \<Rightarrow> 'o) \<Rightarrow> ('s, 'a) act \<Rightarrow> bool" where
  "keeps obs m \<longleftrightarrow> (\<forall>s. obs (snd (m s)) = obs s)"

lemma keepsD: "keeps obs m \<Longrightarrow> m s = (x, s') \<Longrightarrow> obs s' = obs s"
  unfolding keeps_def by (metis snd_conv)

lemma keeps_ret [simp, intro]: "keeps obs (ret a)"
  by (simp add: keeps_def ret_def)

lemma keeps_raise [simp, intro]: "keeps obs (raise e)"
  by (simp add: keeps_def raise_def)

lemma keeps_andThen [intro]: "keeps obs m \<Longrightarrow> (\<And>a. keeps obs (f a)) \<Longrightarrow> keeps obs (andThen m f)"
  by (auto simp: keeps_def andThen_def split: prod.splits sum.splits) (metis snd_conv)+

lemma keeps_forEach [intro]: "(\<And>x c. keeps obs (body x c)) \<Longrightarrow> keeps obs (forEach xs body c)"
  by (induction xs arbitrary: c) auto

lemma keeps_if [intro]: "keeps obs m \<Longrightarrow> keeps obs n \<Longrightarrow> keeps obs (if b then m else n)"
  by simp

lemma keeps_option [intro]: "keeps obs n \<Longrightarrow> (\<And>x. keeps obs (s x)) \<Longrightarrow> keeps obs (case z of None \<Rightarrow> n | Some x \<Rightarrow> s x)"
  by (cases z) auto

lemma keeps_sum [intro]: "(\<And>x. keeps obs (l x)) \<Longrightarrow> (\<And>x. keeps obs (r x)) \<Longrightarrow> keeps obs (case z of Inl x \<Rightarrow> l x | Inr x \<Rightarrow> r x)"
  by (cases z) auto

lemma keeps_prod [intro]: "(\<And>a b. keeps obs (f a b)) \<Longrightarrow> keeps obs (case z of (a, b) \<Rightarrow> f a b)"
  by (cases z) auto

lemmas keeps_intros = keeps_ret keeps_raise keeps_andThen keeps_forEach keeps_if keeps_option keeps_sum keeps_prod

subsection \<open>Go maps\<close>

type_synonym ('k, 'v) gomap = "('k \<times> 'v) list"

abbreviation gm_get :: "('k, 'v) gomap \<Rightarrow> 'k \<Rightarrow> 'v option" where
  "gm_get m \<equiv> map_of m"

abbreviation gm_put :: "'k \<Rightarrow> 'v \<Rightarrow> ('k, 'v) gomap \<Rightarrow> ('k, 'v) gomap" where
  "gm_put k v m \<equiv> AList.update k v m"

abbreviation gm_del :: "'k \<Rightarrow> ('k, 'v) gomap \<Rightarrow> ('k, 'v) gomap" where
  "gm_del k m \<equiv> AList.delete k m"

abbreviation gm_keys :: "('k, 'v) gomap \<Rightarrow> 'k list" where
  "gm_keys m \<equiv> map fst m"

abbreviation gm_wf :: "('k, 'v) gomap \<Rightarrow> bool" where
  "gm_wf m \<equiv> distinct (map fst m)"

lemma gm_get_put [gm_simps]: "gm_get (gm_put k v m) = (gm_get m)(k \<mapsto> v)"
  by (rule update_conv')

lemma gm_get_del [gm_simps]: "gm_get (gm_del k m) = (gm_get m)(k := None)"
  by (rule delete_conv')

lemma gm_wf_put [simp, intro]: "gm_wf m \<Longrightarrow> gm_wf (gm_put k v m)"
  by (rule distinct_update)

lemma gm_wf_del [simp, intro]: "gm_wf m \<Longrightarrow> gm_wf (gm_del k m)"
  by (rule distinct_delete)

lemma gm_keys_dom: "set (gm_keys m) = dom (gm_get m)"
  by (simp add: dom_map_of_conv_image_fst)

lemma gm_del_absent: "gm_get m k = None \<Longrightarrow> gm_del k m = m"
  by (induction m) (auto split: if_splits)

text \<open>\<open>len(m)\<close> of a map is its number of keys.\<close>

lemma gm_length_put: "gm_wf m \<Longrightarrow>
    length (gm_put k v m) = (if k \<in> dom (gm_get m) then length m else Suc (length m))"
proof (induction m)
  case (Cons p m)
  then show ?case by (cases p) (force simp: dom_map_of_conv_image_fst)
qed simp

lemma gm_length_del: "k \<in> dom (gm_get m) \<Longrightarrow> length (gm_del k m) < length m"
proof (induction m)
  case (Cons p m)
  have "length (gm_del k m) \<le> length m" by (rule length_delete_le)
  with Cons show ?case by (cases p) (auto split: if_splits simp: domIff)
qed simp

text \<open>A map filled from a slice, later entries overwriting earlier ones.\<close>

definition gm_collect :: "('a \<Rightarrow> 'k) \<Rightarrow> ('a \<Rightarrow> 'v) \<Rightarrow> 'a list \<Rightarrow> ('k, 'v) gomap" where
  "gm_collect key val xs = fold (\<lambda>x m. gm_put (key x) (val x) m) xs []"

lemma gm_collect_fold_get:
  "gm_get (fold (\<lambda>x m. gm_put (key x) (val x) m) xs m0) =
     gm_get m0 ++ map_of (rev (map (\<lambda>x. (key x, val x)) xs))"
  by (induction xs arbitrary: m0) (auto simp: gm_simps)

lemma gm_collect_get:
  "gm_get (gm_collect key val xs) = map_of (rev (map (\<lambda>x. (key x, val x)) xs))"
  by (simp add: gm_collect_def gm_collect_fold_get)

lemma gm_collect_wf [simp]: "gm_wf (gm_collect key val xs)"
proof -
  have "gm_wf m0 \<Longrightarrow> gm_wf (fold (\<lambda>x m. gm_put (key x) (val x) m) xs m0)" for m0
    by (induction xs arbitrary: m0) auto
  then show ?thesis by (simp add: gm_collect_def)
qed

lemma gm_collect_dom: "dom (gm_get (gm_collect key val xs)) = key ` set xs"
  by (force simp: gm_collect_get dom_map_of_conv_image_fst)

lemma gm_collect_SomeD:
  "gm_get (gm_collect key val xs) k = Some v \<Longrightarrow> \<exists>x \<in> set xs. key x = k \<and> val x = v"
  by (auto simp: gm_collect_get dest!: map_of_SomeD)

lemma gm_collect_distinct:
  "distinct (map key xs) \<Longrightarrow> x \<in> set xs \<Longrightarrow> gm_get (gm_collect key val xs) (key x) = Some (val x)"
proof -
  assume d: "distinct (map key xs)" and x: "x \<in> set xs"
  have "distinct (map fst (rev (map (\<lambda>x. (key x, val x)) xs)))"
    using d by (simp add: rev_map comp_def flip: rev_map)
  then show ?thesis
    using x by (simp add: gm_collect_get map_of_eq_Some_iff)
qed

declare map_of_eq_Some_iff [simp del]

text \<open>Go's \<open>range\<close> over a map visits every entry exactly once, in an order the language leaves open.\<close>

locale range_order =
  fixes ord :: "'k list \<Rightarrow> 'k list"
  assumes ord_mset: "mset (ord ks) = mset ks"
begin

lemma ord_set: "set (ord ks) = set ks"
  using ord_mset by (metis set_mset_mset)

lemma ord_distinct: "distinct (ord ks) = distinct ks"
  using ord_mset by (metis mset_eq_imp_distinct_iff)

lemma ord_length: "length (ord ks) = length ks"
  using ord_mset by (metis size_mset)

end

interpretation range_id: range_order "\<lambda>ks. ks"
  by unfold_locales simp

interpretation range_rev: range_order rev
  by unfold_locales simp

subsection \<open>Lists and options\<close>

lemma filter_concat_map: "filter P (concat xss) = concat (map (filter P) xss)"
  by (induction xss) auto

end
