(* ===== verification/Netip.thy ===== *)
theory Netip
  imports Prelude
begin

text \<open>
  The part of Go's \<open>net/netip\<close> and of big-endian byte layout the agent uses. An address is invalid
  (the zero \<open>netip.Addr\<close>), IPv4 or IPv6; zones are not modelled (the agent never sets one and a
  \<open>netip.Prefix\<close> carries none). \<open>be_bytes n w\<close> is the network-order encoding of the low \<open>n\<close> bytes
  of a word and \<open>be_nat\<close> the value of a byte string; \<open>be_nat_be_bytes\<close> is their round trip.
\<close>

subsection \<open>Network byte order\<close>

fun be_bytes :: "nat \<Rightarrow> 'a::len word \<Rightarrow> bytes" where
  "be_bytes 0 w = []"
| "be_bytes (Suc n) w = be_bytes n (drop_bit 8 w) @ [ucast w]"

definition be_nat :: "bytes \<Rightarrow> nat" where
  "be_nat bs = foldl (\<lambda>a b. a * 256 + unat b) 0 bs"

lemma be_bytes_length [simp]: "length (be_bytes n w) = n"
  by (induction n arbitrary: w) auto

lemma be_nat_snoc: "be_nat (bs @ [b]) = be_nat bs * 256 + unat b"
  by (simp add: be_nat_def)

lemma unat_ucast_byte: "unat (ucast (w :: 'a::len word) :: 8 word) = unat w mod 256"
  by (simp add: unsigned_ucast_eq take_bit_eq_mod)

lemma be_nat_be_bytes: "be_nat (be_bytes n (w :: 'a::len word)) = unat w mod 256 ^ n"
proof (induction n arbitrary: w)
  case 0
  then show ?case by (simp add: be_nat_def)
next
  case (Suc n)
  have "unat w mod 256 ^ Suc n = 256 * (unat w div 256 mod 256 ^ n) + unat w mod 256"
    by (simp add: mod_mult2_eq)
  moreover have "unat (drop_bit 8 w) = unat w div 256"
    unfolding unat_drop_bit_eq by (simp add: drop_bit_eq_div)
  ultimately show ?case
    by (simp add: be_nat_snoc Suc.IH unat_ucast_byte)
qed

lemma be_bytes_inject:
  assumes "be_bytes n v = be_bytes n (w :: 'a::len word)" and "2 ^ LENGTH('a) \<le> (256::nat) ^ n"
  shows "v = w"
proof -
  have small: "unat x mod 256 ^ n = unat x" for x :: "'a word"
    by (rule mod_less) (rule less_le_trans [OF unsigned_less assms(2)])
  have "unat v mod 256 ^ n = unat w mod 256 ^ n"
    using assms(1) by (metis be_nat_be_bytes)
  then show ?thesis by (simp add: small word_unat_eq_iff)
qed

subsection \<open>Addresses and prefixes\<close>

datatype Addr = AddrInvalid | IPv4 "32 word" | IPv6 "128 word"

datatype Prefix = Prefix (pfx_Addr: Addr) (pfx_Bits: int)

fun Is4 :: "Addr \<Rightarrow> bool" where
  "Is4 (IPv4 _) = True"
| "Is4 _ = False"

fun Is6 :: "Addr \<Rightarrow> bool" where
  "Is6 (IPv6 _) = True"
| "Is6 _ = False"

fun Is4In6 :: "Addr \<Rightarrow> bool" where
  "Is4In6 (IPv6 w) = (drop_bit 32 w = 0xffff)"
| "Is4In6 _ = False"

definition Addr_IsValid :: "Addr \<Rightarrow> bool" where
  "Addr_IsValid a = (a \<noteq> AddrInvalid)"

text \<open>\<open>As4\<close> panics on an address that is neither IPv4 nor IPv4-mapped; the modelled callers check
  first, and the panic is \<open>None\<close>. \<open>As16\<close> maps IPv4 into \<open>::ffff:0:0/96\<close> and is all zero on the
  zero address.\<close>

fun As4 :: "Addr \<Rightarrow> bytes option" where
  "As4 (IPv4 w) = Some (be_bytes 4 w)"
| "As4 (IPv6 w) = (if drop_bit 32 w = 0xffff then Some (be_bytes 4 w) else None)"
| "As4 AddrInvalid = None"

fun As16 :: "Addr \<Rightarrow> bytes" where
  "As16 (IPv6 w) = be_bytes 16 w"
| "As16 (IPv4 w) = replicate 10 0 @ [0xff, 0xff] @ be_bytes 4 w"
| "As16 AddrInvalid = replicate 16 0"

fun BitLen :: "Addr \<Rightarrow> int" where
  "BitLen (IPv4 _) = 32"
| "BitLen (IPv6 _) = 128"
| "BitLen AddrInvalid = 0"

fun Prefix_IsValid :: "Prefix \<Rightarrow> bool" where
  "Prefix_IsValid (Prefix a b) = (a \<noteq> AddrInvalid \<and> 0 \<le> b \<and> b \<le> BitLen a)"

text \<open>\<open>p.Masked().Addr()\<close>: the address with every bit after the prefix length cleared.\<close>

fun Masked_Addr :: "Prefix \<Rightarrow> Addr" where
  "Masked_Addr (Prefix (IPv4 w) b) =
     IPv4 (push_bit (32 - nat b) (drop_bit (32 - nat b) w))"
| "Masked_Addr (Prefix (IPv6 w) b) =
     IPv6 (push_bit (128 - nat b) (drop_bit (128 - nat b) w))"
| "Masked_Addr (Prefix AddrInvalid b) = AddrInvalid"

text \<open>\<open>Addr.Compare\<close> orders by bit length, then by value.\<close>

fun Addr_Less :: "Addr \<Rightarrow> Addr \<Rightarrow> bool" where
  "Addr_Less (IPv4 v) (IPv4 w) = (v < w)"
| "Addr_Less (IPv6 v) (IPv6 w) = (v < w)"
| "Addr_Less a b = (BitLen a < BitLen b)"

definition Prefix_Less :: "Prefix \<Rightarrow> Prefix \<Rightarrow> bool" where
  "Prefix_Less p q =
     (if Addr_Less (pfx_Addr p) (pfx_Addr q) then True
      else if Addr_Less (pfx_Addr q) (pfx_Addr p) then False
      else pfx_Bits p < pfx_Bits q)"

lemma Addr_Less_irrefl [simp]: "\<not> Addr_Less a a"
  by (cases a) auto

lemma Addr_Less_trans: "Addr_Less a b \<Longrightarrow> Addr_Less b c \<Longrightarrow> Addr_Less a c"
  by (cases a; cases b; cases c) auto

lemma Addr_Less_total: "a \<noteq> b \<Longrightarrow> Addr_Less a b \<or> Addr_Less b a"
  by (cases a; cases b) auto

lemma Prefix_Less_irrefl [simp]: "\<not> Prefix_Less p p"
  by (simp add: Prefix_Less_def)

lemma Prefix_Less_total: "p \<noteq> q \<Longrightarrow> Prefix_Less p q \<or> Prefix_Less q p"
proof (cases p; cases q)
  fix a i b j
  assume "p = Prefix a i" "q = Prefix b j" "p \<noteq> q"
  then show ?thesis
    using Addr_Less_total[of a b] by (auto simp: Prefix_Less_def)
qed

lemma Prefix_Less_trans: "Prefix_Less p q \<Longrightarrow> Prefix_Less q r \<Longrightarrow> Prefix_Less p r"
proof (cases p; cases q; cases r)
  fix a i b j c k
  assume "p = Prefix a i" "q = Prefix b j" "r = Prefix c k"
    and "Prefix_Less p q" "Prefix_Less q r"
  then show ?thesis
    using Addr_Less_trans[of a b c] Addr_Less_trans[of b c a] Addr_Less_trans[of c a b]
      Addr_Less_total[of a b] Addr_Less_total[of b c] Addr_Less_total[of a c]
    by (auto simp: Prefix_Less_def split: if_splits)
qed

lemma As4_length: "As4 a = Some bs \<Longrightarrow> length bs = 4"
  by (cases a) (auto split: if_splits)

lemma As16_length [simp]: "length (As16 a) = 16"
  by (cases a) auto

end
