(* ===== verification/Contract.thy ===== *)
theory Contract
  imports Netip
begin

text \<open>
  The data of \<open>sbw-contract/model\<close> that the agent exchanges with the controller. The contract module
  is not part of the repository: its record types are declared with the fields the agent reads or
  writes, its enumerations with the constants the agent names plus a constructor for any other
  value, and its functions (name parsing, validation, hashing, chunk assembly) are the fields of
  the parameter \<open>contract_fns\<close>. No law about them is assumed here; a theorem that needs one states it
  as a hypothesis.
\<close>

type_synonym PoolID = u64
type_synonym EdgeID = string

datatype MaskKind =
    MaskIP4Dst32 | MaskIP4Dst24 | MaskIP6Dst128
  | MaskIP4Src32 | MaskIP4Src24 | MaskIP6Src128
  | MaskOther nat

datatype Family = FamilyIPv4 | FamilyIPv6

datatype RateType = RateKbps | RatePps | RateOther nat

datatype PolicerAction = PolicerTransmit | PolicerDrop | PolicerMarkAndTransmit | PolicerActionOther nat

datatype DataPlanePhase = PhaseReady | PhaseReconciling | PhasePending | PhaseDegraded | PhaseDead
  | PhaseUnknown

datatype HealthState = HealthHealthy | HealthDegraded | HealthDataPlaneDown

datatype FaultKind = FaultNone | FaultVPPGone | FaultLinkDown | FaultForwardingBroken

record PolicerSpec =
  ps_Name :: string
  ps_PoolID :: PoolID
  ps_CIR :: u64
  ps_CommittedBurstBytes :: u64
  ps_CommittedBurstPackets :: u64
  ps_RateType :: RateType
  ps_ConformAction :: PolicerAction
  ps_ExceedAction :: PolicerAction
  ps_ColorAware :: bool
  ps_BindWorker :: bool
  ps_WorkerIndex :: u32

record ClassifySession =
  cs_PoolID :: PoolID
  cs_PolicerName :: string
  cs_Mask :: MaskKind
  cs_Prefix :: Prefix

record Community =
  com_ASN :: u16
  com_Value :: u16

record LargeCommunity =
  lc_GlobalAdmin :: u32
  lc_LocalData1 :: u32
  lc_LocalData2 :: u32

record Anchor =
  an_Prefix :: Prefix
  an_Communities :: "Community list"
  an_LargeCommunities :: "LargeCommunity list"

record FlowRedirect =
  fr_SrcPrefix :: Prefix

record EdgeDesiredState =
  es_SchemaVersion :: int
  es_Generation :: u64
  es_DesiredVersion :: u64
  es_GeneratedAtUnixMs :: int
  es_Policers :: "PolicerSpec list"
  es_ClassifySessions :: "ClassifySession list"
  es_Anchors :: "Anchor list"
  es_FlowRedirects :: "FlowRedirect list"
  es_RedirectNextHop :: Addr
  es_RedirectNextHopV6 :: Addr

definition EdgeDesiredState_zero :: EdgeDesiredState where
  "EdgeDesiredState_zero =
     \<lparr>es_SchemaVersion = 0, es_Generation = 0, es_DesiredVersion = 0, es_GeneratedAtUnixMs = 0,
      es_Policers = [], es_ClassifySessions = [], es_Anchors = [], es_FlowRedirects = [],
      es_RedirectNextHop = AddrInvalid, es_RedirectNextHopV6 = AddrInvalid\<rparr>"

record PoolDelta =
  pd_PoolID :: PoolID
  pd_Policers :: "PolicerSpec list"
  pd_ClassifySessions :: "ClassifySession list"
  pd_Anchors :: "Anchor list"
  pd_FlowRedirects :: "FlowRedirect list"
  pd_RedirectNextHop :: Addr
  pd_RedirectNextHopV6 :: Addr

record EdgeDesiredDelta =
  ed_SchemaVersion :: int
  ed_Generation :: u64
  ed_BaseGeneration :: u64
  ed_DesiredVersion :: u64
  ed_GeneratedAtUnixMs :: int
  ed_Upserts :: "PoolDelta list"
  ed_Removed :: "PoolID list"

record EdgeDesiredStateChunk =
  ch_Epoch :: u64
  ch_Seq :: u32
  ch_Last :: bool
  ch_Fragment :: EdgeDesiredState

record HealthReport =
  hr_EdgeID :: EdgeID
  hr_GenerationApplied :: u64
  hr_AppliedVersion :: u64
  hr_ObservedAtUnixMs :: int
  hr_VPPConnected :: bool
  hr_PolicersDesired :: int
  hr_SessionsDesired :: int
  hr_PolicersActual :: int
  hr_SessionsActual :: int
  hr_RepairActions :: int
  hr_DeltasDropped :: u64
  hr_State :: HealthState
  hr_Reason :: string
  hr_Phase :: DataPlanePhase
  hr_FaultKind :: FaultKind
  hr_BirdFeedFails :: int
  hr_BirdFeedLastOKUnixMs :: int

record CapacityReport =
  cr_NICCapacityBps :: u64
  cr_SessionBudget :: u64

record EdgeReport =
  er_SchemaVersion :: int
  er_EdgeID :: EdgeID
  er_Generation :: u64
  er_ReportedAtUnixMs :: int
  er_Health :: HealthReport
  er_Capacity :: CapacityReport
  er_InstalledPoolHash :: u64

text \<open>The contract's functions the agent calls.\<close>

record contract_fns =
  ParsePolicerName :: "string \<Rightarrow> (PoolID \<times> string) option"
  PoolSetHash :: "PoolID list \<Rightarrow> u64"
  PolicerSpec_Validate :: "PolicerSpec \<Rightarrow> bool"
  MaskKind_String :: "MaskKind \<Rightarrow> string"
  FlowRedirect_Validate :: "FlowRedirect \<Rightarrow> bool"
  AssembleChunks :: "EdgeDesiredStateChunk list \<Rightarrow> EdgeDesiredState"
  SoftDead :: "HealthReport \<Rightarrow> bool"
  SchemaVersion :: int

end
