(* ===== verification/Vpp_Api.thy ===== *)
theory Vpp_Api
  imports Contract
begin

text \<open>
  The binary API between the agent and VPP: the request and reply messages of \<open>internal/binapi\<close> the
  agent sends (with the fields it sets or reads) and \<open>internal/vpp/exec.go\<close>. VPP and govpp are not
  part of the repository: a govpp channel is the parameter \<open>ch\<close> of type \<open>'v channel\<close>, where \<open>'v\<close> is
  VPP's state; a request either fails with a code (a non-zero return value, a timeout, a closed
  socket) or returns its reply, and may change VPP either way. A multi-part dump returns the list of
  its details messages.
\<close>

unbundle bit_operations_syntax

datatype Sse2QosRateType = SSE2_QOS_RATE_API_KBPS | SSE2_QOS_RATE_API_PPS

datatype Sse2QosActionType =
  SSE2_QOS_ACTION_API_DROP | SSE2_QOS_ACTION_API_TRANSMIT | SSE2_QOS_ACTION_API_MARK_AND_TRANSMIT

datatype Sse2QosRoundType = SSE2_QOS_ROUND_API_TO_CLOSEST

datatype Sse2QosPolicerType = SSE2_QOS_POLICER_TYPE_API_1R2C

record PolicerConfig =
  pc_Cir :: u32
  pc_Eir :: u32
  pc_Cb :: u64
  pc_Eb :: u64
  pc_RateType :: Sse2QosRateType
  pc_RoundType :: Sse2QosRoundType
  pc_Type :: Sse2QosPolicerType
  pc_ColorAware :: bool
  pc_ConformAction :: Sse2QosActionType
  pc_ExceedAction :: Sse2QosActionType
  pc_ViolateAction :: Sse2QosActionType

record PolicerDetails =
  pdt_Name :: string
  pdt_Cir :: u32
  pdt_Cb :: u64

record ClassifyAddDelTable =
  cat_IsAdd :: bool
  cat_TableIndex :: u32
  cat_Nbuckets :: u32
  cat_MemorySize :: u32
  cat_SkipNVectors :: u32
  cat_MatchNVectors :: u32
  cat_NextTableIndex :: u32
  cat_MissNextIndex :: u32
  cat_MaskLen :: u32
  cat_Mask :: bytes

record ClassifyAddDelSession =
  cas_IsAdd :: bool
  cas_TableIndex :: u32
  cas_HitNextIndex :: u32
  cas_OpaqueIndex :: u32
  cas_MatchLen :: u32
  cas_Match :: bytes

record TableInfo =
  ti_TableID :: u32
  ti_SkipNVectors :: u32
  ti_MatchNVectors :: u32
  ti_NextTableIndex :: u32
  ti_Mask :: bytes

record SessionInfo =
  si_HitNextIndex :: u32
  si_Match :: bytes

record PolicerClassifyAttachment =
  pca_SwIfIndex :: u32
  pca_TableIndex :: u32

record SwInterfaceDetails =
  sid_InterfaceName :: string
  sid_SwIfIndex :: u32
  sid_Flags :: u32

datatype vpp_req =
    PolicerAdd string PolicerConfig
  | PolicerUpdate u32 PolicerConfig
  | PolicerDel u32
  | PolicerBindV2 u32 u32 bool
  | PolicerAddDel bool string
  | PolicerDump
  | ReqClassifyAddDelTable ClassifyAddDelTable
  | ReqClassifyAddDelSession ClassifyAddDelSession
  | ClassifyTableIds
  | ClassifyTableInfo u32
  | ClassifySessionDump u32
  | ProbeClassifyLookup u32 u32 u32 bytes
  | PolicerClassifySetInterface u32 u32 u32 u32 bool
  | PolicerClassifyDump Family
  | SwInterfaceDump

datatype vpp_rep =
    Reply
  | PolicerAddReply u32
  | PolicerDetailsList "PolicerDetails list"
  | ClassifyAddDelTableReply u32
  | ClassifyTableIdsReply "u32 list"
  | ClassifyTableInfoReply TableInfo
  | ClassifySessionDetailsList "SessionInfo list"
  | ProbeClassifyLookupReply "u32 list"
  | PolicerClassifyDetailsList "PolicerClassifyAttachment list"
  | SwInterfaceDetailsList "SwInterfaceDetails list"

type_synonym 'v channel = "vpp_req \<Rightarrow> 'v \<Rightarrow> (int + vpp_rep) \<times> 'v"

definition exec :: "'v channel \<Rightarrow> vpp_req \<Rightarrow> ('v, vpp_rep) act" where
  "exec ch req v =
     (case ch req v of (Inl r, v') \<Rightarrow> (Inl (ErrVpp r), v') | (Inr rep, v') \<Rightarrow> (Inr rep, v'))"

text \<open>\<open>dumpAll\<close> collects every details message of a multi-part reply; a failure in the middle drops
  what was received.\<close>

definition dumpAll :: "'v channel \<Rightarrow> vpp_req \<Rightarrow> (vpp_rep \<Rightarrow> 'd list option) \<Rightarrow> ('d \<Rightarrow> 'b) \<Rightarrow> ('v, 'b list) act" where
  "dumpAll ch req details each =
     andThen (exec ch req)
       (\<lambda>rep. case details rep of None \<Rightarrow> raise ErrUnexpectedReply | Some ds \<Rightarrow> ret (map each ds))"

definition NoTable :: u32 where
  "NoTable = NOT 0"

lemma NoTable_val: "NoTable = 4294967295"
  by (simp add: NoTable_def)

lemma exec_Inr_iff: "exec ch req v = (Inr rep, v') \<longleftrightarrow> ch req v = (Inr rep, v')"
  by (auto simp: exec_def split: prod.splits sum.splits)

lemma dumpAll_Inr_iff:
  "dumpAll ch req details each v = (Inr xs, v') \<longleftrightarrow>
     (\<exists>rep ds. ch req v = (Inr rep, v') \<and> details rep = Some ds \<and> xs = map each ds)"
  by (auto simp: dumpAll_def andThen_split_Inr exec_Inr_iff ret_def raise_def split: option.splits)

end
