(* ===== verification/Vpp_Policer.thy ===== *)
theory Vpp_Policer
  imports Vpp_Api
begin

text \<open>
  \<open>internal/vpp/policer.go\<close>: policer materialisation over a govpp channel. The translation of a
  \<open>PolicerSpec\<close> to VPP's \<open>policer_config\<close> (\<open>toConfig\<close>) and the six operations of \<open>Policers\<close>. Results: the
  translation is total on valid enumerations, keeps kbps bursts, and the packet burst of a pps
  policer is converted to milliseconds with rounding to the nearest (\<open>cbMsForPps\<close>).
\<close>

fun rateType :: "RateType \<Rightarrow> error + Sse2QosRateType" where
  "rateType RateKbps = Inr SSE2_QOS_RATE_API_KBPS"
| "rateType RatePps = Inr SSE2_QOS_RATE_API_PPS"
| "rateType (RateOther _) = Inl ErrUnknownRateType"

fun action :: "PolicerAction \<Rightarrow> error + Sse2QosActionType" where
  "action PolicerTransmit = Inr SSE2_QOS_ACTION_API_TRANSMIT"
| "action PolicerDrop = Inr SSE2_QOS_ACTION_API_DROP"
| "action PolicerMarkAndTransmit = Inr SSE2_QOS_ACTION_API_MARK_AND_TRANSMIT"
| "action (PolicerActionOther _) = Inl ErrUnknownAction"

definition cbMsForPps :: "u64 \<Rightarrow> u64 \<Rightarrow> u64" where
  "cbMsForPps burstPackets cirPps =
     (if cirPps = 0 then 0 else (burstPackets * 1000 + cirPps div 2) div cirPps)"

definition toConfig :: "PolicerSpec \<Rightarrow> error + PolicerConfig" where
  "toConfig s =
     (case rateType (ps_RateType s) of Inl e \<Rightarrow> Inl e | Inr rate \<Rightarrow>
      case action (ps_ConformAction s) of Inl e \<Rightarrow> Inl e | Inr conform \<Rightarrow>
      case action (ps_ExceedAction s) of Inl e \<Rightarrow> Inl e | Inr exceed \<Rightarrow>
      Inr \<lparr>pc_Cir = ucast (ps_CIR s), pc_Eir = 0,
           pc_Cb = (if ps_RateType s = RatePps then cbMsForPps (ps_CommittedBurstPackets s) (ps_CIR s)
                    else ps_CommittedBurstBytes s),
           pc_Eb = 0, pc_RateType = rate, pc_RoundType = SSE2_QOS_ROUND_API_TO_CLOSEST,
           pc_Type = SSE2_QOS_POLICER_TYPE_API_1R2C, pc_ColorAware = ps_ColorAware s,
           pc_ConformAction = conform, pc_ExceedAction = exceed, pc_ViolateAction = exceed\<rparr>)"

record PolicerInfo =
  pi_Name :: string
  pi_CIR :: u32
  pi_CB :: u64

definition Policers_bind :: "'v channel \<Rightarrow> u32 \<Rightarrow> u32 \<Rightarrow> bool \<Rightarrow> ('v, unit) act" where
  "Policers_bind ch index worker enable =
     andThen (exec ch (PolicerBindV2 index worker enable)) (\<lambda>_. ret ())"

definition Policers_Add :: "contract_fns \<Rightarrow> 'v channel \<Rightarrow> PolicerSpec \<Rightarrow> ('v, u32) act" where
  "Policers_Add c ch spec =
     (if \<not> PolicerSpec_Validate c spec then raise ErrInvalidSpec
      else case toConfig spec of Inl e \<Rightarrow> raise e | Inr cfg \<Rightarrow>
        andThen (exec ch (PolicerAdd (ps_Name spec) cfg))
          (\<lambda>rep. case rep of
             PolicerAddReply idx \<Rightarrow>
               (if ps_BindWorker spec
                then andThen (Policers_bind ch idx (ps_WorkerIndex spec) True) (\<lambda>_. ret idx)
                else ret idx)
           | _ \<Rightarrow> raise ErrUnexpectedReply))"

definition Policers_Update :: "contract_fns \<Rightarrow> 'v channel \<Rightarrow> u32 \<Rightarrow> PolicerSpec \<Rightarrow> ('v, unit) act" where
  "Policers_Update c ch index spec =
     (if \<not> PolicerSpec_Validate c spec then raise ErrInvalidSpec
      else case toConfig spec of Inl e \<Rightarrow> raise e | Inr cfg \<Rightarrow>
        andThen (exec ch (PolicerUpdate index cfg)) (\<lambda>_. ret ()))"

definition Policers_Delete :: "'v channel \<Rightarrow> u32 \<Rightarrow> ('v, unit) act" where
  "Policers_Delete ch index = andThen (exec ch (PolicerDel index)) (\<lambda>_. ret ())"

definition Policers_Bind :: "'v channel \<Rightarrow> u32 \<Rightarrow> u32 \<Rightarrow> bool \<Rightarrow> ('v, unit) act" where
  "Policers_Bind ch index worker enable = Policers_bind ch index worker enable"

definition Policers_DeleteByName :: "'v channel \<Rightarrow> string \<Rightarrow> ('v, unit) act" where
  "Policers_DeleteByName ch name = andThen (exec ch (PolicerAddDel False name)) (\<lambda>_. ret ())"

fun policer_details :: "vpp_rep \<Rightarrow> PolicerDetails list option" where
  "policer_details (PolicerDetailsList ds) = Some ds"
| "policer_details _ = None"

definition Policers_Dump :: "'v channel \<Rightarrow> ('v, PolicerInfo list) act" where
  "Policers_Dump ch =
     dumpAll ch PolicerDump policer_details
       (\<lambda>d. \<lparr>pi_Name = pdt_Name d, pi_CIR = pdt_Cir d, pi_CB = pdt_Cb d\<rparr>)"

subsection \<open>The interface the reconciler uses\<close>

text \<open>\<open>policerReconciler\<close> of \<open>reconcile.go\<close>: the four methods of \<open>Policers\<close> as a record of operations.\<close>

record 'v policerReconciler =
  pr_Dump :: "('v, PolicerInfo list) act"
  pr_Add :: "PolicerSpec \<Rightarrow> ('v, u32) act"
  pr_Update :: "u32 \<Rightarrow> PolicerSpec \<Rightarrow> ('v, unit) act"
  pr_DeleteByName :: "string \<Rightarrow> ('v, unit) act"

definition NewPolicers :: "contract_fns \<Rightarrow> 'v channel \<Rightarrow> 'v policerReconciler" where
  "NewPolicers c ch =
     \<lparr>pr_Dump = Policers_Dump ch, pr_Add = Policers_Add c ch, pr_Update = Policers_Update c ch,
      pr_DeleteByName = Policers_DeleteByName ch\<rparr>"

text \<open>The rate and burst VPP is given for a spec, on the specs \<open>toConfig\<close> accepts.\<close>

definition installed_rate :: "PolicerSpec \<Rightarrow> u32 \<times> u64" where
  "installed_rate s =
     (ucast (ps_CIR s),
      if ps_RateType s = RatePps then cbMsForPps (ps_CommittedBurstPackets s) (ps_CIR s)
      else ps_CommittedBurstBytes s)"

lemma toConfig_rate: "toConfig s = Inr cfg \<Longrightarrow> (pc_Cir cfg, pc_Cb cfg) = installed_rate s"
  by (auto simp: toConfig_def installed_rate_def split: sum.splits)

subsection \<open>Results\<close>

text \<open>The packet burst in milliseconds, over the integers: rounding to nearest, ties up, as long as
  the product does not overflow 64 bits.\<close>

lemma cbMsForPps_unat:
  assumes "unat burst * 1000 + unat cir div 2 < 2 ^ 64"
  shows "unat (cbMsForPps burst cir) =
           (if cir = 0 then 0 else (unat burst * 1000 + unat cir div 2) div unat cir)"
proof -
  have "unat (burst * 1000 + cir div 2) = unat burst * 1000 + unat cir div 2"
    using assms by (simp add: unat_word_ariths unat_div)
  then show ?thesis by (simp add: cbMsForPps_def unat_div)
qed

text \<open>The burst of a pps policer. As long as \<open>burst \<times> 1000\<close> fits in 64 bits, the milliseconds handed
  to VPP are the packet burst divided by the rate, rounded to the nearest: the burst VPP derives
  back, \<open>ms \<times> cir / 1000\<close> packets, is within half a millisecond's worth of packets of the burst asked
  for. A zero rate gives a zero burst instead of a division by zero.\<close>

lemma cbMsForPps_nearest:
  assumes "unat burst * 1000 + unat cir div 2 < 2 ^ 64" and "cir \<noteq> 0"
  shows "\<bar>2 * int (unat (cbMsForPps burst cir)) * int (unat cir) - 2 * int (unat burst) * 1000\<bar> \<le> int (unat cir)"
proof -
  let ?b = "unat burst * 1000" and ?c = "unat cir" and ?m = "(unat burst * 1000 + unat cir div 2) div unat cir"
  have c: "0 < ?c" using assms(2) by (simp add: unat_gt_0)
  have m: "unat (cbMsForPps burst cir) = ?m" using assms by (simp add: cbMsForPps_unat)
  have "?b + ?c div 2 = ?m * ?c + (?b + ?c div 2) mod ?c" by (metis div_mult_mod_eq)
  moreover have "(?b + ?c div 2) mod ?c < ?c" using c by simp
  ultimately have lo: "?m * ?c \<le> ?b + ?c div 2" and hi: "?b + ?c div 2 < ?m * ?c + ?c" by linarith+
  have half: "2 * (?c div 2) \<le> ?c" "?c \<le> 2 * (?c div 2) + 1" by simp_all
  have "2 * (?m * ?c) \<le> 2 * ?b + ?c" using lo half by linarith
  moreover have "2 * ?b \<le> 2 * (?m * ?c) + ?c" using hi half by linarith
  ultimately have "\<bar>2 * int (?m * ?c) - 2 * int ?b\<bar> \<le> int ?c" by linarith
  then show ?thesis unfolding m by (simp only: of_nat_mult of_nat_numeral mult.assoc)
qed

text \<open>\<open>toConfig\<close> on every branch. An unknown rate type or action is an error; otherwise the VPP policer
  is single-rate two-colour with no excess bucket, the violate action mirrors the exceed action,
  the rate is the low 32 bits of the CIR, and the burst is the byte burst of a kbps spec and the
  millisecond burst of a pps spec.\<close>

lemma toConfig_correct:
  "(\<exists>e. toConfig s = Inl e) = ((\<exists>n. ps_RateType s = RateOther n) \<or> (\<exists>n. ps_ConformAction s = PolicerActionOther n)
       \<or> (\<exists>n. ps_ExceedAction s = PolicerActionOther n)) \<and>
   (toConfig s = Inr cfg \<longrightarrow>
      pc_Eir cfg = 0 \<and> pc_Eb cfg = 0 \<and> pc_Type cfg = SSE2_QOS_POLICER_TYPE_API_1R2C \<and>
      pc_ViolateAction cfg = pc_ExceedAction cfg \<and>
      Inr (pc_ConformAction cfg) = action (ps_ConformAction s) \<and>
      Inr (pc_ExceedAction cfg) = action (ps_ExceedAction s) \<and>
      unat (pc_Cir cfg) = unat (ps_CIR s) mod 2 ^ 32 \<and>
      (ps_RateType s = RateKbps \<longrightarrow> pc_Cb cfg = ps_CommittedBurstBytes s \<and> pc_RateType cfg = SSE2_QOS_RATE_API_KBPS) \<and>
      (ps_RateType s = RatePps \<longrightarrow> pc_Cb cfg = cbMsForPps (ps_CommittedBurstPackets s) (ps_CIR s)
         \<and> pc_RateType cfg = SSE2_QOS_RATE_API_PPS))"
  by (cases "ps_RateType s"; cases "ps_ConformAction s"; cases "ps_ExceedAction s")
    (auto simp: toConfig_def unsigned_ucast_eq take_bit_eq_mod)

definition ex_pps :: PolicerSpec where
  "ex_pps =
     \<lparr>ps_Name = ''pool-9-in'', ps_PoolID = 9, ps_CIR = 2000, ps_CommittedBurstBytes = 0,
      ps_CommittedBurstPackets = 500, ps_RateType = RatePps, ps_ConformAction = PolicerTransmit,
      ps_ExceedAction = PolicerDrop, ps_ColorAware = False, ps_BindWorker = False, ps_WorkerIndex = 0\<rparr>"

end
