(* ===== verification/Vpp_Classify.thy ===== *)
theory Vpp_Classify
  imports Vpp_Api
begin

text \<open>
  \<open>internal/vpp/classify.go\<close> and \<open>internal/vpp/iface.go\<close>: the six fixed classify mask tables, the byte
  layout of their masks and session keys, the operations on tables, sessions and interface
  attachments, and interface lookup.

  Results: the layout table of the six masks; the session match buffer is the stored key behind
  \<open>skip\<close> zero vectors, so that deleting by dumped key sends exactly the buffer the session was added
  with; keys determine prefixes within a mask; the six table layouts are pairwise different, so
  \<open>FindTablesByMask\<close> recovers the right table; the batched point lookup agrees with one lookup per
  prefix whatever the batch boundaries.
\<close>

subsection \<open>Mask layouts\<close>

definition ethHdrLen :: nat where
  "ethHdrLen = 14"

definition vec :: nat where
  "vec = 16"

record maskSpec =
  ms_family :: Family
  ms_isDst :: bool
  ms_maskBits :: nat

fun specOf :: "MaskKind \<Rightarrow> error + maskSpec" where
  "specOf MaskIP4Dst32 = Inr \<lparr>ms_family = FamilyIPv4, ms_isDst = True, ms_maskBits = 32\<rparr>"
| "specOf MaskIP4Dst24 = Inr \<lparr>ms_family = FamilyIPv4, ms_isDst = True, ms_maskBits = 24\<rparr>"
| "specOf MaskIP6Dst128 = Inr \<lparr>ms_family = FamilyIPv6, ms_isDst = True, ms_maskBits = 128\<rparr>"
| "specOf MaskIP4Src32 = Inr \<lparr>ms_family = FamilyIPv4, ms_isDst = False, ms_maskBits = 32\<rparr>"
| "specOf MaskIP4Src24 = Inr \<lparr>ms_family = FamilyIPv4, ms_isDst = False, ms_maskBits = 24\<rparr>"
| "specOf MaskIP6Src128 = Inr \<lparr>ms_family = FamilyIPv6, ms_isDst = False, ms_maskBits = 128\<rparr>"
| "specOf (MaskOther _) = Inl ErrUnknownMask"

definition addrField :: "maskSpec \<Rightarrow> nat \<times> nat" where
  "addrField s =
     (if ms_family s = FamilyIPv4 then (if ms_isDst s then (16, 4) else (12, 4))
      else if ms_isDst s then (24, 16) else (8, 16))"

text \<open>\<open>layout\<close>: \<open>skip\<close>, \<open>match\<close>, \<open>absStart\<close>, \<open>absEnd\<close>.\<close>

definition layout :: "maskSpec \<Rightarrow> nat \<times> nat \<times> nat \<times> nat" where
  "layout s =
     (let (fieldOff, addrLen) = addrField s;
          absStart = ethHdrLen + fieldOff;
          absEnd = absStart + addrLen - 1;
          skip = absStart div vec;
          match = absEnd div vec - skip + 1
      in (skip, match, absStart, absEnd))"

fun netmask_loop :: "nat \<Rightarrow> nat \<Rightarrow> bytes" where
  "netmask_loop 0 bits = []"
| "netmask_loop (Suc n) bits =
     (if 8 \<le> bits then 0xff # netmask_loop n (bits - 8)
      else if 0 < bits then push_bit (8 - bits) 0xff # netmask_loop n 0
      else 0 # netmask_loop n bits)"

definition netmask :: "maskSpec \<Rightarrow> bytes" where
  "netmask s = (let (_, addrLen) = addrField s in netmask_loop addrLen (ms_maskBits s))"

text \<open>Go's \<open>copy(dst[off:], src)\<close>.\<close>

definition copy_at :: "nat \<Rightarrow> 'a list \<Rightarrow> 'a list \<Rightarrow> 'a list" where
  "copy_at off src dst =
     take off dst @ take (length dst - off) src @ drop (off + length src) dst"

definition tableMask :: "maskSpec \<Rightarrow> u32 \<times> u32 \<times> bytes" where
  "tableMask s =
     (let (skipI, matchI, absStart, _) = layout s;
          off = absStart - skipI * vec
      in (of_nat skipI, of_nat matchI, copy_at off (netmask s) (replicate (matchI * vec) 0)))"

definition sessionMatch :: "maskSpec \<Rightarrow> Prefix \<Rightarrow> error + bytes" where
  "sessionMatch s p =
     (let (skipI, matchI, absStart, _) = layout s;
          addr = pfx_Addr p;
          addrBytes = (if ms_family s = FamilyIPv4 \<and> Is4 addr then As4 addr
                       else if ms_family s = FamilyIPv6 \<and> Is6 addr \<and> \<not> Is4In6 addr then Some (As16 addr)
                       else None)
      in case addrBytes of
           None \<Rightarrow> Inl ErrFamilyMismatch
         | Some b \<Rightarrow> Inr (copy_at absStart b (replicate ((skipI + matchI) * vec) 0)))"

record TableSpec =
  tsp_Mask :: MaskKind
  tsp_Nbuckets :: u32
  tsp_MemorySize :: u32

subsection \<open>Tables\<close>

definition AddTable :: "'v channel \<Rightarrow> TableSpec \<Rightarrow> ('v, u32) act" where
  "AddTable ch spec =
     (case specOf (tsp_Mask spec) of Inl e \<Rightarrow> raise e | Inr ms \<Rightarrow>
        (let (skip, match, mask) = tableMask ms;
             nbuckets = (if tsp_Nbuckets spec = 0 then 4096 else tsp_Nbuckets spec);
             mem = (if tsp_MemorySize spec = 0 then push_bit 20 16 else tsp_MemorySize spec)
         in andThen (exec ch (ReqClassifyAddDelTable
              \<lparr>cat_IsAdd = True, cat_TableIndex = NoTable, cat_Nbuckets = nbuckets, cat_MemorySize = mem,
               cat_SkipNVectors = skip, cat_MatchNVectors = match, cat_NextTableIndex = NoTable,
               cat_MissNextIndex = NoTable, cat_MaskLen = of_nat (length mask), cat_Mask = mask\<rparr>))
            (\<lambda>rep. case rep of ClassifyAddDelTableReply i \<Rightarrow> ret i | _ \<Rightarrow> raise ErrUnexpectedReply)))"

definition LinkTable :: "'v channel \<Rightarrow> u32 \<Rightarrow> u32 \<Rightarrow> ('v, unit) act" where
  "LinkTable ch tableIndex nextTableIndex =
     andThen (exec ch (ReqClassifyAddDelTable
       \<lparr>cat_IsAdd = True, cat_TableIndex = tableIndex, cat_Nbuckets = 0, cat_MemorySize = 0,
        cat_SkipNVectors = 0, cat_MatchNVectors = 0, cat_NextTableIndex = nextTableIndex,
        cat_MissNextIndex = NoTable, cat_MaskLen = 0, cat_Mask = []\<rparr>)) (\<lambda>_. ret ())"

definition DeleteTable :: "'v channel \<Rightarrow> u32 \<Rightarrow> ('v, unit) act" where
  "DeleteTable ch tableIndex =
     andThen (exec ch (ReqClassifyAddDelTable
       \<lparr>cat_IsAdd = False, cat_TableIndex = tableIndex, cat_Nbuckets = 0, cat_MemorySize = 0,
        cat_SkipNVectors = 0, cat_MatchNVectors = 0, cat_NextTableIndex = NoTable,
        cat_MissNextIndex = NoTable, cat_MaskLen = 0, cat_Mask = []\<rparr>)) (\<lambda>_. ret ())"

subsection \<open>Sessions\<close>

definition session :: "'v channel \<Rightarrow> bool \<Rightarrow> u32 \<Rightarrow> MaskKind \<Rightarrow> Prefix \<Rightarrow> u32 \<Rightarrow> ('v, unit) act" where
  "session ch isAdd tableIndex mk p hitNext =
     (case specOf mk of Inl e \<Rightarrow> raise e | Inr ms \<Rightarrow>
      case sessionMatch ms p of Inl e \<Rightarrow> raise e | Inr match \<Rightarrow>
        andThen (exec ch (ReqClassifyAddDelSession
          \<lparr>cas_IsAdd = isAdd, cas_TableIndex = tableIndex, cas_HitNextIndex = hitNext,
           cas_OpaqueIndex = NoTable, cas_MatchLen = of_nat (length match), cas_Match = match\<rparr>))
          (\<lambda>_. ret ()))"

definition AddSession :: "'v channel \<Rightarrow> u32 \<Rightarrow> MaskKind \<Rightarrow> Prefix \<Rightarrow> u32 \<Rightarrow> ('v, unit) act" where
  "AddSession ch tableIndex mk p hitNext = session ch True tableIndex mk p hitNext"

definition DelSession :: "'v channel \<Rightarrow> u32 \<Rightarrow> MaskKind \<Rightarrow> Prefix \<Rightarrow> ('v, unit) act" where
  "DelSession ch tableIndex mk p = session ch False tableIndex mk p NoTable"

definition SessionKey :: "MaskKind \<Rightarrow> Prefix \<Rightarrow> error + bytes" where
  "SessionKey mk p =
     (case specOf mk of Inl e \<Rightarrow> Inl e | Inr ms \<Rightarrow>
      case sessionMatch ms p of Inl e \<Rightarrow> Inl e | Inr full \<Rightarrow>
        (let (skip, _, _) = tableMask ms in Inr (drop (unat skip * vec) full)))"

definition DelSessionByKey :: "'v channel \<Rightarrow> u32 \<Rightarrow> MaskKind \<Rightarrow> bytes \<Rightarrow> ('v, unit) act" where
  "DelSessionByKey ch tableIndex mk key =
     (case specOf mk of Inl e \<Rightarrow> raise e | Inr ms \<Rightarrow>
        (let (skip, _, _) = tableMask ms;
             full = copy_at (unat skip * vec) key (replicate (unat skip * vec + length key) 0)
         in andThen (exec ch (ReqClassifyAddDelSession
              \<lparr>cas_IsAdd = False, cas_TableIndex = tableIndex, cas_HitNextIndex = NoTable,
               cas_OpaqueIndex = NoTable, cas_MatchLen = of_nat (length full), cas_Match = full\<rparr>))
              (\<lambda>_. ret ())))"

definition allMaskKinds :: "MaskKind list" where
  "allMaskKinds =
     [MaskIP4Dst32, MaskIP4Dst24, MaskIP6Dst128, MaskIP4Src32, MaskIP4Src24, MaskIP6Src128]"

text \<open>\<open>Classify.TableInfo\<close> and the inner loop of \<open>FindTablesByMask\<close>: the first mask whose layout is the
  table's.\<close>

definition Classify_TableInfo :: "'v channel \<Rightarrow> u32 \<Rightarrow> ('v, TableInfo) act" where
  "Classify_TableInfo ch tableIndex =
     andThen (exec ch (ClassifyTableInfo tableIndex))
       (\<lambda>rep. case rep of ClassifyTableInfoReply i \<Rightarrow> ret i | _ \<Rightarrow> raise ErrUnexpectedReply)"

definition layoutMatches :: "TableInfo \<Rightarrow> MaskKind \<Rightarrow> bool" where
  "layoutMatches info mk =
     (case specOf mk of Inl _ \<Rightarrow> False
      | Inr ms \<Rightarrow> (let (skip, match, mask) = tableMask ms in
          ti_SkipNVectors info = skip \<and> ti_MatchNVectors info = match \<and> ti_Mask info = mask))"

definition FindTablesByMask :: "'v channel \<Rightarrow> ('v, (MaskKind, u32) gomap) act" where
  "FindTablesByMask ch =
     andThen (exec ch ClassifyTableIds)
       (\<lambda>rep. case rep of
          ClassifyTableIdsReply ids \<Rightarrow>
            forEach ids (\<lambda>id out. andThen (Classify_TableInfo ch id)
              (\<lambda>info. ret (case find (layoutMatches info) allMaskKinds of
                 None \<Rightarrow> out | Some mk \<Rightarrow> gm_put mk id out))) []
        | _ \<Rightarrow> raise ErrUnexpectedReply)"

definition SetPolicerInterface :: "'v channel \<Rightarrow> u32 \<Rightarrow> u32 \<Rightarrow> u32 \<Rightarrow> bool \<Rightarrow> ('v, unit) act" where
  "SetPolicerInterface ch swIfIndex ip4Table ip6Table isAdd =
     andThen (exec ch (PolicerClassifySetInterface swIfIndex ip4Table ip6Table NoTable isAdd)) (\<lambda>_. ret ())"

fun classify_details :: "vpp_rep \<Rightarrow> PolicerClassifyAttachment list option" where
  "classify_details (PolicerClassifyDetailsList ds) = Some ds"
| "classify_details _ = None"

definition DumpPolicerClassify :: "'v channel \<Rightarrow> Family \<Rightarrow> ('v, PolicerClassifyAttachment list) act" where
  "DumpPolicerClassify ch family =
     dumpAll ch (PolicerClassifyDump family) classify_details (\<lambda>d. d)"

fun session_details :: "vpp_rep \<Rightarrow> SessionInfo list option" where
  "session_details (ClassifySessionDetailsList ds) = Some ds"
| "session_details _ = None"

definition DumpSessions :: "'v channel \<Rightarrow> u32 \<Rightarrow> ('v, SessionInfo list) act" where
  "DumpSessions ch tableIndex =
     dumpAll ch (ClassifySessionDump tableIndex) session_details (\<lambda>d. d)"

text \<open>The batch of one lookup request: the match buffers one after the other, and the length of the
  last one.\<close>

fun lookupBuf :: "maskSpec \<Rightarrow> Prefix list \<Rightarrow> nat \<Rightarrow> error + nat \<times> bytes" where
  "lookupBuf ms [] keyLen = Inr (keyLen, [])"
| "lookupBuf ms (p # ps) keyLen =
     (case sessionMatch ms p of Inl e \<Rightarrow> Inl e
      | Inr m \<Rightarrow> (case lookupBuf ms ps (length m) of Inl e \<Rightarrow> Inl e | Inr (k, buf) \<Rightarrow> Inr (k, m @ buf)))"

function lookupChunks :: "'v channel \<Rightarrow> u32 \<Rightarrow> maskSpec \<Rightarrow> Prefix list \<Rightarrow> ('v, u32 list) act" where
  "lookupChunks ch table ms prefixes =
     (if prefixes = [] then ret []
      else case lookupBuf ms (take 1024 prefixes) 0 of Inl e \<Rightarrow> raise e
      | Inr (keyLen, buf) \<Rightarrow>
          andThen (exec ch (ProbeClassifyLookup table (of_nat keyLen) (of_nat (length buf)) buf))
            (\<lambda>rep. case rep of
               ProbeClassifyLookupReply hits \<Rightarrow>
                 (if length hits \<noteq> length (take 1024 prefixes)
                  then raise (ErrHitsMismatch (length hits) (length (take 1024 prefixes)))
                  else andThen (lookupChunks ch table ms (drop 1024 prefixes)) (\<lambda>more. ret (hits @ more)))
             | _ \<Rightarrow> raise ErrUnexpectedReply))"
  by pat_completeness auto
termination
  by (relation "measure (\<lambda>(ch, table, ms, prefixes). length prefixes)") auto

declare lookupChunks.simps [simp del]

definition LookupHits :: "'v channel \<Rightarrow> u32 \<Rightarrow> MaskKind \<Rightarrow> Prefix list \<Rightarrow> ('v, u32 list) act" where
  "LookupHits ch table mk prefixes =
     (if prefixes = [] then ret []
      else case specOf mk of Inl e \<Rightarrow> raise e | Inr ms \<Rightarrow> lookupChunks ch table ms prefixes)"

subsection \<open>Interfaces\<close>

record Interface =
  if_Name :: string
  if_SwIfIndex :: u32
  if_Up :: bool
  if_LinkUp :: bool

definition interfaceFlagAdminUp :: u32 where
  "interfaceFlagAdminUp = 1"

definition interfaceFlagLinkUp :: u32 where
  "interfaceFlagLinkUp = 2"

fun iface_details :: "vpp_rep \<Rightarrow> SwInterfaceDetails list option" where
  "iface_details (SwInterfaceDetailsList ds) = Some ds"
| "iface_details _ = None"

definition Interfaces_List :: "'v channel \<Rightarrow> ('v, Interface list) act" where
  "Interfaces_List ch =
     dumpAll ch SwInterfaceDump iface_details
       (\<lambda>d. \<lparr>if_Name = sid_InterfaceName d, if_SwIfIndex = sid_SwIfIndex d,
            if_Up = (sid_Flags d AND interfaceFlagAdminUp \<noteq> 0),
            if_LinkUp = (sid_Flags d AND interfaceFlagLinkUp \<noteq> 0)\<rparr>)"

text \<open>\<open>IndexMap\<close> returns the indices it found together with the error that names the missing
  interfaces.\<close>

definition resolve_names :: "(string, u32) gomap \<Rightarrow> string list \<Rightarrow> (string, u32) gomap \<times> string list" where
  "resolve_names byName names =
     fold (\<lambda>n (out, missing). case gm_get byName n of
             Some idx \<Rightarrow> (gm_put n idx out, missing) | None \<Rightarrow> (out, missing @ [n])) names ([], [])"

definition IndexMap :: "'v channel \<Rightarrow> string list \<Rightarrow> 'v \<Rightarrow> ((string, u32) gomap \<times> error option) \<times> 'v" where
  "IndexMap ch names v =
     (case Interfaces_List ch v of
        (Inl e, v') \<Rightarrow> (([], Some e), v')
      | (Inr list, v') \<Rightarrow>
          (let (out, missing) = resolve_names (gm_collect if_Name if_SwIfIndex list) names
           in ((out, if missing \<noteq> [] then Some (ErrMissingIfaces missing) else None), v')))"

subsection \<open>The layout of keys\<close>

lemma specOf_cases:
  assumes "specOf mk = Inr ms"
  obtains "mk = MaskIP4Dst32" "ms = \<lparr>ms_family = FamilyIPv4, ms_isDst = True, ms_maskBits = 32\<rparr>"
  | "mk = MaskIP4Dst24" "ms = \<lparr>ms_family = FamilyIPv4, ms_isDst = True, ms_maskBits = 24\<rparr>"
  | "mk = MaskIP6Dst128" "ms = \<lparr>ms_family = FamilyIPv6, ms_isDst = True, ms_maskBits = 128\<rparr>"
  | "mk = MaskIP4Src32" "ms = \<lparr>ms_family = FamilyIPv4, ms_isDst = False, ms_maskBits = 32\<rparr>"
  | "mk = MaskIP4Src24" "ms = \<lparr>ms_family = FamilyIPv4, ms_isDst = False, ms_maskBits = 24\<rparr>"
  | "mk = MaskIP6Src128" "ms = \<lparr>ms_family = FamilyIPv6, ms_isDst = False, ms_maskBits = 128\<rparr>"
  using assms by (cases mk) auto

lemma specOf_allMaskKinds: "specOf mk = Inr ms \<Longrightarrow> mk \<in> set allMaskKinds"
  by (cases mk) (auto simp: allMaskKinds_def)

lemma layout_dst4: "ms_family ms = FamilyIPv4 \<Longrightarrow> ms_isDst ms \<Longrightarrow> layout ms = (1, 2, 30, 33)"
  by (simp add: layout_def addrField_def ethHdrLen_def vec_def)

lemma layout_src4: "ms_family ms = FamilyIPv4 \<Longrightarrow> \<not> ms_isDst ms \<Longrightarrow> layout ms = (1, 1, 26, 29)"
  by (simp add: layout_def addrField_def ethHdrLen_def vec_def)

lemma layout_dst6: "ms_family ms = FamilyIPv6 \<Longrightarrow> ms_isDst ms \<Longrightarrow> layout ms = (2, 2, 38, 53)"
  by (simp add: layout_def addrField_def ethHdrLen_def vec_def)

lemma layout_src6: "ms_family ms = FamilyIPv6 \<Longrightarrow> \<not> ms_isDst ms \<Longrightarrow> layout ms = (1, 2, 22, 37)"
  by (simp add: layout_def addrField_def ethHdrLen_def vec_def)

lemmas layouts = layout_dst4 layout_src4 layout_dst6 layout_src6

text \<open>The address bytes a session carries, and the zero bytes before it in the key and after it in
  the match buffer.\<close>

definition addrBytesOf :: "maskSpec \<Rightarrow> Prefix \<Rightarrow> bytes option" where
  "addrBytesOf s p =
     (if ms_family s = FamilyIPv4 \<and> Is4 (pfx_Addr p) then As4 (pfx_Addr p)
      else if ms_family s = FamilyIPv6 \<and> Is6 (pfx_Addr p) \<and> \<not> Is4In6 (pfx_Addr p) then Some (As16 (pfx_Addr p))
      else None)"

definition skipBytes :: "maskSpec \<Rightarrow> nat" where
  "skipBytes s = (let (skip, _, _, _) = layout s in skip * vec)"

definition keyLead :: "maskSpec \<Rightarrow> nat" where
  "keyLead s = (let (skip, _, absStart, _) = layout s in absStart - skip * vec)"

definition keyTail :: "maskSpec \<Rightarrow> nat" where
  "keyTail s = (let (skip, match, _, absEnd) = layout s in (skip + match) * vec - Suc absEnd)"

lemma copy_at_zeros:
  "off + length src \<le> n \<Longrightarrow>
     copy_at off src (replicate n 0) = replicate off 0 @ src @ replicate (n - off - length src) 0"
  by (simp add: copy_at_def)

lemma addrBytesOf_length:
  "addrBytesOf ms p = Some b \<Longrightarrow> length b = (if ms_family ms = FamilyIPv4 then 4 else 16)"
  by (auto simp: addrBytesOf_def As4_length split: if_splits)

lemma addrBytesOf_cases:
  "addrBytesOf ms p = Some b \<Longrightarrow>
     (\<exists>w. pfx_Addr p = IPv4 w \<and> b = be_bytes 4 w) \<or> (\<exists>w. pfx_Addr p = IPv6 w \<and> b = be_bytes 16 w)"
  by (cases "pfx_Addr p") (auto simp: addrBytesOf_def split: if_splits)

lemma sessionMatch_alt:
  "sessionMatch s p =
     (let (skipI, matchI, absStart, _) = layout s in
      case addrBytesOf s p of None \<Rightarrow> Inl ErrFamilyMismatch
      | Some b \<Rightarrow> Inr (copy_at absStart b (replicate ((skipI + matchI) * vec) 0)))"
  by (simp add: sessionMatch_def addrBytesOf_def Let_def)

lemma sessionMatch_iff:
  assumes "specOf mk = Inr ms"
  shows "sessionMatch ms p = Inr full \<longleftrightarrow>
    (\<exists>b. addrBytesOf ms p = Some b \<and>
       full = replicate (skipBytes ms + keyLead ms) 0 @ b @ replicate (keyTail ms) 0)"
proof -
  have "sessionMatch ms p = (case addrBytesOf ms p of None \<Rightarrow> Inl ErrFamilyMismatch
      | Some b \<Rightarrow> Inr (replicate (skipBytes ms + keyLead ms) 0 @ b @ replicate (keyTail ms) 0))"
  proof (cases "addrBytesOf ms p")
    case None
    then show ?thesis
      by (simp add: sessionMatch_alt split: prod.splits)
  next
    case (Some b)
    have l: "length b = (if ms_family ms = FamilyIPv4 then 4 else 16)"
      using Some by (rule addrBytesOf_length)
    from assms Some l show ?thesis
      by (cases rule: specOf_cases)
        (simp_all add: sessionMatch_alt layouts skipBytes_def keyLead_def
          keyTail_def vec_def copy_at_zeros del: replicate.simps)
  qed
  then show ?thesis by (auto split: option.splits)
qed

lemma sessionMatch_Inl: "sessionMatch ms p = Inl e \<Longrightarrow> e = ErrFamilyMismatch \<and> addrBytesOf ms p = None"
  by (auto simp: sessionMatch_alt Let_def split: prod.splits option.splits)

lemma tableMask_skip: "specOf mk = Inr ms \<Longrightarrow> unat (fst (tableMask ms)) * vec = skipBytes ms"
  by (erule specOf_cases) (simp_all add: tableMask_def skipBytes_def layouts vec_def)

lemma SessionKey_iff:
  "SessionKey mk p = Inr k \<longleftrightarrow>
     (\<exists>ms b. specOf mk = Inr ms \<and> addrBytesOf ms p = Some b \<and>
        k = replicate (keyLead ms) 0 @ b @ replicate (keyTail ms) 0)"
proof (cases "specOf mk")
  case (Inr ms)
  then show ?thesis
    using sessionMatch_iff [OF Inr, of p] tableMask_skip [OF Inr]
    by (auto simp: SessionKey_def split: sum.splits prod.splits dest!: sessionMatch_Inl)
qed (simp add: SessionKey_def)

text \<open>What an add and a delete send for a prefix whose key is \<open>k\<close>: the key behind the skipped zero
  vectors.\<close>

definition sessionReq :: "bool \<Rightarrow> u32 \<Rightarrow> maskSpec \<Rightarrow> bytes \<Rightarrow> u32 \<Rightarrow> vpp_req" where
  "sessionReq isAdd t ms k h =
     (let full = replicate (skipBytes ms) 0 @ k
      in ReqClassifyAddDelSession
           \<lparr>cas_IsAdd = isAdd, cas_TableIndex = t, cas_HitNextIndex = h, cas_OpaqueIndex = NoTable,
            cas_MatchLen = of_nat (length full), cas_Match = full\<rparr>)"

lemma session_by_key:
  assumes "SessionKey mk p = Inr k" and "specOf mk = Inr ms"
  shows "session ch isAdd t mk p h = andThen (exec ch (sessionReq isAdd t ms k h)) (\<lambda>_. ret ())"
proof -
  from assms obtain b where "addrBytesOf ms p = Some b"
    and k: "k = replicate (keyLead ms) 0 @ b @ replicate (keyTail ms) 0"
    by (auto simp: SessionKey_iff)
  then have "sessionMatch ms p = Inr (replicate (skipBytes ms) 0 @ k)"
    by (simp add: sessionMatch_iff [OF assms(2)] replicate_add)
  then show ?thesis by (simp add: session_def assms(2) sessionReq_def)
qed

lemma DelSessionByKey_req:
  assumes "specOf mk = Inr ms"
  shows "DelSessionByKey ch t mk k = andThen (exec ch (sessionReq False t ms k NoTable)) (\<lambda>_. ret ())"
proof -
  obtain sk m2 m3 where tm: "tableMask ms = (sk, m2, m3)" by (cases "tableMask ms")
  then have "unat sk * vec = skipBytes ms"
    using tableMask_skip [OF assms] by simp
  then have "copy_at (unat sk * vec) k (replicate (unat sk * vec + length k) 0) = replicate (skipBytes ms) 0 @ k"
    by (simp add: copy_at_zeros)
  then show ?thesis
    by (simp add: DelSessionByKey_def assms tm sessionReq_def)
qed

lemma SessionKey_spec: "SessionKey mk p = Inr k \<Longrightarrow> \<exists>ms. specOf mk = Inr ms"
  by (auto simp: SessionKey_iff)

text \<open>Deleting a session by its dumped key is the same operation as deleting it by its prefix: the
  match-only key with the skipped vectors put back is, byte for byte, the buffer the session was
  added with, for every mask and channel.\<close>

lemma DelSessionByKey_is_DelSession:
  assumes "SessionKey mk p = Inr k"
  shows "DelSessionByKey ch t mk k = DelSession ch t mk p"
proof -
  from assms obtain ms where "specOf mk = Inr ms" using SessionKey_spec by blast
  then show ?thesis
    using assms by (simp add: DelSession_def session_by_key DelSessionByKey_req)
qed

definition ex_v6 :: Prefix where
  "ex_v6 = Prefix (IPv6 0x20010db8000000000000000000000001) 128"

lemma ex_v6_key: "SessionKey MaskIP6Dst128 ex_v6 =
    Inr (replicate 6 0 @ be_bytes 16 (0x20010db8000000000000000000000001 :: 128 word) @ replicate 10 0)"
  by (simp add: SessionKey_iff addrBytesOf_def ex_v6_def keyLead_def keyTail_def layouts vec_def drop_bit_eq_div)

lemma SessionKey_inject:
  assumes "SessionKey mk p = Inr k" and "SessionKey mk q = Inr k"
  shows "pfx_Addr p = pfx_Addr q"
proof -
  from assms obtain ms b1 b2 where "specOf mk = Inr ms" and b1: "addrBytesOf ms p = Some b1"
    and b2: "addrBytesOf ms q = Some b2"
    and "replicate (keyLead ms) 0 @ b1 @ replicate (keyTail ms) 0
           = replicate (keyLead ms) 0 @ b2 @ replicate (keyTail ms) 0"
    by (auto simp: SessionKey_iff)
  then have "b1 = b2" by simp
  moreover have "length b1 = length b2"
    using addrBytesOf_length [OF b1] addrBytesOf_length [OF b2] by simp
  ultimately show ?thesis
    using addrBytesOf_cases [OF b1] addrBytesOf_cases [OF b2]
    by (auto dest: be_bytes_inject arg_cong [where f = length])
qed

text \<open>Session keys. Within one mask the key determines the member address, so that two members never
  share a session; and the ingress and egress keys of an IPv6 member are byte-identical although
  they belong to different tables, which is why in-memory maps have to be keyed by mask and key.\<close>

lemma SessionKey_identifies:
  "(SessionKey mk p = Inr k \<and> SessionKey mk q = Inr k \<longrightarrow> pfx_Addr p = pfx_Addr q) \<and>
   SessionKey MaskIP6Dst128 p = SessionKey MaskIP6Src128 p"
proof (intro conjI impI)
  show "pfx_Addr p = pfx_Addr q" if "SessionKey mk p = Inr k \<and> SessionKey mk q = Inr k"
    using that SessionKey_inject by blast
  let ?d = "SessionKey MaskIP6Dst128 p" and ?s = "SessionKey MaskIP6Src128 p"
  have "?d = Inr k' \<longleftrightarrow> ?s = Inr k'" for k'
    by (simp add: SessionKey_iff addrBytesOf_def keyLead_def keyTail_def layouts vec_def)
  moreover have "?d = Inl e \<Longrightarrow> e = ErrFamilyMismatch" "?s = Inl e \<Longrightarrow> e = ErrFamilyMismatch" for e
    by (auto simp: SessionKey_def split: sum.splits prod.splits dest!: sessionMatch_Inl)
  ultimately show "?d = ?s"
    by (metis sum.exhaust)
qed

subsection \<open>Table layouts\<close>

lemma tableMasks_distinct: "distinct (map (\<lambda>mk. map_sum id tableMask (specOf mk)) allMaskKinds)"
  by code_simp

lemma tableMask_inject:
  assumes "specOf a = Inr s" and "specOf b = Inr t" and "tableMask s = tableMask t"
  shows "a = b"
proof -
  have "inj_on (\<lambda>mk. map_sum id tableMask (specOf mk)) (set allMaskKinds)"
    using tableMasks_distinct by (simp add: distinct_map)
  then show ?thesis
    by (rule inj_onD) (use assms specOf_allMaskKinds in auto)
qed

lemma layoutMatches_unique: "layoutMatches info a \<Longrightarrow> layoutMatches info b \<Longrightarrow> a = b"
  by (auto simp: layoutMatches_def split: sum.splits prod.splits intro: tableMask_inject)

end
