(* ===== verification/Vpp_Spec.thy ===== *)
theory Vpp_Spec
  imports Vpp_Policer Vpp_Classify
begin

text \<open>
  The interfaces of \<open>reconcile.go\<close> to VPP and what the code relies on.

  \<^item> \<open>vpp_view\<close> is the part of VPP's state the agent manages: policers by name, classify tables with
    their layouts and sessions, next-table links, interface attachments, interfaces by name.
  \<^item> \<open>vpp_ok\<close> is VPP's documented effect of one successful request on the view; of a request that fails
    only that a read changes nothing. The locale \<open>vpp_channel\<close> is the hypothesis that a channel behaves so.
  \<^item> \<open>policer_api\<close> and \<open>classify_api\<close> are the contracts of the Go interfaces \<open>policerReconciler\<close> and
    \<open>classifyReconciler\<close>; the sublocales prove that \<open>vpp.Policers\<close> and \<open>vpp.Classify\<close> over a
    \<open>vpp_channel\<close> implement them.
  \<^item> \<open>ref_channel\<close> is an executable VPP that satisfies \<open>vpp_channel\<close>; the witnesses run on it.
\<close>

type_synonym tab_layout = "u32 \<times> u32 \<times> bytes"

record vpp_view =
  vv_pol :: "string \<Rightarrow> (u32 \<times> u32 \<times> u64) option"
  vv_tab :: "u32 \<Rightarrow> tab_layout option"
  vv_ses :: "u32 \<Rightarrow> bytes \<Rightarrow> u32 option"
  vv_next :: "u32 \<Rightarrow> u32"
  vv_bnd :: "Family \<Rightarrow> u32 \<Rightarrow> u32 option"
  vv_ifs :: "string \<Rightarrow> u32 option"

text \<open>VPP applies the table's mask to a key on insert, delete and lookup, after the skipped vectors.\<close>

definition maskKey :: "bytes \<Rightarrow> bytes \<Rightarrow> bytes" where
  "maskKey m k = map2 (AND) m k"

fun stored_key :: "tab_layout \<Rightarrow> bytes \<Rightarrow> bytes" where
  "stored_key (skip, _, m) full = maskKey m (drop (unat skip * vec) full)"

function chunksOf :: "nat \<Rightarrow> 'a list \<Rightarrow> 'a list list" where
  "chunksOf n xs = (if xs = [] \<or> n = 0 then [] else take n xs # chunksOf n (drop n xs))"
  by pat_completeness auto
termination
  by (relation "measure (\<lambda>(n, xs). length xs)") auto

declare chunksOf.simps [simp del]

definition polUpdate :: "u32 \<Rightarrow> u32 \<Rightarrow> u64 \<Rightarrow> (string \<Rightarrow> (u32 \<times> u32 \<times> u64) option) \<Rightarrow> string \<Rightarrow> (u32 \<times> u32 \<times> u64) option" where
  "polUpdate i cir cb m = (\<lambda>n. map_option (\<lambda>(j, r). if j = i then (j, cir, cb) else (j, r)) (m n))"

definition hitOf :: "u32 option \<Rightarrow> u32" where
  "hitOf h = (case h of Some x \<Rightarrow> x | None \<Rightarrow> NoTable)"

fun vpp_ok :: "vpp_req \<Rightarrow> vpp_view \<Rightarrow> vpp_rep \<Rightarrow> vpp_view \<Rightarrow> bool" where
  "vpp_ok (PolicerAdd n cfg) V rep V' =
     (\<exists>i. rep = PolicerAddReply i \<and> i \<notin> fst ` ran (vv_pol V) \<and>
        V' = V\<lparr>vv_pol := (vv_pol V)(n \<mapsto> (i, pc_Cir cfg, pc_Cb cfg))\<rparr>)"
| "vpp_ok (PolicerUpdate i cfg) V rep V' =
     (V' = V\<lparr>vv_pol := polUpdate i (pc_Cir cfg) (pc_Cb cfg) (vv_pol V)\<rparr>)"
| "vpp_ok (PolicerDel i) V rep V' =
     (V' = V\<lparr>vv_pol := (\<lambda>n. case vv_pol V n of Some (j, r) \<Rightarrow> if j = i then None else Some (j, r) | None \<Rightarrow> None)\<rparr>)"
| "vpp_ok (PolicerBindV2 i w en) V rep V' = (V' = V)"
| "vpp_ok (PolicerAddDel isAdd n) V rep V' =
     (isAdd \<or> V' = V\<lparr>vv_pol := (vv_pol V)(n := None)\<rparr>)"
| "vpp_ok PolicerDump V rep V' =
     (\<exists>ds. rep = PolicerDetailsList ds \<and> V' = V \<and> distinct (map pdt_Name ds) \<and>
        (\<forall>n cir cb. \<lparr>pdt_Name = n, pdt_Cir = cir, pdt_Cb = cb\<rparr> \<in> set ds \<longleftrightarrow> (\<exists>i. vv_pol V n = Some (i, cir, cb))))"
| "vpp_ok (ReqClassifyAddDelTable r) V rep V' =
     (if cat_IsAdd r \<and> cat_TableIndex r = NoTable
      then \<exists>i. rep = ClassifyAddDelTableReply i \<and> vv_tab V i = None \<and> i \<noteq> NoTable \<and>
             V' = V\<lparr>vv_tab := (vv_tab V)(i \<mapsto> (cat_SkipNVectors r, cat_MatchNVectors r, cat_Mask r)),
                    vv_ses := (vv_ses V)(i := Map.empty), vv_next := (vv_next V)(i := cat_NextTableIndex r)\<rparr>
      else if cat_IsAdd r then V' = V\<lparr>vv_next := (vv_next V)(cat_TableIndex r := cat_NextTableIndex r)\<rparr>
      else V' = V\<lparr>vv_tab := (vv_tab V)(cat_TableIndex r := None)\<rparr>)"
| "vpp_ok (ReqClassifyAddDelSession r) V rep V' =
     (\<exists>lay. vv_tab V (cas_TableIndex r) = Some lay \<and>
        V' = V\<lparr>vv_ses := (vv_ses V)(cas_TableIndex r :=
                 (vv_ses V (cas_TableIndex r))(stored_key lay (cas_Match r) :=
                    if cas_IsAdd r then Some (cas_HitNextIndex r) else None))\<rparr>)"
| "vpp_ok ClassifyTableIds V rep V' =
     (\<exists>ids. rep = ClassifyTableIdsReply ids \<and> V' = V \<and> distinct ids \<and> set ids = dom (vv_tab V))"
| "vpp_ok (ClassifyTableInfo t) V rep V' =
     (\<exists>i. rep = ClassifyTableInfoReply i \<and> V' = V \<and>
        vv_tab V t = Some (ti_SkipNVectors i, ti_MatchNVectors i, ti_Mask i))"
| "vpp_ok (ClassifySessionDump t) V rep V' =
     (\<exists>ds. rep = ClassifySessionDetailsList ds \<and> V' = V \<and> distinct (map si_Match ds) \<and>
        (\<forall>k h. \<lparr>si_HitNextIndex = h, si_Match = k\<rparr> \<in> set ds \<longleftrightarrow> vv_ses V t k = Some h))"
| "vpp_ok (ProbeClassifyLookup t keyLen matchLen buf) V rep V' =
     (\<exists>lay. vv_tab V t = Some lay \<and> V' = V \<and>
        rep = ProbeClassifyLookupReply (map (\<lambda>k. hitOf (vv_ses V t (stored_key lay k))) (chunksOf (unat keyLen) buf)))"
| "vpp_ok (PolicerClassifySetInterface sw t4 t6 l2 isAdd) V rep V' =
     (V' = V\<lparr>vv_bnd :=
        (if t4 \<noteq> NoTable then (vv_bnd V)(FamilyIPv4 := (vv_bnd V FamilyIPv4)(sw := if isAdd then Some t4 else None))
         else if t6 \<noteq> NoTable then (vv_bnd V)(FamilyIPv6 := (vv_bnd V FamilyIPv6)(sw := if isAdd then Some t6 else None))
         else vv_bnd V)\<rparr>)"
| "vpp_ok (PolicerClassifyDump fam) V rep V' =
     (\<exists>ds. rep = PolicerClassifyDetailsList ds \<and> V' = V \<and> distinct (map pca_SwIfIndex ds) \<and>
        (\<forall>sw t. \<lparr>pca_SwIfIndex = sw, pca_TableIndex = t\<rparr> \<in> set ds \<longleftrightarrow> vv_bnd V fam sw = Some t))"
| "vpp_ok SwInterfaceDump V rep V' =
     (\<exists>ds. rep = SwInterfaceDetailsList ds \<and> V' = V \<and>
        (\<forall>n i. (\<exists>d \<in> set ds. sid_InterfaceName d = n \<and> sid_SwIfIndex d = i) \<longleftrightarrow> vv_ifs V n = Some i))"

text \<open>The requests that only read.\<close>

fun vpp_read :: "vpp_req \<Rightarrow> bool" where
  "vpp_read PolicerDump = True"
| "vpp_read ClassifyTableIds = True"
| "vpp_read (ClassifyTableInfo _) = True"
| "vpp_read (ClassifySessionDump _) = True"
| "vpp_read (ProbeClassifyLookup _ _ _ _) = True"
| "vpp_read (PolicerClassifyDump _) = True"
| "vpp_read SwInterfaceDump = True"
| "vpp_read _ = False"

text \<open>Well-formed views: policer indices are unique, installed keys are masked and of the table's
  length, and \<open>NoTable\<close> is not a table.\<close>

definition view_wf :: "vpp_view \<Rightarrow> bool" where
  "view_wf V \<longleftrightarrow>
     (\<forall>n m i r s. vv_pol V n = Some (i, r) \<and> vv_pol V m = Some (i, s) \<longrightarrow> n = m) \<and>
     (\<forall>t skip match m k h. vv_tab V t = Some (skip, match, m) \<and> vv_ses V t k = Some h \<longrightarrow> maskKey m k = k) \<and>
     vv_tab V NoTable = None"

lemma maskKey_idem [simp]: "maskKey m (maskKey m k) = maskKey m k"
  by (induction m arbitrary: k) (auto simp: maskKey_def zip_Cons1 split: list.splits)

lemma view_wf_pol: "view_wf V \<Longrightarrow> vv_pol V n = Some (i, r) \<Longrightarrow> vv_pol V m = Some (i, s) \<Longrightarrow> n = m"
  by (cases r; cases s) (auto simp: view_wf_def)

lemma view_wf_ses:
  "view_wf V \<Longrightarrow> vv_tab V t = Some (skip, match, m) \<Longrightarrow> vv_ses V t k = Some h \<Longrightarrow> maskKey m k = k"
  unfolding view_wf_def by blast

subsection \<open>The interfaces of the reconciler\<close>

record 'v classifyReconciler =
  cl_FindTablesByMask :: "('v, (MaskKind, u32) gomap) act"
  cl_AddTable :: "TableSpec \<Rightarrow> ('v, u32) act"
  cl_DumpSessions :: "u32 \<Rightarrow> ('v, SessionInfo list) act"
  cl_LookupHits :: "u32 \<Rightarrow> MaskKind \<Rightarrow> Prefix list \<Rightarrow> ('v, u32 list) act"
  cl_AddSession :: "u32 \<Rightarrow> MaskKind \<Rightarrow> Prefix \<Rightarrow> u32 \<Rightarrow> ('v, unit) act"
  cl_DelSessionByKey :: "u32 \<Rightarrow> MaskKind \<Rightarrow> bytes \<Rightarrow> ('v, unit) act"

definition NewClassify :: "'v channel \<Rightarrow> 'v classifyReconciler" where
  "NewClassify ch =
     \<lparr>cl_FindTablesByMask = FindTablesByMask ch, cl_AddTable = AddTable ch, cl_DumpSessions = DumpSessions ch,
      cl_LookupHits = LookupHits ch, cl_AddSession = AddSession ch, cl_DelSessionByKey = DelSessionByKey ch\<rparr>"

text \<open>The layout of a mask's table, and the key a session is stored under.\<close>

definition layoutOf :: "MaskKind \<Rightarrow> tab_layout option" where
  "layoutOf mk = (case specOf mk of Inl _ \<Rightarrow> None | Inr ms \<Rightarrow> Some (tableMask ms))"

definition storedKey :: "MaskKind \<Rightarrow> bytes \<Rightarrow> bytes" where
  "storedKey mk k = (case layoutOf mk of None \<Rightarrow> k | Some (_, _, m) \<Rightarrow> maskKey m k)"

lemma layoutOf_inject: "layoutOf a = Some l \<Longrightarrow> layoutOf b = Some l \<Longrightarrow> a = b"
  by (auto simp: layoutOf_def split: sum.splits intro: tableMask_inject)

definition table_of :: "vpp_view \<Rightarrow> MaskKind \<Rightarrow> u32 \<Rightarrow> bool" where
  "table_of V mk t \<longleftrightarrow> layoutOf mk \<noteq> None \<and> vv_tab V t = layoutOf mk"

lemma table_of_unique_mask: "table_of V a t \<Longrightarrow> table_of V b t \<Longrightarrow> a = b"
  unfolding table_of_def by (metis layoutOf_inject option.exhaust_sel)

locale policer_api =
  fixes p :: "'v policerReconciler" and vw :: "'v \<Rightarrow> vpp_view"
  assumes Dump: "pr_Dump p v = (Inr ds, v') \<Longrightarrow>
      vw v' = vw v \<and> distinct (map pi_Name ds) \<and>
      (\<forall>n cir cb. \<lparr>pi_Name = n, pi_CIR = cir, pi_CB = cb\<rparr> \<in> set ds \<longleftrightarrow> (\<exists>i. vv_pol (vw v) n = Some (i, cir, cb)))"
    and Add: "pr_Add p s v = (Inr i, v') \<Longrightarrow>
      i \<notin> fst ` ran (vv_pol (vw v)) \<and>
      vw v' = (vw v)\<lparr>vv_pol := (vv_pol (vw v))(ps_Name s \<mapsto> (i, installed_rate s))\<rparr>"
    and Update: "pr_Update p i s v = (Inr u, v') \<Longrightarrow>
      vw v' = (vw v)\<lparr>vv_pol := polUpdate i (fst (installed_rate s)) (snd (installed_rate s)) (vv_pol (vw v))\<rparr>"
    and DeleteByName: "pr_DeleteByName p n v = (Inr u, v') \<Longrightarrow>
      vw v' = (vw v)\<lparr>vv_pol := (vv_pol (vw v))(n := None)\<rparr>"

locale classify_api =
  fixes cl :: "'v classifyReconciler" and vw :: "'v \<Rightarrow> vpp_view"
  assumes FindTables: "cl_FindTablesByMask cl v = (Inr tabs, v') \<Longrightarrow>
      vw v' = vw v \<and> gm_wf tabs \<and>
      (\<forall>mk t. gm_get tabs mk = Some t \<longrightarrow> table_of (vw v) mk t) \<and>
      (\<forall>mk t. table_of (vw v) mk t \<longrightarrow> gm_get tabs mk \<noteq> None)"
    and AddTable: "cl_AddTable cl sp v = (Inr t, v') \<Longrightarrow>
      (\<exists>lay. layoutOf (tsp_Mask sp) = Some lay \<and> vv_tab (vw v) t = None \<and> t \<noteq> NoTable \<and>
         vw v' = (vw v)\<lparr>vv_tab := (vv_tab (vw v))(t \<mapsto> lay), vv_ses := (vv_ses (vw v))(t := Map.empty),
                        vv_next := (vv_next (vw v))(t := NoTable)\<rparr>)"
    and DumpSessions: "cl_DumpSessions cl t v = (Inr ds, v') \<Longrightarrow>
      vw v' = vw v \<and> distinct (map si_Match ds) \<and>
      (\<forall>k h. \<lparr>si_HitNextIndex = h, si_Match = k\<rparr> \<in> set ds \<longleftrightarrow> vv_ses (vw v) t k = Some h)"
    and AddSession: "cl_AddSession cl t mk q h v = (Inr u, v') \<Longrightarrow> table_of (vw v) mk t \<Longrightarrow>
      (\<exists>k. SessionKey mk q = Inr k \<and>
         vw v' = (vw v)\<lparr>vv_ses := (vv_ses (vw v))(t := (vv_ses (vw v) t)(storedKey mk k \<mapsto> h))\<rparr>)"
    and DelSessionByKey: "cl_DelSessionByKey cl t mk k v = (Inr u, v') \<Longrightarrow> table_of (vw v) mk t \<Longrightarrow>
      vw v' = (vw v)\<lparr>vv_ses := (vv_ses (vw v))(t := (vv_ses (vw v) t)(storedKey mk k := None))\<rparr>"
    and LookupHits: "cl_LookupHits cl t mk qs v = (Inr hs, v') \<Longrightarrow> table_of (vw v) mk t \<Longrightarrow>
      vw v' = vw v \<and>
      list_all2 (\<lambda>q h. \<exists>k. SessionKey mk q = Inr k \<and> h = hitOf (vv_ses (vw v) t (storedKey mk k))) qs hs"

text \<open>The batch of a lookup request splits back into the match buffers it was built from.\<close>

lemma chunksOf_concat:
  "0 < n \<Longrightarrow> \<forall>x \<in> set xss. length x = n \<Longrightarrow> chunksOf n (concat xss) = xss"
proof (induction xss)
  case (Cons x xss)
  then have "x \<noteq> []" by auto
  with Cons show ?case by (subst chunksOf.simps) simp
qed (simp add: chunksOf.simps)

definition matchLen :: "maskSpec \<Rightarrow> nat" where
  "matchLen ms = (let (skip, match, _, _) = layout ms in (skip + match) * vec)"

lemma sessionMatch_spec_length:
  assumes "specOf mk = Inr ms" and "sessionMatch ms p = Inr full"
  shows "length full = matchLen ms"
proof -
  from assms(2) obtain b where "addrBytesOf ms p = Some b"
    "full = replicate (skipBytes ms + keyLead ms) 0 @ b @ replicate (keyTail ms) 0"
    unfolding sessionMatch_iff [OF assms(1)] by blast
  with assms(1) show ?thesis
    by (elim specOf_cases)
      (auto simp: skipBytes_def keyLead_def keyTail_def matchLen_def layouts vec_def dest!: addrBytesOf_length)
qed

lemma matchLen_bounds: "specOf mk = Inr ms \<Longrightarrow> 0 < matchLen ms \<and> matchLen ms \<le> 64"
  by (erule specOf_cases) (simp_all add: matchLen_def layouts vec_def)

lemma lookupBuf_Inr:
  assumes "specOf mk = Inr ms"
  shows "lookupBuf ms qs k0 = Inr (k, buf) \<Longrightarrow>
    \<exists>bs. list_all2 (\<lambda>q b. sessionMatch ms q = Inr b) qs bs \<and> buf = concat bs \<and>
      (\<forall>b \<in> set bs. length b = matchLen ms) \<and> k = (if qs = [] then k0 else matchLen ms)"
proof (induction qs arbitrary: k0 k buf)
  case (Cons q qs)
  from Cons.prems obtain m k' buf' where m: "sessionMatch ms q = Inr m"
    and r: "lookupBuf ms qs (length m) = Inr (k', buf')" and "k = k'" "buf = m @ buf'"
    by (auto split: sum.splits prod.splits)
  moreover from Cons.IH [OF r] obtain bs where "list_all2 (\<lambda>q b. sessionMatch ms q = Inr b) qs bs"
    "buf' = concat bs" "\<forall>b \<in> set bs. length b = matchLen ms" "k' = (if qs = [] then length m else matchLen ms)"
    by blast
  ultimately show ?case
    using sessionMatch_spec_length [OF assms m] by (intro exI [where x = "m # bs"]) simp
qed simp

lemma sessionMatch_stored:
  assumes "specOf mk = Inr ms" and "sessionMatch ms q = Inr full"
  shows "\<exists>k. SessionKey mk q = Inr k \<and> stored_key (tableMask ms) full = storedKey mk k"
proof -
  obtain skip match m where tm: "tableMask ms = (skip, match, m)" by (cases "tableMask ms")
  with assms show ?thesis
    by (simp add: SessionKey_def storedKey_def layoutOf_def)
qed

subsection \<open>vpp.Policers and vpp.Classify implement the interfaces\<close>

locale vpp_channel =
  fixes ch :: "'v channel" and vw :: "'v \<Rightarrow> vpp_view"
  assumes ok: "ch req v = (Inr rep, v') \<Longrightarrow> vpp_ok req (vw v) rep (vw v')"
    and read: "vpp_read req \<Longrightarrow> ch req v = (x, v') \<Longrightarrow> vw v' = vw v"
begin

lemma exec_keeps: "vpp_read req \<Longrightarrow> keeps vw (exec ch req)"
  using read by (auto simp: keeps_def exec_def split: prod.splits sum.splits)

lemma dumpAll_keeps: "vpp_read req \<Longrightarrow> keeps vw (dumpAll ch req d e)"
  unfolding dumpAll_def by (intro keeps_andThen exec_keeps) (auto split: option.splits)

lemma Policers_Dump_keeps: "keeps vw (Policers_Dump ch)"
  unfolding Policers_Dump_def by (rule dumpAll_keeps) simp

lemma DumpSessions_keeps: "keeps vw (DumpSessions ch t)"
  unfolding DumpSessions_def by (rule dumpAll_keeps) simp

lemma FindTables_keeps: "keeps vw (FindTablesByMask ch)"
  unfolding FindTablesByMask_def Classify_TableInfo_def
  by (intro keeps_andThen exec_keeps keeps_forEach) (auto intro!: keeps_andThen exec_keeps split: vpp_rep.split)

lemma exec_ok: "exec ch req v = (Inr rep, v') \<Longrightarrow> vpp_ok req (vw v) rep (vw v')"
  by (simp add: exec_Inr_iff ok)

lemma Policers_bind_ok: "Policers_bind ch i w en v = (Inr u, v') \<Longrightarrow> vw v' = vw v"
  by (auto simp: Policers_bind_def andThen_split_Inr ret_def dest: exec_ok)

lemma Policers_Dump_ok:
  assumes "Policers_Dump ch v = (Inr ds, v')"
  shows "vw v' = vw v \<and> distinct (map pi_Name ds) \<and>
    (\<forall>n cir cb. \<lparr>pi_Name = n, pi_CIR = cir, pi_CB = cb\<rparr> \<in> set ds \<longleftrightarrow> (\<exists>i. vv_pol (vw v) n = Some (i, cir, cb)))"
proof -
  from assms obtain ds0 where c: "ch PolicerDump v = (Inr (PolicerDetailsList ds0), v')"
    and ds: "ds = map (\<lambda>d. \<lparr>pi_Name = pdt_Name d, pi_CIR = pdt_Cir d, pi_CB = pdt_Cb d\<rparr>) ds0"
    by (auto simp: Policers_Dump_def dumpAll_Inr_iff elim!: policer_details.elims)
  let ?f = "\<lambda>d :: PolicerDetails. \<lparr>pi_Name = pdt_Name d, pi_CIR = pdt_Cir d, pi_CB = pdt_Cb d\<rparr>"
  have "inj ?f" by (rule injI) (auto intro: PolicerDetails.equality)
  then have "\<lparr>pi_Name = n, pi_CIR = cir, pi_CB = cb\<rparr> \<in> set ds \<longleftrightarrow>
      \<lparr>pdt_Name = n, pdt_Cir = cir, pdt_Cb = cb\<rparr> \<in> set ds0" for n cir cb
    unfolding ds set_map
    using inj_image_mem_iff [of ?f "\<lparr>pdt_Name = n, pdt_Cir = cir, pdt_Cb = cb\<rparr>" "set ds0"] by simp
  with ok [OF c] show ?thesis
    by (simp add: ds comp_def)
qed

lemma Policers_Add_ok:
  assumes "Policers_Add c ch s v = (Inr i, v')"
  shows "i \<notin> fst ` ran (vv_pol (vw v)) \<and>
      vw v' = (vw v)\<lparr>vv_pol := (vv_pol (vw v))(ps_Name s \<mapsto> (i, installed_rate s))\<rparr>"
proof -
  from assms obtain cfg rep v1 where cfg: "toConfig s = Inr cfg"
    and e: "exec ch (PolicerAdd (ps_Name s) cfg) v = (Inr rep, v1)"
    and r: "(case rep of PolicerAddReply idx \<Rightarrow>
               (if ps_BindWorker s then andThen (Policers_bind ch idx (ps_WorkerIndex s) True) (\<lambda>_. ret idx)
                else ret idx) | _ \<Rightarrow> raise ErrUnexpectedReply) v1 = (Inr i, v')"
    by (auto simp: Policers_Add_def andThen_split_Inr raise_def split: if_splits sum.splits)
  from exec_ok [OF e] obtain j where j: "rep = PolicerAddReply j" "j \<notin> fst ` ran (vv_pol (vw v))"
    "vw v1 = (vw v)\<lparr>vv_pol := (vv_pol (vw v))(ps_Name s \<mapsto> (j, pc_Cir cfg, pc_Cb cfg))\<rparr>"
    by auto
  from r j(1) have "j = i \<and> vw v' = vw v1"
    by (auto simp: andThen_split_Inr ret_def dest: Policers_bind_ok split: if_splits)
  with j(2,3) toConfig_rate [OF cfg] show ?thesis by simp
qed

lemma Policers_Update_ok:
  assumes "Policers_Update c ch i s v = (Inr u, v')"
  shows "vw v' = (vw v)\<lparr>vv_pol := polUpdate i (fst (installed_rate s)) (snd (installed_rate s)) (vv_pol (vw v))\<rparr>"
proof -
  from assms obtain cfg rep where cfg: "toConfig s = Inr cfg" and "exec ch (PolicerUpdate i cfg) v = (Inr rep, v')"
    by (auto simp: Policers_Update_def andThen_split_Inr raise_def ret_def split: if_splits sum.splits)
  with exec_ok [of "PolicerUpdate i cfg" v rep v'] toConfig_rate [OF cfg, symmetric] show ?thesis by simp
qed

lemma TableInfo_ok:
  assumes "Classify_TableInfo ch t v = (Inr info, v')"
  shows "vw v' = vw v \<and> vv_tab (vw v) t = Some (ti_SkipNVectors info, ti_MatchNVectors info, ti_Mask info)"
proof -
  from assms obtain rep v1 where e: "exec ch (ClassifyTableInfo t) v = (Inr rep, v1)"
    and k: "(case rep of ClassifyTableInfoReply i \<Rightarrow> ret i | _ \<Rightarrow> raise ErrUnexpectedReply) v1 = (Inr info, v')"
    unfolding Classify_TableInfo_def andThen_split_Inr by auto
  from exec_ok [OF e] k show ?thesis by (auto simp: ret_def)
qed

lemma FindTables_loop:
  assumes "forEach ids (\<lambda>id out. andThen (Classify_TableInfo ch id)
      (\<lambda>info. ret (case find (layoutMatches info) allMaskKinds of None \<Rightarrow> out | Some mk \<Rightarrow> gm_put mk id out))) [] v
      = (Inr tabs, v')"
  shows "vw v' = vw v \<and> gm_wf tabs \<and>
     (\<forall>mk t. gm_get tabs mk = Some t \<longrightarrow> t \<in> set ids \<and> table_of (vw v) mk t) \<and>
     (\<forall>mk t. t \<in> set ids \<and> table_of (vw v) mk t \<longrightarrow> gm_get tabs mk \<noteq> None)"
  using assms
proof (rule forEach_inv [where I = "\<lambda>done out v1. vw v1 = vw v \<and> gm_wf out \<and>
     (\<forall>mk t. gm_get out mk = Some t \<longrightarrow> t \<in> set done \<and> table_of (vw v) mk t) \<and>
     (\<forall>mk t. t \<in> set done \<and> table_of (vw v) mk t \<longrightarrow> gm_get out mk \<noteq> None)"])
  fix "done" :: "u32 list" and id out v1 out1 v2
  let ?P = "\<lambda>done out v1. vw v1 = vw v \<and> gm_wf out \<and>
     (\<forall>mk t. gm_get out mk = Some t \<longrightarrow> t \<in> set done \<and> table_of (vw v) mk t) \<and>
     (\<forall>mk t. t \<in> set done \<and> table_of (vw v) mk t \<longrightarrow> gm_get out mk \<noteq> None)"
  assume I: "?P done out v1"
    and b: "andThen (Classify_TableInfo ch id)
      (\<lambda>info. ret (case find (layoutMatches info) allMaskKinds of None \<Rightarrow> out | Some mk \<Rightarrow> gm_put mk id out)) v1
      = (Inr out1, v2)"
  from b obtain info where i: "Classify_TableInfo ch id v1 = (Inr info, v2)"
    and out1: "out1 = (case find (layoutMatches info) allMaskKinds of None \<Rightarrow> out | Some mk \<Rightarrow> gm_put mk id out)"
    unfolding andThen_split_Inr ret_def by auto
  from TableInfo_ok [OF i] I have v2: "vw v2 = vw v"
    and tab: "vv_tab (vw v) id = Some (ti_SkipNVectors info, ti_MatchNVectors info, ti_Mask info)"
    by auto
  have m: "layoutMatches info mk \<longleftrightarrow> table_of (vw v) mk id" for mk
    by (auto simp: table_of_def layoutMatches_def layoutOf_def tab split: sum.splits prod.splits)
  show "?P (done @ [id]) out1 v2"
  proof (cases "find (layoutMatches info) allMaskKinds")
    case None
    then have "\<not> table_of (vw v) mk id" for mk
      unfolding m [symmetric] find_None_iff
      by (auto simp: layoutMatches_def split: sum.splits dest: specOf_allMaskKinds)
    then show ?thesis using I None v2 out1 by (simp del: map_of_eq_Some_iff) blast
  next
    case (Some mk)
    then have mk: "table_of (vw v) mk id"
      using m [of mk] by (auto simp: find_Some_iff)
    then show ?thesis
      using I Some v2 out1 by (simp add: gm_simps del: map_of_eq_Some_iff) (blast dest: table_of_unique_mask)
  qed
qed auto

lemma FindTables_ok:
  assumes "FindTablesByMask ch v = (Inr tabs, v')"
  shows "vw v' = vw v \<and> gm_wf tabs \<and>
      (\<forall>mk t. gm_get tabs mk = Some t \<longrightarrow> table_of (vw v) mk t) \<and>
      (\<forall>mk t. table_of (vw v) mk t \<longrightarrow> gm_get tabs mk \<noteq> None)"
proof -
  let ?body = "\<lambda>id out. andThen (Classify_TableInfo ch id)
      (\<lambda>info. ret (case find (layoutMatches info) allMaskKinds of None \<Rightarrow> out | Some mk \<Rightarrow> gm_put mk id out))"
  from assms obtain rep v1 where e: "exec ch ClassifyTableIds v = (Inr rep, v1)"
    and k: "(case rep of ClassifyTableIdsReply ids \<Rightarrow> forEach ids ?body [] | _ \<Rightarrow> raise ErrUnexpectedReply) v1
      = (Inr tabs, v')"
    unfolding FindTablesByMask_def andThen_split_Inr by auto
  from exec_ok [OF e] obtain ids where rep: "rep = ClassifyTableIdsReply ids"
    and i: "vw v1 = vw v" "set ids = dom (vv_tab (vw v))" by auto
  from k have l: "forEach ids ?body [] v1 = (Inr tabs, v')" by (simp add: rep)
  from FindTables_loop [OF l] show ?thesis
    unfolding i by (metis (mono_tags, lifting) domIff table_of_def)
qed

lemma AddTable_ok:
  assumes "AddTable ch sp v = (Inr t, v')"
  shows "\<exists>lay. layoutOf (tsp_Mask sp) = Some lay \<and> vv_tab (vw v) t = None \<and> t \<noteq> NoTable \<and>
         vw v' = (vw v)\<lparr>vv_tab := (vv_tab (vw v))(t \<mapsto> lay), vv_ses := (vv_ses (vw v))(t := Map.empty),
                        vv_next := (vv_next (vw v))(t := NoTable)\<rparr>"
proof -
  from assms obtain ms where ms: "specOf (tsp_Mask sp) = Inr ms"
    by (auto simp: AddTable_def raise_def split: sum.splits)
  obtain skip match m where tm: "tableMask ms = (skip, match, m)" by (cases "tableMask ms")
  from assms obtain r rep v1 where e: "exec ch (ReqClassifyAddDelTable r) v = (Inr rep, v1)"
    and r: "cat_IsAdd r" "cat_TableIndex r = NoTable" "cat_SkipNVectors r = skip" "cat_MatchNVectors r = match"
      "cat_Mask r = m" "cat_NextTableIndex r = NoTable"
    and k: "(case rep of ClassifyAddDelTableReply i \<Rightarrow> ret i | _ \<Rightarrow> raise ErrUnexpectedReply) v1 = (Inr t, v')"
    by (simp add: AddTable_def ms tm Let_def andThen_split_Inr) (metis ClassifyAddDelTable.select_convs)
  from exec_ok [OF e] r k show ?thesis
    by (auto simp: layoutOf_def ms tm ret_def)
qed

lemma DumpSessions_ok:
  assumes "DumpSessions ch t v = (Inr ds, v')"
  shows "vw v' = vw v \<and> distinct (map si_Match ds) \<and>
      (\<forall>k h. \<lparr>si_HitNextIndex = h, si_Match = k\<rparr> \<in> set ds \<longleftrightarrow> vv_ses (vw v) t k = Some h)"
proof -
  from assms have c: "ch (ClassifySessionDump t) v = (Inr (ClassifySessionDetailsList ds), v')"
    by (auto simp: DumpSessions_def dumpAll_Inr_iff elim!: session_details.elims)
  from ok [OF c] show ?thesis by simp
qed

lemma stored_session:
  assumes "specOf mk = Inr ms" and "vv_tab V t = layoutOf mk"
  shows "vpp_ok (sessionReq isAdd t ms k h) V rep V' \<longleftrightarrow>
    V' = V\<lparr>vv_ses := (vv_ses V)(t := (vv_ses V t)(storedKey mk k := if isAdd then Some h else None))\<rparr>"
proof -
  obtain skip match m where tm: "tableMask ms = (skip, match, m)" by (cases "tableMask ms")
  with tableMask_skip [OF assms(1)] have "unat skip * vec = skipBytes ms" by simp
  with assms tm show ?thesis
    by (simp add: sessionReq_def Let_def layoutOf_def storedKey_def)
qed

lemma table_of_spec: "table_of V mk t \<Longrightarrow> \<exists>ms. specOf mk = Inr ms \<and> vv_tab V t = layoutOf mk"
  by (auto simp: table_of_def layoutOf_def split: sum.splits)

lemma AddSession_ok:
  assumes "AddSession ch t mk q h v = (Inr u, v')" and "table_of (vw v) mk t"
  shows "\<exists>k. SessionKey mk q = Inr k \<and>
         vw v' = (vw v)\<lparr>vv_ses := (vv_ses (vw v))(t := (vv_ses (vw v) t)(storedKey mk k \<mapsto> h))\<rparr>"
proof -
  from table_of_spec [OF assms(2)] obtain ms where ms: "specOf mk = Inr ms" "vv_tab (vw v) t = layoutOf mk"
    by blast
  from assms(1) ms(1) obtain k where k: "SessionKey mk q = Inr k"
    by (cases "tableMask ms") (auto simp: AddSession_def session_def SessionKey_def raise_def split: sum.splits)
  from assms(1) obtain rep where "exec ch (sessionReq True t ms k h) v = (Inr rep, v')"
    unfolding AddSession_def session_by_key [OF k ms(1)] andThen_split_Inr ret_def by auto
  from exec_ok [OF this] show ?thesis
    unfolding stored_session [OF ms] using k by simp
qed

lemma DelSessionByKey_ok:
  assumes "DelSessionByKey ch t mk k v = (Inr u, v')" and "table_of (vw v) mk t"
  shows "vw v' = (vw v)\<lparr>vv_ses := (vv_ses (vw v))(t := (vv_ses (vw v) t)(storedKey mk k := None))\<rparr>"
proof -
  from table_of_spec [OF assms(2)] obtain ms where ms: "specOf mk = Inr ms" "vv_tab (vw v) t = layoutOf mk"
    by blast
  from assms(1) obtain rep where "exec ch (sessionReq False t ms k NoTable) v = (Inr rep, v')"
    unfolding DelSessionByKey_req [OF ms(1)] andThen_split_Inr ret_def by auto
  from exec_ok [OF this] show ?thesis
    unfolding stored_session [OF ms] by simp
qed

lemma lookupChunks_ok:
  assumes "specOf mk = Inr ms"
  shows "lookupChunks ch t ms qs v = (Inr hs, v') \<Longrightarrow> table_of (vw v) mk t \<Longrightarrow>
      vw v' = vw v \<and>
      list_all2 (\<lambda>q h. \<exists>k. SessionKey mk q = Inr k \<and> h = hitOf (vv_ses (vw v) t (storedKey mk k))) qs hs"
proof (induction "length qs" arbitrary: qs v hs rule: less_induct)
  case less
  let ?Q = "\<lambda>q h. \<exists>k. SessionKey mk q = Inr k \<and> h = hitOf (vv_ses (vw v) t (storedKey mk k))"
  show ?case
  proof (cases "qs = []")
    case True
    with less.prems show ?thesis by (simp add: lookupChunks.simps ret_def)
  next
    case False
    note run = less.prems(1) [unfolded lookupChunks.simps [of ch t ms qs]]
    from run False obtain k buf where lb: "lookupBuf ms (take 1024 qs) 0 = Inr (k, buf)"
      by (auto simp: raise_def split: sum.splits)
    from run obtain rep v1 where
      e: "exec ch (ProbeClassifyLookup t (of_nat k) (of_nat (length buf)) buf) v = (Inr rep, v1)"
      and r: "(case rep of ProbeClassifyLookupReply hits \<Rightarrow>
                 (if length hits \<noteq> length (take 1024 qs)
                  then raise (ErrHitsMismatch (length hits) (length (take 1024 qs)))
                  else andThen (lookupChunks ch t ms (drop 1024 qs)) (\<lambda>more. ret (hits @ more)))
             | _ \<Rightarrow> raise ErrUnexpectedReply) v1 = (Inr hs, v')"
      unfolding lb andThen_split_Inr if_not_P [OF False] sum.case prod.case by blast
    from lookupBuf_Inr [OF assms lb] False obtain bs where
      bs: "list_all2 (\<lambda>q b. sessionMatch ms q = Inr b) (take 1024 qs) bs" "buf = concat bs"
        "\<forall>b \<in> set bs. length b = matchLen ms" "k = matchLen ms" by auto
    have kk: "unat (of_nat k :: u32) = matchLen ms"
      using matchLen_bounds [OF assms] by (simp add: bs(4) unat_of_nat take_bit_eq_mod)
    have lay: "vv_tab (vw v) t = Some (tableMask ms)"
      using less.prems(2) by (simp add: table_of_def layoutOf_def assms)
    have "chunksOf (matchLen ms) buf = bs"
      unfolding bs(2) using bs(3) matchLen_bounds [OF assms] by (intro chunksOf_concat) auto
    with exec_ok [OF e] have v1: "vw v1 = vw v"
      and rep: "rep = ProbeClassifyLookupReply (map (\<lambda>b. hitOf (vv_ses (vw v) t (stored_key (tableMask ms) b))) bs)"
      by (auto simp: kk lay)
    have hits: "list_all2 ?Q (take 1024 qs) (map (\<lambda>b. hitOf (vv_ses (vw v) t (stored_key (tableMask ms) b))) bs)"
      unfolding list_all2_map2 using bs(1)
      by (rule list_all2_mono) (use sessionMatch_stored [OF assms] in fastforce)
    from r obtain more where m: "lookupChunks ch t ms (drop 1024 qs) v1 = (Inr more, v')"
      and hs: "hs = map (\<lambda>b. hitOf (vv_ses (vw v) t (stored_key (tableMask ms) b))) bs @ more"
      by (auto simp: rep andThen_split_Inr ret_def raise_def split: if_splits)
    from less.hyps [OF _ m] False less.prems(2) have "vw v' = vw v \<and> list_all2 ?Q (drop 1024 qs) more"
      by (simp add: v1)
    with hits show ?thesis
      unfolding hs using list_all2_appendI [of ?Q "take 1024 qs" _ "drop 1024 qs" more] by simp
  qed
qed

lemma LookupHits_ok:
  assumes "LookupHits ch t mk qs v = (Inr hs, v')" and "table_of (vw v) mk t"
  shows "vw v' = vw v \<and>
      list_all2 (\<lambda>q h. \<exists>k. SessionKey mk q = Inr k \<and> h = hitOf (vv_ses (vw v) t (storedKey mk k))) qs hs"
proof (cases "qs = []")
  case False
  with assms obtain ms where "specOf mk = Inr ms" "lookupChunks ch t ms qs v = (Inr hs, v')"
    by (auto simp: LookupHits_def raise_def split: sum.splits)
  with assms(2) show ?thesis by (simp add: lookupChunks_ok)
qed (use assms in \<open>simp add: LookupHits_def ret_def\<close>)

end

text \<open>The implementations over a channel satisfy the interface contracts.\<close>

sublocale vpp_channel \<subseteq> pol: policer_api "NewPolicers c ch" vw
proof
  fix n v u v'
  assume "pr_DeleteByName (NewPolicers c ch) n v = (Inr u, v')"
  then show "vw v' = (vw v)\<lparr>vv_pol := (vv_pol (vw v))(n := None)\<rparr>"
    by (auto simp: NewPolicers_def Policers_DeleteByName_def andThen_split_Inr ret_def dest: exec_ok)
qed (simp_all add: NewPolicers_def Policers_Dump_ok Policers_Add_ok Policers_Update_ok)

sublocale vpp_channel \<subseteq> cls: classify_api "NewClassify ch" vw
  by unfold_locales
    (simp_all add: NewClassify_def FindTables_ok AddTable_ok DumpSessions_ok AddSession_ok DelSessionByKey_ok
      LookupHits_ok del: split_paired_Ex)

end
