(* ===== verification/Classify_Diff.thy ===== *)
theory Classify_Diff
  imports Vpp_Spec
begin

text \<open>
  \<open>internal/agent/classifydiff.go\<close> and the data of \<open>reconcile.go\<close>: the state of the \<open>Reconciler\<close>, the
  session diff primitives shared by the full reconcile and the delta path, and their contracts over
  the \<open>classifyReconciler\<close> interface (locale \<open>classify_api\<close>).

  An operation of the reconciler acts on a pair of the \<open>Reconciler\<close> and VPP. \<open>onV\<close> lifts an operation on
  VPP; \<open>getR\<close> and \<open>modR\<close> read and write the reconciler.
\<close>

record Reconciler =
  rc_polIdx :: "(string, u32) gomap"
  rc_classifyNbuckets :: u32
  rc_classifyMem :: u32
  rc_polSnap :: "(string, u32) gomap option"
  rc_actPol :: int
  rc_actSess :: int
  rc_actAnchored :: bool
  rc_wake :: bool
  rc_deltaQ :: "EdgeDesiredDelta list"
  rc_deltasDropped :: u64
  rc_applying :: bool
  rc_policerIfaces :: "string list"
  rc_lastGen :: u64
  rc_appliedNonEmpty :: bool
  rc_pendingEmpty :: bool
  rc_poolHash :: u64

definition onV :: "('v, 'a) act \<Rightarrow> ('r \<times> 'v, 'a) act" where
  "onV m = (\<lambda>(r, v). case m v of (x, v') \<Rightarrow> (x, (r, v')))"

definition getR :: "('r \<Rightarrow> 'a) \<Rightarrow> ('r \<times> 'v, 'a) act" where
  "getR f = (\<lambda>(r, v). (Inr (f r), (r, v)))"

definition modR :: "('r \<Rightarrow> 'r) \<Rightarrow> ('r \<times> 'v, unit) act" where
  "modR f = (\<lambda>(r, v). (Inr (), (f r, v)))"

lemma onV_Inr_iff [simp]: "onV m (r, v) = (Inr a, (r', v')) \<longleftrightarrow> m v = (Inr a, v') \<and> r' = r"
  by (auto simp: onV_def split: prod.splits)

lemma getR_iff [simp]: "getR f (r, v) = (x, (r', v')) \<longleftrightarrow> x = Inr (f r) \<and> r' = r \<and> v' = v"
  by (auto simp: getR_def)

lemma modR_iff [simp]: "modR f (r, v) = (x, (r', v')) \<longleftrightarrow> x = Inr () \<and> r' = f r \<and> v' = v"
  by (auto simp: modR_def)

definition putIdx :: "string \<Rightarrow> u32 \<Rightarrow> Reconciler \<Rightarrow> Reconciler" where
  "putIdx n i r = r\<lparr>rc_polIdx := gm_put n i (rc_polIdx r)\<rparr>"

definition delIdx :: "string \<Rightarrow> Reconciler \<Rightarrow> Reconciler" where
  "delIdx n r = r\<lparr>rc_polIdx := gm_del n (rc_polIdx r)\<rparr>"

subsection \<open>Keys\<close>

definition hexDigit :: "nat \<Rightarrow> char" where
  "hexDigit d = ''0123456789abcdef'' ! d"

definition EncodeToString :: "bytes \<Rightarrow> string" where
  "EncodeToString bs = concat (map (\<lambda>b. [hexDigit (unat b div 16), hexDigit (unat b mod 16)]) bs)"

definition sessionMapKey :: "contract_fns \<Rightarrow> MaskKind \<Rightarrow> string \<Rightarrow> string" where
  "sessionMapKey c mk keyHex = MaskKind_String c mk @ [CHR 0x00] @ keyHex"

record sessionWant =
  sw_mask :: MaskKind
  sw_prefix :: Prefix
  sw_hitNext :: u32
  sw_key :: string

fun buildWants_loop :: "contract_fns \<Rightarrow> (string, u32) gomap \<Rightarrow> ClassifySession list \<Rightarrow>
    (MaskKind, sessionWant list) gomap \<Rightarrow> error + (MaskKind, sessionWant list) gomap" where
  "buildWants_loop c polIdx [] byMask = Inr byMask"
| "buildWants_loop c polIdx (s # ss) byMask =
     (case gm_get polIdx (cs_PolicerName s) of None \<Rightarrow> Inl (ErrUnknownPolicer (cs_PolicerName s))
      | Some idx \<Rightarrow>
        (case SessionKey (cs_Mask s) (cs_Prefix s) of Inl e \<Rightarrow> Inl e
         | Inr key \<Rightarrow>
             buildWants_loop c polIdx ss
               (gm_put (cs_Mask s)
                  ((case gm_get byMask (cs_Mask s) of None \<Rightarrow> [] | Some ws \<Rightarrow> ws) @
                   [\<lparr>sw_mask = cs_Mask s, sw_prefix = cs_Prefix s, sw_hitNext = idx,
                     sw_key = sessionMapKey c (cs_Mask s) (EncodeToString key)\<rparr>]) byMask)))"

definition buildSessionWants :: "contract_fns \<Rightarrow> ClassifySession list \<Rightarrow>
    (Reconciler \<times> 'v, (MaskKind, sessionWant list) gomap) act" where
  "buildSessionWants c desired =
     andThen (getR rc_polIdx) (\<lambda>polIdx. case buildWants_loop c polIdx desired [] of
        Inl e \<Rightarrow> raise e | Inr byMask \<Rightarrow> ret byMask)"

definition ensureTable :: "'v classifyReconciler \<Rightarrow> (MaskKind, u32) gomap \<Rightarrow> MaskKind \<Rightarrow>
    (Reconciler \<times> 'v, u32 \<times> (MaskKind, u32) gomap) act" where
  "ensureTable cl tables mk =
     (case gm_get tables mk of Some t \<Rightarrow> ret (t, tables)
      | None \<Rightarrow> andThen (getR (\<lambda>r. (rc_classifyNbuckets r, rc_classifyMem r))) (\<lambda>(nb, mem).
          andThen (onV (cl_AddTable cl \<lparr>tsp_Mask = mk, tsp_Nbuckets = nb, tsp_MemorySize = mem\<rparr>))
            (\<lambda>t. ret (t, gm_put mk t tables))))"

text \<open>\<open>applySessionUpserts\<close> returns the counts reached also when it fails.\<close>

fun applySessionUpserts :: "'v classifyReconciler \<Rightarrow> u32 \<Rightarrow> sessionWant list \<Rightarrow> (string, u32) gomap \<Rightarrow>
    int \<times> int \<Rightarrow> 'v \<Rightarrow> (error option \<times> int \<times> int) \<times> 'v" where
  "applySessionUpserts cl table [] actualHit (added, moved) v = ((None, added, moved), v)"
| "applySessionUpserts cl table (w # ws) actualHit (added, moved) v =
     (case gm_get actualHit (sw_key w) of
        None \<Rightarrow>
          (case cl_AddSession cl table (sw_mask w) (sw_prefix w) (sw_hitNext w) v of
             (Inl e, v') \<Rightarrow> ((Some e, added, moved), v')
           | (Inr _, v') \<Rightarrow> applySessionUpserts cl table ws actualHit (added + 1, moved) v')
      | Some cur \<Rightarrow>
          (if cur \<noteq> sw_hitNext w then
             (case cl_AddSession cl table (sw_mask w) (sw_prefix w) (sw_hitNext w) v of
                (Inl e, v') \<Rightarrow> ((Some e, added, moved), v')
              | (Inr _, v') \<Rightarrow> applySessionUpserts cl table ws actualHit (added, moved + 1) v')
           else applySessionUpserts cl table ws actualHit (added, moved) v))"

subsection \<open>Key facts\<close>

lemma hexDigit_inject: "i < 16 \<Longrightarrow> j < 16 \<Longrightarrow> hexDigit i = hexDigit j \<longleftrightarrow> i = j"
proof -
  assume "i < 16" "j < 16"
  moreover have "distinct ''0123456789abcdef''" "length ''0123456789abcdef'' = 16" by simp_all
  ultimately show ?thesis unfolding hexDigit_def by (metis nth_eq_iff_index_eq)
qed

lemma EncodeToString_inject: "EncodeToString a = EncodeToString b \<longleftrightarrow> a = b"
proof (induction a arbitrary: b)
  case Nil
  then show ?case by (cases b) (auto simp: EncodeToString_def)
next
  case (Cons x a)
  have byte: "unat y div 16 = unat z div 16 \<and> unat y mod 16 = unat z mod 16 \<longleftrightarrow> y = z" for y z :: u8
    by (metis div_mult_mod_eq word_unat_eq_iff)
  have "unat y div 16 < 16" for y :: u8
    using unsigned_less [of y, where 'a = nat] by (simp add: less_mult_imp_div_less)
  then show ?case
    using Cons.IH by (cases b) (auto simp: EncodeToString_def hexDigit_inject byte [symmetric])
qed

lemma sessionMapKey_inject: "sessionMapKey c mk h = sessionMapKey c mk h' \<longleftrightarrow> h = h'"
  by (simp add: sessionMapKey_def)

text \<open>Across masks the keys differ when the names of the masks differ and contain no NUL.\<close>

lemma sessionMapKey_mask:
  assumes "CHR 0x00 \<notin> set (MaskKind_String c a)" "CHR 0x00 \<notin> set (MaskKind_String c b)"
    and "sessionMapKey c a h = sessionMapKey c b h'"
  shows "MaskKind_String c a = MaskKind_String c b \<and> h = h'"
proof -
  have "xs = ys \<and> h = h'" if "xs @ CHR 0x00 # h = ys @ CHR 0x00 # h'" "CHR 0x00 \<notin> set xs" "CHR 0x00 \<notin> set ys" for xs ys :: string
    using that
  proof (induction xs arbitrary: ys)
    case Nil then show ?case by (cases ys) auto
  next
    case (Cons x xs) then show ?case by (cases ys) auto
  qed
  with assms show ?thesis by (simp add: sessionMapKey_def)
qed

subsection \<open>Contracts\<close>

text \<open>What \<open>buildSessionWants\<close> returns: per mask, the desired sessions of that mask in their order, each
  with the index of its policer.\<close>

definition want_of :: "contract_fns \<Rightarrow> (string, u32) gomap \<Rightarrow> ClassifySession \<Rightarrow> sessionWant" where
  "want_of c polIdx s =
     \<lparr>sw_mask = cs_Mask s, sw_prefix = cs_Prefix s, sw_hitNext = the (gm_get polIdx (cs_PolicerName s)),
      sw_key = sessionMapKey c (cs_Mask s) (EncodeToString (projr (SessionKey (cs_Mask s) (cs_Prefix s))))\<rparr>"

definition wants_for :: "contract_fns \<Rightarrow> (string, u32) gomap \<Rightarrow> ClassifySession list \<Rightarrow> MaskKind \<Rightarrow> sessionWant list" where
  "wants_for c polIdx desired mk = map (want_of c polIdx) (filter (\<lambda>s. cs_Mask s = mk) desired)"

definition session_known :: "(string, u32) gomap \<Rightarrow> ClassifySession \<Rightarrow> bool" where
  "session_known polIdx s \<longleftrightarrow> gm_get polIdx (cs_PolicerName s) \<noteq> None \<and> (\<exists>k. SessionKey (cs_Mask s) (cs_Prefix s) = Inr k)"

definition getWants :: "(MaskKind, sessionWant list) gomap \<Rightarrow> MaskKind \<Rightarrow> sessionWant list" where
  "getWants byMask mk = (case gm_get byMask mk of None \<Rightarrow> [] | Some ws \<Rightarrow> ws)"

lemma buildWants_loop_Inr:
  "buildWants_loop c polIdx ss byMask = Inr res \<Longrightarrow> gm_wf byMask \<Longrightarrow>
     (\<forall>s \<in> set ss. session_known polIdx s) \<and> gm_wf res \<and>
     (\<forall>mk. getWants res mk = getWants byMask mk @ wants_for c polIdx ss mk) \<and>
     dom (gm_get res) = dom (gm_get byMask) \<union> cs_Mask ` set ss"
proof (induction ss arbitrary: byMask)
  case (Cons s ss)
  from Cons.prems obtain idx key where i: "gm_get polIdx (cs_PolicerName s) = Some idx"
    and k: "SessionKey (cs_Mask s) (cs_Prefix s) = Inr key"
    by (auto split: option.splits sum.splits)
  let ?bm = "gm_put (cs_Mask s) (getWants byMask (cs_Mask s) @ [want_of c polIdx s]) byMask"
  have "buildWants_loop c polIdx ss ?bm = Inr res"
    using Cons.prems(1) by (simp add: i k want_of_def getWants_def)
  note IH = Cons.IH [OF this gm_wf_put [OF Cons.prems(2)]]
  have "getWants ?bm mk @ wants_for c polIdx ss mk = getWants byMask mk @ wants_for c polIdx (s # ss) mk" for mk
    by (auto simp: getWants_def gm_simps wants_for_def)
  moreover have "dom (gm_get ?bm) = insert (cs_Mask s) (dom (gm_get byMask))"
    by (auto simp: gm_simps)
  ultimately show ?case
    using IH i k by (auto simp: session_known_def)
qed (simp add: wants_for_def)

lemma buildSessionWants_Inr:
  assumes "buildSessionWants c desired (r, v) = (Inr byMask, (r', v'))"
  shows "r' = r \<and> v' = v \<and> (\<forall>s \<in> set desired. session_known (rc_polIdx r) s) \<and> gm_wf byMask \<and>
     (\<forall>mk. getWants byMask mk = wants_for c (rc_polIdx r) desired mk) \<and>
     dom (gm_get byMask) = cs_Mask ` set desired"
proof -
  from assms have "buildWants_loop c (rc_polIdx r) desired [] = Inr byMask" "r' = r" "v' = v"
    by (auto simp: buildSessionWants_def andThen_split_Inr ret_def raise_def split: sum.splits)
  with buildWants_loop_Inr [OF this(1)] show ?thesis by (simp add: getWants_def)
qed

text \<open>The table map of a pass is complete, and VPP has at most one table per mask, when the map's entries
  are exactly VPP's tables of the six layouts.\<close>

definition tabs_full :: "vpp_view \<Rightarrow> (MaskKind, u32) gomap \<Rightarrow> bool" where
  "tabs_full V tables \<longleftrightarrow> gm_wf tables \<and> (\<forall>mk t. gm_get tables mk = Some t \<longleftrightarrow> table_of V mk t)"

definition one_table :: "vpp_view \<Rightarrow> bool" where
  "one_table V \<longleftrightarrow> (\<forall>mk t t'. table_of V mk t \<longrightarrow> table_of V mk t' \<longrightarrow> t = t')"

definition cls_frame :: "vpp_view \<Rightarrow> vpp_view \<Rightarrow> bool" where
  "cls_frame V V' \<longleftrightarrow> vv_pol V' = vv_pol V \<and> vv_bnd V' = vv_bnd V \<and>
     (\<forall>mk t. table_of V mk t \<longrightarrow> table_of V' mk t)"

definition setSes :: "u32 \<Rightarrow> (bytes \<Rightarrow> u32 option) \<Rightarrow> vpp_view \<Rightarrow> vpp_view" where
  "setSes t f V = V\<lparr>vv_ses := (vv_ses V)(t := f)\<rparr>"

lemma setSes_simps [simp]:
  "vv_pol (setSes t f V) = vv_pol V" "vv_tab (setSes t f V) = vv_tab V" "vv_bnd (setSes t f V) = vv_bnd V"
  "vv_ses (setSes t f V) = (vv_ses V)(t := f)" "table_of (setSes t f V) = table_of V"
  "setSes t (vv_ses V t) V = V" "setSes t g (setSes t f V) = setSes t g V"
  by (simp_all add: setSes_def table_of_def fun_eq_iff)

lemma cls_frame_trans: "cls_frame U V \<Longrightarrow> cls_frame V W \<Longrightarrow> cls_frame U W"
  by (simp add: cls_frame_def)

lemma cls_frame_setSes [simp]: "cls_frame V (setSes t f V)" "cls_frame V V"
  by (simp_all add: cls_frame_def)

lemma one_tableD: "one_table V \<Longrightarrow> table_of V mk t \<Longrightarrow> table_of V mk t' \<Longrightarrow> t = t'"
  unfolding one_table_def by blast

lemma tabs_full_one: "tabs_full V tables \<Longrightarrow> one_table V"
  unfolding tabs_full_def one_table_def by (metis option.inject)

lemma tabs_full_setSes [simp]: "tabs_full (setSes t f V) tables = tabs_full V tables"
  by (simp add: tabs_full_def)

lemma storedKey_table: "table_of V mk t \<Longrightarrow> \<exists>skip match m. vv_tab V t = Some (skip, match, m) \<and> (\<forall>k. storedKey mk k = maskKey m k)"
  by (auto simp: table_of_def storedKey_def)

lemma storedKey_installed: "view_wf V \<Longrightarrow> table_of V mk t \<Longrightarrow> vv_ses V t k = Some h \<Longrightarrow> storedKey mk k = k"
  using storedKey_table [of V mk t] view_wf_ses [of V t _ _ _ k h] by auto

lemma view_wf_setSes:
  assumes "view_wf V" and "table_of V mk t" and "\<And>k h. f k = Some h \<Longrightarrow> vv_ses V t k \<noteq> None \<or> storedKey mk k = k"
  shows "view_wf (setSes t f V)"
proof -
  obtain skip match m where tab: "vv_tab V t = Some (skip, match, m)" "\<And>k. storedKey mk k = maskKey m k"
    using storedKey_table [OF assms(2)] by blast
  have "maskKey m k = k" if "f k = Some h" for k h
    using assms(3) [OF that] view_wf_ses [OF assms(1) tab(1)] tab(2) by auto
  with assms(1) tab(1) show ?thesis unfolding view_wf_def by auto
qed

definition wantKey :: "sessionWant \<Rightarrow> bytes" where
  "wantKey w = projr (SessionKey (sw_mask w) (sw_prefix w))"

text \<open>The wants of one table: of its mask, with keys that survive masking, and at most one target per
  key.\<close>

definition wants_ok :: "MaskKind \<Rightarrow> sessionWant list \<Rightarrow> bool" where
  "wants_ok mk ws \<longleftrightarrow>
     (\<forall>w \<in> set ws. sw_mask w = mk \<and> SessionKey mk (sw_prefix w) = Inr (wantKey w) \<and> storedKey mk (wantKey w) = wantKey w) \<and>
     (\<forall>w \<in> set ws. \<forall>w' \<in> set ws. wantKey w = wantKey w' \<longrightarrow> sw_hitNext w = sw_hitNext w')"

definition wantMap :: "sessionWant list \<Rightarrow> bytes \<Rightarrow> u32 option" where
  "wantMap ws = map_of (map (\<lambda>w. (wantKey w, sw_hitNext w)) ws)"

lemma wantMap_Some: "wants_ok mk ws \<Longrightarrow> w \<in> set ws \<Longrightarrow> wantMap ws (wantKey w) = Some (sw_hitNext w)"
proof -
  assume ok: "wants_ok mk ws" and w: "w \<in> set ws"
  then have "wantMap ws (wantKey w) \<noteq> None"
    by (auto simp: wantMap_def map_of_eq_None_iff image_iff)
  then obtain h where h: "wantMap ws (wantKey w) = Some h" by blast
  then obtain w' where "w' \<in> set ws" "wantKey w' = wantKey w" "h = sw_hitNext w'"
    by (auto simp: wantMap_def dest!: map_of_SomeD)
  with ok w h show ?thesis unfolding wants_ok_def by metis
qed

lemma wantMap_None: "k \<notin> wantKey ` set ws \<Longrightarrow> wantMap ws k = None"
  by (auto simp: wantMap_def map_of_eq_None_iff image_iff)

lemma wants_okD: "wants_ok mk ws \<Longrightarrow> w \<in> set ws \<Longrightarrow>
    sw_mask w = mk \<and> SessionKey mk (sw_prefix w) = Inr (wantKey w) \<and> storedKey mk (wantKey w) = wantKey w"
  unfolding wants_ok_def by blast

lemma wants_ok_fun: "wants_ok mk ws \<Longrightarrow> w \<in> set ws \<Longrightarrow> w' \<in> set ws \<Longrightarrow> wantKey w = wantKey w' \<Longrightarrow>
    sw_hitNext w = sw_hitNext w'"
  unfolding wants_ok_def by blast

lemma wants_ok_Cons: "wants_ok mk (w # ws) \<Longrightarrow> wants_ok mk ws"
  unfolding wants_ok_def using set_subset_Cons [of ws w] by blast

context classify_api
begin

lemma AddSession_set:
  assumes "cl_AddSession cl t mk (sw_prefix w) h v = (Inr u, v')" and "table_of (vw v) mk t"
    and "wants_ok mk ws" and "w \<in> set ws"
  shows "vw v' = setSes t ((vv_ses (vw v) t)(wantKey w \<mapsto> h)) (vw v)"
proof -
  have "SessionKey mk (sw_prefix w) = Inr (wantKey w)" "storedKey mk (wantKey w) = wantKey w"
    using wants_okD [OF assms(3,4)] by simp_all
  then show ?thesis
    using AddSession [OF assms(1,2)] by (simp add: setSes_def)
qed

lemma upserts_ok:
  assumes "applySessionUpserts cl t ws actualHit am v = ((None, am'), v')" and "table_of (vw v) mk t"
    and "wants_ok mk ws"
    and "\<forall>w \<in> set ws. gm_get actualHit (sw_key w) = Some (sw_hitNext w) \<longrightarrow>
           vv_ses (vw v) t (wantKey w) = Some (sw_hitNext w)"
  shows "vw v' = setSes t (vv_ses (vw v) t ++ wantMap ws) (vw v)"
  using assms
proof (induction ws arbitrary: am v)
  case Nil
  then show ?case by (cases am) (simp add: wantMap_def)
next
  case (Cons w ws)
  let ?f = "vv_ses (vw v) t"
  have ok: "wants_ok mk ws" using Cons.prems(3) by (rule wants_ok_Cons)
  have mk: "sw_mask w = mk" using wants_okD [OF Cons.prems(3), of w] by simp
  have same: "sw_hitNext w' = sw_hitNext w" if "w' \<in> set ws" "wantKey w' = wantKey w" for w'
    using wants_ok_fun [OF Cons.prems(3), of w' w] that by simp
  have "wantMap ws (wantKey w) = None \<or> wantMap ws (wantKey w) = Some (sw_hitNext w)"
    using wantMap_Some [OF ok] wantMap_None [of "wantKey w" ws] same by force
  then have step: "?f(wantKey w \<mapsto> sw_hitNext w) ++ wantMap ws = ?f ++ wantMap (w # ws)"
    by (auto simp: wantMap_def map_add_def fun_eq_iff split: option.splits)
  have rest: ?case if w1: "vw v1 = setSes t (?f(wantKey w \<mapsto> sw_hitNext w)) (vw v)"
    and r: "applySessionUpserts cl t ws actualHit am1 v1 = ((None, am'), v')" for v1 am1
  proof -
    have "vw v' = setSes t (vv_ses (vw v1) t ++ wantMap ws) (vw v1)"
      by (rule Cons.IH [OF r]) (use Cons.prems(2,4) ok same in \<open>simp_all add: w1\<close>)
    then show ?thesis by (simp add: w1 step)
  qed
  show ?case
  proof (cases "gm_get actualHit (sw_key w) = Some (sw_hitNext w)")
    case True
    with Cons.prems(4) have "?f(wantKey w \<mapsto> sw_hitNext w) = ?f" by auto
    moreover from True Cons.prems(1) have "applySessionUpserts cl t ws actualHit am v = ((None, am'), v')"
      by (cases am) simp
    ultimately show ?thesis by (intro rest) simp_all
  next
    case False
    with Cons.prems(1) mk obtain u v1 am1 where a: "cl_AddSession cl t mk (sw_prefix w) (sw_hitNext w) v = (Inr u, v1)"
      and r: "applySessionUpserts cl t ws actualHit am1 v1 = ((None, am'), v')"
      by (cases am) (auto split: option.splits prod.splits sum.splits if_splits)
    show ?thesis
      by (rule rest [OF AddSession_set [OF a Cons.prems(2) Cons.prems(3)] r]) simp
  qed
qed

lemma DelSession_set:
  "cl_DelSessionByKey cl t mk k v = (Inr u, v') \<Longrightarrow> table_of (vw v) mk t \<Longrightarrow>
     vw v' = setSes t ((vv_ses (vw v) t)(storedKey mk k := None)) (vw v)"
  by (simp add: setSes_def DelSessionByKey)

lemma FindTables_full:
  assumes "cl_FindTablesByMask cl v = (Inr tables, v')" and "one_table (vw v)"
  shows "vw v' = vw v \<and> tabs_full (vw v) tables"
proof -
  note F = FindTables [OF assms(1)]
  have "gm_get tables mk = Some t" if "table_of (vw v) mk t" for mk t
  proof -
    from F that obtain t' where "gm_get tables mk = Some t'" by blast
    moreover with F have "table_of (vw v) mk t'" by blast
    ultimately show ?thesis using one_tableD [OF assms(2) that] by simp
  qed
  with F show ?thesis unfolding tabs_full_def by blast
qed

lemma ensureTable_ok:
  assumes "ensureTable cl tables mk (r, v) = (Inr (t, tables'), (r', v'))"
    and "tabs_full (vw v) tables" and "view_wf (vw v)"
  shows "r' = r \<and> tabs_full (vw v') tables' \<and> view_wf (vw v') \<and> table_of (vw v') mk t \<and>
    cls_frame (vw v) (vw v') \<and> (\<forall>mk' t'. table_of (vw v) mk' t' \<longrightarrow> vv_ses (vw v') t' = vv_ses (vw v) t') \<and>
    dom (gm_get tables') = insert mk (dom (gm_get tables))"
proof (cases "gm_get tables mk")
  case (Some t0)
  with assms have "t = t0" "tables' = tables" "r' = r" "v' = v"
    by (simp_all add: ensureTable_def ret_def)
  with assms(2,3) Some show ?thesis by (auto simp: tabs_full_def)
next
  case None
  let ?sp = "\<lparr>tsp_Mask = mk, tsp_Nbuckets = rc_classifyNbuckets r, tsp_MemorySize = rc_classifyMem r\<rparr>"
  from None assms(1) have a: "cl_AddTable cl ?sp v = (Inr t, v')" and r: "r' = r" "tables' = gm_put mk t tables"
    by (auto simp: ensureTable_def andThen_split_Inr ret_def)
  let ?V = "vw v"
  from AddTable [OF a] obtain lay where lay: "layoutOf mk = Some lay" "vv_tab ?V t = None" "t \<noteq> NoTable"
    and V': "vw v' = ?V\<lparr>vv_tab := (vv_tab ?V)(t \<mapsto> lay), vv_ses := (vv_ses ?V)(t := Map.empty),
                        vv_next := (vv_next ?V)(t := NoTable)\<rparr>"
    unfolding TableSpec.select_convs by blast
  have tab': "table_of (vw v') mk' t' \<longleftrightarrow> table_of ?V mk' t' \<or> mk' = mk \<and> t' = t" for mk' t'
    using lay by (cases lay) (auto simp: table_of_def V' dest: layoutOf_inject)
  have old: "table_of ?V mk' t' \<Longrightarrow> t' \<noteq> t" for mk' t'
    using lay(2) by (auto simp: table_of_def)
  have none: "\<not> table_of ?V mk t'" for t'
    using None assms(2) unfolding tabs_full_def by (metis option.distinct(1))
  have "tabs_full (vw v') tables'"
    using assms(2) none unfolding tabs_full_def tab' r(2) by (simp add: gm_simps) blast
  moreover have "view_wf (vw v')"
    using assms(3) lay unfolding view_wf_def V' by simp
  moreover have "cls_frame ?V (vw v')"
    by (simp add: cls_frame_def tab') (simp add: V')
  moreover have "vv_ses (vw v') t' = vv_ses ?V t'" if "table_of ?V mk' t'" for mk' t'
    using old [OF that] by (simp add: V')
  ultimately show ?thesis
    using r by (auto simp: tab' gm_simps)
qed

end

end
