(* ===== verification/Vpp_Ref.thy ===== *)
theory Vpp_Ref
  imports Vpp_Spec
begin

text \<open>
  An executable VPP with finite state that satisfies \<open>vpp_channel\<close>: the witnesses of the properties that
  assume a VPP run on it. New policers and tables get the smallest free index, as VPP's pools do.
\<close>

record ref_vpp =
  rv_pol :: "(string, u32 \<times> u32 \<times> u64) gomap"
  rv_tab :: "(u32, tab_layout) gomap"
  rv_next :: "(u32, u32) gomap"
  rv_ses :: "(u32 \<times> bytes, u32) gomap"
  rv_bnd :: "(Family \<times> u32, u32) gomap"
  rv_ifs :: "(string, u32 \<times> u32) gomap"

definition ref_view :: "ref_vpp \<Rightarrow> vpp_view" where
  "ref_view v =
     \<lparr>vv_pol = gm_get (rv_pol v), vv_tab = gm_get (rv_tab v), vv_ses = (\<lambda>t k. gm_get (rv_ses v) (t, k)),
      vv_next = (\<lambda>t. hitOf (gm_get (rv_next v) t)), vv_bnd = (\<lambda>f sw. gm_get (rv_bnd v) (f, sw)),
      vv_ifs = (\<lambda>n. map_option fst (gm_get (rv_ifs v) n))\<rparr>"

definition freeIdx :: "u32 list \<Rightarrow> u32 option" where
  "freeIdx used = find (\<lambda>i. i \<notin> set used) (map of_nat [0..<Suc (length used)])"

fun ref_channel :: "ref_vpp channel" where
  "ref_channel (PolicerAdd n cfg) v =
     (case freeIdx (map (fst \<circ> snd) (rv_pol v)) of None \<Rightarrow> (Inl (-1), v)
      | Some i \<Rightarrow> (Inr (PolicerAddReply i), v\<lparr>rv_pol := gm_put n (i, pc_Cir cfg, pc_Cb cfg) (rv_pol v)\<rparr>))"
| "ref_channel (PolicerUpdate i cfg) v =
     (Inr Reply, v\<lparr>rv_pol := map (\<lambda>(n, j, r). if j = i then (n, j, pc_Cir cfg, pc_Cb cfg) else (n, j, r)) (rv_pol v)\<rparr>)"
| "ref_channel (PolicerDel i) v = (Inl (-1), v)"
| "ref_channel (PolicerBindV2 i w en) v = (Inr Reply, v)"
| "ref_channel (PolicerAddDel isAdd n) v =
     (if isAdd \<or> gm_get (rv_pol v) n = None then (Inl (-1), v)
      else (Inr Reply, v\<lparr>rv_pol := gm_del n (rv_pol v)\<rparr>))"
| "ref_channel PolicerDump v =
     (Inr (PolicerDetailsList (map (\<lambda>(n, i, cir, cb). \<lparr>pdt_Name = n, pdt_Cir = cir, pdt_Cb = cb\<rparr>)
        (AList.clearjunk (rv_pol v)))), v)"
| "ref_channel (ReqClassifyAddDelTable r) v =
     (if cat_IsAdd r \<and> cat_TableIndex r = NoTable
      then case freeIdx (NoTable # map fst (rv_tab v)) of None \<Rightarrow> (Inl (-1), v)
           | Some i \<Rightarrow> (Inr (ClassifyAddDelTableReply i),
               v\<lparr>rv_tab := gm_put i (cat_SkipNVectors r, cat_MatchNVectors r, cat_Mask r) (rv_tab v),
                 rv_ses := filter (\<lambda>((t, _), _). t \<noteq> i) (rv_ses v),
                 rv_next := gm_put i (cat_NextTableIndex r) (rv_next v)\<rparr>)
      else if cat_IsAdd r then (Inr (ClassifyAddDelTableReply (cat_TableIndex r)),
               v\<lparr>rv_next := gm_put (cat_TableIndex r) (cat_NextTableIndex r) (rv_next v)\<rparr>)
      else (Inr (ClassifyAddDelTableReply NoTable), v\<lparr>rv_tab := gm_del (cat_TableIndex r) (rv_tab v)\<rparr>))"
| "ref_channel (ReqClassifyAddDelSession r) v =
     (case gm_get (rv_tab v) (cas_TableIndex r) of None \<Rightarrow> (Inl (-1), v)
      | Some lay \<Rightarrow> (let k = (cas_TableIndex r, stored_key lay (cas_Match r))
          in (Inr Reply, v\<lparr>rv_ses := if cas_IsAdd r then gm_put k (cas_HitNextIndex r) (rv_ses v)
                                       else gm_del k (rv_ses v)\<rparr>)))"
| "ref_channel ClassifyTableIds v = (Inr (ClassifyTableIdsReply (remdups (map fst (rv_tab v)))), v)"
| "ref_channel (ClassifyTableInfo t) v =
     (case gm_get (rv_tab v) t of None \<Rightarrow> (Inl (-1), v)
      | Some (skip, match, m) \<Rightarrow> (Inr (ClassifyTableInfoReply
          \<lparr>ti_TableID = t, ti_SkipNVectors = skip, ti_MatchNVectors = match,
           ti_NextTableIndex = hitOf (gm_get (rv_next v) t), ti_Mask = m\<rparr>), v))"
| "ref_channel (ClassifySessionDump t) v =
     (Inr (ClassifySessionDetailsList (map (\<lambda>((_, k), h). \<lparr>si_HitNextIndex = h, si_Match = k\<rparr>)
        (filter (\<lambda>((t', _), _). t' = t) (AList.clearjunk (rv_ses v))))), v)"
| "ref_channel (ProbeClassifyLookup t keyLen bufLen buf) v =
     (case gm_get (rv_tab v) t of None \<Rightarrow> (Inl (-1), v)
      | Some lay \<Rightarrow> (Inr (ProbeClassifyLookupReply
          (map (\<lambda>k. hitOf (gm_get (rv_ses v) (t, stored_key lay k))) (chunksOf (unat keyLen) buf))), v))"
| "ref_channel (PolicerClassifySetInterface sw t4 t6 l2 isAdd) v =
     (Inr Reply, v\<lparr>rv_bnd :=
        (let put = (\<lambda>f t. if isAdd then gm_put (f, sw) t (rv_bnd v) else gm_del (f, sw) (rv_bnd v))
         in if t4 \<noteq> NoTable then put FamilyIPv4 t4 else if t6 \<noteq> NoTable then put FamilyIPv6 t6 else rv_bnd v)\<rparr>)"
| "ref_channel (PolicerClassifyDump fam) v =
     (Inr (PolicerClassifyDetailsList (map (\<lambda>((_, sw), t). \<lparr>pca_SwIfIndex = sw, pca_TableIndex = t\<rparr>)
        (filter (\<lambda>((f, _), _). f = fam) (AList.clearjunk (rv_bnd v))))), v)"
| "ref_channel SwInterfaceDump v = 
     (Inr (SwInterfaceDetailsList (map (\<lambda>(n, i, fl). \<lparr>sid_InterfaceName = n, sid_SwIfIndex = i, sid_Flags = fl\<rparr>)
        (AList.clearjunk (rv_ifs v)))), v)"

lemma freeIdx_free: "freeIdx used = Some i \<Longrightarrow> i \<notin> set used"
  by (auto simp: freeIdx_def find_Some_iff)

lemma filter_ses_get: "gm_get (filter (\<lambda>((t, _), _). t \<noteq> i) m) (t, k) = (if t = i then None else gm_get m (t, k))"
  by (induction m) auto

lemma clearjunk_mem: "(k, x) \<in> set (AList.clearjunk m) \<longleftrightarrow> gm_get m k = Some x"
  by (metis distinct_clearjunk map_of_clearjunk map_of_eq_Some_iff)

lemma distinct_pair_snd:
  assumes "distinct (map fst m)"
  shows "distinct (map (\<lambda>((_, k), _). k) (filter (\<lambda>((t', _), _). t' = t) m))"
  using assms
proof (induction m)
  case (Cons a m)
  then show ?case by (cases a) (auto simp: image_iff split: prod.splits)
qed simp

lemma ref_dump_pol: "distinct (map pdt_Name (map (\<lambda>(n, i, cir, cb). \<lparr>pdt_Name = n, pdt_Cir = cir, pdt_Cb = cb\<rparr>)
        (AList.clearjunk (m :: (string, u32 \<times> u32 \<times> u64) gomap))))"
proof -
  have "map pdt_Name (map (\<lambda>(n, i, cir, cb). \<lparr>pdt_Name = n, pdt_Cir = cir, pdt_Cb = cb\<rparr>) xs) = map fst xs"
    for xs :: "(string \<times> u32 \<times> u32 \<times> u64) list"
    by (induction xs) auto
  then show ?thesis by (simp only: distinct_clearjunk)
qed

lemma ref_dump_ses: "distinct (map si_Match (map (\<lambda>((_, k), h). \<lparr>si_HitNextIndex = h, si_Match = k\<rparr>)
        (filter (\<lambda>((t', _), _). t' = t) (AList.clearjunk (m :: (u32 \<times> bytes, u32) gomap)))))"
proof -
  have "map si_Match (map (\<lambda>((_, k), h). \<lparr>si_HitNextIndex = h, si_Match = k\<rparr>) xs) = map (\<lambda>((_, k), _). k) xs"
    for xs :: "((u32 \<times> bytes) \<times> u32) list"
    by (induction xs) auto
  then show ?thesis by (simp only: distinct_pair_snd distinct_clearjunk)
qed

lemma ref_dump_bnd: "distinct (map pca_SwIfIndex (map (\<lambda>((_, sw), t). \<lparr>pca_SwIfIndex = sw, pca_TableIndex = t\<rparr>)
        (filter (\<lambda>((f, _), _). f = fam) (AList.clearjunk (m :: (Family \<times> u32, u32) gomap)))))"
proof -
  have "map pca_SwIfIndex (map (\<lambda>((_, sw), t). \<lparr>pca_SwIfIndex = sw, pca_TableIndex = t\<rparr>) xs) = map (\<lambda>((_, k), _). k) xs"
    for xs :: "((Family \<times> u32) \<times> u32) list"
    by (induction xs) auto
  then show ?thesis by (simp only: distinct_pair_snd distinct_clearjunk)
qed

lemma ref_update:
  "gm_get (map (\<lambda>(n, j, r). if j = i then (n, j, cir, cb) else (n, j, r)) m) = polUpdate i cir cb (gm_get m)"
  by (induction m) (auto simp: polUpdate_def fun_eq_iff)

lemma ref_channel_ok: "ref_channel req v = (Inr rep, v') \<Longrightarrow> vpp_ok req (ref_view v) rep (ref_view v')"
proof (induction req v rule: ref_channel.induct)
  case (1 n cfg v)
  then show ?case
    by (auto simp: ref_view_def gm_simps ran_def dest!: freeIdx_free map_of_SomeD split: option.splits) force
next
  case (6 v)
  then show ?case
    using ref_dump_pol [of "rv_pol v"]
    by (auto simp: ref_view_def clearjunk_mem [symmetric] image_iff split_beta) force+
next
  case (7 r v)
  consider (new) "cat_IsAdd r \<and> cat_TableIndex r = NoTable" | (link) "cat_IsAdd r" "cat_TableIndex r \<noteq> NoTable"
    | (del) "\<not> cat_IsAdd r" by blast
  then show ?case
  proof cases
    case new
    with 7 obtain i where i: "freeIdx (NoTable # map fst (rv_tab v)) = Some i" "rep = ClassifyAddDelTableReply i"
      and v': "v' = v\<lparr>rv_tab := gm_put i (cat_SkipNVectors r, cat_MatchNVectors r, cat_Mask r) (rv_tab v),
                 rv_ses := filter (\<lambda>((t, _), _). t \<noteq> i) (rv_ses v),
                 rv_next := gm_put i (cat_NextTableIndex r) (rv_next v)\<rparr>"
      by (auto split: option.splits)
    have "i \<noteq> NoTable" "gm_get (rv_tab v) i = None"
      using freeIdx_free [OF i(1)] by (auto simp: map_of_eq_None_iff)
    moreover have "(\<lambda>t k. gm_get (filter (\<lambda>((t, _), _). t \<noteq> i) (rv_ses v)) (t, k))
        = (\<lambda>t k. gm_get (rv_ses v) (t, k))(i := Map.empty)"
      by (rule ext, rule ext) (simp add: filter_ses_get)
    moreover have "(\<lambda>t. hitOf (gm_get (gm_put i x (rv_next v)) t)) = (\<lambda>t. hitOf (gm_get (rv_next v) t))(i := x)" for x
      by (rule ext) (simp add: gm_simps hitOf_def)
    ultimately show ?thesis
      using new by (simp add: i(2) v' ref_view_def gm_get_put)
  next
    case link
    have "(\<lambda>t. hitOf (gm_get (gm_put i x (rv_next v)) t)) = (\<lambda>t. hitOf (gm_get (rv_next v) t))(i := x)" for i x
      by (rule ext) (simp add: gm_simps hitOf_def)
    with link 7 show ?thesis by (auto simp: ref_view_def)
  next
    case del
    with 7 show ?thesis by (auto simp: ref_view_def gm_simps)
  qed
next
  case (11 t v)
  then show ?case
    using ref_dump_ses [of t "rv_ses v"]
    by (auto simp: ref_view_def clearjunk_mem [symmetric] image_iff split_beta)
next
  case (14 fam v)
  then show ?case
    using ref_dump_bnd [of fam "rv_bnd v"]
    by (auto simp: ref_view_def clearjunk_mem [symmetric] image_iff split_beta)
next
  case (15 v)
  have "(\<exists>d \<in> set (map (\<lambda>(n, i, fl). \<lparr>sid_InterfaceName = n, sid_SwIfIndex = i, sid_Flags = fl\<rparr>)
      (AList.clearjunk (rv_ifs v))). sid_InterfaceName d = n \<and> sid_SwIfIndex d = i) \<longleftrightarrow>
      (\<exists>fl. (n, i, fl) \<in> set (AList.clearjunk (rv_ifs v)))" for n i
    by force
  with 15 show ?case by (auto simp: ref_view_def clearjunk_mem)
qed (auto simp: ref_view_def gm_simps fun_eq_iff ref_update dom_map_of_conv_image_fst Let_def
      split: option.splits if_splits)

lemma ref_channel_read: "vpp_read req \<Longrightarrow> ref_channel req v = (x, v') \<Longrightarrow> v' = v"
  by (induction req v rule: ref_channel.induct) (auto split: option.splits prod.splits)

interpretation ref: vpp_channel ref_channel ref_view
  by unfold_locales (rule ref_channel_ok, assumption, metis ref_channel_read)

end
