(* ===== verification/Reconcile.thy ===== *)
theory Reconcile
  imports Classify_Diff Vpp_Ref
begin

text \<open>
  \<open>internal/agent/reconcile.go\<close>: the full reconcile pass. Each stage is one definition, composed by
  \<open>Reconcile\<close> in the order of the code; loops over Go maps take their order as an argument, and the
  record \<open>range_orders\<close> collects the orders of one pass.
\<close>

subsection \<open>Results and counters\<close>

record Result =
  res_PolicersAdded :: int
  res_PolicersUpdated :: int
  res_PolicersDeleted :: int
  res_SessionsAdded :: int
  res_SessionsDeleted :: int
  res_SessionsMoved :: int
  res_BindingsChanged :: int
  res_PolicersActual :: int
  res_SessionsActual :: int

definition Result_zero :: Result where
  "Result_zero =
     \<lparr>res_PolicersAdded = 0, res_PolicersUpdated = 0, res_PolicersDeleted = 0, res_SessionsAdded = 0,
      res_SessionsDeleted = 0, res_SessionsMoved = 0, res_BindingsChanged = 0, res_PolicersActual = 0,
      res_SessionsActual = 0\<rparr>"

definition Empty :: "Result \<Rightarrow> bool" where
  "Empty r \<longleftrightarrow>
     res_PolicersAdded r = 0 \<and> res_PolicersUpdated r = 0 \<and> res_PolicersDeleted r = 0 \<and>
     res_SessionsAdded r = 0 \<and> res_SessionsDeleted r = 0 \<and> res_SessionsMoved r = 0 \<and>
     res_BindingsChanged r = 0"

definition Total :: "Result \<Rightarrow> int" where
  "Total r =
     res_PolicersAdded r + res_PolicersUpdated r + res_PolicersDeleted r + res_SessionsAdded r +
     res_SessionsDeleted r + res_SessionsMoved r + res_BindingsChanged r"

record policerCounts =
  pcn_added :: int
  pcn_updated :: int
  pcn_deleted :: int

record classifyCounts =
  ccn_added :: int
  ccn_deleted :: int
  ccn_moved :: int

record range_orders =
  ro_relearn :: "MaskKind list \<Rightarrow> MaskKind list"
  ro_polDel :: "string list \<Rightarrow> string list"
  ro_polAdd :: "string list \<Rightarrow> string list"
  ro_wants :: "MaskKind list \<Rightarrow> MaskKind list"
  ro_prune :: "MaskKind list \<Rightarrow> MaskKind list"
  ro_head4 :: "MaskKind list \<Rightarrow> MaskKind list"
  ro_head6 :: "MaskKind list \<Rightarrow> MaskKind list"
  ro_count :: "MaskKind list \<Rightarrow> MaskKind list"
  ro_hash :: "string list \<Rightarrow> string list"

subsection \<open>Policers\<close>

definition policerDrifted :: "PolicerSpec \<Rightarrow> PolicerInfo \<Rightarrow> bool" where
  "policerDrifted spec cur \<longleftrightarrow> ucast (ps_CIR spec) \<noteq> pi_CIR cur \<or> ps_CommittedBurstBytes spec \<noteq> pi_CB cur"

definition deleteOrphanPolicer :: "'v policerReconciler \<Rightarrow> (string, PolicerSpec) gomap \<Rightarrow> string \<Rightarrow> policerCounts \<Rightarrow>
    (Reconciler \<times> 'v, policerCounts) act" where
  "deleteOrphanPolicer p desiredByName name cnt =
     (if gm_get desiredByName name \<noteq> None then ret cnt
      else andThen (onV (pr_DeleteByName p name)) (\<lambda>_.
           andThen (modR (delIdx name)) (\<lambda>_. ret (cnt\<lparr>pcn_deleted := pcn_deleted cnt + 1\<rparr>))))"

definition upsertPolicer :: "'v policerReconciler \<Rightarrow> (string, PolicerInfo) gomap \<Rightarrow> (string, PolicerSpec) gomap \<Rightarrow>
    string \<Rightarrow> policerCounts \<Rightarrow> (Reconciler \<times> 'v, policerCounts) act" where
  "upsertPolicer p actualByName desiredByName name cnt =
     (case gm_get desiredByName name of None \<Rightarrow> ret cnt | Some spec \<Rightarrow>
      case gm_get actualByName name of
        None \<Rightarrow> andThen (onV (pr_Add p spec)) (\<lambda>idx. andThen (modR (putIdx name idx))
                  (\<lambda>_. ret (cnt\<lparr>pcn_added := pcn_added cnt + 1\<rparr>)))
      | Some cur \<Rightarrow> andThen (getR (\<lambda>r. gm_get (rc_polIdx r) name)) (\<lambda>known. case known of
          None \<Rightarrow> andThen (onV (pr_DeleteByName p name)) (\<lambda>_. andThen (onV (pr_Add p spec)) (\<lambda>newIdx.
                    andThen (modR (putIdx name newIdx)) (\<lambda>_. ret (cnt\<lparr>pcn_updated := pcn_updated cnt + 1\<rparr>))))
        | Some idx \<Rightarrow>
            (if policerDrifted spec cur
             then andThen (onV (pr_Update p idx spec)) (\<lambda>_. ret (cnt\<lparr>pcn_updated := pcn_updated cnt + 1\<rparr>))
             else ret cnt)))"

definition reconcilePolicers :: "contract_fns \<Rightarrow> (string list \<Rightarrow> string list) \<Rightarrow> (string list \<Rightarrow> string list) \<Rightarrow>
    'v policerReconciler \<Rightarrow> PolicerSpec list \<Rightarrow> (Reconciler \<times> 'v, policerCounts) act" where
  "reconcilePolicers c ordDel ordAdd p desired =
     (let desiredByName = gm_collect ps_Name (\<lambda>s. s) desired in
      andThen (onV (pr_Dump p)) (\<lambda>actual.
        let actualByName = gm_collect pi_Name (\<lambda>a. a)
              (filter (\<lambda>a. ParsePolicerName c (pi_Name a) \<noteq> None) actual)
        in andThen (forEach (ordDel (gm_keys actualByName)) (deleteOrphanPolicer p desiredByName)
                      \<lparr>pcn_added = 0, pcn_updated = 0, pcn_deleted = 0\<rparr>)
             (forEach (ordAdd (gm_keys desiredByName)) (upsertPolicer p actualByName desiredByName))))"

subsection \<open>Sessions\<close>

definition deleteKeys :: "'v classifyReconciler \<Rightarrow> u32 \<Rightarrow> MaskKind \<Rightarrow> bytes list \<Rightarrow> classifyCounts \<Rightarrow>
    (Reconciler \<times> 'v, classifyCounts) act" where
  "deleteKeys cl table mk =
     (\<lambda>keys. forEach keys (\<lambda>k cnt. andThen (onV (cl_DelSessionByKey cl table mk k))
        (\<lambda>_. ret (cnt\<lparr>ccn_deleted := ccn_deleted cnt + 1\<rparr>))))"

definition upsertWants :: "'v classifyReconciler \<Rightarrow> u32 \<Rightarrow> sessionWant list \<Rightarrow> (string, u32) gomap \<Rightarrow> classifyCounts \<Rightarrow>
    (Reconciler \<times> 'v, classifyCounts) act" where
  "upsertWants cl table wants actualHit cnt = (\<lambda>(r, v).
     case applySessionUpserts cl table wants actualHit (0, 0) v of
       ((Some e, _, _), v') \<Rightarrow> (Inl e, (r, v'))
     | ((None, a, m), v') \<Rightarrow>
         (Inr (cnt\<lparr>ccn_added := ccn_added cnt + a, ccn_moved := ccn_moved cnt + m\<rparr>), (r, v')))"

text \<open>The body of the loop over the masks of the desired sessions.\<close>

definition reconcileMask :: "contract_fns \<Rightarrow> 'v classifyReconciler \<Rightarrow> (MaskKind, sessionWant list) gomap \<Rightarrow> MaskKind \<Rightarrow>
    (MaskKind, u32) gomap \<times> classifyCounts \<Rightarrow> (Reconciler \<times> 'v, (MaskKind, u32) gomap \<times> classifyCounts) act" where
  "reconcileMask c cl byMask mk = (\<lambda>(tables, cnt).
     let wants = getWants byMask mk in
     andThen (ensureTable cl tables mk) (\<lambda>(table, tables').
     andThen (onV (cl_DumpSessions cl table)) (\<lambda>actual.
       let mapKey = (\<lambda>s. sessionMapKey c mk (EncodeToString (si_Match s)));
           actualHit = gm_collect mapKey si_HitNextIndex actual;
           wantKeys = map sw_key wants
       in andThen (deleteKeys cl table mk (map si_Match (filter (\<lambda>s. mapKey s \<notin> set wantKeys) actual)) cnt)
          (\<lambda>cnt1. andThen (upsertWants cl table wants actualHit cnt1) (\<lambda>cnt2. ret (tables', cnt2))))))"

text \<open>The body of the loop that prunes the tables of masks no desired session uses.\<close>

definition pruneMask :: "'v classifyReconciler \<Rightarrow> (MaskKind, sessionWant list) gomap \<Rightarrow> (MaskKind, u32) gomap \<Rightarrow> MaskKind \<Rightarrow>
    classifyCounts \<Rightarrow> (Reconciler \<times> 'v, classifyCounts) act" where
  "pruneMask cl byMask tables mk cnt =
     (case gm_get tables mk of None \<Rightarrow> ret cnt | Some table \<Rightarrow>
      if gm_get byMask mk \<noteq> None then ret cnt
      else andThen (onV (cl_DumpSessions cl table)) (\<lambda>actual. deleteKeys cl table mk (map si_Match actual) cnt))"

definition reconcileClassify :: "contract_fns \<Rightarrow> (MaskKind list \<Rightarrow> MaskKind list) \<Rightarrow> (MaskKind list \<Rightarrow> MaskKind list) \<Rightarrow>
    'v classifyReconciler \<Rightarrow> ClassifySession list \<Rightarrow> (Reconciler \<times> 'v, classifyCounts) act" where
  "reconcileClassify c ordW ordP cl desired =
     andThen (onV (cl_FindTablesByMask cl)) (\<lambda>tables.
     andThen (buildSessionWants c desired) (\<lambda>byMask.
     andThen (forEach (ordW (gm_keys byMask)) (reconcileMask c cl byMask)
                (tables, \<lparr>ccn_added = 0, ccn_deleted = 0, ccn_moved = 0\<rparr>)) (\<lambda>(tables', cnt).
       forEach (ordP (gm_keys tables')) (pruneMask cl byMask tables') cnt)))"

subsection \<open>Interface bindings\<close>

fun maskFamily :: "MaskKind \<Rightarrow> Family" where
  "maskFamily MaskIP6Dst128 = FamilyIPv6"
| "maskFamily MaskIP6Src128 = FamilyIPv6"
| "maskFamily _ = FamilyIPv4"

fun linkChain :: "'v channel \<Rightarrow> u32 list \<Rightarrow> ('v, unit) act" where
  "linkChain ch [] = ret ()"
| "linkChain ch [t] = LinkTable ch t NoTable"
| "linkChain ch (t # u # ts) = andThen (LinkTable ch t u) (\<lambda>_. linkChain ch (u # ts))"

definition familyHead :: "(MaskKind list \<Rightarrow> MaskKind list) \<Rightarrow> 'v channel \<Rightarrow> (MaskKind, u32) gomap \<Rightarrow> Family \<Rightarrow> ('v, u32) act" where
  "familyHead ord ch tables fam =
     (let ts = map (\<lambda>mk. the (gm_get tables mk)) (filter (\<lambda>mk. maskFamily mk = fam) (ord (gm_keys tables)))
      in case ts of [] \<Rightarrow> ret NoTable | [t] \<Rightarrow> ret t
         | _ \<Rightarrow> (let ss = sort ts in andThen (linkChain ch ss) (\<lambda>_. ret (hd ss))))"

definition bindingMap :: "'v channel \<Rightarrow> Family \<Rightarrow> ('v, (u32, u32) gomap) act" where
  "bindingMap ch fam =
     andThen (DumpPolicerClassify ch fam) (\<lambda>att. ret (gm_collect pca_SwIfIndex pca_TableIndex att))"

definition tableOr :: "(u32, u32) gomap \<Rightarrow> u32 \<Rightarrow> u32" where
  "tableOr m sw = (case gm_get m sw of Some t \<Rightarrow> t | None \<Rightarrow> NoTable)"

definition bindFamily :: "'v channel \<Rightarrow> Family \<Rightarrow> u32 \<Rightarrow> u32 \<Rightarrow> u32 \<Rightarrow> ('v, unit) act" where
  "bindFamily ch fam sw cur head =
     (if cur = head then ret ()
      else (let (t, add) = (if head = NoTable then (cur, False) else (head, True))
            in case fam of FamilyIPv4 \<Rightarrow> SetPolicerInterface ch sw t NoTable add
               | FamilyIPv6 \<Rightarrow> SetPolicerInterface ch sw NoTable t add))"

definition bindIface :: "'v channel \<Rightarrow> (u32, u32) gomap \<Rightarrow> (u32, u32) gomap \<Rightarrow> (string, u32) gomap \<Rightarrow> u32 \<Rightarrow> u32 \<Rightarrow>
    string \<Rightarrow> int \<Rightarrow> ('v, int) act" where
  "bindIface ch bound4 bound6 idxByName head4 head6 name changed =
     (let sw = (case gm_get idxByName name of Some i \<Rightarrow> i | None \<Rightarrow> 0);
          c4 = tableOr bound4 sw; c6 = tableOr bound6 sw
      in if c4 = head4 \<and> c6 = head6 then ret changed
         else andThen (bindFamily ch FamilyIPv4 sw c4 head4) (\<lambda>_.
              andThen (bindFamily ch FamilyIPv6 sw c6 head6) (\<lambda>_. ret (changed + 1))))"

definition resolveIfaces :: "'v channel \<Rightarrow> string list \<Rightarrow> ('v, (string, u32) gomap) act" where
  "resolveIfaces ch names = (\<lambda>v. case IndexMap ch names v of
     ((_, Some e), v') \<Rightarrow> (Inl e, v') | ((m, None), v') \<Rightarrow> (Inr m, v'))"

definition reconcileBindings :: "(MaskKind list \<Rightarrow> MaskKind list) \<Rightarrow> (MaskKind list \<Rightarrow> MaskKind list) \<Rightarrow> 'v channel \<Rightarrow>
    string list \<Rightarrow> ('v, int) act" where
  "reconcileBindings ord4 ord6 ch policerIfaces =
     (if policerIfaces = [] then ret 0
      else andThen (FindTablesByMask ch) (\<lambda>tables.
           andThen (familyHead ord4 ch tables FamilyIPv4) (\<lambda>ip4Head.
           andThen (familyHead ord6 ch tables FamilyIPv6) (\<lambda>ip6Head.
           andThen (bindingMap ch FamilyIPv4) (\<lambda>bound4.
           andThen (bindingMap ch FamilyIPv6) (\<lambda>bound6.
           andThen (resolveIfaces ch policerIfaces) (\<lambda>idxByName.
             forEach policerIfaces (bindIface ch bound4 bound6 idxByName ip4Head ip6Head) 0)))))))"

subsection \<open>Counting and relearning\<close>

definition countProgrammed :: "contract_fns \<Rightarrow> (MaskKind list \<Rightarrow> MaskKind list) \<Rightarrow> 'v policerReconciler \<Rightarrow>
    'v classifyReconciler \<Rightarrow> ('v, int \<times> int) act" where
  "countProgrammed c ord p cl =
     andThen (pr_Dump p) (\<lambda>pols.
     andThen (cl_FindTablesByMask cl) (\<lambda>tables.
     andThen (forEach (ord (gm_keys tables)) (\<lambda>mk n.
        andThen (cl_DumpSessions cl (the (gm_get tables mk))) (\<lambda>ss. ret (n + int (length ss)))) 0)
       (\<lambda>sessions. ret (int (length (filter (\<lambda>a. ParsePolicerName c (pi_Name a) \<noteq> None) pols)), sessions))))"

definition dumpAllTables :: "(MaskKind list \<Rightarrow> MaskKind list) \<Rightarrow> 'v classifyReconciler \<Rightarrow> (MaskKind, u32) gomap \<Rightarrow>
    ('v, (MaskKind, (string, u32) gomap) gomap) act" where
  "dumpAllTables ord cl tables =
     forEach (ord (gm_keys tables)) (\<lambda>mk actual.
        andThen (cl_DumpSessions cl (the (gm_get tables mk))) (\<lambda>ss.
          ret (gm_put mk (gm_collect (\<lambda>s. EncodeToString (si_Match s)) si_HitNextIndex ss) actual))) []"

definition relearnSession :: "(MaskKind, (string, u32) gomap) gomap \<Rightarrow> ClassifySession \<Rightarrow> Reconciler \<Rightarrow> Reconciler" where
  "relearnSession actual s r =
     (if gm_get (rc_polIdx r) (cs_PolicerName s) \<noteq> None then r
      else case SessionKey (cs_Mask s) (cs_Prefix s) of Inl _ \<Rightarrow> r
      | Inr key \<Rightarrow>
          (case gm_get actual (cs_Mask s) of None \<Rightarrow> r
           | Some m \<Rightarrow> (case gm_get m (EncodeToString key) of None \<Rightarrow> r
              | Some hit \<Rightarrow> putIdx (cs_PolicerName s) hit r)))"

definition relearnPolicerIndexes :: "(MaskKind list \<Rightarrow> MaskKind list) \<Rightarrow> 'v classifyReconciler \<Rightarrow> PolicerSpec list \<Rightarrow>
    ClassifySession list \<Rightarrow> (Reconciler \<times> 'v, unit) act" where
  "relearnPolicerIndexes ord cl policers sessions =
     andThen (getR (\<lambda>r. list_all (\<lambda>p. gm_get (rc_polIdx r) (ps_Name p) \<noteq> None) policers)) (\<lambda>allKnown.
       if allKnown then ret ()
       else andThen (onV (cl_FindTablesByMask cl)) (\<lambda>tables.
            andThen (onV (dumpAllTables ord cl tables)) (\<lambda>actual.
              modR (fold (relearnSession actual) sessions))))"

fun distinct_pools :: "contract_fns \<Rightarrow> string list \<Rightarrow> PoolID list \<Rightarrow> PoolID list" where
  "distinct_pools c [] ids = ids"
| "distinct_pools c (n # ns) ids =
     (case ParsePolicerName c n of None \<Rightarrow> distinct_pools c ns ids
      | Some (pool, _) \<Rightarrow> (if pool \<in> set ids then distinct_pools c ns ids else distinct_pools c ns (ids @ [pool])))"

definition recomputePoolHash :: "contract_fns \<Rightarrow> (string list \<Rightarrow> string list) \<Rightarrow> Reconciler \<Rightarrow> Reconciler" where
  "recomputePoolHash c ord r =
     r\<lparr>rc_poolHash := PoolSetHash c (distinct_pools c (ord (gm_keys (rc_polIdx r))) [])\<rparr>"

definition InstalledPoolHash :: "Reconciler \<Rightarrow> u64" where
  "InstalledPoolHash r = rc_poolHash r"

definition LastAppliedGeneration :: "Reconciler \<Rightarrow> u64" where
  "LastAppliedGeneration r = rc_lastGen r"

definition PolicerIndexes :: "Reconciler \<Rightarrow> (string, u32) gomap" where
  "PolicerIndexes r = (case rc_polSnap r of None \<Rightarrow> [] | Some m \<Rightarrow> m)"

definition ActualCounts :: "Reconciler \<Rightarrow> int \<times> int \<times> bool" where
  "ActualCounts r = (rc_actPol r, rc_actSess r, rc_actAnchored r)"

subsection \<open>The pass\<close>

text \<open>\<open>stage\<close> is the \<open>if err != nil { return res, err }\<close> after each step of the pass: an error returns the
  result collected so far, next to the error.\<close>

definition stage :: "('s, 'a) act \<Rightarrow> Result \<Rightarrow> ('a \<Rightarrow> 's \<Rightarrow> (Result \<times> error option) \<times> 's) \<Rightarrow> 's \<Rightarrow> (Result \<times> error option) \<times> 's" where
  "stage m res k s = (case m s of (Inl e, s') \<Rightarrow> ((res, Some e), s') | (Inr a, s') \<Rightarrow> k a s')"

definition desiredEmpty :: "EdgeDesiredState \<Rightarrow> bool" where
  "desiredEmpty desired \<longleftrightarrow> es_Policers desired = [] \<and> es_ClassifySessions desired = []"

text \<open>The end of a successful pass: the attested counts (an error there only skips them), the snapshot
  for the metering loop, the applied generation and the installed pool-set hash.\<close>

definition anchorCounts :: "int \<times> int \<Rightarrow> Reconciler \<Rightarrow> Reconciler" where
  "anchorCounts n r = r\<lparr>rc_actPol := fst n, rc_actSess := snd n, rc_actAnchored := True\<rparr>"

definition finishPass :: "contract_fns \<Rightarrow> (string list \<Rightarrow> string list) \<Rightarrow> EdgeDesiredState \<Rightarrow> Reconciler \<Rightarrow> Reconciler" where
  "finishPass c ord desired r =
     recomputePoolHash c ord
       (r\<lparr>rc_polSnap := Some (rc_polIdx r), rc_lastGen := es_Generation desired,
         rc_appliedNonEmpty := \<not> desiredEmpty desired\<rparr>)"

definition attestPass :: "contract_fns \<Rightarrow> range_orders \<Rightarrow> 'v channel \<Rightarrow> EdgeDesiredState \<Rightarrow> Result \<Rightarrow>
    Reconciler \<times> 'v \<Rightarrow> (Result \<times> error option) \<times> (Reconciler \<times> 'v)" where
  "attestPass c ro ch desired res = (\<lambda>(r, v).
     case countProgrammed c (ro_count ro) (NewPolicers c ch) (NewClassify ch) v of
       (Inl _, v') \<Rightarrow> ((res, None), (finishPass c (ro_hash ro) desired r, v'))
     | (Inr n, v') \<Rightarrow> ((res\<lparr>res_PolicersActual := fst n, res_SessionsActual := snd n\<rparr>, None),
                       (finishPass c (ro_hash ro) desired (anchorCounts n r), v')))"

definition applyPass :: "contract_fns \<Rightarrow> range_orders \<Rightarrow> 'v channel \<Rightarrow> EdgeDesiredState \<Rightarrow>
    Reconciler \<times> 'v \<Rightarrow> (Result \<times> error option) \<times> (Reconciler \<times> 'v)" where
  "applyPass c ro ch desired =
     stage (relearnPolicerIndexes (ro_relearn ro) (NewClassify ch) (es_Policers desired) (es_ClassifySessions desired))
       Result_zero (\<lambda>_.
     stage (reconcilePolicers c (ro_polDel ro) (ro_polAdd ro) (NewPolicers c ch) (es_Policers desired))
       Result_zero (\<lambda>pr. let res1 = Result_zero\<lparr>res_PolicersAdded := pcn_added pr, res_PolicersUpdated := pcn_updated pr,
                                   res_PolicersDeleted := pcn_deleted pr\<rparr> in
     stage (reconcileClassify c (ro_wants ro) (ro_prune ro) (NewClassify ch) (es_ClassifySessions desired))
       res1 (\<lambda>cr. let res2 = res1\<lparr>res_SessionsAdded := ccn_added cr, res_SessionsDeleted := ccn_deleted cr,
                                   res_SessionsMoved := ccn_moved cr\<rparr> in
     stage (andThen (getR rc_policerIfaces) (\<lambda>ifs. onV (reconcileBindings (ro_head4 ro) (ro_head6 ro) ch ifs)))
       res2 (\<lambda>bc. attestPass c ro ch desired (res2\<lparr>res_BindingsChanged := bc\<rparr>)))))"

text \<open>\<open>Reconcile\<close>: \<open>chan\<close> is the result of \<open>r.conn.Channel()\<close>.\<close>

definition Reconcile :: "contract_fns \<Rightarrow> range_orders \<Rightarrow> error + 'v channel \<Rightarrow> EdgeDesiredState \<Rightarrow>
    Reconciler \<times> 'v \<Rightarrow> (Result \<times> error option) \<times> (Reconciler \<times> 'v)" where
  "Reconcile c ro chan desired = (\<lambda>(r, v).
     if desiredEmpty desired \<and> rc_appliedNonEmpty r \<and> \<not> rc_pendingEmpty r
     then ((Result_zero, None), (r\<lparr>rc_pendingEmpty := True\<rparr>, v))
     else (let r1 = r\<lparr>rc_pendingEmpty := False\<rparr> in
       case chan of Inl e \<Rightarrow> ((Result_zero, Some e), (r1, v))
       | Inr ch \<Rightarrow> applyPass c ro ch desired (r1, v)))"

subsection \<open>The loop's operations\<close>

definition Reset :: "Reconciler \<Rightarrow> Reconciler" where
  "Reset r = r\<lparr>rc_polIdx := []\<rparr>"

definition SetPolicerInterfaces :: "string list \<Rightarrow> Reconciler \<Rightarrow> Reconciler" where
  "SetPolicerInterfaces names r = r\<lparr>rc_policerIfaces := names\<rparr>"

definition Wake :: "Reconciler \<Rightarrow> Reconciler" where
  "Wake r = r\<lparr>rc_wake := True\<rparr>"

definition deltaQ_cap :: nat where
  "deltaQ_cap = 64"

definition SubmitDelta :: "EdgeDesiredDelta \<Rightarrow> Reconciler \<Rightarrow> Reconciler" where
  "SubmitDelta d r =
     (if length (rc_deltaQ r) < deltaQ_cap then r\<lparr>rc_deltaQ := rc_deltaQ r @ [d]\<rparr>
      else r\<lparr>rc_deltasDropped := rc_deltasDropped r + 1\<rparr>)"

definition DeltasDropped :: "Reconciler \<Rightarrow> u64" where
  "DeltasDropped r = rc_deltasDropped r"

definition Busy :: "Reconciler \<Rightarrow> bool" where
  "Busy r \<longleftrightarrow> rc_applying r \<or> rc_deltaQ r \<noteq> []"

text \<open>\<open>New\<close>: the sizes come from \<open>classifyAutoSizing\<close>.\<close>

definition New :: "u32 \<Rightarrow> u32 \<Rightarrow> Reconciler" where
  "New nb mem =
     \<lparr>rc_polIdx = [], rc_classifyNbuckets = nb, rc_classifyMem = mem, rc_polSnap = None, rc_actPol = 0,
      rc_actSess = 0, rc_actAnchored = False, rc_wake = False, rc_deltaQ = [], rc_deltasDropped = 0,
      rc_applying = False, rc_policerIfaces = [], rc_lastGen = 0, rc_appliedNonEmpty = False,
      rc_pendingEmpty = False, rc_poolHash = 0\<rparr>"

text \<open>One pass of the loop. \<open>provider\<close> is \<open>DesiredStore.Desired\<close>; the observers are told the desired state,
  the result and the error, in order, and one that panics is skipped: what they are told is the
  returned notification.\<close>

definition runOnce :: "contract_fns \<Rightarrow> range_orders \<Rightarrow> error + 'v channel \<Rightarrow> EdgeDesiredState option \<Rightarrow>
    Reconciler \<times> 'v \<Rightarrow> (EdgeDesiredState \<times> Result \<times> error option) option \<times> (Reconciler \<times> 'v)" where
  "runOnce c ro chan provided = (\<lambda>(r, v).
     case provided of
       None \<Rightarrow> (None, (r\<lparr>rc_applying := False\<rparr>, v))
     | Some desired \<Rightarrow>
         (case Reconcile c ro chan desired (r\<lparr>rc_applying := True\<rparr>, v) of
            ((res, err), (r', v')) \<Rightarrow> (Some (desired, res, err), (r'\<lparr>rc_applying := False\<rparr>, v'))))"

subsection \<open>Sessions converge\<close>

text \<open>The sessions desired of one table: the sessions of its mask, each pointing at the index of its
  policer.\<close>

definition sessions_ok :: "ClassifySession list \<Rightarrow> bool" where
  "sessions_ok desired \<longleftrightarrow>
     (\<forall>s \<in> set desired. \<forall>k. SessionKey (cs_Mask s) (cs_Prefix s) = Inr k \<longrightarrow> storedKey (cs_Mask s) k = k) \<and>
     (\<forall>s \<in> set desired. \<forall>s' \<in> set desired. cs_Mask s = cs_Mask s' \<and> pfx_Addr (cs_Prefix s) = pfx_Addr (cs_Prefix s')
        \<longrightarrow> cs_PolicerName s = cs_PolicerName s')"

definition sessionMap :: "(string, u32) gomap \<Rightarrow> ClassifySession list \<Rightarrow> MaskKind \<Rightarrow> bytes \<Rightarrow> u32 option" where
  "sessionMap idx desired mk =
     map_of (map (\<lambda>s. (projr (SessionKey mk (cs_Prefix s)), the (gm_get idx (cs_PolicerName s))))
               (filter (\<lambda>s. cs_Mask s = mk) desired))"

lemma wants_for_map: "wantMap (wants_for c idx desired mk) = sessionMap idx desired mk"
proof -
  have "map (\<lambda>w. (wantKey w, sw_hitNext w)) (wants_for c idx desired mk) =
      map (\<lambda>s. (projr (SessionKey mk (cs_Prefix s)), the (gm_get idx (cs_PolicerName s))))
               (filter (\<lambda>s. cs_Mask s = mk) desired)"
    by (simp add: wants_for_def want_of_def wantKey_def)
  then show ?thesis by (simp add: wantMap_def sessionMap_def)
qed

lemma wants_for_ok:
  assumes "sessions_ok desired" and "\<forall>s \<in> set desired. session_known idx s"
  shows "wants_ok mk (wants_for c idx desired mk)"
proof -
  have k: "\<exists>k. SessionKey (cs_Mask s) (cs_Prefix s) = Inr k \<and> storedKey (cs_Mask s) k = k" if "s \<in> set desired" for s
    using assms that unfolding sessions_ok_def session_known_def by blast
  have f: "cs_PolicerName s = cs_PolicerName s'"
    if "s \<in> set desired" "s' \<in> set desired" "cs_Mask s = mk" "cs_Mask s' = mk"
      "projr (SessionKey mk (cs_Prefix s)) = projr (SessionKey mk (cs_Prefix s'))" for s s'
  proof -
    from k [OF that(1)] k [OF that(2)] that(3-) have "pfx_Addr (cs_Prefix s) = pfx_Addr (cs_Prefix s')"
      by (metis SessionKey_inject sum.sel(2))
    with assms(1) that(1-4) show ?thesis unfolding sessions_ok_def by metis
  qed
  have "sw_mask w = mk \<and> SessionKey mk (sw_prefix w) = Inr (wantKey w) \<and> storedKey mk (wantKey w) = wantKey w"
    if "w \<in> set (wants_for c idx desired mk)" for w
    using that k by (auto simp: wants_for_def want_of_def wantKey_def dest!: k)
  moreover have "sw_hitNext w = sw_hitNext w'"
    if "w \<in> set (wants_for c idx desired mk)" "w' \<in> set (wants_for c idx desired mk)" "wantKey w = wantKey w'" for w w'
  proof -
    from that obtain s s' where "s \<in> set desired" "s' \<in> set desired" "cs_Mask s = mk" "cs_Mask s' = mk"
      "w = want_of c idx s" "w' = want_of c idx s'" by (auto simp: wants_for_def)
    with f [of s s'] that(3) show ?thesis by (simp add: want_of_def wantKey_def)
  qed
  ultimately show ?thesis unfolding wants_ok_def by blast
qed

context classify_api
begin

text \<open>Deleting keys of a table, each stored as it is.\<close>

lemma deleteKeys_ok:
  assumes "deleteKeys cl t mk keys cnt (r, v) = (Inr cnt', (r', v'))"
    and "table_of (vw v) mk t" and "\<forall>k \<in> set keys. storedKey mk k = k"
  shows "r' = r \<and> vw v' = setSes t (vv_ses (vw v) t |` (- set keys)) (vw v)"
proof -
  have "fst (r', v') = r \<and> vw (snd (r', v')) = setSes t (vv_ses (vw v) t |` (- set keys)) (vw v)"
    using assms(1) unfolding deleteKeys_def
  proof (rule forEach_inv [where I = "\<lambda>done _ s. fst s = r \<and> vw (snd s) = setSes t (vv_ses (vw v) t |` (- set done)) (vw v)"])
    fix "done" k rest c0 s0 c1 s1
    assume "keys = done @ k # rest" and I: "fst s0 = r \<and> vw (snd s0) = setSes t (vv_ses (vw v) t |` (- set done)) (vw v)"
      and b: "andThen (onV (cl_DelSessionByKey cl t mk k)) (\<lambda>_. ret (c0\<lparr>ccn_deleted := ccn_deleted c0 + 1\<rparr>)) s0 = (Inr c1, s1)"
    then have sk: "storedKey mk k = k" using assms(3) by simp
    obtain r0 v0 r1 v1 where s: "s0 = (r0, v0)" "s1 = (r1, v1)" by (cases s0; cases s1)
    with b obtain u where d: "cl_DelSessionByKey cl t mk k v0 = (Inr u, v1)" "r1 = r0"
      by (auto simp: andThen_split_Inr ret_def)
    have "table_of (vw v0) mk t" using I s assms(2) by simp
    from DelSession_set [OF d(1) this] have "vw v1 = setSes t ((vv_ses (vw v0) t)(k := None)) (vw v0)"
      by (simp only: sk)
    then show "fst s1 = r \<and> vw (snd s1) = setSes t (vv_ses (vw v) t |` (- set (done @ [k]))) (vw v)"
      using I s d(2) by (auto simp: restrict_map_def fun_eq_iff intro!: arg_cong [where f = "\<lambda>f. setSes t f (vw v)"])
  qed (simp add: restrict_map_def)
  then show ?thesis by simp
qed

lemma orphans_swept:
  fixes f :: "bytes \<Rightarrow> u32 option" and actual :: "SessionInfo list"
  assumes ok: "wants_ok mk ws" and key: "\<forall>w \<in> set ws. sw_key w = sessionMapKey c mk (EncodeToString (wantKey w))"
    and mem: "\<And>h k. \<lparr>si_HitNextIndex = h, si_Match = k\<rparr> \<in> set actual \<longleftrightarrow> f k = Some h"
    and orph: "orph = si_Match ` {s \<in> set actual. sessionMapKey c mk (EncodeToString (si_Match s)) \<notin> sw_key ` set ws}"
  shows "w \<in> set ws \<Longrightarrow> wantKey w \<notin> orph" and "(f |` (- orph)) ++ wantMap ws = wantMap ws"
proof -
  show "wantKey w \<notin> orph" if "w \<in> set ws" for w
  proof -
    have "sessionMapKey c mk (EncodeToString (wantKey w)) \<in> sw_key ` set ws" using that key by (metis imageI)
    then show ?thesis unfolding orph by auto
  qed
  have "((f |` (- orph)) ++ wantMap ws) k = wantMap ws k" for k
  proof (cases "k \<in> wantKey ` set ws")
    case True
    with wantMap_Some [OF ok] show ?thesis by (auto simp: map_add_def)
  next
    case False
    have "k \<in> orph" if "f k = Some h" for h
    proof -
      have "sessionMapKey c mk (EncodeToString k) \<notin> sw_key ` set ws"
        using False key by (auto simp: sessionMapKey_inject EncodeToString_inject)
      with mem [of h k] that show ?thesis unfolding orph by force
    qed
    then have "(f |` (- orph)) k = None" by (cases "f k") (auto simp: restrict_map_def)
    with wantMap_None [OF False] show ?thesis by (simp add: map_add_def)
  qed
  then show "(f |` (- orph)) ++ wantMap ws = wantMap ws" by blast
qed

lemma collected_hit:
  fixes f :: "bytes \<Rightarrow> u32 option" and actual :: "SessionInfo list"
  assumes key: "\<forall>w \<in> set ws. sw_key w = sessionMapKey c mk (EncodeToString (wantKey w))" and w: "w \<in> set ws"
    and mem: "\<And>x. x \<in> set actual \<Longrightarrow> f (si_Match x) = Some (si_HitNextIndex x)"
    and got: "gm_get (gm_collect (\<lambda>s. sessionMapKey c mk (EncodeToString (si_Match s))) si_HitNextIndex actual) (sw_key w) = Some h"
  shows "f (wantKey w) = Some h"
proof -
  from gm_collect_SomeD [OF got] obtain x where x: "x \<in> set actual" "sessionMapKey c mk (EncodeToString (si_Match x)) = sw_key w"
    "si_HitNextIndex x = h" by blast
  then have "si_Match x = wantKey w" using key w by (simp add: sessionMapKey_inject EncodeToString_inject)
  then show ?thesis using mem [OF x(1)] x(3) by simp
qed

lemma reconcileMask_ok:
  assumes run: "reconcileMask c cl byMask mk (tables, cnt) (r, v) = (Inr (tables', cnt'), (r', v'))"
    and full: "tabs_full (vw v) tables" and wf: "view_wf (vw v)"
    and ok: "wants_ok mk (getWants byMask mk)"
    and key: "\<forall>w \<in> set (getWants byMask mk). sw_key w = sessionMapKey c mk (EncodeToString (wantKey w))"
  shows "r' = r \<and> tabs_full (vw v') tables' \<and> view_wf (vw v') \<and> cls_frame (vw v) (vw v') \<and>
    (\<exists>t. table_of (vw v') mk t \<and> vv_ses (vw v') t = wantMap (getWants byMask mk)) \<and>
    (\<forall>mk' t'. mk' \<noteq> mk \<longrightarrow> table_of (vw v) mk' t' \<longrightarrow> vv_ses (vw v') t' = vv_ses (vw v) t') \<and>
    dom (gm_get tables') = insert mk (dom (gm_get tables))"
proof -
  let ?ws = "getWants byMask mk"
  let ?mapKey = "\<lambda>s. sessionMapKey c mk (EncodeToString (si_Match s))"
  from run obtain t r1 v1 actual r2 v2 cnt1 r3 v3 cnt2 where
    e: "ensureTable cl tables mk (r, v) = (Inr (t, tables'), (r1, v1))"
    and d: "cl_DumpSessions cl t v1 = (Inr actual, v2)" "r2 = r1"
    and del: "deleteKeys cl t mk (map si_Match (filter (\<lambda>s. ?mapKey s \<notin> sw_key ` set ?ws) actual)) cnt (r2, v2)
        = (Inr cnt1, (r3, v3))"
    and up: "upsertWants cl t ?ws (gm_collect ?mapKey si_HitNextIndex actual) cnt1 (r3, v3) = (Inr cnt2, (r', v'))"
    by (auto simp: reconcileMask_def andThen_split_Inr ret_def Let_def)
  note E = ensureTable_ok [OF e full wf]
  note D = DumpSessions [OF d(1)]
  let ?f = "vv_ses (vw v1) t"
  have mem: "\<lparr>si_HitNextIndex = h, si_Match = k\<rparr> \<in> set actual \<longleftrightarrow> ?f k = Some h" for h k using D by simp
  have memx: "?f (si_Match x) = Some (si_HitNextIndex x)" if "x \<in> set actual" for x :: SessionInfo
    using mem that by (cases x) simp
  have t2: "table_of (vw v2) mk t" and wf2: "view_wf (vw v2)" and V2: "vw v2 = vw v1" using E D by simp_all
  let ?orph = "set (map si_Match (filter (\<lambda>s. ?mapKey s \<notin> sw_key ` set ?ws) actual))"
  have "storedKey mk k = k" if "k \<in> ?orph" for k
    using that memx storedKey_installed [OF wf2 t2] V2 by auto
  with deleteKeys_ok [OF del t2] have r3: "r3 = r2" and V3: "vw v3 = setSes t (?f |` (- ?orph)) (vw v1)"
    by (simp_all add: V2)
  have orph: "?orph = si_Match ` {s \<in> set actual. ?mapKey s \<notin> sw_key ` set ?ws}" by simp
  note swept = orphans_swept [OF ok key mem orph]
  from up obtain am' where a: "applySessionUpserts cl t ?ws (gm_collect ?mapKey si_HitNextIndex actual) (0, 0) v3 = ((None, am'), v')"
    and r': "r' = r3"
    by (auto simp: upsertWants_def split: prod.splits option.splits)
  have "?f (wantKey w) = Some h" if "w \<in> set ?ws" "gm_get (gm_collect ?mapKey si_HitNextIndex actual) (sw_key w) = Some h" for w h
    using collected_hit [OF key that(1) memx that(2)] .
  with swept(1) have "vw v' = setSes t (vv_ses (vw v3) t ++ wantMap ?ws) (vw v3)"
    by (intro upserts_ok [OF a _ ok]) (use E in \<open>auto simp: V3 restrict_map_def\<close>)
  moreover note swept(2)
  ultimately have V': "vw v' = setSes t (wantMap ?ws) (vw v1)" by (simp add: V3)
  have key': "storedKey mk k = k" if "wantMap ?ws k = Some h" for k h
    using that wantMap_None [of k ?ws] wants_okD [OF ok] by force
  have "view_wf (vw v')"
    unfolding V' by (rule view_wf_setSes [where mk = mk]) (use E key' in auto)
  moreover have "t' \<noteq> t" if "mk' \<noteq> mk" "table_of (vw v) mk' t'" for mk' t'
    using that E table_of_unique_mask unfolding cls_frame_def by blast
  moreover have "cls_frame (vw v) (vw v')"
    unfolding V' using E cls_frame_trans cls_frame_setSes(1) by blast
  ultimately show ?thesis
    using E r' r3 d(2) by (auto simp: V')
qed

lemma pruneMask_ok:
  assumes run: "pruneMask cl byMask tables mk cnt (r, v) = (Inr cnt', (r', v'))"
    and full: "tabs_full (vw v) tables" and wf: "view_wf (vw v)"
  shows "r' = r \<and> tabs_full (vw v') tables \<and> view_wf (vw v') \<and> cls_frame (vw v) (vw v') \<and>
    (\<forall>mk' t'. table_of (vw v') mk' t' \<longrightarrow>
       vv_ses (vw v') t' = (if mk' = mk \<and> gm_get byMask mk = None then Map.empty else vv_ses (vw v) t'))"
proof (cases "gm_get tables mk = None \<or> gm_get byMask mk \<noteq> None")
  case True
  then have skip: "r' = r" "v' = v" using run by (auto simp: pruneMask_def ret_def split: option.splits)
  moreover have "\<not> table_of (vw v) mk t" if "gm_get tables mk = None" for t
    using that full unfolding tabs_full_def by (metis option.distinct(1))
  ultimately show ?thesis using True full wf by auto
next
  case False
  then obtain t where t: "gm_get tables mk = Some t" and n: "gm_get byMask mk = None" by auto
  with run obtain actual v1 where d: "cl_DumpSessions cl t v = (Inr actual, v1)"
    and del: "deleteKeys cl t mk (map si_Match actual) cnt (r, v1) = (Inr cnt', (r', v'))"
    by (auto simp: pruneMask_def andThen_split_Inr)
  note D = DumpSessions [OF d]
  have tab: "table_of (vw v1) mk t" and V1: "vw v1 = vw v" using t full D by (simp_all add: tabs_full_def)
  have mem: "vv_ses (vw v) t (si_Match x) = Some (si_HitNextIndex x)" if "x \<in> set actual" for x :: SessionInfo
    using D that by (cases x) simp
  have sk: "\<forall>k \<in> set (map si_Match actual). storedKey mk k = k"
    using storedKey_installed [OF wf, of mk t] tab mem by (auto simp: V1)
  have "vv_ses (vw v) t |` (- set (map si_Match actual)) = Map.empty"
  proof
    fix k
    show "(vv_ses (vw v) t |` (- set (map si_Match actual))) k = None"
      using D by (cases "vv_ses (vw v) t k") (force simp: restrict_map_def)+
  qed
  with deleteKeys_ok [OF del tab sk] have V': "vw v' = setSes t Map.empty (vw v)" and r': "r' = r"
    by (simp_all add: V1)
  have "view_wf (vw v')"
    unfolding V' by (rule view_wf_setSes [OF wf, where mk = mk]) (use tab V1 in auto)
  moreover have "t' = t \<longleftrightarrow> mk' = mk" if "table_of (vw v) mk' t'" for mk' t'
    using that tab V1 table_of_unique_mask [of "vw v"] one_tableD [OF tabs_full_one [OF full]] by metis
  ultimately show ?thesis
    using full r' n by (auto simp: V')
qed

lemma reconcileMasks_ok:
  assumes run: "forEach mks (reconcileMask c cl byMask) (tables, cnt) (r, v) = (Inr (tables', cnt'), (r', v'))"
    and full: "tabs_full (vw v) tables" and wf: "view_wf (vw v)" and dist: "distinct mks"
    and ok: "\<And>mk. mk \<in> set mks \<Longrightarrow> wants_ok mk (getWants byMask mk) \<and>
       (\<forall>w \<in> set (getWants byMask mk). sw_key w = sessionMapKey c mk (EncodeToString (wantKey w)))"
  shows "r' = r \<and> tabs_full (vw v') tables' \<and> view_wf (vw v') \<and> cls_frame (vw v) (vw v') \<and>
    (\<forall>mk \<in> set mks. \<exists>t. table_of (vw v') mk t \<and> vv_ses (vw v') t = wantMap (getWants byMask mk))"
proof -
  let ?I = "\<lambda>done tc s. fst s = r \<and> tabs_full (vw (snd s)) (fst tc) \<and> view_wf (vw (snd s)) \<and>
      cls_frame (vw v) (vw (snd s)) \<and>
      (\<forall>mk \<in> set done. \<exists>t. table_of (vw (snd s)) mk t \<and> vv_ses (vw (snd s)) t = wantMap (getWants byMask mk))"
  have "?I mks (tables', cnt') (r', v')"
    using run
  proof (rule forEach_inv [where I = ?I])
    fix "done" mk rest tc0 s0 tc1 s1
    assume mks: "mks = done @ mk # rest" and I: "?I done tc0 s0"
      and b: "reconcileMask c cl byMask mk tc0 s0 = (Inr tc1, s1)"
    obtain tb0 c0 tb1 c1 r0 v0 r1 v1 where s: "tc0 = (tb0, c0)" "tc1 = (tb1, c1)" "s0 = (r0, v0)" "s1 = (r1, v1)"
      by (cases tc0; cases tc1; cases s0; cases s1)
    have mk: "mk \<in> set mks" "mk \<notin> set done" using mks dist by auto
    note R = reconcileMask_ok [OF b [unfolded s]]
    from R I ok [OF mk(1)] have R1: "r1 = r0 \<and> tabs_full (vw v1) tb1 \<and> view_wf (vw v1) \<and> cls_frame (vw v0) (vw v1) \<and>
        (\<exists>t. table_of (vw v1) mk t \<and> vv_ses (vw v1) t = wantMap (getWants byMask mk)) \<and>
        (\<forall>mk' t'. mk' \<noteq> mk \<longrightarrow> table_of (vw v0) mk' t' \<longrightarrow> vv_ses (vw v1) t' = vv_ses (vw v0) t')"
      by (simp add: s)
    have "\<exists>t. table_of (vw v1) m t \<and> vv_ses (vw v1) t = wantMap (getWants byMask m)" if "m \<in> set done" for m
    proof -
      from I that s obtain t where "table_of (vw v0) m t" "vv_ses (vw v0) t = wantMap (getWants byMask m)" by auto
      with R1 that mk(2) show ?thesis unfolding cls_frame_def by metis
    qed
    with R1 I s cls_frame_trans [of "vw v" "vw v0" "vw v1"] show "?I (done @ [mk]) tc1 s1" by auto
  qed (use full wf in simp)
  then show ?thesis by simp
qed

lemma pruneMasks_ok:
  assumes run: "forEach mks (pruneMask cl byMask tables) cnt (r, v) = (Inr cnt', (r', v'))"
    and full: "tabs_full (vw v) tables" and wf: "view_wf (vw v)"
  shows "r' = r \<and> tabs_full (vw v') tables \<and> view_wf (vw v') \<and> cls_frame (vw v) (vw v') \<and>
    (\<forall>mk t. table_of (vw v') mk t \<longrightarrow>
       vv_ses (vw v') t = (if mk \<in> set mks \<and> gm_get byMask mk = None then Map.empty else vv_ses (vw v) t))"
proof -
  let ?I = "\<lambda>done (cnt :: classifyCounts) s. fst s = r \<and> tabs_full (vw (snd s)) tables \<and> view_wf (vw (snd s)) \<and> cls_frame (vw v) (vw (snd s)) \<and>
      (\<forall>mk t. table_of (vw (snd s)) mk t \<longrightarrow>
       vv_ses (vw (snd s)) t = (if mk \<in> set done \<and> gm_get byMask mk = None then Map.empty else vv_ses (vw v) t))"
  have "?I mks cnt' (r', v')"
    using run
  proof (rule forEach_inv [where I = ?I])
    fix "done" mk rest c0 s0 c1 s1
    assume I: "?I done c0 s0" and b: "pruneMask cl byMask tables mk c0 s0 = (Inr c1, s1)"
    obtain r0 v0 r1 v1 where s: "s0 = (r0, v0)" "s1 = (r1, v1)" by (cases s0; cases s1)
    note P = pruneMask_ok [OF b [unfolded s]]
    from I s have I0: "r0 = r" "tabs_full (vw v0) tables" "view_wf (vw v0)" "cls_frame (vw v) (vw v0)"
      and J: "\<And>mk t. table_of (vw v0) mk t \<Longrightarrow>
       vv_ses (vw v0) t = (if mk \<in> set done \<and> gm_get byMask mk = None then Map.empty else vv_ses (vw v) t)" by auto
    note P = pruneMask_ok [OF b [unfolded s] I0(2,3)]
    have prev: "table_of (vw v1) m t \<Longrightarrow> table_of (vw v0) m t" for m t
      using P I0(2) unfolding tabs_full_def by metis
    have "vv_ses (vw v1) t = (if m \<in> set (done @ [mk]) \<and> gm_get byMask m = None then Map.empty else vv_ses (vw v) t)"
      if "table_of (vw v1) m t" for m t
      using P that J [OF prev [OF that]] by auto
    with P I0 s cls_frame_trans [of "vw v" "vw v0" "vw v1"] show "?I (done @ [mk]) c1 s1" by simp
  qed (use full wf in simp)
  then show ?thesis by simp
qed

lemma wants_for_keys: "w \<in> set (wants_for c idx desired mk) \<Longrightarrow>
    sw_key w = sessionMapKey c mk (EncodeToString (wantKey w))"
  by (auto simp: wants_for_def want_of_def wantKey_def)

text \<open>A successful session stage leaves on every table exactly the desired sessions of its mask.\<close>

lemma reconcileClassify_ok:
  assumes run: "reconcileClassify c ordW ordP cl desired (r, v) = (Inr cnt, (r', v'))"
    and ords: "range_order ordW" "range_order ordP"
    and wf: "view_wf (vw v)" and one: "one_table (vw v)" and ok: "sessions_ok desired"
  shows "r' = r \<and> view_wf (vw v') \<and> one_table (vw v') \<and> cls_frame (vw v) (vw v') \<and>
    (\<forall>s \<in> set desired. session_known (rc_polIdx r) s \<and> (\<exists>t. table_of (vw v') (cs_Mask s) t)) \<and>
    (\<forall>mk t. table_of (vw v') mk t \<longrightarrow> vv_ses (vw v') t = sessionMap (rc_polIdx r) desired mk)"
proof -
  from run obtain tables v1 byMask r2 v2 tables' cnt1 r3 v3 where
    f: "cl_FindTablesByMask cl v = (Inr tables, v1)"
    and w: "buildSessionWants c desired (r, v1) = (Inr byMask, (r2, v2))"
    and m: "forEach (ordW (gm_keys byMask)) (reconcileMask c cl byMask)
        (tables, \<lparr>ccn_added = 0, ccn_deleted = 0, ccn_moved = 0\<rparr>) (r2, v2) = (Inr (tables', cnt1), (r3, v3))"
    and p: "forEach (ordP (gm_keys tables')) (pruneMask cl byMask tables') cnt1 (r3, v3) = (Inr cnt, (r', v'))"
    unfolding reconcileClassify_def andThen_split_Inr by (auto split: prod.splits)
  from FindTables_full [OF f one] have V1: "vw v1 = vw v" and full: "tabs_full (vw v) tables" by simp_all
  note B = buildSessionWants_Inr [OF w]
  have wok: "wants_ok mk (getWants byMask mk) \<and>
       (\<forall>w \<in> set (getWants byMask mk). sw_key w = sessionMapKey c mk (EncodeToString (wantKey w)))" for mk
    using B wants_for_ok [OF ok, of "rc_polIdx r" mk c] wants_for_keys by simp
  have V2: "vw v2 = vw v" using B V1 by simp
  have domB: "dom (gm_get byMask) = cs_Mask ` set desired" using B by (elim conjE)
  have keys: "set (gm_keys byMask) = cs_Mask ` set desired" using B gm_keys_dom by metis
  have "distinct (ordW (gm_keys byMask))" "set (ordW (gm_keys byMask)) = cs_Mask ` set desired"
    using B keys range_order.ord_distinct [OF ords(1)] range_order.ord_set [OF ords(1)] by auto
  then have M: "r3 = r2 \<and> tabs_full (vw v3) tables' \<and> view_wf (vw v3) \<and> cls_frame (vw v2) (vw v3) \<and>
      (\<forall>mk \<in> cs_Mask ` set desired. \<exists>t. table_of (vw v3) mk t \<and> vv_ses (vw v3) t = wantMap (getWants byMask mk))"
    using reconcileMasks_ok [OF m] full wf wok V2 by simp
  from M have M1: "tabs_full (vw v3) tables'" and M2: "view_wf (vw v3)" by simp_all
  note P = pruneMasks_ok [OF p M1 M2]
  from P have P1: "tabs_full (vw v') tables'" by simp
  have setP: "set (ordP (gm_keys tables')) = dom (gm_get tables')"
    unfolding range_order.ord_set [OF ords(2)] by (rule gm_keys_dom)
  have ses: "vv_ses (vw v') t = sessionMap (rc_polIdx r) desired mk" if t: "table_of (vw v') mk t" for mk t
  proof (cases "mk \<in> cs_Mask ` set desired")
    case True
    then obtain t0 where "table_of (vw v3) mk t0" "vv_ses (vw v3) t0 = wantMap (getWants byMask mk)" using M by blast
    moreover have "table_of (vw v3) mk t" using P1 M1 t unfolding tabs_full_def by blast
    ultimately have "vv_ses (vw v3) t = wantMap (getWants byMask mk)"
      using one_tableD [OF tabs_full_one [OF M1]] by blast
    moreover have "gm_get byMask mk \<noteq> None" using True unfolding domB [symmetric] domIff .
    ultimately show ?thesis using P M t B by (simp add: wants_for_map del: not_None_eq)
  next
    case False
    have "gm_get byMask mk = None" using False unfolding domB [symmetric] domIff by (rule notnotD)
    moreover have "gm_get tables' mk = Some t" using t P1 unfolding tabs_full_def by blast
    then have "mk \<in> dom (gm_get tables')" by (rule domI)
    moreover have "sessionMap (rc_polIdx r) desired mk = Map.empty"
    proof -
      have "filter (\<lambda>s. cs_Mask s = mk) desired = []" using False by (auto simp: filter_empty_conv)
      then show ?thesis by (simp add: sessionMap_def)
    qed
    ultimately show ?thesis using P M t by (simp add: setP)
  qed
  moreover have "\<exists>t. table_of (vw v') (cs_Mask s) t" if "s \<in> set desired" for s
    using M P that unfolding cls_frame_def by blast
  ultimately show ?thesis
    using B M P V2 tabs_full_one [of "vw v'" tables'] cls_frame_trans [of "vw v" "vw v3" "vw v'"] by auto
qed

end

subsection \<open>Policers converge\<close>

definition pol_frame :: "vpp_view \<Rightarrow> vpp_view \<Rightarrow> bool" where
  "pol_frame V V' \<longleftrightarrow> V' = V\<lparr>vv_pol := vv_pol V'\<rparr>"

text \<open>The tracked indices agree with VPP on the policers VPP has.\<close>

definition idx_ok :: "vpp_view \<Rightarrow> Reconciler \<Rightarrow> bool" where
  "idx_ok V r \<longleftrightarrow> (\<forall>n i j q. gm_get (rc_polIdx r) n = Some i \<longrightarrow> vv_pol V n = Some (j, q) \<longrightarrow> i = j)"

definition only_idx :: "Reconciler \<Rightarrow> Reconciler \<Rightarrow> bool" where
  "only_idx r r' \<longleftrightarrow> r' = r\<lparr>rc_polIdx := rc_polIdx r'\<rparr>"

text \<open>A policer is in place: VPP has it under the tracked index, with the rate it was configured with or
  one the drift check accepts.\<close>

definition pol_in_place :: "vpp_view \<Rightarrow> Reconciler \<Rightarrow> PolicerSpec \<Rightarrow> bool" where
  "pol_in_place V r s \<longleftrightarrow> (\<exists>i q. vv_pol V (ps_Name s) = Some (i, q) \<and> gm_get (rc_polIdx r) (ps_Name s) = Some i \<and>
     (q = installed_rate s \<or> q = (ucast (ps_CIR s), ps_CommittedBurstBytes s)))"

lemma pol_frame_refl [simp]: "pol_frame V V"
  by (simp add: pol_frame_def)

lemma pol_frame_upd [simp]: "pol_frame V (V\<lparr>vv_pol := m\<rparr>)"
  by (simp add: pol_frame_def)

lemma pol_frame_trans: "pol_frame U V \<Longrightarrow> pol_frame V W \<Longrightarrow> pol_frame U W"
  unfolding pol_frame_def by (cases U; cases V; cases W) simp

lemma only_idx_refl [simp]: "only_idx r r" "only_idx r (putIdx n i r)" "only_idx r (delIdx n r)"
  by (simp_all add: only_idx_def putIdx_def delIdx_def)

lemma only_idx_trans: "only_idx q r \<Longrightarrow> only_idx r s \<Longrightarrow> only_idx q s"
  unfolding only_idx_def by (cases q; cases r; cases s) simp

text \<open>Effects on well-formed views.\<close>

lemma view_wf_polAdd:
  assumes "view_wf V" and "i \<notin> fst ` ran (vv_pol V)"
  shows "view_wf (V\<lparr>vv_pol := (vv_pol V)(n \<mapsto> (i, q))\<rparr>)"
proof -
  have "j \<noteq> i" if "vv_pol V m = Some (j, q')" for m j q'
    using assms(2) ranI [of "vv_pol V" m "(j, q')"] that by (metis fst_conv image_eqI)
  with assms(1) show ?thesis unfolding view_wf_def by auto
qed

lemma view_wf_polDel: "view_wf V \<Longrightarrow> view_wf (V\<lparr>vv_pol := (vv_pol V)(n := None)\<rparr>)"
  unfolding view_wf_def by auto

lemma polUpdate_other:
  "view_wf V \<Longrightarrow> vv_pol V n = Some (i, q) \<Longrightarrow> m \<noteq> n \<Longrightarrow> polUpdate i cir cb (vv_pol V) m = vv_pol V m"
  by (cases "vv_pol V m") (auto simp: polUpdate_def dest: view_wf_pol)

lemma view_wf_polUpdate:
  assumes "view_wf V"
  shows "view_wf (V\<lparr>vv_pol := polUpdate i cir cb (vv_pol V)\<rparr>)"
proof -
  have "\<exists>q'. vv_pol V n = Some (j, q')" if "polUpdate i cir cb (vv_pol V) n = Some (j, q)" for n j q
    using that by (auto simp: polUpdate_def split: if_splits)
  then have "n = m" if "polUpdate i cir cb (vv_pol V) n = Some (j, q)" "polUpdate i cir cb (vv_pol V) m = Some (j, q')" for n m j q q'
    using that view_wf_pol [OF assms] by metis
  with assms show ?thesis unfolding view_wf_def by simp
qed

text \<open>What one upsert of policer \<open>n\<close> promises: it is in place, every other policer and index is
  untouched.\<close>

definition upsert_done :: "string \<Rightarrow> PolicerSpec \<Rightarrow> vpp_view \<Rightarrow> Reconciler \<Rightarrow> vpp_view \<Rightarrow> Reconciler \<Rightarrow> bool" where
  "upsert_done n s V r V' r' \<longleftrightarrow>
     view_wf V' \<and> pol_frame V V' \<and> only_idx r r' \<and> pol_in_place V' r' s \<and>
     (\<forall>m. m \<noteq> n \<longrightarrow> vv_pol V' m = vv_pol V m \<and> gm_get (rc_polIdx r') m = gm_get (rc_polIdx r) m)"

lemma upsert_done_add:
  assumes "view_wf V" and "i \<notin> fst ` ran (vv_pol V)" and "ps_Name s = n"
  shows "upsert_done n s V r (V\<lparr>vv_pol := (vv_pol V)(n \<mapsto> (i, installed_rate s))\<rparr>) (putIdx n i r)"
  using assms by (simp add: upsert_done_def view_wf_polAdd pol_in_place_def putIdx_def gm_simps only_idx_def)

context policer_api
begin

lemma upsertPolicer_ok:
  assumes run: "upsertPolicer p actualByName desiredByName n cnt (r, v) = (Inr cnt', (r', v'))"
    and want: "gm_get desiredByName n = Some s" "ps_Name s = n"
    and wf: "view_wf (vw v)" and idx: "idx_ok (vw v) r"
    and act: "\<And>cur. gm_get actualByName n = Some cur \<Longrightarrow> \<exists>i. vv_pol (vw v) n = Some (i, pi_CIR cur, pi_CB cur)"
  shows "upsert_done n s (vw v) r (vw v') r'"
proof (cases "gm_get actualByName n")
  case None
  with run want obtain i where "pr_Add p s v = (Inr i, v')" "r' = putIdx n i r"
    by (auto simp: upsertPolicer_def andThen_split_Inr ret_def)
  with Add [of s v i v'] upsert_done_add [OF wf _ want(2)] want(2) show ?thesis by simp
next
  case (Some cur)
  from act [OF Some] obtain i where i: "vv_pol (vw v) n = Some (i, pi_CIR cur, pi_CB cur)" by blast
  show ?thesis
  proof (cases "gm_get (rc_polIdx r) n")
    case None
    with run want Some obtain u v1 j where d: "pr_DeleteByName p n v = (Inr u, v1)" and a: "pr_Add p s v1 = (Inr j, v')"
      and r': "r' = putIdx n j r"
      by (auto simp: upsertPolicer_def andThen_split_Inr ret_def)
    note D = DeleteByName [OF d] and A = Add [OF a]
    have "view_wf (vw v1)" by (simp add: D view_wf_polDel wf)
    from upsert_done_add [OF this _ want(2), of j r] A want(2) have U: "upsert_done n s (vw v1) r (vw v') r'"
      by (simp add: r')
    then show ?thesis unfolding upsert_done_def
      using pol_frame_trans [of "vw v" "vw v1" "vw v'"] by (auto simp: D)
  next
    case (Some k)
    with idx i have k: "k = i" unfolding idx_ok_def by blast
    show ?thesis
    proof (cases "policerDrifted s cur")
      case True
      with run want Some \<open>gm_get actualByName n = Some cur\<close> k have u: "\<exists>u. pr_Update p i s v = (Inr u, v')" and r': "r' = r"
        by (auto simp: upsertPolicer_def andThen_split_Inr ret_def)
      then have V': "vw v' = (vw v)\<lparr>vv_pol := polUpdate i (fst (installed_rate s)) (snd (installed_rate s)) (vv_pol (vw v))\<rparr>"
        using Update by blast
      have "vv_pol (vw v') n = Some (i, installed_rate s)"
        by (simp add: V' polUpdate_def i)
      with polUpdate_other [OF wf i] Some k r' want(2) show ?thesis
        by (simp add: upsert_done_def pol_in_place_def V' view_wf_polUpdate wf)
    next
      case False
      with run want Some \<open>gm_get actualByName n = Some cur\<close> have "v' = v" "r' = r"
        by (auto simp: upsertPolicer_def andThen_split_Inr ret_def)
      with False i Some k want(2) wf show ?thesis
        by (simp add: upsert_done_def pol_in_place_def policerDrifted_def)
    qed
  qed
qed

lemma deleteOrphans_ok:
  assumes run: "forEach ns (deleteOrphanPolicer p desiredByName) cnt (r, v) = (Inr cnt', (r', v'))"
    and wf: "view_wf (vw v)"
  shows "view_wf (vw v') \<and> pol_frame (vw v) (vw v') \<and> only_idx r r' \<and>
    (\<forall>n. let gone = (n \<in> set ns \<and> gm_get desiredByName n = None) in
       vv_pol (vw v') n = (if gone then None else vv_pol (vw v) n) \<and>
       gm_get (rc_polIdx r') n = (if gone then None else gm_get (rc_polIdx r) n))"
proof -
  let ?I = "\<lambda>done (cnt :: policerCounts) s. view_wf (vw (snd s)) \<and> pol_frame (vw v) (vw (snd s)) \<and> only_idx r (fst s) \<and>
    (\<forall>n. let gone = (n \<in> set done \<and> gm_get desiredByName n = None) in
       vv_pol (vw (snd s)) n = (if gone then None else vv_pol (vw v) n) \<and>
       gm_get (rc_polIdx (fst s)) n = (if gone then None else gm_get (rc_polIdx r) n))"
  have "?I ns cnt' (r', v')"
    using run
  proof (rule forEach_inv [where I = ?I])
    fix "done" n rest c0 s0 c1 s1
    assume I: "?I done c0 s0" and b: "deleteOrphanPolicer p desiredByName n c0 s0 = (Inr c1, s1)"
    obtain r0 v0 r1 v1 where s: "s0 = (r0, v0)" "s1 = (r1, v1)" by (cases s0; cases s1)
    show "?I (done @ [n]) c1 s1"
    proof (cases "gm_get desiredByName n")
      case None
      with b s obtain u where "pr_DeleteByName p n v0 = (Inr u, v1)" and r1: "r1 = delIdx n r0"
        by (auto simp: deleteOrphanPolicer_def andThen_split_Inr ret_def)
      from DeleteByName [OF this(1)] have V1: "vw v1 = (vw v0)\<lparr>vv_pol := (vv_pol (vw v0))(n := None)\<rparr>" .
      have "view_wf (vw v1)" "pol_frame (vw v) (vw v1)" "only_idx r r1"
        using I s view_wf_polDel pol_frame_trans only_idx_trans by (auto simp: V1 r1)
      with I None s show ?thesis
        by (auto simp: V1 r1 delIdx_def gm_simps Let_def)
    next
      case (Some sp)
      with b s have "s1 = s0" by (simp add: deleteOrphanPolicer_def ret_def)
      with I Some show ?thesis by (auto simp: Let_def)
    qed
  qed (use wf in simp)
  then show ?thesis by simp
qed

lemma upsertPolicers_ok:
  assumes run: "forEach ns (upsertPolicer p actualByName desiredByName) cnt (r, v) = (Inr cnt', (r', v'))"
    and dist: "distinct ns" and wf: "view_wf (vw v)" and idx: "idx_ok (vw v) r"
    and want: "\<And>n. n \<in> set ns \<Longrightarrow> gm_get desiredByName n = Some (spec n) \<and> ps_Name (spec n) = n"
    and act: "\<And>n cur. n \<in> set ns \<Longrightarrow> gm_get actualByName n = Some cur \<Longrightarrow>
        \<exists>i. vv_pol (vw v) n = Some (i, pi_CIR cur, pi_CB cur)"
  shows "view_wf (vw v') \<and> pol_frame (vw v) (vw v') \<and> only_idx r r' \<and> (\<forall>n \<in> set ns. pol_in_place (vw v') r' (spec n)) \<and>
    (\<forall>n. n \<notin> set ns \<longrightarrow> vv_pol (vw v') n = vv_pol (vw v) n \<and> gm_get (rc_polIdx r') n = gm_get (rc_polIdx r) n)"
proof -
  let ?I = "\<lambda>done (cnt :: policerCounts) s. view_wf (vw (snd s)) \<and> pol_frame (vw v) (vw (snd s)) \<and> only_idx r (fst s) \<and>
    (\<forall>n \<in> set done. pol_in_place (vw (snd s)) (fst s) (spec n)) \<and>
    (\<forall>n. n \<notin> set done \<longrightarrow> vv_pol (vw (snd s)) n = vv_pol (vw v) n \<and> gm_get (rc_polIdx (fst s)) n = gm_get (rc_polIdx r) n)"
  have "?I ns cnt' (r', v')"
    using run
  proof (rule forEach_inv [where I = ?I])
    fix "done" n rest c0 s0 c1 s1
    assume ns: "ns = done @ n # rest" and I: "?I done c0 s0"
      and b: "upsertPolicer p actualByName desiredByName n c0 s0 = (Inr c1, s1)"
    obtain r0 v0 r1 v1 where s: "s0 = (r0, v0)" "s1 = (r1, v1)" by (cases s0; cases s1)
    have n: "n \<in> set ns" "n \<notin> set done" using ns dist by auto
    have sp: "ps_Name (spec m) = m" if "m \<in> set done" for m using want [of m] ns that by simp
    have i0: "idx_ok (vw v0) r0"
    proof -
      have "i = j" if "gm_get (rc_polIdx r0) m = Some i" "vv_pol (vw v0) m = Some (j, q)" for m i j q
        using that I idx sp by (cases "m \<in> set done") (auto simp: s pol_in_place_def idx_ok_def)
      then show ?thesis unfolding idx_ok_def by blast
    qed
    have "upsert_done n (spec n) (vw v0) r0 (vw v1) r1"
      by (rule upsertPolicer_ok [OF b [unfolded s]]) (use want [OF n(1)] I s i0 act [OF n(1)] n(2) in auto)
    moreover have "pol_in_place (vw v1) r1 (spec m)" if "m \<in> set done" for m
      using calculation I that n(2) sp [OF that] unfolding upsert_done_def pol_in_place_def s by (metis fst_conv snd_conv)
    ultimately show "?I (done @ [n]) c1 s1"
      using I n(2) pol_frame_trans [of "vw v" "vw v0" "vw v1"] only_idx_trans [of r r0 r1]
      by (auto simp: s upsert_done_def)
  qed (use wf in simp)
  then show ?thesis by simp
qed

end

definition managed :: "contract_fns \<Rightarrow> string \<Rightarrow> bool" where
  "managed c n \<longleftrightarrow> ParsePolicerName c n \<noteq> None"

text \<open>The spec a pass uses for a name: the last of that name.\<close>

definition specFor :: "PolicerSpec list \<Rightarrow> string \<Rightarrow> PolicerSpec option" where
  "specFor desired n = gm_get (gm_collect ps_Name (\<lambda>s. s) desired) n"

lemma specFor_Some: "specFor desired n = Some s \<Longrightarrow> s \<in> set desired \<and> ps_Name s = n"
  unfolding specFor_def by (drule gm_collect_SomeD) blast

lemma specFor_dom: "specFor desired n \<noteq> None \<longleftrightarrow> n \<in> ps_Name ` set desired"
  unfolding specFor_def using gm_collect_dom [of ps_Name "\<lambda>s. s" desired] by (simp add: domIff set_eq_iff)

context policer_api
begin

text \<open>A successful policer stage: the managed policers are exactly the desired ones, each in place;
  policers of other systems and every classify table are untouched.\<close>

lemma Dump_managed:
  fixes c :: contract_fns
  assumes d: "pr_Dump p v = (Inr actual, v1)"
  defines "aBN \<equiv> gm_collect pi_Name (\<lambda>a. a) (filter (\<lambda>a. ParsePolicerName c (pi_Name a) \<noteq> None) actual)"
  shows "gm_get aBN n = Some cur \<Longrightarrow> \<exists>i. vv_pol (vw v) n = Some (i, pi_CIR cur, pi_CB cur)"
    and "set (gm_keys aBN) = {n. managed c n \<and> vv_pol (vw v) n \<noteq> None}"
proof -
  note D = Dump [OF d]
  have mem: "\<exists>i. vv_pol (vw v) (pi_Name x) = Some (i, pi_CIR x, pi_CB x)" if "x \<in> set actual" for x :: PolicerInfo
    using D that by (cases x) simp
  show "\<exists>i. vv_pol (vw v) n = Some (i, pi_CIR cur, pi_CB cur)" if "gm_get aBN n = Some cur"
    using gm_collect_SomeD [OF that [unfolded aBN_def]] mem by auto
  have "n \<in> pi_Name ` set actual" if "vv_pol (vw v) n = Some (i, cir, cb)" for n i cir cb
    using D that by (metis (mono_tags, lifting) PolicerInfo.select_convs(1) imageI)
  moreover have "vv_pol (vw v) (pi_Name x) \<noteq> None" if "x \<in> set actual" for x using mem [OF that] by auto
  ultimately show "set (gm_keys aBN) = {n. managed c n \<and> vv_pol (vw v) n \<noteq> None}"
    unfolding aBN_def gm_keys_dom gm_collect_dom by (force simp: managed_def)
qed

lemma reconcilePolicers_ok:
  assumes run: "reconcilePolicers c ordDel ordAdd p desired (r, v) = (Inr cnt, (r', v'))"
    and ords: "range_order ordDel" "range_order ordAdd"
    and wf: "view_wf (vw v)" and idx: "idx_ok (vw v) r"
    and man: "\<forall>s \<in> set desired. managed c (ps_Name s)"
  shows "view_wf (vw v') \<and> pol_frame (vw v) (vw v') \<and> only_idx r r' \<and>
    (\<forall>n s. specFor desired n = Some s \<longrightarrow> pol_in_place (vw v') r' s) \<and>
    (\<forall>n. managed c n \<longrightarrow> (vv_pol (vw v') n \<noteq> None \<longleftrightarrow> n \<in> ps_Name ` set desired)) \<and>
    (\<forall>n. \<not> managed c n \<longrightarrow> vv_pol (vw v') n = vv_pol (vw v) n) \<and> idx_ok (vw v') r'"
proof -
  let ?dBN = "gm_collect ps_Name (\<lambda>s. s) desired"
  from run obtain actual v1 cnt1 r2 v2 where d: "pr_Dump p v = (Inr actual, v1)"
    and del: "forEach (ordDel (gm_keys (gm_collect pi_Name (\<lambda>a. a) (filter (\<lambda>a. ParsePolicerName c (pi_Name a) \<noteq> None) actual))))
        (deleteOrphanPolicer p ?dBN) \<lparr>pcn_added = 0, pcn_updated = 0, pcn_deleted = 0\<rparr> (r, v1) = (Inr cnt1, (r2, v2))"
    and up: "forEach (ordAdd (gm_keys ?dBN)) (upsertPolicer p
        (gm_collect pi_Name (\<lambda>a. a) (filter (\<lambda>a. ParsePolicerName c (pi_Name a) \<noteq> None) actual)) ?dBN) cnt1 (r2, v2) = (Inr cnt, (r', v'))"
    unfolding reconcilePolicers_def Let_def andThen_split_Inr by auto
  let ?aBN = "gm_collect pi_Name (\<lambda>a. a) (filter (\<lambda>a. ParsePolicerName c (pi_Name a) \<noteq> None) actual)"
  note D = Dump [OF d]
  note aget = Dump_managed(1) [OF d] and adom = Dump_managed(2) [OF d, of c]
  have V1: "vw v1 = vw v" using D by simp
  note X = deleteOrphans_ok [OF del, unfolded V1 Let_def range_order.ord_set [OF ords(1)] adom mem_Collect_eq, OF wf]
  from X have X1: "view_wf (vw v2)" "pol_frame (vw v) (vw v2)" "only_idx r r2" by simp_all
  have X2: "vv_pol (vw v2) n = (if managed c n \<and> vv_pol (vw v) n \<noteq> None \<and> specFor desired n = None then None else vv_pol (vw v) n)"
    "gm_get (rc_polIdx r2) n = (if managed c n \<and> vv_pol (vw v) n \<noteq> None \<and> specFor desired n = None then None else gm_get (rc_polIdx r) n)"
    for n
    using X unfolding specFor_def by (simp_all only: conj_assoc)
  have i2: "idx_ok (vw v2) r2" using idx X2 unfolding idx_ok_def by (metis option.distinct(1))
  have set2: "set (ordAdd (gm_keys ?dBN)) = ps_Name ` set desired"
    unfolding range_order.ord_set [OF ords(2)] gm_keys_dom gm_collect_dom ..
  have want: "gm_get ?dBN n = Some (the (specFor desired n)) \<and> ps_Name (the (specFor desired n)) = n"
    if "n \<in> set (ordAdd (gm_keys ?dBN))" for n
  proof -
    from that obtain s where s: "specFor desired n = Some s"
      using specFor_dom [of desired n] unfolding set2 by blast
    then show ?thesis using specFor_Some [OF s] by (simp add: specFor_def [symmetric])
  qed
  have act: "\<exists>i. vv_pol (vw v2) n = Some (i, pi_CIR cur, pi_CB cur)"
    if "n \<in> set (ordAdd (gm_keys ?dBN))" "gm_get ?aBN n = Some cur" for n cur
  proof -
    have "specFor desired n \<noteq> None" using that(1) specFor_dom [of desired n] unfolding set2 by blast
    then show ?thesis using aget [OF that(2)] unfolding X2 by simp
  qed
  have "distinct (ordAdd (gm_keys ?dBN))" by (simp add: range_order.ord_distinct [OF ords(2)])
  note Y = upsertPolicers_ok [OF up this X1(1) i2 want act]
  from Y have Y1: "pol_in_place (vw v') r' (the (specFor desired n))" if "n \<in> ps_Name ` set desired" for n
    using that unfolding set2 by blast
  from Y have Y2: "vv_pol (vw v') n = vv_pol (vw v2) n" "gm_get (rc_polIdx r') n = gm_get (rc_polIdx r2) n"
    if "n \<notin> ps_Name ` set desired" for n
    using that unfolding set2 by blast+
  have place: "pol_in_place (vw v') r' s" if "specFor desired n = Some s" for n s
    using Y1 [of n] that specFor_dom [of desired n] by simp
  have "vv_pol (vw v') n \<noteq> None \<longleftrightarrow> n \<in> ps_Name ` set desired" if "managed c n" for n
  proof (cases "specFor desired n")
    case (Some s)
    with place [OF Some] specFor_Some [OF Some] specFor_dom [of desired n] show ?thesis
      unfolding pol_in_place_def by force
  next
    case None
    then have "n \<notin> ps_Name ` set desired" using specFor_dom [of desired n] by blast
    with Y2 [of n] X2(1) [of n] None that show ?thesis by simp
  qed
  moreover have "idx_ok (vw v') r'"
    unfolding idx_ok_def
  proof (intro allI impI)
    fix n i j q assume a: "gm_get (rc_polIdx r') n = Some i" "vv_pol (vw v') n = Some (j, q)"
    show "i = j"
    proof (cases "specFor desired n")
      case (Some s)
      with place [OF Some] specFor_Some [OF Some] a show ?thesis unfolding pol_in_place_def by auto
    next
      case None
      then have "n \<notin> ps_Name ` set desired" using specFor_dom [of desired n] by blast
      with Y2 [of n] a i2 show ?thesis unfolding idx_ok_def by metis
    qed
  qed
  moreover have "vv_pol (vw v') n = vv_pol (vw v) n" if "\<not> managed c n" for n
  proof -
    have "n \<notin> ps_Name ` set desired" using man that by blast
    with Y2 [of n] X2(1) [of n] that show ?thesis by simp
  qed
  ultimately show ?thesis
    using Y X1 place pol_frame_trans [of "vw v" "vw v2" "vw v'"] only_idx_trans [of r r2 r'] by simp
qed

end

end
