(* ===== verification/Reconcile_Pass.thy ===== *)
theory Reconcile_Pass
  imports Reconcile
begin

text \<open>
  The whole pass of \<open>reconcile.go\<close> over a channel that behaves as VPP does (locale \<open>vpp_channel\<close>): index
  relearning, interface bindings, the composition of the stages, and the guard against reconciling
  to an empty state.
\<close>

subsection \<open>Relearning indices\<close>

text \<open>An installed session of a desired member points at the policer the member is desired to hit.\<close>

definition sessions_attributed :: "vpp_view \<Rightarrow> ClassifySession list \<Rightarrow> bool" where
  "sessions_attributed V sessions \<longleftrightarrow>
     (\<forall>s \<in> set sessions. \<forall>k t h j q. SessionKey (cs_Mask s) (cs_Prefix s) = Inr k \<longrightarrow> table_of V (cs_Mask s) t \<longrightarrow>
        vv_ses V t k = Some h \<longrightarrow> vv_pol V (cs_PolicerName s) = Some (j, q) \<longrightarrow> h = j)"

lemma relearnSession_cases:
  "relearnSession actual s r = r \<or>
   (\<exists>key m h. gm_get (rc_polIdx r) (cs_PolicerName s) = None \<and> SessionKey (cs_Mask s) (cs_Prefix s) = Inr key \<and>
      gm_get actual (cs_Mask s) = Some m \<and> gm_get m (EncodeToString key) = Some h \<and>
      relearnSession actual s r = putIdx (cs_PolicerName s) h r)"
  by (auto simp: relearnSession_def split: sum.splits option.splits)

text \<open>The relearning only looks at the sessions of policers whose index is not tracked.\<close>

definition untracked :: "Reconciler \<Rightarrow> ClassifySession \<Rightarrow> bool" where
  "untracked r s \<longleftrightarrow> gm_get (rc_polIdx r) (cs_PolicerName s) = None"

lemma sessions_attributed_subset: "sessions_attributed V xs \<Longrightarrow> set ys \<subseteq> set xs \<Longrightarrow> sessions_attributed V ys"
  unfolding sessions_attributed_def by (meson subsetD)

lemma untracked_relearn: "untracked (relearnSession actual s r) x \<Longrightarrow> untracked r x"
  using relearnSession_cases [of actual s r] by (auto simp: untracked_def putIdx_def gm_simps split: if_splits)

lemma relearn_fold:
  assumes "\<And>mk m k h. gm_get actual mk = Some m \<Longrightarrow> gm_get m (EncodeToString k) = Some h \<Longrightarrow>
      \<exists>t. table_of V mk t \<and> vv_ses V t k = Some h"
    and "sessions_attributed V (filter (untracked r) sessions)" and "idx_ok V r"
  shows "idx_ok V (fold (relearnSession actual) sessions r) \<and> only_idx r (fold (relearnSession actual) sessions r)"
  using assms(2,3)
proof (induction sessions arbitrary: r)
  case (Cons s sessions)
  let ?r = "relearnSession actual s r"
  have att: "sessions_attributed V (filter (untracked ?r) sessions)"
    by (rule sessions_attributed_subset [OF Cons.prems(1)]) (use untracked_relearn in auto)
  have "idx_ok V ?r \<and> only_idx r ?r"
  proof (cases "?r = r")
    case False
    then obtain key m h where "SessionKey (cs_Mask s) (cs_Prefix s) = Inr key"
      "gm_get actual (cs_Mask s) = Some m" "gm_get m (EncodeToString key) = Some h" and un: "untracked r s"
      and r: "?r = putIdx (cs_PolicerName s) h r"
      using relearnSession_cases [of actual s r] unfolding untracked_def by blast
    with assms(1) obtain t where "table_of V (cs_Mask s) t" "vv_ses V t key = Some h" by blast
    with Cons.prems(1) un have "h = j" if "vv_pol V (cs_PolicerName s) = Some (j, q)" for j q
      using that \<open>SessionKey (cs_Mask s) (cs_Prefix s) = Inr key\<close> unfolding sessions_attributed_def by simp
    with Cons.prems(2) show ?thesis
      unfolding r by (auto simp: idx_ok_def putIdx_def only_idx_def gm_simps)
  qed (use Cons.prems(2) in simp)
  with Cons.IH [OF att] only_idx_trans [of r ?r] show ?case by auto
qed simp

context classify_api
begin

lemma dumpAllTables_ok:
  assumes run: "dumpAllTables ord cl tables v = (Inr actual, v')" and ord: "range_order ord"
    and tabs: "\<And>mk t. gm_get tables mk = Some t \<Longrightarrow> table_of (vw v) mk t"
  shows "vw v' = vw v \<and> (\<forall>mk m k h. gm_get actual mk = Some m \<longrightarrow> gm_get m (EncodeToString k) = Some h \<longrightarrow>
      (\<exists>t. table_of (vw v) mk t \<and> vv_ses (vw v) t k = Some h))"
proof -
  let ?I = "\<lambda>done (actual :: (MaskKind, (string, u32) gomap) gomap) v1. vw v1 = vw v \<and>
     (\<forall>mk m k h. gm_get actual mk = Some m \<longrightarrow> gm_get m (EncodeToString k) = Some h \<longrightarrow>
      (\<exists>t. table_of (vw v) mk t \<and> vv_ses (vw v) t k = Some h))"
  have "?I (ord (gm_keys tables)) actual v'"
    using run unfolding dumpAllTables_def
  proof (rule forEach_inv [where I = ?I])
    fix "done" mk rest a0 v0 a1 v1
    assume l: "ord (gm_keys tables) = done @ mk # rest" and I: "?I done a0 v0"
      and b: "andThen (cl_DumpSessions cl (the (gm_get tables mk))) (\<lambda>ss.
          ret (gm_put mk (gm_collect (\<lambda>s. EncodeToString (si_Match s)) si_HitNextIndex ss) a0)) v0 = (Inr a1, v1)"
    have "mk \<in> set (gm_keys tables)" using l range_order.ord_set [OF ord, of "gm_keys tables"] by auto
    then obtain t where t: "gm_get tables mk = Some t" unfolding gm_keys_dom by blast
    from b t obtain ss where d: "cl_DumpSessions cl t v0 = (Inr ss, v1)"
      and a1: "a1 = gm_put mk (gm_collect (\<lambda>s. EncodeToString (si_Match s)) si_HitNextIndex ss) a0"
      by (auto simp: andThen_split_Inr ret_def)
    note D = DumpSessions [OF d]
    have "vv_ses (vw v) t k = Some h"
      if g: "gm_get (gm_collect (\<lambda>s. EncodeToString (si_Match s)) si_HitNextIndex ss) (EncodeToString k) = Some h" for k h
    proof -
      from gm_collect_SomeD [OF g] obtain x :: SessionInfo where "x \<in> set ss" "si_Match x = k" "si_HitNextIndex x = h"
        by (auto simp: EncodeToString_inject)
      with D I show ?thesis by (cases x) simp
    qed
    with I D tabs [OF t] show "?I (done @ [mk]) a1 v1" by (auto simp: a1 gm_simps)
  qed simp
  then show ?thesis .
qed

lemma relearn_ok:
  assumes run: "relearnPolicerIndexes ord cl policers sessions (r, v) = (Inr u, (r', v'))" and ord: "range_order ord"
    and idx: "idx_ok (vw v) r"
    and att: "sessions_attributed (vw v) (filter (untracked r) sessions)"
  shows "vw v' = vw v \<and> idx_ok (vw v) r' \<and> only_idx r r'"
proof (cases "list_all (\<lambda>p. gm_get (rc_polIdx r) (ps_Name p) \<noteq> None) policers")
  case True
  with run idx show ?thesis by (auto simp: relearnPolicerIndexes_def andThen_split_Inr ret_def)
next
  case False
  from run False obtain tables v1 actual v2 where f: "cl_FindTablesByMask cl v = (Inr tables, v1)"
    and d: "dumpAllTables ord cl tables v1 = (Inr actual, v2)"
    and r': "r' = fold (relearnSession actual) sessions r" "v' = v2"
    by (auto simp: relearnPolicerIndexes_def andThen_split_Inr)
  note F = FindTables [OF f]
  from F have V1: "vw v1 = vw v" by simp
  have "table_of (vw v1) mk t" if "gm_get tables mk = Some t" for mk t using F that by (simp add: V1)
  note D = dumpAllTables_ok [OF d ord this, unfolded V1]
  from D att False idx relearn_fold [of actual "vw v" r sessions] show ?thesis by (simp add: r')
qed

end

subsection \<open>Interface bindings\<close>

definition bound_to :: "u32 \<Rightarrow> u32 \<Rightarrow> vpp_view \<Rightarrow> u32 \<Rightarrow> bool" where
  "bound_to head4 head6 V sw \<longleftrightarrow> hitOf (vv_bnd V FamilyIPv4 sw) = head4 \<and> hitOf (vv_bnd V FamilyIPv6 sw) = head6"

definition famTables :: "vpp_view \<Rightarrow> Family \<Rightarrow> u32 set" where
  "famTables V fam = {t. \<exists>mk. table_of V mk t \<and> maskFamily mk = fam}"

definition headOf :: "vpp_view \<Rightarrow> Family \<Rightarrow> u32" where
  "headOf V fam = (if famTables V fam = {} then NoTable else Min (famTables V fam))"

text \<open>The next-table links a chain sets, and the tables a packet visits from a head.\<close>

fun chainNext :: "u32 list \<Rightarrow> (u32 \<Rightarrow> u32) \<Rightarrow> u32 \<Rightarrow> u32" where
  "chainNext [] N = N"
| "chainNext [t] N = N(t := NoTable)"
| "chainNext (t # u # ts) N = chainNext (u # ts) (N(t := u))"

fun walk :: "nat \<Rightarrow> (u32 \<Rightarrow> u32) \<Rightarrow> u32 \<Rightarrow> u32 list" where
  "walk 0 N t = []"
| "walk (Suc n) N t = (if t = NoTable then [] else t # walk n N (N t))"

lemma chainNext_other: "t \<notin> set ts \<Longrightarrow> chainNext ts N t = N t"
  by (induction ts N rule: chainNext.induct) auto

lemma chainNext_walk:
  "distinct ts \<Longrightarrow> NoTable \<notin> set ts \<Longrightarrow> ts \<noteq> [] \<Longrightarrow> length ts < n \<Longrightarrow> walk n (chainNext ts N) (hd ts) = ts"
proof (induction ts N arbitrary: n rule: chainNext.induct)
  case (2 t N)
  then obtain m where "n = Suc (Suc m)" by (cases n; cases "n - 1") auto
  with 2 show ?case by simp
next
  case (3 t u ts N)
  from 3(5) obtain m where n: "n = Suc m" by (cases n) auto
  have "chainNext (u # ts) (N(t := u)) t = u" using 3(2) by (simp add: chainNext_other)
  moreover have "walk m (chainNext (u # ts) (N(t := u))) u = u # ts"
    using 3(1) [of m] 3(2-) n by (simp add: fun_upd_def)
  ultimately show ?case using 3(3) n by auto
qed simp

lemma finite_famTables: "finite (famTables V fam)"
  by (rule finite_subset [OF subset_UNIV]) simp

lemma NoTable_famTables: "view_wf V \<Longrightarrow> NoTable \<notin> famTables V fam"
  by (auto simp: famTables_def table_of_def view_wf_def)

lemma table_of_next [simp]: "table_of (V\<lparr>vv_next := N\<rparr>) = table_of V" "famTables (V\<lparr>vv_next := N\<rparr>) = famTables V"
  "headOf (V\<lparr>vv_next := N\<rparr>) = headOf V"
proof -
  show t: "table_of (V\<lparr>vv_next := N\<rparr>) = table_of V" by (simp add: fun_eq_iff table_of_def)
  show f: "famTables (V\<lparr>vv_next := N\<rparr>) = famTables V" unfolding famTables_def t ..
  show "headOf (V\<lparr>vv_next := N\<rparr>) = headOf V" unfolding headOf_def f ..
qed

lemma famTables_list:
  fixes fam :: Family
  assumes full: "tabs_full V tables" and ord: "range_order ord"
  defines "ts \<equiv> map (\<lambda>mk. the (gm_get tables mk)) (filter (\<lambda>mk. maskFamily mk = fam) (ord (gm_keys tables)))"
  shows "set ts = famTables V fam \<and> distinct ts"
proof -
  have keys: "set (ord (gm_keys tables)) = dom (gm_get tables)" "distinct (ord (gm_keys tables))"
    using full unfolding range_order.ord_set [OF ord] range_order.ord_distinct [OF ord] gm_keys_dom tabs_full_def
    by simp_all
  have t: "table_of V mk (the (gm_get tables mk))" if "mk \<in> dom (gm_get tables)" for mk
  proof -
    from that obtain t where "gm_get tables mk = Some t" by blast
    with full show ?thesis unfolding tabs_full_def by (metis option.sel)
  qed
  have "inj_on (\<lambda>mk. the (gm_get tables mk)) (dom (gm_get tables))"
  proof (rule inj_onI)
    fix a b
    assume "a \<in> dom (gm_get tables)" "b \<in> dom (gm_get tables)" "the (gm_get tables a) = the (gm_get tables b)"
    with t [of a] t [of b] show "a = b" by (simp add: table_of_unique_mask)
  qed
  then have "distinct ts"
    unfolding ts_def by (auto simp: distinct_map keys intro: inj_on_subset)
  moreover have "set ts = famTables V fam"
  proof (intro set_eqI iffI)
    fix x assume "x \<in> set ts"
    then show "x \<in> famTables V fam" unfolding ts_def famTables_def using t by (auto simp: keys)
  next
    fix x assume "x \<in> famTables V fam"
    then obtain mk where mk: "table_of V mk x" "maskFamily mk = fam" by (auto simp: famTables_def)
    then have "gm_get tables mk = Some x" using full unfolding tabs_full_def by blast
    with mk(2) show "x \<in> set ts" unfolding ts_def by (force simp: keys)
  qed
  ultimately show ?thesis by simp
qed

lemma walk_cong:
  "(\<And>t. t \<in> S \<Longrightarrow> N t = M t) \<Longrightarrow> set (walk k M t0) \<subseteq> S \<Longrightarrow> walk k N t0 = walk k M t0"
  by (induction k arbitrary: t0) auto

text \<open>Linking the IPv4 chain and then the IPv6 chain leaves both in place: they share no table.\<close>

lemma chain_walk:
  fixes V :: vpp_view and fam :: Family
  assumes wf: "view_wf V"
    and n4: "1 < length (sorted_list_of_set (famTables V FamilyIPv4)) \<longrightarrow>
        N4 = chainNext (sorted_list_of_set (famTables V FamilyIPv4)) N"
    and o6: "\<forall>t. t \<notin> set (sorted_list_of_set (famTables V FamilyIPv6)) \<longrightarrow> N6 t = N4 t"
    and n6: "1 < length (sorted_list_of_set (famTables V FamilyIPv6)) \<longrightarrow>
        N6 = chainNext (sorted_list_of_set (famTables V FamilyIPv6)) N4"
    and c: "1 < card (famTables V fam)" "card (famTables V fam) < k"
  shows "walk k N6 (headOf V fam) = sorted_list_of_set (famTables V fam)"
proof -
  let ?ts = "\<lambda>f. sorted_list_of_set (famTables V f)"
  have st: "set (?ts f) = famTables V f" for f using finite_famTables by simp
  have len: "length (?ts f) = card (famTables V f)" for f by (rule length_sorted_list_of_set)
  have ne: "famTables V fam \<noteq> {}" using c(1) by auto
  then have hd: "headOf V fam = hd (?ts fam)"
    using finite_famTables by (simp add: headOf_def sorted_list_of_set_nonempty)
  have w: "walk k (chainNext (?ts fam) M) (hd (?ts fam)) = ?ts fam" for M
    using c ne NoTable_famTables [OF wf] st [of fam] finite_famTables [of V fam]
    by (intro chainNext_walk) (auto simp: len)
  show ?thesis
  proof (cases fam)
    case FamilyIPv6
    with n6 c(1) w [of N4] hd show ?thesis by (simp add: len)
  next
    case FamilyIPv4
    have "N6 t = chainNext (?ts FamilyIPv4) N t" if "t \<in> famTables V FamilyIPv4" for t
    proof -
      have "t \<notin> famTables V FamilyIPv6"
        using that table_of_unique_mask by (fastforce simp: famTables_def)
      with o6 n4 c(1) FamilyIPv4 show ?thesis by (simp add: st len)
    qed
    from walk_cong [where S = "famTables V FamilyIPv4", OF this] w [of N] st [of fam] FamilyIPv4 hd show ?thesis
      by simp
  qed
qed

context vpp_channel
begin

lemma LinkTable_ok:
  assumes "LinkTable ch t u v = (Inr x, v')" and "t \<noteq> NoTable"
  shows "vw v' = (vw v)\<lparr>vv_next := (vv_next (vw v))(t := u)\<rparr>"
  using assms by (auto simp: LinkTable_def andThen_split_Inr ret_def dest!: exec_ok)

lemma linkChain_ok:
  "linkChain ch ts v = (Inr x, v') \<Longrightarrow> NoTable \<notin> set ts \<Longrightarrow> vw v' = (vw v)\<lparr>vv_next := chainNext ts (vv_next (vw v))\<rparr>"
proof (induction ts arbitrary: v rule: induct_list012)
  case (3 t u ts)
  then obtain y v1 where "LinkTable ch t u v = (Inr y, v1)" "linkChain ch (u # ts) v1 = (Inr x, v')"
    by (auto simp: andThen_split_Inr)
  moreover have "t \<noteq> NoTable" using 3(4) by auto
  ultimately show ?case
    using 3(2) [of v1] 3(4) LinkTable_ok [of t u v y v1] by (simp add: fun_upd_def)
qed (auto simp: ret_def dest: LinkTable_ok)

lemma familyHead_ok:
  fixes fam :: Family
  assumes run: "familyHead ord ch tables fam v = (Inr h, v')" and full: "tabs_full (vw v) tables" and wf: "view_wf (vw v)"
    and ord: "range_order ord"
  defines "ts \<equiv> sorted_list_of_set (famTables (vw v) fam)"
  shows "h = headOf (vw v) fam \<and> (\<exists>N. vw v' = (vw v)\<lparr>vv_next := N\<rparr> \<and> (\<forall>t. t \<notin> set ts \<longrightarrow> N t = vv_next (vw v) t) \<and>
      (1 < length ts \<longrightarrow> N = chainNext ts (vv_next (vw v))))"
proof -
  let ?ts = "map (\<lambda>mk. the (gm_get tables mk)) (filter (\<lambda>mk. maskFamily mk = fam) (ord (gm_keys tables)))"
  have L: "set ?ts = famTables (vw v) fam" "distinct ?ts" using famTables_list [OF full ord] by simp_all
  have ts: "sort ?ts = ts" unfolding ts_def L(1) [symmetric] using L(2) by (simp only: sorted_list_of_set_sort_remdups distinct_remdups_id)
  have len: "length ?ts = length ts" unfolding ts [symmetric] by simp
  consider "?ts = []" | t where "?ts = [t]" | (many) t u us where "?ts = t # u # us"
    by (cases ?ts rule: list.exhaust [case_product list.exhaust]) (metis list.exhaust)+
  then show ?thesis
  proof cases
    case 1
    then have "h = NoTable" "v' = v" "ts = []" using run len by (simp_all add: familyHead_def ret_def del: map_eq_conv)
    with 1 L(1) show ?thesis by (intro conjI exI [of _ "vv_next (vw v)"]) (simp_all add: headOf_def)
  next
    case (2 t)
    then have "h = t" "v' = v" "length ts = 1" using run len by (simp_all add: familyHead_def ret_def)
    moreover from 2 L(1) have "famTables (vw v) fam = {t}" by simp
    ultimately show ?thesis by (intro conjI exI [of _ "vv_next (vw v)"]) (simp_all add: headOf_def)
  next
    case many
    with run ts obtain x where l: "linkChain ch ts v = (Inr x, v')" and h: "h = hd ts"
      by (auto simp: familyHead_def andThen_split_Inr ret_def Let_def)
    have setts: "set ts = famTables (vw v) fam" using finite_famTables by (simp add: ts_def)
    with linkChain_ok [OF l] NoTable_famTables [OF wf]
    have "vw v' = (vw v)\<lparr>vv_next := chainNext ts (vv_next (vw v))\<rparr>" by simp
    moreover have "famTables (vw v) fam \<noteq> {}" using many L(1) by auto
    then have "hd ts = Min (famTables (vw v) fam)"
      unfolding ts_def using finite_famTables by (simp add: sorted_list_of_set_nonempty)
    ultimately show ?thesis
      using h \<open>famTables (vw v) fam \<noteq> {}\<close> by (auto simp: headOf_def chainNext_other)
  qed
qed

lemma SetPolicerInterface_ok:
  assumes "bindFamily ch fam sw cur head v = (Inr u, v')"
  shows "\<exists>B. vw v' = (vw v)\<lparr>vv_bnd := B\<rparr> \<and>
    (\<forall>f s. (f, s) \<noteq> (fam, sw) \<longrightarrow> B f s = vv_bnd (vw v) f s) \<and>
    (cur = head \<longrightarrow> B = vv_bnd (vw v)) \<and> (cur \<noteq> head \<longrightarrow> hitOf (B fam sw) = head)"
proof (cases "cur = head")
  case True
  with assms have "v' = v" by (simp add: bindFamily_def ret_def)
  with True show ?thesis by (intro exI [of _ "vv_bnd (vw v)"]) simp
next
  case False
  let ?t = "if head = NoTable then cur else head" and ?add = "head \<noteq> NoTable"
  have t: "?t \<noteq> NoTable" using False by auto
  obtain rep where "exec ch (PolicerClassifySetInterface sw (if fam = FamilyIPv4 then ?t else NoTable)
      (if fam = FamilyIPv4 then NoTable else ?t) NoTable ?add) v = (Inr rep, v')"
    using assms False by (cases fam) (auto simp: bindFamily_def SetPolicerInterface_def andThen_split_Inr ret_def split: if_splits)
  from exec_ok [OF this] t False show ?thesis
    by (cases fam) (auto simp: hitOf_def fun_eq_iff intro!: exI [of _ "vv_bnd (vw v')"])
qed

lemma bindingMap_ok:
  assumes "bindingMap ch fam v = (Inr m, v')"
  shows "vw v' = vw v \<and> (\<forall>sw. tableOr m sw = hitOf (vv_bnd (vw v) fam sw))"
proof -
  from assms obtain att where c: "ch (PolicerClassifyDump fam) v = (Inr (PolicerClassifyDetailsList att), v')"
    and m: "m = gm_collect pca_SwIfIndex pca_TableIndex att"
    by (auto simp: bindingMap_def DumpPolicerClassify_def andThen_split_Inr ret_def dumpAll_Inr_iff elim!: classify_details.elims)
  from ok [OF c] have V: "vw v' = vw v" "distinct (map pca_SwIfIndex att)"
    and mem: "\<And>sw t. \<lparr>pca_SwIfIndex = sw, pca_TableIndex = t\<rparr> \<in> set att \<longleftrightarrow> vv_bnd (vw v) fam sw = Some t" by auto
  have "gm_get m sw = vv_bnd (vw v) fam sw" for sw
  proof (cases "vv_bnd (vw v) fam sw")
    case (Some t)
    with mem have "\<lparr>pca_SwIfIndex = sw, pca_TableIndex = t\<rparr> \<in> set att" by blast
    with gm_collect_distinct [OF V(2), of _ pca_TableIndex] Some show ?thesis unfolding m by fastforce
  next
    case None
    have "gm_get m sw \<noteq> Some t" for t
    proof
      assume "gm_get m sw = Some t"
      from gm_collect_SomeD [OF this [unfolded m]] obtain x :: PolicerClassifyAttachment where
        "x \<in> set att" "pca_SwIfIndex x = sw" "pca_TableIndex x = t" by blast
      with mem [of sw t] None show False by (cases x) simp
    qed
    with None show ?thesis by (metis option.exhaust)
  qed
  with V(1) show ?thesis by (simp add: tableOr_def hitOf_def)
qed

text \<open>The loop over the configured interfaces works from the attachments read before it.\<close>

lemma bindIface_ok:
  assumes run: "bindIface ch b4 b6 idx head4 head6 name n v = (Inr n', v')" and sw: "gm_get idx name = Some sw"
    and st: "hitOf (vv_bnd (vw v) FamilyIPv4 sw) \<in> {head4, tableOr b4 sw}"
       "hitOf (vv_bnd (vw v) FamilyIPv6 sw) \<in> {head6, tableOr b6 sw}"
  shows "\<exists>B. vw v' = (vw v)\<lparr>vv_bnd := B\<rparr> \<and> (\<forall>f s. s \<noteq> sw \<longrightarrow> B f s = vv_bnd (vw v) f s) \<and>
    bound_to head4 head6 (vw v') sw"
proof (cases "tableOr b4 sw = head4 \<and> tableOr b6 sw = head6")
  case True
  with run sw have "v' = v" by (simp add: bindIface_def ret_def)
  with True st show ?thesis by (intro exI [of _ "vv_bnd (vw v)"]) (simp add: bound_to_def)
next
  case False
  with run sw obtain u1 v1 u2 where a: "bindFamily ch FamilyIPv4 sw (tableOr b4 sw) head4 v = (Inr u1, v1)"
    and b: "bindFamily ch FamilyIPv6 sw (tableOr b6 sw) head6 v1 = (Inr u2, v')"
    by (auto simp: bindIface_def andThen_split_Inr ret_def Let_def)
  from SetPolicerInterface_ok [OF a] obtain A where A: "vw v1 = (vw v)\<lparr>vv_bnd := A\<rparr>"
    "\<forall>f s. (f, s) \<noteq> (FamilyIPv4, sw) \<longrightarrow> A f s = vv_bnd (vw v) f s"
    "tableOr b4 sw = head4 \<longrightarrow> A = vv_bnd (vw v)" "tableOr b4 sw \<noteq> head4 \<longrightarrow> hitOf (A FamilyIPv4 sw) = head4" by blast
  from SetPolicerInterface_ok [OF b] obtain B where B: "vw v' = (vw v1)\<lparr>vv_bnd := B\<rparr>"
    "\<forall>f s. (f, s) \<noteq> (FamilyIPv6, sw) \<longrightarrow> B f s = vv_bnd (vw v1) f s"
    "tableOr b6 sw = head6 \<longrightarrow> B = vv_bnd (vw v1)" "tableOr b6 sw \<noteq> head6 \<longrightarrow> hitOf (B FamilyIPv6 sw) = head6" by blast
  have "hitOf (A FamilyIPv4 sw) = head4" using A(3,4) st(1) by auto
  moreover have "hitOf (B FamilyIPv6 sw) = head6"
    using A(1,2) B(3,4) st(2) by auto
  ultimately show ?thesis
    using A(1,2) B(1,2) by (intro exI [of _ B]) (simp add: bound_to_def)
qed

lemma bindIfaces_ok:
  assumes run: "forEach names (bindIface ch b4 b6 idx head4 head6) n v = (Inr n', v')"
    and idx: "\<forall>name \<in> set names. gm_get idx name \<noteq> None"
    and st: "\<forall>sw. tableOr b4 sw = hitOf (vv_bnd (vw v) FamilyIPv4 sw) \<and> tableOr b6 sw = hitOf (vv_bnd (vw v) FamilyIPv6 sw)"
  shows "(\<exists>B. vw v' = (vw v)\<lparr>vv_bnd := B\<rparr>) \<and> (\<forall>name \<in> set names. \<exists>sw. gm_get idx name = Some sw \<and> bound_to head4 head6 (vw v') sw)"
proof -
  let ?I = "\<lambda>done (n :: int) v0. (\<exists>B. vw v0 = (vw v)\<lparr>vv_bnd := B\<rparr>) \<and>
     (\<forall>sw. hitOf (vv_bnd (vw v0) FamilyIPv4 sw) \<in> {head4, tableOr b4 sw} \<and> hitOf (vv_bnd (vw v0) FamilyIPv6 sw) \<in> {head6, tableOr b6 sw}) \<and>
     (\<forall>name \<in> set done. \<exists>sw. gm_get idx name = Some sw \<and> bound_to head4 head6 (vw v0) sw)"
  have "?I names n' v'"
    using run
  proof (rule forEach_inv [where I = ?I])
    fix "done" name rest n0 v0 n1 v1
    assume l: "names = done @ name # rest" and I: "?I done n0 v0"
      and b: "bindIface ch b4 b6 idx head4 head6 name n0 v0 = (Inr n1, v1)"
    obtain sw where sw: "gm_get idx name = Some sw" using idx l by auto
    from bindIface_ok [OF b sw] I obtain B where B: "vw v1 = (vw v0)\<lparr>vv_bnd := B\<rparr>"
      "\<forall>f s. s \<noteq> sw \<longrightarrow> B f s = vv_bnd (vw v0) f s" "bound_to head4 head6 (vw v1) sw" by blast
    have "hitOf (B FamilyIPv4 s) \<in> {head4, tableOr b4 s} \<and> hitOf (B FamilyIPv6 s) \<in> {head6, tableOr b6 s}" for s
      using I B by (cases "s = sw") (simp_all add: bound_to_def)
    moreover have "bound_to head4 head6 (vw v1) s" if "bound_to head4 head6 (vw v0) s" for s
      using that B by (cases "s = sw") (simp_all add: bound_to_def)
    ultimately show "?I (done @ [name]) n1 v1"
      using I B sw by auto
  qed (use st in \<open>auto intro!: exI [of _ "vv_bnd (vw v)"]\<close>)
  then show ?thesis by blast
qed

text \<open>The indices \<open>IndexMap\<close> returns without an error cover every name.\<close>

lemma resolve_names_fold:
  assumes "fold (\<lambda>n (out, missing). case gm_get byName n of Some idx \<Rightarrow> (gm_put n idx out, missing)
        | None \<Rightarrow> (out, missing @ [n])) names (out0, miss0) = (out, [])"
  shows "miss0 = [] \<and> (\<forall>n. gm_get out n = (if n \<in> set names then gm_get byName n else gm_get out0 n)) \<and>
    (\<forall>n \<in> set names. gm_get byName n \<noteq> None)"
  using assms
proof (induction names arbitrary: out0 miss0)
  case (Cons n names)
  show ?case
  proof (cases "gm_get byName n")
    case None
    with Cons.prems Cons.IH [of out0 "miss0 @ [n]"] show ?thesis by simp
  next
    case (Some i)
    with Cons.prems Cons.IH [of "gm_put n i out0" miss0] show ?thesis by (auto simp: gm_simps)
  qed
qed simp

lemma IndexMap_ok:
  assumes "IndexMap ch names v = ((m, None), v')"
  shows "vw v' = vw v \<and> (\<forall>n \<in> set names. gm_get m n \<noteq> None \<and> gm_get m n = vv_ifs (vw v) n)"
proof -
  from assms obtain list where l: "Interfaces_List ch v = (Inr list, v')"
    and r: "resolve_names (gm_collect if_Name if_SwIfIndex list) names = (m, [])"
    by (auto simp: IndexMap_def Let_def split: prod.splits sum.splits if_splits)
  from l obtain ds where c: "ch SwInterfaceDump v = (Inr (SwInterfaceDetailsList ds), v')"
    and ls: "map if_Name list = map sid_InterfaceName ds" "map if_SwIfIndex list = map sid_SwIfIndex ds"
    by (auto simp: Interfaces_List_def dumpAll_Inr_iff elim!: iface_details.elims)
  from ok [OF c] have V: "vw v' = vw v"
    and mem: "\<And>n i. (\<exists>d \<in> set ds. sid_InterfaceName d = n \<and> sid_SwIfIndex d = i) \<longleftrightarrow> vv_ifs (vw v) n = Some i" by auto
  have "gm_get (gm_collect if_Name if_SwIfIndex list) n = gm_get (gm_collect sid_InterfaceName sid_SwIfIndex ds) n" for n
  proof -
    have "map (\<lambda>x. (if_Name x, if_SwIfIndex x)) list = map (\<lambda>x. (sid_InterfaceName x, sid_SwIfIndex x)) ds"
      using ls by (simp add: zip_map_fst_snd [symmetric] list_eq_iff_nth_eq)
    then show ?thesis by (simp add: gm_collect_get)
  qed
  then have "gm_get (gm_collect if_Name if_SwIfIndex list) n = vv_ifs (vw v) n"
    if "gm_get (gm_collect if_Name if_SwIfIndex list) n \<noteq> None" for n
    using that gm_collect_SomeD [of sid_InterfaceName sid_SwIfIndex ds n] mem by fastforce
  with resolve_names_fold [OF r [unfolded resolve_names_def]] V show ?thesis by (simp del: not_None_eq)
qed

lemma resolveIfaces_ok: "resolveIfaces ch names v = (Inr m, v') \<Longrightarrow>
    vw v' = vw v \<and> (\<forall>n \<in> set names. gm_get m n \<noteq> None \<and> gm_get m n = vv_ifs (vw v) n)"
  by (rule IndexMap_ok) (auto simp: resolveIfaces_def split: prod.splits option.splits)

lemma reconcileBindings_ok:
  assumes run: "reconcileBindings ord4 ord6 ch ifs v = (Inr n, v')" and ords: "range_order ord4" "range_order ord6"
    and wf: "view_wf (vw v)" and one: "one_table (vw v)"
  shows "(\<exists>N B. vw v' = (vw v)\<lparr>vv_next := N, vv_bnd := B\<rparr>) \<and>
    (ifs \<noteq> [] \<longrightarrow> (\<forall>name \<in> set ifs. \<exists>sw. vv_ifs (vw v) name = Some sw \<and>
         bound_to (headOf (vw v) FamilyIPv4) (headOf (vw v) FamilyIPv6) (vw v') sw) \<and>
       (\<forall>fam k. 1 < card (famTables (vw v) fam) \<longrightarrow> card (famTables (vw v) fam) < k \<longrightarrow>
          walk k (vv_next (vw v')) (headOf (vw v) fam) = sorted_list_of_set (famTables (vw v) fam)))"
proof (cases "ifs = []")
  case True
  with run have "v' = v" by (simp add: reconcileBindings_def ret_def)
  with True show ?thesis by (auto intro!: exI [of _ "vv_next (vw v)"] exI [of _ "vv_bnd (vw v)"])
next
  case False
  with run obtain tables v1 h4 v2 h6 v3 b4 v4 b6 v5 idx v6 where
    f: "FindTablesByMask ch v = (Inr tables, v1)"
    and h4: "familyHead ord4 ch tables FamilyIPv4 v1 = (Inr h4, v2)"
    and h6: "familyHead ord6 ch tables FamilyIPv6 v2 = (Inr h6, v3)"
    and b4: "bindingMap ch FamilyIPv4 v3 = (Inr b4, v4)" and b6: "bindingMap ch FamilyIPv6 v4 = (Inr b6, v5)"
    and i: "resolveIfaces ch ifs v5 = (Inr idx, v6)"
    and l: "forEach ifs (bindIface ch b4 b6 idx h4 h6) 0 v6 = (Inr n, v')"
    by (auto simp: reconcileBindings_def andThen_split_Inr)
  let ?V = "vw v"
  let ?ts = "\<lambda>fam. sorted_list_of_set (famTables ?V fam)"
  have V1: "vw v1 = ?V" and full: "tabs_full ?V tables"
    using cls.FindTables_full [of v tables v1] f one by (simp_all add: NewClassify_def)
  from familyHead_ok [OF h4] obtain N4 where H4: "h4 = headOf ?V FamilyIPv4" "vw v2 = ?V\<lparr>vv_next := N4\<rparr>"
    "\<forall>t. t \<notin> set (?ts FamilyIPv4) \<longrightarrow> N4 t = vv_next ?V t"
    "1 < length (?ts FamilyIPv4) \<longrightarrow> N4 = chainNext (?ts FamilyIPv4) (vv_next ?V)"
    using full wf ords(1) unfolding V1 by blast
  have f2: "tabs_full (vw v2) tables" "view_wf (vw v2)"
    using full wf unfolding H4(2) tabs_full_def view_wf_def by simp_all
  from familyHead_ok [OF h6 f2 ords(2)] obtain N6 where H6: "h6 = headOf ?V FamilyIPv6" "vw v3 = ?V\<lparr>vv_next := N6\<rparr>"
    "\<forall>t. t \<notin> set (?ts FamilyIPv6) \<longrightarrow> N6 t = N4 t"
    "1 < length (?ts FamilyIPv6) \<longrightarrow> N6 = chainNext (?ts FamilyIPv6) N4"
    by (auto simp: H4(2))
  note B4 = bindingMap_ok [OF b4] and B6 = bindingMap_ok [OF b6] and I = resolveIfaces_ok [OF i]
  have V6: "vw v6 = ?V\<lparr>vv_next := N6\<rparr>" using B4 B6 I H6(2) by simp
  have "\<forall>sw. tableOr b4 sw = hitOf (vv_bnd (vw v6) FamilyIPv4 sw) \<and> tableOr b6 sw = hitOf (vv_bnd (vw v6) FamilyIPv6 sw)"
    using B4 B6 V6 H6(2) by simp
  with bindIfaces_ok [OF l] I have L: "\<exists>B. vw v' = (vw v6)\<lparr>vv_bnd := B\<rparr>"
    "\<forall>name \<in> set ifs. \<exists>sw. gm_get idx name = Some sw \<and> bound_to h4 h6 (vw v') sw" by blast+
  have N': "vv_next (vw v') = N6" using L(1) V6 by auto
  have "vv_ifs (vw v5) = vv_ifs ?V" using B4 B6 H6(2) by simp
  with L(2) I have L2: "\<forall>name \<in> set ifs. \<exists>sw. vv_ifs ?V name = Some sw \<and> bound_to h4 h6 (vw v') sw" by metis
  have "walk k N6 (headOf ?V fam) = ?ts fam" if c: "1 < card (famTables ?V fam)" "card (famTables ?V fam) < k" for fam k
    by (rule chain_walk [OF wf H4(4) H6(3,4) c])
  with L(1) L2 V6 H4(1) H6(1) N' show ?thesis by auto
qed

end

end
