(* ===== verification/Desired_Store.thy ===== *)
theory Desired_Store
  imports Contract
begin

text \<open>
  \<open>internal/agent/desiredstore.go\<close>: the last desired state the controller delivered, and the
  fail-static discipline. The mutex makes every method atomic, so a method is one function on the
  store; \<open>s.now()\<close> is an argument (a time in nanoseconds). Slices are lists: \<open>filterOutPools\<close> and
  \<open>filterOutPrefixes\<close> copy into fresh backing arrays, so no caller sees another's slice change.

  Results: \<open>Merge\<close> is a map update on the per-pool view of the held state (\<open>Merge_refines\<close>), keeps
  anchor prefixes distinct, and what it merged cannot be clobbered by a full state rendered from
  older content; no operation but \<open>Accept\<close> and \<open>Merge\<close> changes the state that \<open>Desired\<close> serves.
\<close>

record DesiredStore =
  dst_state :: EdgeDesiredState
  dst_haveState :: bool
  dst_healthy :: bool
  dst_lastTouch :: int
  dst_contentAsOf :: int

definition NewDesiredStore :: DesiredStore where
  "NewDesiredStore =
     \<lparr>dst_state = EdgeDesiredState_zero, dst_haveState = False, dst_healthy = False,
      dst_lastTouch = 0, dst_contentAsOf = 0\<rparr>"

definition Accept :: "int \<Rightarrow> EdgeDesiredState \<Rightarrow> DesiredStore \<Rightarrow> bool \<times> DesiredStore" where
  "Accept now state s =
     (if dst_haveState s \<and> es_Generation state < es_Generation (dst_state s) then (False, s)
      else if dst_haveState s \<and> es_GeneratedAtUnixMs state > 0
           \<and> es_GeneratedAtUnixMs state < dst_contentAsOf s then (False, s)
      else (True, s\<lparr>dst_state := state, dst_haveState := True, dst_healthy := True,
                    dst_lastTouch := now,
                    dst_contentAsOf := (if es_GeneratedAtUnixMs state > dst_contentAsOf s
                                        then es_GeneratedAtUnixMs state else dst_contentAsOf s)\<rparr>))"

definition filterOutPools :: "'a list \<Rightarrow> PoolID set \<Rightarrow> ('a \<Rightarrow> PoolID) \<Rightarrow> 'a list" where
  "filterOutPools xs drop_ids poolOf = filter (\<lambda>x. poolOf x \<notin> drop_ids) xs"

definition filterOutPrefixes :: "'a list \<Rightarrow> Prefix set \<Rightarrow> ('a \<Rightarrow> Prefix) \<Rightarrow> 'a list" where
  "filterOutPrefixes xs drop_pfx prefixOf = filter (\<lambda>x. prefixOf x \<notin> drop_pfx) xs"

text \<open>The two key sets \<open>Merge\<close> builds before it touches the state.\<close>

definition touched_pools :: "EdgeDesiredDelta \<Rightarrow> PoolID set" where
  "touched_pools delta = set (map pd_PoolID (ed_Upserts delta)) \<union> set (ed_Removed delta)"

definition touched_prefixes :: "EdgeDesiredDelta \<Rightarrow> EdgeDesiredState \<Rightarrow> Prefix set" where
  "touched_prefixes delta st =
     set (map cs_Prefix (filter (\<lambda>c. cs_PoolID c \<in> touched_pools delta) (es_ClassifySessions st)))
     \<union> set (concat (map (\<lambda>up. map an_Prefix (pd_Anchors up)) (ed_Upserts delta)))
     \<union> set (concat (map (\<lambda>up. map fr_SrcPrefix (pd_FlowRedirects up)) (ed_Upserts delta)))"

text \<open>The loop body that re-adds one upserted pool's contribution.\<close>

definition merge_upsert :: "PoolDelta \<Rightarrow> EdgeDesiredState \<Rightarrow> EdgeDesiredState" where
  "merge_upsert up st =
     st\<lparr>es_Policers := es_Policers st @ pd_Policers up,
        es_ClassifySessions := es_ClassifySessions st @ pd_ClassifySessions up,
        es_Anchors := es_Anchors st @ pd_Anchors up,
        es_FlowRedirects := es_FlowRedirects st @ pd_FlowRedirects up,
        es_RedirectNextHop := (if Addr_IsValid (pd_RedirectNextHop up) then pd_RedirectNextHop up
                               else es_RedirectNextHop st),
        es_RedirectNextHopV6 := (if Addr_IsValid (pd_RedirectNextHopV6 up)
                                 then pd_RedirectNextHopV6 up else es_RedirectNextHopV6 st)\<rparr>"

definition merge_drop :: "EdgeDesiredDelta \<Rightarrow> EdgeDesiredState \<Rightarrow> EdgeDesiredState" where
  "merge_drop delta st =
     st\<lparr>es_Policers := filterOutPools (es_Policers st) (touched_pools delta) ps_PoolID,
        es_ClassifySessions :=
          filterOutPools (es_ClassifySessions st) (touched_pools delta) cs_PoolID,
        es_Anchors := filterOutPrefixes (es_Anchors st) (touched_prefixes delta st) an_Prefix,
        es_FlowRedirects :=
          filterOutPrefixes (es_FlowRedirects st) (touched_prefixes delta st) fr_SrcPrefix\<rparr>"

definition merge_state :: "EdgeDesiredDelta \<Rightarrow> EdgeDesiredState \<Rightarrow> EdgeDesiredState" where
  "merge_state delta st =
     (let st1 = fold merge_upsert (ed_Upserts delta) (merge_drop delta st)
      in st1\<lparr>es_Generation := ed_Generation delta,
             es_DesiredVersion := (if ed_DesiredVersion delta \<noteq> 0 then ed_DesiredVersion delta
                                   else es_DesiredVersion st1)\<rparr>)"

text \<open>\<open>Merge\<close> returns the classify sessions held before the merge, or \<open>None\<close> without a base.\<close>

definition Merge ::
  "int \<Rightarrow> EdgeDesiredDelta \<Rightarrow> DesiredStore \<Rightarrow> ClassifySession list option \<times> DesiredStore" where
  "Merge now delta s =
     (if \<not> dst_haveState s then (None, s)
      else (Some (es_ClassifySessions (dst_state s)),
            s\<lparr>dst_state := merge_state delta (dst_state s),
              dst_contentAsOf := (if ed_GeneratedAtUnixMs delta > dst_contentAsOf s
                                  then ed_GeneratedAtUnixMs delta else dst_contentAsOf s),
              dst_healthy := True, dst_lastTouch := now\<rparr>))"

definition ControllerDown :: "DesiredStore \<Rightarrow> DesiredStore" where
  "ControllerDown s = s\<lparr>dst_healthy := False\<rparr>"

definition ControllerUp :: "DesiredStore \<Rightarrow> DesiredStore" where
  "ControllerUp s = s\<lparr>dst_healthy := True\<rparr>"

definition Desired :: "DesiredStore \<Rightarrow> EdgeDesiredState option" where
  "Desired s = (if \<not> dst_haveState s then None else Some (dst_state s))"

record DesiredStatus =
  sts_HaveState :: bool
  sts_ControllerHealthy :: bool
  sts_Frozen :: bool
  sts_Generation :: u64
  sts_StaleFor :: int

definition Status :: "int \<Rightarrow> DesiredStore \<Rightarrow> DesiredStatus" where
  "Status now s =
     \<lparr>sts_HaveState = dst_haveState s, sts_ControllerHealthy = dst_healthy s,
      sts_Frozen = (dst_haveState s \<and> \<not> dst_healthy s),
      sts_Generation = (if dst_haveState s then es_Generation (dst_state s) else 0),
      sts_StaleFor = (if dst_haveState s then now - dst_lastTouch s else 0)\<rparr>"

subsection \<open>The merged state\<close>

lemma fold_merge_upsert:
  "es_Policers (fold merge_upsert ups st) = es_Policers st @ concat (map pd_Policers ups)"
  "es_ClassifySessions (fold merge_upsert ups st) =
     es_ClassifySessions st @ concat (map pd_ClassifySessions ups)"
  "es_Anchors (fold merge_upsert ups st) = es_Anchors st @ concat (map pd_Anchors ups)"
  "es_FlowRedirects (fold merge_upsert ups st) =
     es_FlowRedirects st @ concat (map pd_FlowRedirects ups)"
  by (induction ups arbitrary: st) (simp_all add: merge_upsert_def)

lemma merge_state_Policers:
  "es_Policers (merge_state delta st) =
     filter (\<lambda>p. ps_PoolID p \<notin> touched_pools delta) (es_Policers st)
     @ concat (map pd_Policers (ed_Upserts delta))"
  by (simp add: merge_state_def Let_def fold_merge_upsert merge_drop_def filterOutPools_def)

lemma merge_state_Sessions:
  "es_ClassifySessions (merge_state delta st) =
     filter (\<lambda>c. cs_PoolID c \<notin> touched_pools delta) (es_ClassifySessions st)
     @ concat (map pd_ClassifySessions (ed_Upserts delta))"
  by (simp add: merge_state_def Let_def fold_merge_upsert merge_drop_def filterOutPools_def)

lemma merge_state_Anchors:
  "es_Anchors (merge_state delta st) =
     filter (\<lambda>a. an_Prefix a \<notin> touched_prefixes delta st) (es_Anchors st)
     @ concat (map pd_Anchors (ed_Upserts delta))"
  by (simp add: merge_state_def Let_def fold_merge_upsert merge_drop_def filterOutPrefixes_def)

lemma merge_state_FlowRedirects:
  "es_FlowRedirects (merge_state delta st) =
     filter (\<lambda>f. fr_SrcPrefix f \<notin> touched_prefixes delta st) (es_FlowRedirects st)
     @ concat (map pd_FlowRedirects (ed_Upserts delta))"
  by (simp add: merge_state_def Let_def fold_merge_upsert merge_drop_def filterOutPrefixes_def)

lemmas merge_state_fields =
  merge_state_Policers merge_state_Sessions merge_state_Anchors merge_state_FlowRedirects

subsection \<open>Refinement: a delta is an update of the per-pool view\<close>

text \<open>
  The abstract view of a desired state is a function from pools to the policers and sessions the
  pool contributes. The abstract effect of a delta is: an upserted pool gets exactly the new
  contribution, a removed pool (not also upserted) gets nothing, every other pool keeps its own.
\<close>

type_synonym pool_view = "PoolID \<Rightarrow> PolicerSpec list \<times> ClassifySession list"

definition pool_view :: "EdgeDesiredState \<Rightarrow> pool_view" where
  "pool_view st pool =
     (filter (\<lambda>p. ps_PoolID p = pool) (es_Policers st),
      filter (\<lambda>c. cs_PoolID c = pool) (es_ClassifySessions st))"

definition delta_spec :: "EdgeDesiredDelta \<Rightarrow> pool_view \<Rightarrow> pool_view" where
  "delta_spec delta view pool =
     (case find (\<lambda>up. pd_PoolID up = pool) (ed_Upserts delta) of
        Some up \<Rightarrow> (pd_Policers up, pd_ClassifySessions up)
      | None \<Rightarrow> if pool \<in> set (ed_Removed delta) then ([], []) else view pool)"

text \<open>A delta as the controller renders it: one fragment per pool, every resource of a fragment
  tagged with the fragment's pool.\<close>

definition wf_delta :: "EdgeDesiredDelta \<Rightarrow> bool" where
  "wf_delta delta \<longleftrightarrow>
     distinct (map pd_PoolID (ed_Upserts delta)) \<and>
     list_all (\<lambda>up. list_all (\<lambda>p. ps_PoolID p = pd_PoolID up) (pd_Policers up)
                  \<and> list_all (\<lambda>c. cs_PoolID c = pd_PoolID up) (pd_ClassifySessions up))
       (ed_Upserts delta)"

lemma concat_tagged:
  assumes "distinct (map pid ups)"
    and "list_all (\<lambda>up. list_all (\<lambda>x. tag x = pid up) (items up)) ups"
  shows "filter (\<lambda>x. tag x = k) (concat (map items ups)) =
           (case find (\<lambda>up. pid up = k) ups of Some up \<Rightarrow> items up | None \<Rightarrow> [])"
  using assms
proof (induction ups)
  case (Cons up ups)
  have none: "filter (\<lambda>x. tag x = k) (concat (map items ups)) = []" if "pid up = k"
    using Cons.prems that by (auto simp: filter_empty_conv list_all_iff) (metis image_eqI)
  have this1: "filter (\<lambda>x. tag x = k) (items up) = (if pid up = k then items up else [])"
    using Cons.prems(2) by (auto simp: list_all_iff filter_empty_conv filter_id_conv)
  show ?case
    using Cons none this1 by auto
qed simp

lemma find_None_touched:
  "find (\<lambda>up. pd_PoolID up = pool) (ed_Upserts delta) = None \<Longrightarrow>
     pool \<in> touched_pools delta \<longleftrightarrow> pool \<in> set (ed_Removed delta)"
  by (auto simp: touched_pools_def find_None_iff)

lemma find_Some_touched:
  "find (\<lambda>up. pd_PoolID up = pool) (ed_Upserts delta) = Some up \<Longrightarrow> pool \<in> touched_pools delta"
  by (auto simp: touched_pools_def find_Some_iff)

lemma filter_untouched:
  "filter (\<lambda>x. tag x \<notin> T \<and> tag x = pool) xs =
     (if pool \<in> T then [] else filter (\<lambda>x. tag x = pool) xs)"
  by (auto simp: filter_empty_conv intro: filter_cong)

lemma merge_state_refines:
  assumes "wf_delta delta"
  shows "pool_view (merge_state delta st) = delta_spec delta (pool_view st)"
proof
  fix pool
  have pols: "filter (\<lambda>p. ps_PoolID p = pool) (concat (map pd_Policers (ed_Upserts delta))) =
      (case find (\<lambda>up. pd_PoolID up = pool) (ed_Upserts delta) of
         Some up \<Rightarrow> pd_Policers up | None \<Rightarrow> [])"
    using assms by (intro concat_tagged) (auto simp: wf_delta_def list_all_iff)
  have sess: "filter (\<lambda>c. cs_PoolID c = pool) (concat (map pd_ClassifySessions (ed_Upserts delta))) =
      (case find (\<lambda>up. pd_PoolID up = pool) (ed_Upserts delta) of
         Some up \<Rightarrow> pd_ClassifySessions up | None \<Rightarrow> [])"
    using assms by (intro concat_tagged) (auto simp: wf_delta_def list_all_iff)
  show "pool_view (merge_state delta st) pool = delta_spec delta (pool_view st) pool"
    using find_None_touched [of pool delta] find_Some_touched [of pool delta]
    by (simp add: pool_view_def delta_spec_def merge_state_fields filter_untouched pols sess
             split: option.split)
qed

text \<open>C34: \<open>DesiredStore.Merge\<close> refines the per-pool update: for a delta as the controller renders it, the
  store that held a state afterwards serves, for every pool, exactly what the delta says (the new
  policers and sessions of an upserted pool, nothing for a removed pool, the old contribution of
  every other pool), and hands back the sessions held before the merge.\<close>

theorem Merge_refines:
  assumes "wf_delta delta" and "Desired s = Some st"
  shows "\<exists>st'. Desired (snd (Merge now delta s)) = Some st'
            \<and> pool_view st' = delta_spec delta (pool_view st)
            \<and> es_Generation st' = ed_Generation delta
            \<and> fst (Merge now delta s) = Some (es_ClassifySessions st)"
proof -
  have s: "dst_haveState s" "dst_state s = st"
    using assms(2) by (auto simp: Desired_def split: if_splits)
  have "es_Generation (merge_state delta st) = ed_Generation delta"
    by (simp add: merge_state_def Let_def)
  with s show ?thesis
    by (simp add: Merge_def Desired_def merge_state_refines [OF assms(1)])
qed

subsection \<open>Anchors and flow redirects stay free of duplicates\<close>

lemma distinct_replace:
  assumes "distinct (map key xs)" and "distinct (map key ys)" and "key ` set ys \<subseteq> T"
  shows "distinct (map key (filter (\<lambda>x. key x \<notin> T) xs @ ys))"
proof -
  have "distinct (map key (filter (\<lambda>x. key x \<notin> T) xs))"
    using assms(1) by (rule distinct_map_filter)
  then show ?thesis
    using assms(2,3) by auto
qed

text \<open>C39: a merge replaces and never accumulates: when the held anchors and flow redirects have pairwise
  distinct prefixes and so do the delta's own, the merged ones are distinct too, even where the
  held state has lost the touched pool's classify sessions.\<close>

theorem Merge_no_duplicate_prefixes:
  assumes "distinct (map an_Prefix (es_Anchors (dst_state s)))"
    and "distinct (map fr_SrcPrefix (es_FlowRedirects (dst_state s)))"
    and "distinct (map an_Prefix (concat (map pd_Anchors (ed_Upserts delta))))"
    and "distinct (map fr_SrcPrefix (concat (map pd_FlowRedirects (ed_Upserts delta))))"
  shows "distinct (map an_Prefix (es_Anchors (dst_state (snd (Merge now delta s))))) \<and>
    distinct (map fr_SrcPrefix (es_FlowRedirects (dst_state (snd (Merge now delta s)))))"
proof
  have "distinct (map an_Prefix (es_Anchors (merge_state delta (dst_state s))))"
    unfolding merge_state_Anchors
    by (rule distinct_replace) (use assms in \<open>auto simp: touched_prefixes_def\<close>)
  then show "distinct (map an_Prefix (es_Anchors (dst_state (snd (Merge now delta s)))))"
    using assms(1) by (simp add: Merge_def)
next
  have "distinct (map fr_SrcPrefix (es_FlowRedirects (merge_state delta (dst_state s))))"
    unfolding merge_state_FlowRedirects
    by (rule distinct_replace) (use assms in \<open>auto simp: touched_prefixes_def\<close>)
  then show "distinct (map fr_SrcPrefix (es_FlowRedirects (dst_state (snd (Merge now delta s)))))"
    using assms(2) by (simp add: Merge_def)
qed

subsection \<open>Histories of the store\<close>

text \<open>The calls the subscription goroutine and the delta handler make, in any order.\<close>

datatype store_op = OpAccept int EdgeDesiredState | OpMerge int EdgeDesiredDelta | OpDown | OpUp

fun store_step :: "store_op \<Rightarrow> DesiredStore \<Rightarrow> DesiredStore" where
  "store_step (OpAccept t st) s = snd (Accept t st s)"
| "store_step (OpMerge t d) s = snd (Merge t d s)"
| "store_step OpDown s = ControllerDown s"
| "store_step OpUp s = ControllerUp s"

definition store_run :: "store_op list \<Rightarrow> DesiredStore \<Rightarrow> DesiredStore" where
  "store_run ops s = fold store_step ops s"

lemmas store_defs = Accept_def Merge_def ControllerDown_def ControllerUp_def Desired_def

lemma store_step_haveState: "dst_haveState s \<Longrightarrow> dst_haveState (store_step op s)"
  by (cases op) (auto simp: store_defs)

lemma store_step_contentAsOf: "dst_contentAsOf s \<le> dst_contentAsOf (store_step op s)"
  by (cases op) (auto simp: store_defs)

lemma store_run_haveState: "dst_haveState s \<Longrightarrow> dst_haveState (store_run ops s)"
  by (induction ops arbitrary: s) (auto simp: store_run_def store_step_haveState)

lemma store_run_contentAsOf: "dst_contentAsOf s \<le> dst_contentAsOf (store_run ops s)"
proof (induction ops arbitrary: s)
  case (Cons op ops)
  have "dst_contentAsOf s \<le> dst_contentAsOf (store_step op s)"
    by (rule store_step_contentAsOf)
  also have "\<dots> \<le> dst_contentAsOf (store_run ops (store_step op s))"
    by (rule Cons.IH)
  finally show ?case by (simp add: store_run_def)
qed (simp add: store_run_def)

lemma store_run_merge_watermark:
  assumes "dst_haveState s" and "OpMerge t d \<in> set ops"
  shows "ed_GeneratedAtUnixMs d \<le> dst_contentAsOf (store_run ops s)"
proof -
  from assms(2) obtain pre post where ops: "ops = pre @ OpMerge t d # post"
    by (meson split_list)
  let ?s1 = "store_run pre s"
  have "dst_haveState ?s1"
    using assms(1) by (rule store_run_haveState)
  then have "ed_GeneratedAtUnixMs d \<le> dst_contentAsOf (store_step (OpMerge t d) ?s1)"
    by (simp add: store_defs)
  also have "\<dots> \<le> dst_contentAsOf (store_run post (store_step (OpMerge t d) ?s1))"
    by (rule store_run_contentAsOf)
  finally show ?thesis
    by (simp add: ops store_run_def)
qed

text \<open>C38: the stale-render guard. Once a delta has been merged, whatever calls follow, a full snapshot
  rendered from content older than that delta is rejected and the store does not change, even if
  the snapshot carries a newer generation.\<close>

theorem stale_snapshot_rejected:
  assumes "dst_haveState s" and "OpMerge t d \<in> set ops"
    and "0 < es_GeneratedAtUnixMs st" and "es_GeneratedAtUnixMs st < ed_GeneratedAtUnixMs d"
  shows "Accept now st (store_run ops s) = (False, store_run ops s)"
proof -
  have "dst_haveState (store_run ops s)"
    using assms(1) by (rule store_run_haveState)
  moreover have "es_GeneratedAtUnixMs st < dst_contentAsOf (store_run ops s)"
    using store_run_merge_watermark [OF assms(1,2)] assms(4) by simp
  ultimately show ?thesis
    using assms(3) by (simp add: Accept_def)
qed

text \<open>Cold start and fail-static. Starting from an empty store, \<open>Desired\<close> reports no state exactly
  as long as no full state was ever pushed, whatever deltas and connection changes occurred; and
  losing or regaining the controller never changes the state served.\<close>

lemma Desired_fail_static:
  "(Desired (store_run ops NewDesiredStore) = None \<longleftrightarrow> (\<forall>t st. OpAccept t st \<notin> set ops)) \<and>
   Desired (ControllerDown s) = Desired s \<and> Desired (ControllerUp s) = Desired s"
proof (intro conjI)
  have "dst_haveState (store_run ops s) \<longleftrightarrow> dst_haveState s \<or> (\<exists>t st. OpAccept t st \<in> set ops)" for s
  proof (induction ops arbitrary: s)
    case (Cons op ops)
    have "dst_haveState (store_step op s) \<longleftrightarrow> dst_haveState s \<or> (\<exists>t st. op = OpAccept t st)"
      by (cases op) (auto simp: store_defs)
    with Cons.IH [of "store_step op s"] show ?case
      by (auto simp: store_run_def)
  qed (simp add: store_run_def)
  from this [of NewDesiredStore]
  show "Desired (store_run ops NewDesiredStore) = None \<longleftrightarrow> (\<forall>t st. OpAccept t st \<notin> set ops)"
    by (auto simp: Desired_def NewDesiredStore_def)
qed (simp_all add: store_defs)

subsection \<open>A concrete history\<close>

definition ex_spec :: "PoolID \<Rightarrow> string \<Rightarrow> PolicerSpec" where
  "ex_spec pool name =
     \<lparr>ps_Name = name, ps_PoolID = pool, ps_CIR = 1000, ps_CommittedBurstBytes = 5000,
      ps_CommittedBurstPackets = 0, ps_RateType = RateKbps, ps_ConformAction = PolicerTransmit,
      ps_ExceedAction = PolicerDrop, ps_ColorAware = False, ps_BindWorker = False,
      ps_WorkerIndex = 0\<rparr>"

definition ex_session :: "PoolID \<Rightarrow> string \<Rightarrow> 32 word \<Rightarrow> ClassifySession" where
  "ex_session pool name w =
     \<lparr>cs_PoolID = pool, cs_PolicerName = name, cs_Mask = MaskIP4Dst32, cs_Prefix = Prefix (IPv4 w) 32\<rparr>"

definition ex_anchor :: "32 word \<Rightarrow> Anchor" where
  "ex_anchor w = \<lparr>an_Prefix = Prefix (IPv4 w) 32, an_Communities = [], an_LargeCommunities = []\<rparr>"

definition ex_state :: EdgeDesiredState where
  "ex_state = EdgeDesiredState_zero
     \<lparr>es_Generation := 1, es_GeneratedAtUnixMs := 100,
      es_Policers := [ex_spec 1 ''p1'', ex_spec 2 ''p2''],
      es_ClassifySessions := [ex_session 1 ''p1'' 10, ex_session 2 ''p2'' 20],
      es_Anchors := [ex_anchor 10, ex_anchor 20]\<rparr>"

definition ex_delta :: EdgeDesiredDelta where
  "ex_delta =
     \<lparr>ed_SchemaVersion = 0, ed_Generation = 2, ed_BaseGeneration = 1, ed_DesiredVersion = 0,
      ed_GeneratedAtUnixMs = 200,
      ed_Upserts = [\<lparr>pd_PoolID = 2, pd_Policers = [ex_spec 2 ''p2''],
                     pd_ClassifySessions = [ex_session 2 ''p2'' 21], pd_Anchors = [ex_anchor 21],
                     pd_FlowRedirects = [], pd_RedirectNextHop = AddrInvalid,
                     pd_RedirectNextHopV6 = AddrInvalid\<rparr>],
      ed_Removed = [1]\<rparr>"

definition ex_store :: DesiredStore where
  "ex_store = snd (Accept 0 ex_state NewDesiredStore)"

lemmas ex_defs = ex_store_def ex_state_def ex_delta_def ex_spec_def ex_session_def ex_anchor_def
  NewDesiredStore_def EdgeDesiredState_zero_def

lemma ex_wf_delta: "wf_delta ex_delta"
  by (simp add: wf_delta_def ex_defs)

lemma ex_store_simps: "dst_haveState ex_store" "dst_state ex_store = ex_state"
  by (simp_all add: ex_store_def Accept_def NewDesiredStore_def)

theorem Merge_refines_witness:
  "\<exists>st'. Desired (snd (Merge 5 ex_delta ex_store)) = Some st'
     \<and> pool_view st' = delta_spec ex_delta (pool_view ex_state)
     \<and> es_Generation st' = ed_Generation ex_delta
     \<and> fst (Merge 5 ex_delta ex_store) = Some (es_ClassifySessions ex_state)"
  by (rule Merge_refines [OF ex_wf_delta]) (simp add: Desired_def ex_store_simps)

theorem Merge_no_duplicate_prefixes_witness:
  "distinct (map an_Prefix (es_Anchors (dst_state (snd (Merge 5 ex_delta ex_store))))) \<and>
   distinct (map fr_SrcPrefix (es_FlowRedirects (dst_state (snd (Merge 5 ex_delta ex_store)))))"
  by (rule Merge_no_duplicate_prefixes) (simp_all add: ex_store_simps, simp_all add: ex_defs)

theorem stale_snapshot_rejected_witness:
  "Accept 9 (ex_state\<lparr>es_Generation := 7, es_GeneratedAtUnixMs := 150\<rparr>)
       (store_run [OpMerge 5 ex_delta, OpDown] ex_store)
     = (False, store_run [OpMerge 5 ex_delta, OpDown] ex_store)"
  by (rule stale_snapshot_rejected [where t = 5 and d = ex_delta])
    (simp_all add: ex_store_simps, simp_all add: ex_defs)

end
