(* ===== verification/Convergence.thy ===== *)
theory Convergence
  imports Reconcile_Pass Desired_Store
begin

text \<open>
  The properties of one \<open>Reconcile\<close> pass: a pass that reports no error has made VPP's managed policers,
  classify sessions and interface bindings the desired ones; a failing pass publishes nothing; the
  guard against a collapse to the empty state; the drift check of pps policers.
\<close>

definition orders_ok :: "range_orders \<Rightarrow> bool" where
  "orders_ok ro \<longleftrightarrow> range_order (ro_relearn ro) \<and> range_order (ro_polDel ro) \<and> range_order (ro_polAdd ro) \<and>
     range_order (ro_wants ro) \<and> range_order (ro_prune ro) \<and> range_order (ro_head4 ro) \<and> range_order (ro_head6 ro)"

text \<open>A desired state as the controller renders it: policer names parse, sessions name a policer of the
  state, have no host bits outside their mask, and a member is in one pool per mask.\<close>

definition desired_ok :: "contract_fns \<Rightarrow> EdgeDesiredState \<Rightarrow> bool" where
  "desired_ok c d \<longleftrightarrow>
     (\<forall>s \<in> set (es_Policers d). managed c (ps_Name s)) \<and> sessions_ok (es_ClassifySessions d) \<and>
     (\<forall>s \<in> set (es_ClassifySessions d). cs_PolicerName s \<in> ps_Name ` set (es_Policers d))"

text \<open>The state a pass starts from: a well-formed VPP with at most one table per mask, tracked indices that
  agree with it, and, for the desired members of a policer that is not tracked (all of them after a
  restart of the agent), sessions that point at the member's own policer: the relearning takes the
  index from them without a check. A fresh VPP is ready, and so is the VPP a successful pass leaves
  (\<open>pass_leaves_ready\<close>); \<open>moved_member_misattributed\<close> shows what happens without the last condition.\<close>

definition pass_ready :: "EdgeDesiredState \<Rightarrow> vpp_view \<Rightarrow> Reconciler \<Rightarrow> bool" where
  "pass_ready d V r \<longleftrightarrow>
     view_wf V \<and> one_table V \<and> idx_ok V r \<and> sessions_attributed V (filter (untracked r) (es_ClassifySessions d))"

definition deferred :: "EdgeDesiredState \<Rightarrow> Reconciler \<Rightarrow> bool" where
  "deferred d r \<longleftrightarrow> desiredEmpty d \<and> rc_appliedNonEmpty r \<and> \<not> rc_pendingEmpty r"

text \<open>The desired policers are in VPP under the tracked index, with the desired rate and burst: a kbps
  policer with its byte burst, a pps policer with its burst in milliseconds, or with the byte burst
  the drift check compares. The other managed policers are gone and foreign ones untouched.\<close>

definition rate_converged :: "PolicerSpec \<Rightarrow> u32 \<times> u64 \<Rightarrow> bool" where
  "rate_converged s q \<longleftrightarrow> fst q = ucast (ps_CIR s) \<and>
     (if ps_RateType s = RatePps
      then snd q = cbMsForPps (ps_CommittedBurstPackets s) (ps_CIR s) \<or> snd q = ps_CommittedBurstBytes s
      else snd q = ps_CommittedBurstBytes s)"

definition policers_converged :: "contract_fns \<Rightarrow> EdgeDesiredState \<Rightarrow> vpp_view \<Rightarrow> vpp_view \<Rightarrow> Reconciler \<Rightarrow> bool" where
  "policers_converged c d V V' r' \<longleftrightarrow>
     (\<forall>n s. specFor (es_Policers d) n = Some s \<longrightarrow>
        (\<exists>i q. vv_pol V' n = Some (i, q) \<and> gm_get (rc_polIdx r') n = Some i \<and> rate_converged s q)) \<and>
     (\<forall>n. managed c n \<and> n \<notin> ps_Name ` set (es_Policers d) \<longrightarrow> vv_pol V' n = None) \<and>
     (\<forall>n. \<not> managed c n \<longrightarrow> vv_pol V' n = vv_pol V n)"

text \<open>Every desired member has its session, on the table of its mask, hitting its pool's policer; and no
  table of the six masks holds any other session.\<close>

definition sessions_converged :: "EdgeDesiredState \<Rightarrow> vpp_view \<Rightarrow> bool" where
  "sessions_converged d V' \<longleftrightarrow>
     (\<forall>s \<in> set (es_ClassifySessions d). \<exists>t k i q. SessionKey (cs_Mask s) (cs_Prefix s) = Inr k \<and>
        table_of V' (cs_Mask s) t \<and> vv_ses V' t k = Some i \<and> vv_pol V' (cs_PolicerName s) = Some (i, q)) \<and>
     (\<forall>mk t k i. table_of V' mk t \<and> vv_ses V' t k = Some i \<longrightarrow>
        (\<exists>s \<in> set (es_ClassifySessions d). cs_Mask s = mk \<and> SessionKey mk (cs_Prefix s) = Inr k))"

text \<open>Every configured interface is attached to the first table of each family, and the tables of a
  family form one chain.\<close>

definition bindings_converged :: "string list \<Rightarrow> vpp_view \<Rightarrow> bool" where
  "bindings_converged ifs V' \<longleftrightarrow> ifs = [] \<or>
     (\<forall>name \<in> set ifs. \<exists>sw. vv_ifs V' name = Some sw \<and>
         bound_to (headOf V' FamilyIPv4) (headOf V' FamilyIPv6) V' sw) \<and>
     (\<forall>fam. 1 < card (famTables V' fam) \<longrightarrow>
        walk (Suc (card (famTables V' fam))) (vv_next V') (headOf V' fam) = sorted_list_of_set (famTables V' fam))"

subsection \<open>Composition\<close>

lemma stage_None: "stage m res k s = ((res', None), s') \<longleftrightarrow> (\<exists>a s1. m s = (Inr a, s1) \<and> k a s1 = ((res', None), s'))"
  by (auto simp: stage_def split: prod.splits sum.splits)

lemma sessionMap_Some:
  assumes ok: "sessions_ok desired" and known: "\<forall>s \<in> set desired. session_known idx s" and s: "s \<in> set desired"
  shows "\<exists>k. SessionKey (cs_Mask s) (cs_Prefix s) = Inr k \<and>
    sessionMap idx desired (cs_Mask s) k = Some (the (gm_get idx (cs_PolicerName s)))"
proof -
  from known s obtain k where k: "SessionKey (cs_Mask s) (cs_Prefix s) = Inr k" by (auto simp: session_known_def)
  define c :: contract_fns where "c = undefined"
  let ?w = "want_of c idx s"
  have w: "?w \<in> set (wants_for c idx desired (cs_Mask s))" unfolding wants_for_def set_map by (rule imageI) (simp add: s)
  have "wantKey ?w = k" "sw_hitNext ?w = the (gm_get idx (cs_PolicerName s))"
    by (simp_all add: wantKey_def want_of_def k)
  with wantMap_Some [OF wants_for_ok [OF ok known] w] k show ?thesis
    unfolding wants_for_map by auto
qed

lemma sessionMap_SomeD:
  assumes "sessionMap idx desired mk k = Some h" and "\<forall>s \<in> set desired. session_known idx s"
  shows "\<exists>s \<in> set desired. cs_Mask s = mk \<and> SessionKey mk (cs_Prefix s) = Inr k"
proof -
  from assms(1) obtain s where "s \<in> set desired" "cs_Mask s = mk" "k = projr (SessionKey mk (cs_Prefix s))"
    by (auto simp: sessionMap_def dest!: map_of_SomeD)
  moreover with assms(2) obtain k' where "SessionKey mk (cs_Prefix s) = Inr k'" by (auto simp: session_known_def)
  ultimately show ?thesis by auto
qed

lemma pol_frame_table_of: "pol_frame V V' \<Longrightarrow> table_of V' = table_of V"
  unfolding pol_frame_def by (cases V; cases V') (simp add: table_of_def fun_eq_iff)

definition links :: "(u32 \<Rightarrow> u32) \<Rightarrow> (Family \<Rightarrow> u32 \<Rightarrow> u32 option) \<Rightarrow> vpp_view \<Rightarrow> vpp_view" where
  "links N B V = V\<lparr>vv_next := N, vv_bnd := B\<rparr>"

lemma links_simps [simp]:
  "vv_pol (links N B V) = vv_pol V" "vv_ses (links N B V) = vv_ses V" "vv_ifs (links N B V) = vv_ifs V"
  "vv_next (links N B V) = N" "table_of (links N B V) = table_of V" "famTables (links N B V) = famTables V"
  "headOf (links N B V) = headOf V" "view_wf (links N B V) = view_wf V" "one_table (links N B V) = one_table V"
proof -
  show t: "table_of (links N B V) = table_of V" by (simp add: links_def table_of_def fun_eq_iff)
  then show f: "famTables (links N B V) = famTables V" by (simp add: famTables_def fun_eq_iff)
  then show "headOf (links N B V) = headOf V" by (simp add: headOf_def fun_eq_iff)
  show "one_table (links N B V) = one_table V" by (simp add: one_table_def t)
qed (simp_all add: links_def view_wf_def)

lemma rate_convergedI: "q = installed_rate s \<or> q = (ucast (ps_CIR s), ps_CommittedBurstBytes s) \<Longrightarrow> rate_converged s q"
  by (auto simp: installed_rate_def rate_converged_def)

lemma policers_convergedI:
  assumes "\<And>n s. specFor (es_Policers d) n = Some s \<Longrightarrow> pol_in_place V' r' s"
    and "\<And>n. managed c n \<Longrightarrow> vv_pol V' n \<noteq> None \<longleftrightarrow> n \<in> ps_Name ` set (es_Policers d)"
    and "\<And>n. \<not> managed c n \<Longrightarrow> vv_pol V' n = vv_pol V n"
  shows "policers_converged c d V V' r'"
proof -
  have "\<exists>i q. vv_pol V' n = Some (i, q) \<and> gm_get (rc_polIdx r') n = Some i \<and>
      rate_converged s q" if "specFor (es_Policers d) n = Some s" for n s
    using assms(1) [OF that] specFor_Some [OF that] rate_convergedI [of _ s] unfolding pol_in_place_def by blast
  with assms(2,3) show ?thesis unfolding policers_converged_def by blast
qed

lemma sessions_convergedI:
  assumes d: "desired_ok c d" and pol: "\<And>n s. specFor (es_Policers d) n = Some s \<Longrightarrow> pol_in_place V' r' s"
    and ses: "\<And>s. s \<in> set (es_ClassifySessions d) \<Longrightarrow> session_known (rc_polIdx r') s \<and> (\<exists>t. table_of V' (cs_Mask s) t)"
      "\<And>mk t. table_of V' mk t \<Longrightarrow> vv_ses V' t = sessionMap (rc_polIdx r') (es_ClassifySessions d) mk"
  shows "sessions_converged d V'"
proof -
  let ?ss = "es_ClassifySessions d"
  have known: "\<forall>s \<in> set ?ss. session_known (rc_polIdx r') s" and ok: "sessions_ok ?ss"
    using ses(1) d by (simp_all add: desired_ok_def)
  have "\<exists>t k i q. SessionKey (cs_Mask s) (cs_Prefix s) = Inr k \<and> table_of V' (cs_Mask s) t \<and> vv_ses V' t k = Some i \<and>
      vv_pol V' (cs_PolicerName s) = Some (i, q)" if s: "s \<in> set ?ss" for s
  proof -
    have "specFor (es_Policers d) (cs_PolicerName s) \<noteq> None"
      using d s unfolding specFor_dom desired_ok_def by (elim conjE) (rule bspec)
    then obtain sp where "specFor (es_Policers d) (cs_PolicerName s) = Some sp" by blast
    from pol [OF this] specFor_Some [OF this] obtain i q where q: "vv_pol V' (cs_PolicerName s) = Some (i, q)"
      "gm_get (rc_polIdx r') (cs_PolicerName s) = Some i" unfolding pol_in_place_def by auto
    from sessionMap_Some [OF ok known s] q(2) obtain k where k: "SessionKey (cs_Mask s) (cs_Prefix s) = Inr k"
      "sessionMap (rc_polIdx r') ?ss (cs_Mask s) k = Some i" by auto
    from ses(1) [OF s] obtain t where "table_of V' (cs_Mask s) t" by blast
    moreover with ses(2) k have "vv_ses V' t k = Some i" by simp
    ultimately show ?thesis using k(1) q(1) by blast
  qed
  moreover have "\<exists>s \<in> set ?ss. cs_Mask s = mk \<and> SessionKey mk (cs_Prefix s) = Inr k"
    if "table_of V' mk t" "vv_ses V' t k = Some i" for mk t k i
    using sessionMap_SomeD [OF _ known] ses(2) that by metis
  ultimately show ?thesis unfolding sessions_converged_def by blast
qed

text \<open>A converged data plane is ready for a pass of any well-formed desired state: a policer that is not
  tracked is not in VPP, so that no session can be attributed to a wrong one.\<close>

lemma converged_ready:
  assumes "view_wf V'" and "one_table V'" and "idx_ok V' r'" and conv: "policers_converged c d V V' r'" and d': "desired_ok c d'"
  shows "pass_ready d' V' r'"
proof -
  have "vv_pol V' (cs_PolicerName s) = None" if s: "s \<in> set (es_ClassifySessions d')" and un: "untracked r' s" for s
  proof (cases "specFor (es_Policers d) (cs_PolicerName s)")
    case (Some sp)
    with conv un show ?thesis unfolding policers_converged_def untracked_def by fastforce
  next
    case None
    then have "cs_PolicerName s \<notin> ps_Name ` set (es_Policers d)"
      using specFor_dom [of "es_Policers d" "cs_PolicerName s"] by blast
    moreover have "managed c (cs_PolicerName s)" using d' s unfolding desired_ok_def by fastforce
    ultimately show ?thesis using conv unfolding policers_converged_def by blast
  qed
  then have "sessions_attributed V' (filter (untracked r') (es_ClassifySessions d'))"
    unfolding sessions_attributed_def by simp
  with assms(1-3) show ?thesis by (simp add: pass_ready_def)
qed

text \<open>A VPP without policers is ready for anything.\<close>

lemma fresh_ready:
  "view_wf V \<Longrightarrow> one_table V \<Longrightarrow> vv_pol V = Map.empty \<Longrightarrow> pass_ready d V r"
  by (simp add: pass_ready_def idx_ok_def sessions_attributed_def)

context vpp_channel
begin

lemma countProgrammed_keeps: "keeps vw (countProgrammed c ord (NewPolicers c ch) (NewClassify ch))"
  unfolding countProgrammed_def NewPolicers_def NewClassify_def policerReconciler.select_convs classifyReconciler.select_convs
  by (intro keeps_andThen keeps_forEach keeps_ret Policers_Dump_keeps FindTables_keeps DumpSessions_keeps)

lemma attestPass_ok:
  assumes "attestPass c ro ch d res0 (r, v) = ((res, None), (r', v'))"
  shows "vw v' = vw v \<and> rc_polIdx r' = rc_polIdx r \<and> rc_lastGen r' = es_Generation d \<and>
    rc_appliedNonEmpty r' = (\<not> desiredEmpty d) \<and> rc_polSnap r' = Some (rc_polIdx r)"
proof -
  obtain x v1 where x: "countProgrammed c (ro_count ro) (NewPolicers c ch) (NewClassify ch) v = (x, v1)"
    by (cases "countProgrammed c (ro_count ro) (NewPolicers c ch) (NewClassify ch) v")
  with assms show ?thesis
    using keepsD [OF countProgrammed_keeps x]
    by (auto simp: attestPass_def finishPass_def anchorCounts_def recomputePoolHash_def split: sum.splits)
qed

lemma applyPass_ok:
  assumes run: "applyPass c ro ch d (r, v) = ((res, None), (r', v'))"
    and ords: "orders_ok ro" and d: "desired_ok c d" and ready: "pass_ready d (vw v) r"
  shows "policers_converged c d (vw v) (vw v') r' \<and> sessions_converged d (vw v') \<and>
    bindings_converged (rc_policerIfaces r) (vw v') \<and> rc_lastGen r' = es_Generation d \<and>
    rc_appliedNonEmpty r' = (\<not> desiredEmpty d) \<and> rc_polSnap r' = Some (rc_polIdx r') \<and> view_wf (vw v') \<and> one_table (vw v') \<and>
    idx_ok (vw v') r'"
proof -
  let ?cl = "NewClassify ch" and ?p = "NewPolicers c ch"
  from run obtain u s1 pr s2 cr s3 bc s4 res0 where
    a: "relearnPolicerIndexes (ro_relearn ro) ?cl (es_Policers d) (es_ClassifySessions d) (r, v) = (Inr u, s1)"
    and b: "reconcilePolicers c (ro_polDel ro) (ro_polAdd ro) ?p (es_Policers d) s1 = (Inr pr, s2)"
    and e: "reconcileClassify c (ro_wants ro) (ro_prune ro) ?cl (es_ClassifySessions d) s2 = (Inr cr, s3)"
    and f: "andThen (getR rc_policerIfaces) (\<lambda>ifs. onV (reconcileBindings (ro_head4 ro) (ro_head6 ro) ch ifs)) s3
        = (Inr bc, s4)"
    and g: "attestPass c ro ch d res0 s4 = ((res, None), (r', v'))"
    unfolding applyPass_def Let_def stage_None by blast
  obtain r1 v1 r2 v2 r3 v3 r4 v4 where s: "s1 = (r1, v1)" "s2 = (r2, v2)" "s3 = (r3, v3)" "s4 = (r4, v4)"
    by (cases s1; cases s2; cases s3; cases s4)
  let ?V = "vw v"
  from ready have wf: "view_wf ?V" "one_table ?V" "idx_ok ?V r" by (simp_all add: pass_ready_def)
  have A: "vw v1 = ?V" "idx_ok ?V r1" "only_idx r r1"
    using cls.relearn_ok [OF a [unfolded s]] ords ready by (simp_all add: pass_ready_def orders_ok_def)
  have B: "view_wf (vw v2)" "pol_frame ?V (vw v2)" "only_idx r1 r2"
      "\<And>n s. specFor (es_Policers d) n = Some s \<Longrightarrow> pol_in_place (vw v2) r2 s"
      "\<And>n. managed c n \<Longrightarrow> vv_pol (vw v2) n \<noteq> None \<longleftrightarrow> n \<in> ps_Name ` set (es_Policers d)"
      "\<And>n. \<not> managed c n \<Longrightarrow> vv_pol (vw v2) n = vv_pol ?V n" "idx_ok (vw v2) r2"
    using pol.reconcilePolicers_ok [OF b [unfolded s]] ords d A wf by (simp_all add: orders_ok_def desired_ok_def)
  have one: "one_table (vw v2)" using wf(2) pol_frame_table_of [OF B(2)] by (simp add: one_table_def)
  have S: "sessions_ok (es_ClassifySessions d)" using d by (simp add: desired_ok_def)
  have C: "r3 = r2" "view_wf (vw v3)" "one_table (vw v3)" "cls_frame (vw v2) (vw v3)"
      "\<And>s. s \<in> set (es_ClassifySessions d) \<Longrightarrow> session_known (rc_polIdx r2) s \<and> (\<exists>t. table_of (vw v3) (cs_Mask s) t)"
      "\<And>mk t. table_of (vw v3) mk t \<Longrightarrow> vv_ses (vw v3) t = sessionMap (rc_polIdx r2) (es_ClassifySessions d) mk"
    using cls.reconcileClassify_ok [OF e [unfolded s] _ _ B(1) one S] ords by (simp_all add: orders_ok_def)
  from f s(3,4) have f': "reconcileBindings (ro_head4 ro) (ro_head6 ro) ch (rc_policerIfaces r3) v3 = (Inr bc, v4)" "r4 = r3"
    by (auto simp: andThen_split_Inr)
  from reconcileBindings_ok [OF f'(1) _ _ C(2,3)] ords obtain N D where V4: "vw v4 = links N D (vw v3)"
    and F: "rc_policerIfaces r3 \<noteq> [] \<longrightarrow> (\<forall>name \<in> set (rc_policerIfaces r3). \<exists>sw. vv_ifs (vw v3) name = Some sw \<and>
         bound_to (headOf (vw v3) FamilyIPv4) (headOf (vw v3) FamilyIPv6) (vw v4) sw) \<and>
       (\<forall>fam k. 1 < card (famTables (vw v3) fam) \<longrightarrow> card (famTables (vw v3) fam) < k \<longrightarrow>
          walk k (vv_next (vw v4)) (headOf (vw v3) fam) = sorted_list_of_set (famTables (vw v3) fam))"
    unfolding orders_ok_def links_def by blast
  note G = attestPass_ok [OF g [unfolded s(4)]]
  have V': "vw v' = links N D (vw v3)" and idx: "rc_polIdx r' = rc_polIdx r2"
    using G V4 C(1) f'(2) by simp_all
  have pol: "vv_pol (vw v') = vv_pol (vw v2)" using C(4) by (simp add: V' cls_frame_def)
  have place: "pol_in_place (vw v') r' sp" if "specFor (es_Policers d) n = Some sp" for n sp
    using B(4) [OF that] by (simp add: pol_in_place_def pol idx)
  have ifs: "rc_policerIfaces r3 = rc_policerIfaces r"
    using only_idx_trans [OF A(3) B(3)] C(1) unfolding only_idx_def by (metis Reconciler.select_convs(12) Reconciler.surjective Reconciler.update_convs(1))
  have "bindings_converged (rc_policerIfaces r) (vw v')"
    using F unfolding bindings_converged_def V' V4 links_simps ifs by (blast intro: lessI)
  moreover have "policers_converged c d ?V (vw v') r'"
    by (rule policers_convergedI) (use place B(5,6) pol in simp_all)
  moreover have "sessions_converged d (vw v')"
    by (rule sessions_convergedI [OF d place]) (use C(5,6) idx in \<open>simp_all add: V'\<close>)
  moreover have "view_wf (vw v')" "one_table (vw v')" using C(2,3) by (simp_all add: V')
  moreover have "idx_ok (vw v') r'" using B(7) by (simp add: idx_ok_def pol idx)
  ultimately show ?thesis
    using G idx f'(2) C(1) by simp
qed

end

subsection \<open>Example\<close>

text \<open>A VPP that already runs a policer of another system, a stale policer and a stale session of a pool
  that is gone, and one data interface. The contract functions are instantiated by concrete ones.\<close>

definition ex_contract :: contract_fns where
  "ex_contract =
     \<lparr>ParsePolicerName = (\<lambda>n. if take 1 n = ''p'' then Some (of_nat (length n), ''in'') else None),
      PoolSetHash = (\<lambda>ids. sum_list ids), PolicerSpec_Validate = (\<lambda>s. ps_Name s \<noteq> []),
      MaskKind_String = (\<lambda>mk. case mk of MaskIP4Dst32 \<Rightarrow> ''a'' | MaskIP4Dst24 \<Rightarrow> ''b'' | MaskIP6Dst128 \<Rightarrow> ''c''
        | MaskIP4Src32 \<Rightarrow> ''d'' | MaskIP4Src24 \<Rightarrow> ''e'' | MaskIP6Src128 \<Rightarrow> ''f'' | MaskOther n \<Rightarrow> replicate (Suc n) (CHR ''x'')),
      FlowRedirect_Validate = (\<lambda>_. True), AssembleChunks = (\<lambda>cs. EdgeDesiredState_zero), SoftDead = (\<lambda>_. False),
      SchemaVersion = 1\<rparr>"

definition ex_orders :: range_orders where
  "ex_orders =
     \<lparr>ro_relearn = rev, ro_polDel = rev, ro_polAdd = rev, ro_wants = (\<lambda>ks. ks), ro_prune = rev, ro_head4 = rev,
      ro_head6 = rev, ro_count = rev, ro_hash = rev\<rparr>"

definition ex_vpp :: ref_vpp where
  "ex_vpp =
     \<lparr>rv_pol = [(''other'', 0, 7, 7), (''p9'', 1, 5, 5)],
      rv_tab = [(3, 1, 2, replicate 14 0 @ replicate 4 0xff @ replicate 14 0)],
      rv_next = [(3, NoTable)], rv_ses = [((3, replicate 14 0 @ [0, 0, 0, 9] @ replicate 14 0), 1)], rv_bnd = [],
      rv_ifs = [(''eth0'', 4, 3)]\<rparr>"

definition ex_recon :: Reconciler where
  "ex_recon = SetPolicerInterfaces [''eth0''] (New 0 0)"

lemma ex_orders_ok: "orders_ok ex_orders"
  by (simp add: orders_ok_def ex_orders_def range_rev.range_order_axioms range_id.range_order_axioms)

lemma ex_desired_ok: "desired_ok ex_contract ex_state"
proof -
  have k: "SessionKey MaskIP4Dst32 (Prefix (IPv4 w) 32) = Inr (replicate 14 0 @ be_bytes 4 w @ replicate 14 0)" for w
    by (simp add: SessionKey_iff addrBytesOf_def keyLead_def keyTail_def layouts vec_def)
  have "storedKey MaskIP4Dst32 (replicate 14 0 @ be_bytes 4 (10 :: 32 word) @ replicate 14 0) = replicate 14 0 @ be_bytes 4 (10 :: 32 word) @ replicate 14 0"
    "storedKey MaskIP4Dst32 (replicate 14 0 @ be_bytes 4 (20 :: 32 word) @ replicate 14 0) = replicate 14 0 @ be_bytes 4 (20 :: 32 word) @ replicate 14 0"
    by code_simp+
  with k show ?thesis
    by (auto simp: desired_ok_def sessions_ok_def managed_def ex_defs ex_contract_def)
qed

lemma ex_view_wf: "view_wf (ref_view ex_vpp)"
proof -
  have "maskKey (replicate 14 0 @ replicate 4 0xff @ replicate 14 0) (replicate 14 0 @ [0, 0, 0, 9] @ replicate 14 0)
      = replicate 14 0 @ [0, 0, 0, 9] @ replicate 14 0" by code_simp
  then show ?thesis
    by (auto simp: view_wf_def ref_view_def ex_vpp_def NoTable_val split: if_splits)
qed

lemma ex_pass_ready: "pass_ready ex_state (ref_view ex_vpp) ex_recon"
proof -
  have "table_of (ref_view ex_vpp) mk t \<Longrightarrow> t = 3" for mk t
    by (auto simp: table_of_def ref_view_def ex_vpp_def split: if_splits)
  then have "one_table (ref_view ex_vpp)" unfolding one_table_def by blast
  moreover have "vv_pol (ref_view ex_vpp) n = None" if "n = ''p1'' \<or> n = ''p2''" for n
    using that by (auto simp: ref_view_def ex_vpp_def)
  then have "sessions_attributed (ref_view ex_vpp) (filter (untracked ex_recon) (es_ClassifySessions ex_state))"
    by (auto simp: sessions_attributed_def ex_defs)
  ultimately show ?thesis
    by (simp add: pass_ready_def ex_view_wf idx_ok_def ex_recon_def New_def SetPolicerInterfaces_def)
qed

lemma ex_not_deferred: "\<not> deferred ex_state ex_recon"
  by (simp add: deferred_def ex_recon_def New_def SetPolicerInterfaces_def)

lemma ex_reconciles:
  "\<exists>res r' v'. Reconcile ex_contract ex_orders (Inr ref_channel) ex_state (ex_recon, ex_vpp) = ((res, None), (r', v'))"
proof -
  have "snd (fst (Reconcile ex_contract ex_orders (Inr ref_channel) ex_state (ex_recon, ex_vpp))) = None"
    by code_simp
  then show ?thesis
    by (cases "Reconcile ex_contract ex_orders (Inr ref_channel) ex_state (ex_recon, ex_vpp)") auto
qed

subsection \<open>A restart over sessions of another pool\<close>

text \<open>VPP still runs the sessions of the previous desired state, in which member 10 was in the pool of
  policer p; the agent restarts with a state in which it is in the pool of p2. Relearning takes the
  index of p2 from that session, although it is p's index: the pass reports no error, leaves all
  members of p2 on p's policer, and the next pass finds nothing to do.\<close>

definition mm_vpp :: ref_vpp where
  "mm_vpp =
     \<lparr>rv_pol = [(''p'', 0, 1000, 5000), (''p2'', 1, 1000, 5000)],
      rv_tab = [(3, 1, 2, replicate 14 0 @ replicate 4 0xff @ replicate 14 0)], rv_next = [(3, NoTable)],
      rv_ses = [((3, replicate 14 0 @ [0, 0, 0, 10] @ replicate 14 0), 0), ((3, replicate 14 0 @ [0, 0, 0, 20] @ replicate 14 0), 1),
        ((3, replicate 14 0 @ [0, 0, 0, 21] @ replicate 14 0), 0)],
      rv_bnd = [], rv_ifs = []\<rparr>"

definition mm_state :: EdgeDesiredState where
  "mm_state = EdgeDesiredState_zero
     \<lparr>es_Generation := 2, es_Policers := [ex_spec 1 ''p'', ex_spec 2 ''p2''],
      es_ClassifySessions := [ex_session 2 ''p2'' 10, ex_session 2 ''p2'' 20, ex_session 1 ''p'' 21]\<rparr>"

lemma moved_member_misattributed:
  "case Reconcile ex_contract ex_orders (Inr ref_channel) mm_state (New 0 0, mm_vpp) of ((_, err), (r1, v1)) \<Rightarrow>
     err = None \<and> gm_get (rv_pol v1) ''p2'' = Some (1, 1000, 5000) \<and> gm_get (rc_polIdx r1) ''p2'' = Some 0 \<and>
     map snd (rv_ses v1) = [0, 0, 0] \<and>
     (case Reconcile ex_contract ex_orders (Inr ref_channel) mm_state (r1, v1) of ((res2, err2), (_, v2)) \<Rightarrow>
        err2 = None \<and> Empty res2 \<and> v2 = v1)"
  by code_simp

subsection \<open>Properties of a pass\<close>

lemma Reconcile_pass:
  assumes "vpp_channel ch vw" and "orders_ok ro" and "desired_ok c d" and "pass_ready d (vw v) r" and "\<not> deferred d r"
    and "Reconcile c ro (Inr ch) d (r, v) = ((res, None), (r', v'))"
  shows "policers_converged c d (vw v) (vw v') r' \<and> sessions_converged d (vw v') \<and>
    bindings_converged (rc_policerIfaces r) (vw v') \<and> rc_lastGen r' = es_Generation d \<and>
    rc_appliedNonEmpty r' = (\<not> desiredEmpty d) \<and> rc_polSnap r' = Some (rc_polIdx r') \<and> view_wf (vw v') \<and> one_table (vw v') \<and>
    idx_ok (vw v') r'"
proof -
  have "applyPass c ro ch d (r\<lparr>rc_pendingEmpty := False\<rparr>, v) = ((res, None), (r', v'))"
    using assms(5,6) by (simp add: Reconcile_def deferred_def split: if_splits)
  moreover have "pass_ready d (vw v) (r\<lparr>rc_pendingEmpty := False\<rparr>)"
    using assms(4) by (simp add: pass_ready_def idx_ok_def untracked_def [abs_def])
  ultimately show ?thesis
    using vpp_channel.applyPass_ok [OF assms(1) _ assms(2,3)] by fastforce
qed

text \<open>A pass re-establishes what the next pass starts from.\<close>

lemma pass_leaves_ready:
  assumes "vpp_channel ch vw" and "orders_ok ro" and "desired_ok c d" and "pass_ready d (vw v) r" and "\<not> deferred d r"
    and "Reconcile c ro (Inr ch) d (r, v) = ((res, None), (r', v'))" and "desired_ok c d'"
  shows "pass_ready d' (vw v') r'"
  using Reconcile_pass [OF assms(1-6)] converged_ready [OF _ _ _ _ assms(7)] by blast

text \<open>C33: policer convergence. A full pass that starts from a ready state (\<open>pass_ready\<close>: a well-formed VPP,
  tracked indices that agree with it, and, where indices are relearned, sessions that point at their
  own policers) and reports no error leaves, in VPP, every desired policer under the index the
  reconciler tracks for it, with the desired rate, and the desired byte burst when it is a kbps
  policer; a pps policer has either the millisecond burst \<open>toConfig\<close> computes or the byte burst the
  drift check compares. Every managed policer that is not desired is gone; policers whose name is not
  one of this system are untouched. This holds whatever order the code's map iterations take. The
  rate type and the actions of a policer that was already there are not compared by the code, and
  nothing is claimed of them.\<close>

theorem Reconcile_policers_converge:
  assumes "vpp_channel ch vw" and "orders_ok ro" and "desired_ok c d" and "pass_ready d (vw v) r" and "\<not> deferred d r"
    and "Reconcile c ro (Inr ch) d (r, v) = ((res, None), (r', v'))"
  shows "policers_converged c d (vw v) (vw v') r'"
  using Reconcile_pass [OF assms] by blast

theorem Reconcile_policers_converge_witness:
  "\<exists>res r' v'. Reconcile ex_contract ex_orders (Inr ref_channel) ex_state (ex_recon, ex_vpp) = ((res, None), (r', v')) \<and>
     policers_converged ex_contract ex_state (ref_view ex_vpp) (ref_view v') r'"
  using ex_reconciles Reconcile_policers_converge [OF ref.vpp_channel_axioms ex_orders_ok ex_desired_ok ex_pass_ready ex_not_deferred]
  by blast

text \<open>C32: session convergence. A full pass that starts from a ready state (\<open>pass_ready\<close>) and reports no
  error gives every desired member a classify session on the table of its mask, which hits the policer
  of its own pool, so that the members of a pool share one token bucket; no classify table of the six
  masks holds a session that is not desired, also on masks the desired state no longer uses; and the
  state it leaves is ready for a pass of any well-formed desired state, so that from a ready start
  (a fresh VPP is one) every further successful pass converges too. Readiness excludes one real case:
  after a restart of the agent over a VPP whose sessions still hit the old policer of a member that
  has changed pools, \<open>moved_member_misattributed\<close> shows that the pass does not converge.\<close>

theorem Reconcile_sessions_converge:
  assumes "vpp_channel ch vw" and "orders_ok ro" and "desired_ok c d" and "pass_ready d (vw v) r" and "\<not> deferred d r"
    and "Reconcile c ro (Inr ch) d (r, v) = ((res, None), (r', v'))"
  shows "sessions_converged d (vw v') \<and> (\<forall>d'. desired_ok c d' \<longrightarrow> pass_ready d' (vw v') r')"
  using Reconcile_pass [OF assms] pass_leaves_ready [OF assms] by blast

theorem Reconcile_sessions_converge_witness:
  "\<exists>res r' v'. Reconcile ex_contract ex_orders (Inr ref_channel) ex_state (ex_recon, ex_vpp) = ((res, None), (r', v')) \<and>
     sessions_converged ex_state (ref_view v') \<and> pass_ready ex_state (ref_view v') r'"
  using ex_reconciles ex_desired_ok
    Reconcile_sessions_converge [OF ref.vpp_channel_axioms ex_orders_ok ex_desired_ok ex_pass_ready ex_not_deferred]
  by blast

text \<open>Binding convergence. After a successful pass every configured interface is attached, for each
  address family, to the lowest-numbered table of the family (detached when the family has no
  table), and when a family has several tables a packet that enters at that head visits all of them,
  in increasing order, and no other.\<close>

lemma Reconcile_bindings_converge:
  assumes "vpp_channel ch vw" and "orders_ok ro" and "desired_ok c d" and "pass_ready d (vw v) r" and "\<not> deferred d r"
    and "Reconcile c ro (Inr ch) d (r, v) = ((res, None), (r', v'))"
  shows "bindings_converged (rc_policerIfaces r) (vw v')"
  using Reconcile_pass [OF assms] by blast

subsection \<open>Failing and deferred passes\<close>

text \<open>Everything of the reconciler but the tracked indices.\<close>

definition steady :: "Reconciler \<times> 'v \<Rightarrow> Reconciler" where
  "steady s = (fst s)\<lparr>rc_polIdx := []\<rparr>"

lemma steady_onV [simp, intro]: "keeps steady (onV m)"
  by (auto simp: keeps_def steady_def onV_def split: prod.splits)

lemma steady_getR [simp, intro]: "keeps steady (getR f)"
  by (auto simp: keeps_def steady_def getR_def)

lemma steady_modR [intro]: "(\<And>r. (f r)\<lparr>rc_polIdx := []\<rparr> = r\<lparr>rc_polIdx := []\<rparr>) \<Longrightarrow> keeps steady (modR f)"
  by (auto simp: keeps_def steady_def modR_def)

lemma steady_idx [simp, intro]: "keeps steady (modR (putIdx n i))" "keeps steady (modR (delIdx n))"
  by (auto simp: putIdx_def delIdx_def)

lemmas steady_intros = keeps_intros steady_onV steady_getR steady_idx

lemma steady_policers: "keeps steady (reconcilePolicers c ordD ordA p ds)"
  unfolding reconcilePolicers_def deleteOrphanPolicer_def upsertPolicer_def Let_def by (intro steady_intros)

lemma steady_upsertWants: "keeps steady (upsertWants cl t ws hits cnt)"
  by (auto simp: keeps_def steady_def upsertWants_def split: prod.splits option.splits)

lemma steady_classify: "keeps steady (reconcileClassify c ordW ordP cl ds)"
  unfolding reconcileClassify_def reconcileMask_def pruneMask_def buildSessionWants_def ensureTable_def deleteKeys_def Let_def
  by (intro steady_intros steady_upsertWants)

lemma steady_relearn: "keeps steady (relearnPolicerIndexes ord cl ps ss)"
proof -
  have "(relearnSession a s r)\<lparr>rc_polIdx := []\<rparr> = r\<lparr>rc_polIdx := []\<rparr>" for a s r
    using relearnSession_cases [of a s r] by (auto simp: putIdx_def)
  then have "(fold (relearnSession a) ss r)\<lparr>rc_polIdx := []\<rparr> = r\<lparr>rc_polIdx := []\<rparr>" for a r
    by (induction ss arbitrary: r) auto
  then show ?thesis
    unfolding relearnPolicerIndexes_def by (intro steady_intros steady_modR)
qed





text \<open>C37: the guard against reconciling to empty. When the desired state collapses to empty right after a
  non-empty state was applied, the pass reports success, touches nothing in VPP and does not adopt
  the empty generation; the next empty pass is not deferred again (a real deletion of all pools
  goes through on the second pass), and a successful non-empty pass in between rearms the guard.\<close>

theorem empty_collapse_deferred_once:
  assumes "desiredEmpty d" and "rc_appliedNonEmpty r" and "\<not> rc_pendingEmpty r"
    and "Reconcile c ro chan d (r, v) = ((res, err), (r1, v1))"
  shows "err = None \<and> Empty res \<and> v1 = v \<and> rc_lastGen r1 = rc_lastGen r \<and> rc_polIdx r1 = rc_polIdx r \<and>
    (\<forall>d'. \<not> deferred d' r1) \<and>
    (\<forall>ro2 chan2 d2 res2 r2 v2. \<not> desiredEmpty d2 \<longrightarrow> Reconcile c ro2 chan2 d2 (r1, v1) = ((res2, None), (r2, v2)) \<longrightarrow>
        deferred d r2)"
proof -
  have r1: "r1 = r\<lparr>rc_pendingEmpty := True\<rparr>" "v1 = v" "res = Result_zero" "err = None"
    using assms by (auto simp: Reconcile_def)
  have rearm: "deferred d r2"
    if ne: "\<not> desiredEmpty d2" and run: "Reconcile c ro2 chan2 d2 (r1, v1) = ((res2, None), (r2, v2))" for ro2 chan2 d2 res2 r2 v2
  proof -
    from run ne obtain ch where ap: "applyPass c ro2 ch d2 (r1\<lparr>rc_pendingEmpty := False\<rparr>, v1) = ((res2, None), (r2, v2))"
      by (auto simp: Reconcile_def Let_def split: sum.splits)
    from ap obtain u s1 pr s2 cr s3 bc s4 res0 where
      a: "relearnPolicerIndexes (ro_relearn ro2) (NewClassify ch) (es_Policers d2) (es_ClassifySessions d2) (r1\<lparr>rc_pendingEmpty := False\<rparr>, v1) = (Inr u, s1)"
      and b: "reconcilePolicers c (ro_polDel ro2) (ro_polAdd ro2) (NewPolicers c ch) (es_Policers d2) s1 = (Inr pr, s2)"
      and e: "reconcileClassify c (ro_wants ro2) (ro_prune ro2) (NewClassify ch) (es_ClassifySessions d2) s2 = (Inr cr, s3)"
      and f: "andThen (getR rc_policerIfaces) (\<lambda>ifs. onV (reconcileBindings (ro_head4 ro2) (ro_head6 ro2) ch ifs)) s3 = (Inr bc, s4)"
      and g: "attestPass c ro2 ch d2 res0 s4 = ((res2, None), (r2, v2))"
      unfolding applyPass_def Let_def stage_None by blast
    have "keeps steady (andThen (getR rc_policerIfaces) (\<lambda>ifs. onV (reconcileBindings (ro_head4 ro2) (ro_head6 ro2) ch ifs)))"
      by auto
    from keepsD [OF this f] keepsD [OF steady_classify e] keepsD [OF steady_policers b] keepsD [OF steady_relearn a]
    have "steady s4 = steady (r1\<lparr>rc_pendingEmpty := False\<rparr>, v1)" by simp
    then have "\<not> rc_pendingEmpty (fst s4)"
      by (cases s4) (auto simp: steady_def dest: arg_cong [where f = rc_pendingEmpty])
    with g ne assms(1) show ?thesis
      by (cases s4) (auto simp: attestPass_def finishPass_def anchorCounts_def recomputePoolHash_def deferred_def
          split: prod.splits sum.splits)
  qed
  show ?thesis
    using rearm by (auto simp: r1 Empty_def Result_zero_def deferred_def)
qed

theorem empty_collapse_deferred_once_witness:
  "\<exists>res err r1 v1. Reconcile ex_contract ex_orders (Inr ref_channel) EdgeDesiredState_zero
       (ex_recon\<lparr>rc_appliedNonEmpty := True\<rparr>, ex_vpp) = ((res, err), (r1, v1)) \<and> err = None \<and> v1 = ex_vpp \<and>
     (\<forall>d'. \<not> deferred d' r1)"
proof -
  let ?r = "ex_recon\<lparr>rc_appliedNonEmpty := True\<rparr>"
  obtain res err r1 v1 where run: "Reconcile ex_contract ex_orders (Inr ref_channel) EdgeDesiredState_zero (?r, ex_vpp) = ((res, err), (r1, v1))"
    by (cases "Reconcile ex_contract ex_orders (Inr ref_channel) EdgeDesiredState_zero (?r, ex_vpp)") auto
  have "desiredEmpty EdgeDesiredState_zero" "rc_appliedNonEmpty ?r" "\<not> rc_pendingEmpty ?r"
    by (simp_all add: desiredEmpty_def EdgeDesiredState_zero_def ex_recon_def New_def SetPolicerInterfaces_def)
  from empty_collapse_deferred_once [OF this run] run show ?thesis by blast
qed

subsection \<open>Steady state\<close>

text \<open>Drift of a policer that VPP already runs as it was installed. A kbps policer is left alone: no request
  is sent. A pps policer is compared by its byte burst although it was installed with a millisecond
  burst, so that whenever the two numbers differ it is updated, and counted as a repair, on every
  pass.\<close>

lemma steady_policer_upsert:
  assumes "gm_get desiredByName n = Some s" and "gm_get (rc_polIdx r) n = Some i"
    and "gm_get actualByName n = Some \<lparr>pi_Name = n, pi_CIR = fst (installed_rate s), pi_CB = snd (installed_rate s)\<rparr>"
  shows "(ps_RateType s = RateKbps \<longrightarrow> upsertPolicer p actualByName desiredByName n cnt (r, v) = (Inr cnt, (r, v))) \<and>
    (ps_RateType s = RatePps \<and> cbMsForPps (ps_CommittedBurstPackets s) (ps_CIR s) \<noteq> ps_CommittedBurstBytes s \<longrightarrow>
       upsertPolicer p actualByName desiredByName n cnt (r, v) =
         andThen (onV (pr_Update p i s)) (\<lambda>_. ret (cnt\<lparr>pcn_updated := pcn_updated cnt + 1\<rparr>)) (r, v))"
  using assms by (auto simp: upsertPolicer_def andThen_def getR_def ret_def policerDrifted_def installed_rate_def)

lemma steady_policer_upsert_witness:
  "upsertPolicer (NewPolicers ex_contract ref_channel)
      [(''pool-9-in'', \<lparr>pi_Name = ''pool-9-in'', pi_CIR = 2000, pi_CB = 250\<rparr>)] [(''pool-9-in'', ex_pps)] ''pool-9-in''
      \<lparr>pcn_added = 0, pcn_updated = 0, pcn_deleted = 0\<rparr> (putIdx ''pool-9-in'' 1 ex_recon, ex_vpp)
   = andThen (onV (pr_Update (NewPolicers ex_contract ref_channel) 1 ex_pps))
       (\<lambda>_. ret \<lparr>pcn_added = 0, pcn_updated = 1, pcn_deleted = 0\<rparr>) (putIdx ''pool-9-in'' 1 ex_recon, ex_vpp)"
proof -
  have "installed_rate ex_pps = (2000, 250)" by code_simp
  moreover have "cbMsForPps (ps_CommittedBurstPackets ex_pps) (ps_CIR ex_pps) \<noteq> ps_CommittedBurstBytes ex_pps" by code_simp
  ultimately show ?thesis
    using steady_policer_upsert [of "[(''pool-9-in'', ex_pps)]" "''pool-9-in''" ex_pps "putIdx ''pool-9-in'' 1 ex_recon" 1
      "[(''pool-9-in'', \<lparr>pi_Name = ''pool-9-in'', pi_CIR = 2000, pi_CB = 250\<rparr>)]" "NewPolicers ex_contract ref_channel"
      "\<lparr>pcn_added = 0, pcn_updated = 0, pcn_deleted = 0\<rparr>" ex_vpp]
    by (simp add: ex_pps_def putIdx_def gm_simps)
qed

end
