(* ===== verification/Delta.thy ===== *)
theory Delta
  imports Convergence
begin

text \<open>
  \<open>internal/agent/delta.go\<close>: the incremental path. A delta touches only the policers and sessions of its
  pools; deletions are driven by the sessions held before the delta. The stages are composed as in
  the code; an error returns the result collected so far.
\<close>

definition upsertPoolPolicer :: "'v policerReconciler \<Rightarrow> PolicerSpec \<Rightarrow> int \<times> int \<Rightarrow> (Reconciler \<times> 'v, int \<times> int) act" where
  "upsertPoolPolicer p spec = (\<lambda>(added, updated).
     andThen (getR (\<lambda>r. gm_get (rc_polIdx r) (ps_Name spec))) (\<lambda>known. case known of
       None \<Rightarrow> andThen (onV (pr_Add p spec)) (\<lambda>newIdx.
                 andThen (modR (\<lambda>r. (putIdx (ps_Name spec) newIdx r)\<lparr>rc_actPol := rc_actPol r + 1\<rparr>))
                   (\<lambda>_. ret (added + 1, updated)))
     | Some idx \<Rightarrow> andThen (onV (pr_Update p idx spec)) (\<lambda>_. ret (added, updated + 1))))"

definition upsertPoolPolicers :: "'v policerReconciler \<Rightarrow> PolicerSpec list \<Rightarrow> (Reconciler \<times> 'v, int \<times> int) act" where
  "upsertPoolPolicers p specs = forEach specs (upsertPoolPolicer p) (0, 0)"

definition poolNames :: "contract_fns \<Rightarrow> (string list \<Rightarrow> string list) \<Rightarrow> PoolID \<Rightarrow> Reconciler \<Rightarrow> string list" where
  "poolNames c ord pool r =
     filter (\<lambda>n. case ParsePolicerName c n of None \<Rightarrow> False | Some (pid, _) \<Rightarrow> pid = pool) (ord (gm_keys (rc_polIdx r)))"

definition deletePoolPolicers :: "contract_fns \<Rightarrow> (string list \<Rightarrow> string list) \<Rightarrow> 'v policerReconciler \<Rightarrow> PoolID \<Rightarrow>
    (Reconciler \<times> 'v, int) act" where
  "deletePoolPolicers c ord p pool =
     andThen (getR (poolNames c ord pool)) (\<lambda>names.
       forEach names (\<lambda>name deleted. andThen (onV (pr_DeleteByName p name)) (\<lambda>_.
         andThen (modR (\<lambda>r. (delIdx name r)\<lparr>rc_actPol := rc_actPol r - 1\<rparr>)) (\<lambda>_. ret (deleted + 1)))) 0)"

definition addSess :: "int \<Rightarrow> (Reconciler \<times> 'v, unit) act" where
  "addSess n = modR (\<lambda>r. r\<lparr>rc_actSess := rc_actSess r + n\<rparr>)"

definition deletePoolSessions :: "'v classifyReconciler \<Rightarrow> ClassifySession list \<Rightarrow> (Reconciler \<times> 'v, int) act" where
  "deletePoolSessions cl sessions =
     (if sessions = [] then ret 0
      else andThen (onV (cl_FindTablesByMask cl)) (\<lambda>tables.
        forEach sessions (\<lambda>s deleted. case gm_get tables (cs_Mask s) of
            None \<Rightarrow> ret deleted
          | Some table \<Rightarrow>
              (case SessionKey (cs_Mask s) (cs_Prefix s) of Inl e \<Rightarrow> raise e
               | Inr key \<Rightarrow> andThen (onV (cl_DelSessionByKey cl table (cs_Mask s) key)) (\<lambda>_.
                   andThen (addSess (-1)) (\<lambda>_. ret (deleted + 1))))) 0))"

text \<open>The two loops of \<open>upsertPoolSessions\<close>: deleting the previous members that are no longer wanted, and
  installing the wanted ones of a mask after a point lookup.\<close>

definition deletePrev :: "contract_fns \<Rightarrow> 'v classifyReconciler \<Rightarrow> (MaskKind, u32) gomap \<Rightarrow> string list \<Rightarrow> ClassifySession \<Rightarrow>
    int \<Rightarrow> (Reconciler \<times> 'v, int) act" where
  "deletePrev c cl tables wantKeys s deleted =
     (case SessionKey (cs_Mask s) (cs_Prefix s) of Inl e \<Rightarrow> raise e
      | Inr key \<Rightarrow>
          (if sessionMapKey c (cs_Mask s) (EncodeToString key) \<in> set wantKeys then ret deleted
           else case gm_get tables (cs_Mask s) of None \<Rightarrow> ret deleted
           | Some table \<Rightarrow> andThen (onV (cl_DelSessionByKey cl table (cs_Mask s) key)) (\<lambda>_.
               andThen (addSess (-1)) (\<lambda>_. ret (deleted + 1)))))"

definition lookupHitMap :: "sessionWant list \<Rightarrow> u32 list \<Rightarrow> (string, u32) gomap" where
  "lookupHitMap wants hits = gm_collect (sw_key \<circ> fst) snd (filter (\<lambda>(_, h). h \<noteq> NoTable) (zip wants hits))"

definition applyUpserts :: "'v classifyReconciler \<Rightarrow> u32 \<Rightarrow> sessionWant list \<Rightarrow> (string, u32) gomap \<Rightarrow>
    (Reconciler \<times> 'v, int \<times> int) act" where
  "applyUpserts cl table wants actualHit = (\<lambda>(r, v).
     case applySessionUpserts cl table wants actualHit (0, 0) v of
       ((err, a, m), v') \<Rightarrow>
         (let r' = r\<lparr>rc_actSess := rc_actSess r + a\<rparr>
          in case err of Some e \<Rightarrow> (Inl e, (r', v')) | None \<Rightarrow> (Inr (a, m), (r', v'))))"

definition upsertMask :: "'v classifyReconciler \<Rightarrow> (MaskKind, sessionWant list) gomap \<Rightarrow> MaskKind \<Rightarrow>
    (MaskKind, u32) gomap \<times> int \<times> int \<Rightarrow> (Reconciler \<times> 'v, (MaskKind, u32) gomap \<times> int \<times> int) act" where
  "upsertMask cl byMask mk = (\<lambda>(tables, added, moved).
     let wants = getWants byMask mk in
     andThen (ensureTable cl tables mk) (\<lambda>(table, tables').
     andThen (onV (cl_LookupHits cl table mk (map sw_prefix wants))) (\<lambda>hits.
     andThen (applyUpserts cl table wants (lookupHitMap wants hits)) (\<lambda>(a, m).
       ret (tables', added + a, moved + m)))))"

definition upsertPoolSessions :: "contract_fns \<Rightarrow> (MaskKind list \<Rightarrow> MaskKind list) \<Rightarrow> 'v classifyReconciler \<Rightarrow>
    ClassifySession list \<Rightarrow> ClassifySession list \<Rightarrow> (Reconciler \<times> 'v, int \<times> int \<times> int) act" where
  "upsertPoolSessions c ord cl prev next =
     andThen (onV (cl_FindTablesByMask cl)) (\<lambda>tables.
     andThen (buildSessionWants c next) (\<lambda>byMask.
       let wantKeys = concat (map (\<lambda>(_, ws). map sw_key ws) byMask) in
       andThen (forEach prev (deletePrev c cl tables wantKeys) 0) (\<lambda>deleted.
       andThen (forEach (ord (gm_keys byMask)) (upsertMask cl byMask) (tables, 0, 0)) (\<lambda>(_, added, moved).
         ret (added, deleted, moved)))))"

definition prevByPool :: "ClassifySession list \<Rightarrow> PoolID \<Rightarrow> ClassifySession list" where
  "prevByPool prevSessions pool = filter (\<lambda>s. cs_PoolID s = pool) prevSessions"

definition AdoptDeltaBaseline :: "contract_fns \<Rightarrow> (string list \<Rightarrow> string list) \<Rightarrow> u64 \<Rightarrow> Reconciler \<Rightarrow> Reconciler" where
  "AdoptDeltaBaseline c ord gen r =
     recomputePoolHash c ord (r\<lparr>rc_polSnap := Some (rc_polIdx r), rc_lastGen := gen\<rparr>)"

fun applyRemoved :: "contract_fns \<Rightarrow> (string list \<Rightarrow> string list) \<Rightarrow> 'v policerReconciler \<Rightarrow> 'v classifyReconciler \<Rightarrow>
    ClassifySession list \<Rightarrow> PoolID list \<Rightarrow> Result \<Rightarrow> Reconciler \<times> 'v \<Rightarrow> (Result \<times> error option) \<times> (Reconciler \<times> 'v)" where
  "applyRemoved c ord p cl prev [] res s = ((res, None), s)"
| "applyRemoved c ord p cl prev (pool # pools) res s =
     stage (deletePoolSessions cl (prevByPool prev pool)) res (\<lambda>d.
       let res1 = res\<lparr>res_SessionsDeleted := res_SessionsDeleted res + d\<rparr> in
       stage (deletePoolPolicers c ord p pool) res1 (\<lambda>pd.
         applyRemoved c ord p cl prev pools (res1\<lparr>res_PolicersDeleted := res_PolicersDeleted res1 + pd\<rparr>))) s"

fun applyUpserted :: "contract_fns \<Rightarrow> (MaskKind list \<Rightarrow> MaskKind list) \<Rightarrow> 'v policerReconciler \<Rightarrow> 'v classifyReconciler \<Rightarrow>
    ClassifySession list \<Rightarrow> PoolDelta list \<Rightarrow> Result \<Rightarrow> Reconciler \<times> 'v \<Rightarrow> (Result \<times> error option) \<times> (Reconciler \<times> 'v)" where
  "applyUpserted c ord p cl prev [] res s = ((res, None), s)"
| "applyUpserted c ord p cl prev (up # ups) res s =
     stage (upsertPoolPolicers p (pd_Policers up)) res (\<lambda>(pa, pu).
       let res1 = res\<lparr>res_PolicersAdded := res_PolicersAdded res + pa, res_PolicersUpdated := res_PolicersUpdated res + pu\<rparr> in
       stage (upsertPoolSessions c ord cl (prevByPool prev (pd_PoolID up)) (pd_ClassifySessions up)) res1 (\<lambda>(da, dd, dm).
         applyUpserted c ord p cl prev ups
           (res1\<lparr>res_SessionsAdded := res_SessionsAdded res1 + da, res_SessionsDeleted := res_SessionsDeleted res1 + dd,
                 res_SessionsMoved := res_SessionsMoved res1 + dm\<rparr>))) s"

definition ApplyDelta :: "contract_fns \<Rightarrow> range_orders \<Rightarrow> error + 'v channel \<Rightarrow> EdgeDesiredDelta \<Rightarrow> ClassifySession list \<Rightarrow>
    Reconciler \<times> 'v \<Rightarrow> (Result \<times> error option) \<times> (Reconciler \<times> 'v)" where
  "ApplyDelta c ro chan delta prev s =
     (case chan of Inl e \<Rightarrow> ((Result_zero, Some e), s)
      | Inr ch \<Rightarrow>
          (case applyRemoved c (ro_polDel ro) (NewPolicers c ch) (NewClassify ch) prev (ed_Removed delta) Result_zero s of
             ((res, Some e), s1) \<Rightarrow> ((res, Some e), s1)
           | ((res, None), s1) \<Rightarrow>
               (case applyUpserted c (ro_wants ro) (NewPolicers c ch) (NewClassify ch) prev (ed_Upserts delta) res s1 of
                  ((res2, Some e), s2) \<Rightarrow> ((res2, Some e), s2)
                | ((res2, None), (r, v)) \<Rightarrow> ((res2, None), (AdoptDeltaBaseline c (ro_hash ro) (ed_Generation delta) r, v)))))"

subsection \<open>One pool's sessions\<close>

text \<open>The names of the masks are distinct and contain no NUL, so that the map key of a session tells its
  mask.\<close>

definition mask_names_ok :: "contract_fns \<Rightarrow> bool" where
  "mask_names_ok c \<longleftrightarrow> inj (MaskKind_String c) \<and> (\<forall>mk. CHR 0x00 \<notin> set (MaskKind_String c mk))"

lemma sessionMapKey_both:
  "mask_names_ok c \<Longrightarrow> sessionMapKey c a (EncodeToString k) = sessionMapKey c b (EncodeToString l) \<longleftrightarrow> a = b \<and> k = l"
  unfolding mask_names_ok_def using sessionMapKey_mask [of c a b] EncodeToString_inject injD by fastforce

lemma lookupHitMap_Some:
  assumes "gm_get (lookupHitMap wants hits) key = Some h" and "list_all2 P (map sw_prefix wants) hits"
  shows "\<exists>w \<in> set wants. sw_key w = key \<and> P (sw_prefix w) h \<and> h \<noteq> NoTable"
proof -
  from gm_collect_SomeD [OF assms(1) [unfolded lookupHitMap_def]] obtain w h' where
    "(w, h') \<in> set (zip wants hits)" "h' \<noteq> NoTable" "sw_key w = key" "h' = h" by auto
  moreover from this(1) assms(2) have "P (sw_prefix w) h'"
    unfolding list_all2_map1 by (auto simp: list_all2_iff)
  ultimately show ?thesis by (auto dest: set_zip_leftD)
qed

text \<open>The keys, in the table of a mask, of the previous sessions that satisfy a predicate; and the table's
  sessions after one pool went from \<open>prev\<close> to \<open>next\<close>.\<close>

definition prevKeys :: "ClassifySession list \<Rightarrow> (ClassifySession \<Rightarrow> bool) \<Rightarrow> MaskKind \<Rightarrow> bytes set" where
  "prevKeys prev P mk = {k. \<exists>s \<in> set prev. P s \<and> cs_Mask s = mk \<and> SessionKey mk (cs_Prefix s) = Inr k}"

definition pool_replaced :: "(string, u32) gomap \<Rightarrow> ClassifySession list \<Rightarrow> ClassifySession list \<Rightarrow> MaskKind \<Rightarrow>
    (bytes \<Rightarrow> u32 option) \<Rightarrow> bytes \<Rightarrow> u32 option" where
  "pool_replaced idx prev next mk f = (f |` (- prevKeys prev (\<lambda>_. True) mk)) ++ sessionMap idx next mk"

definition keys_clean :: "ClassifySession list \<Rightarrow> bool" where
  "keys_clean ss \<longleftrightarrow> (\<forall>s \<in> set ss. \<forall>k. SessionKey (cs_Mask s) (cs_Prefix s) = Inr k \<longrightarrow> storedKey (cs_Mask s) k = k)"

text \<open>The sessions on a table before a stage that may have created it.\<close>

definition sesOn :: "vpp_view \<Rightarrow> MaskKind \<Rightarrow> u32 \<Rightarrow> bytes \<Rightarrow> u32 option" where
  "sesOn V mk t = (if table_of V mk t then vv_ses V t else Map.empty)"

context classify_api
begin

lemma ensureTable_ses:
  assumes "ensureTable cl tables mk (r, v) = (Inr (t, tables'), (r', v'))" and tab: "table_of (vw v') mk' t'"
  shows "vv_ses (vw v') t' = sesOn (vw v) mk' t'"
proof (cases "gm_get tables mk")
  case (Some t0)
  with assms(1) have "v' = v" by (simp add: ensureTable_def ret_def)
  with tab show ?thesis by (simp add: sesOn_def)
next
  case None
  with assms(1) have "\<exists>sp. cl_AddTable cl sp v = (Inr t, v')"
    by (auto simp: ensureTable_def andThen_split_Inr ret_def)
  then obtain lay where "vv_tab (vw v) t = None"
    "vw v' = (vw v)\<lparr>vv_tab := (vv_tab (vw v))(t \<mapsto> lay), vv_ses := (vv_ses (vw v))(t := Map.empty),
                      vv_next := (vv_next (vw v))(t := NoTable)\<rparr>" using AddTable by blast
  with tab show ?thesis by (auto simp: sesOn_def table_of_def split: if_splits)
qed

lemma upsertMask_ok:
  assumes run: "upsertMask cl byMask mk (tables, cnt) (r, v) = (Inr (tables', cnt'), (r', v'))"
    and full: "tabs_full (vw v) tables" and wf: "view_wf (vw v)"
    and ok: "wants_ok mk (getWants byMask mk)"
    and key: "\<forall>w \<in> set (getWants byMask mk). sw_key w = sessionMapKey c mk (EncodeToString (wantKey w))"
  shows "rc_polIdx r' = rc_polIdx r \<and> tabs_full (vw v') tables' \<and> view_wf (vw v') \<and> cls_frame (vw v) (vw v') \<and>
    (\<exists>t. table_of (vw v') mk t) \<and>
    (\<forall>mk' t'. table_of (vw v') mk' t' \<longrightarrow>
       vv_ses (vw v') t' = sesOn (vw v) mk' t' ++ (if mk' = mk then wantMap (getWants byMask mk) else Map.empty))"
proof -
  let ?ws = "getWants byMask mk"
  from run obtain t r1 v1 hits v2 am r3 where
    e: "ensureTable cl tables mk (r, v) = (Inr (t, tables'), (r1, v1))"
    and l: "cl_LookupHits cl t mk (map sw_prefix ?ws) v1 = (Inr hits, v2)"
    and u: "applyUpserts cl t ?ws (lookupHitMap ?ws hits) (r1, v2) = (Inr am, (r3, v'))" and r': "r' = r3"
    by (auto simp: upsertMask_def andThen_split_Inr ret_def Let_def split: prod.splits)
  note E = ensureTable_ok [OF e full wf]
  from E have t1: "table_of (vw v1) mk t" by simp
  note L = LookupHits [OF l t1]
  from u obtain am' where a: "applySessionUpserts cl t ?ws (lookupHitMap ?ws hits) (0, 0) v2 = ((None, am'), v')"
    and r3: "rc_polIdx r3 = rc_polIdx r1"
    by (auto simp: applyUpserts_def Let_def split: prod.splits option.splits)
  have hit: "vv_ses (vw v1) t (wantKey w) = Some h"
    if w: "w \<in> set ?ws" and g: "gm_get (lookupHitMap ?ws hits) (sw_key w) = Some h" for w h
  proof -
    from lookupHitMap_Some [OF g conjunct2 [OF L]] obtain w' k where w': "w' \<in> set ?ws" "sw_key w' = sw_key w"
      "SessionKey mk (sw_prefix w') = Inr k" "h = hitOf (vv_ses (vw v1) t (storedKey mk k))" "h \<noteq> NoTable" by blast
    with key w have "wantKey w' = wantKey w" by (simp add: sessionMapKey_inject EncodeToString_inject)
    moreover from wants_okD [OF ok w'(1)] w'(3) have "k = wantKey w'" "storedKey mk k = wantKey w'" by simp_all
    ultimately show ?thesis using w'(4,5) by (simp add: hitOf_def split: option.splits)
  qed
  have V': "vw v' = setSes t (vv_ses (vw v1) t ++ wantMap ?ws) (vw v1)"
    using upserts_ok [OF a _ ok] hit t1 L by simp
  have key': "storedKey mk k = k" if "wantMap ?ws k = Some h" for k h
    using that wantMap_None [of k ?ws] wants_okD [OF ok] by force
  have "view_wf (vw v')"
    unfolding V' by (rule view_wf_setSes [where mk = mk]) (use E key' in \<open>auto simp: map_add_Some_iff\<close>)
  moreover have "t' = t \<longleftrightarrow> mk' = mk" if "table_of (vw v1) mk' t'" for mk' t'
    using that t1 table_of_unique_mask one_tableD [OF tabs_full_one, of "vw v1"] E by metis
  moreover have "cls_frame (vw v) (vw v')"
    unfolding V' using E cls_frame_trans cls_frame_setSes(1) by blast
  ultimately show ?thesis
    using E r' r3 t1 ensureTable_ses [OF e] by (auto simp: V')
qed

text \<open>A loop that deletes the sessions of \<open>prev\<close> that satisfy \<open>P\<close> and have a table, whatever it skips
  otherwise.\<close>

lemma deleteSessions_ok:
  assumes run: "forEach prev b n (r, v) = (Inr n', (r', v'))"
    and full: "tabs_full (vw v) tables" and wf: "view_wf (vw v)" and clean: "keys_clean prev"
    and step: "\<And>x n r0 v0 n1 r1 v1. b x n (r0, v0) = (Inr n1, (r1, v1)) \<Longrightarrow> rc_polIdx r1 = rc_polIdx r0 \<and>
      ((v1 = v0 \<and> (P x \<longrightarrow> gm_get tables (cs_Mask x) = None)) \<or>
       (\<exists>t k u. P x \<and> gm_get tables (cs_Mask x) = Some t \<and> SessionKey (cs_Mask x) (cs_Prefix x) = Inr k \<and>
          cl_DelSessionByKey cl t (cs_Mask x) k v0 = (Inr u, v1)))"
  shows "rc_polIdx r' = rc_polIdx r \<and> tabs_full (vw v') tables \<and> view_wf (vw v') \<and> cls_frame (vw v) (vw v') \<and>
    (\<forall>mk t. table_of (vw v) mk t \<longrightarrow> vv_ses (vw v') t = vv_ses (vw v) t |` (- prevKeys prev P mk))"
proof -
  let ?I = "\<lambda>done n s. rc_polIdx (fst s) = rc_polIdx r \<and> tabs_full (vw (snd s)) tables \<and> view_wf (vw (snd s)) \<and>
     cls_frame (vw v) (vw (snd s)) \<and>
     (\<forall>mk t. table_of (vw v) mk t \<longrightarrow> vv_ses (vw (snd s)) t = vv_ses (vw v) t |` (- prevKeys done P mk))"
  have "?I prev n' (r', v')"
    using run
  proof (rule forEach_inv [where I = ?I])
    fix "done" x rest n0 s0 n1 s1
    assume l: "prev = done @ x # rest" and I: "?I done n0 s0" and b: "b x n0 s0 = (Inr n1, s1)"
    obtain r0 v0 r1 v1 where s: "s0 = (r0, v0)" "s1 = (r1, v1)" by (cases s0; cases s1)
    have pk: "prevKeys (done @ [x]) P mk = prevKeys done P mk \<union>
        {k. P x \<and> cs_Mask x = mk \<and> SessionKey mk (cs_Prefix x) = Inr k}" for mk
      by (auto simp: prevKeys_def)
    have eq: "table_of (vw v0) = table_of (vw v)" using I full unfolding s tabs_full_def by (auto simp: fun_eq_iff)
    from step [OF b [unfolded s]] have r1: "rc_polIdx r1 = rc_polIdx r0"
      and cs: "(v1 = v0 \<and> (P x \<longrightarrow> gm_get tables (cs_Mask x) = None)) \<or>
       (\<exists>t k u. P x \<and> gm_get tables (cs_Mask x) = Some t \<and> SessionKey (cs_Mask x) (cs_Prefix x) = Inr k \<and>
          cl_DelSessionByKey cl t (cs_Mask x) k v0 = (Inr u, v1))" by blast+
    from cs show "?I (done @ [x]) n1 s1"
    proof
      assume skip: "v1 = v0 \<and> (P x \<longrightarrow> gm_get tables (cs_Mask x) = None)"
      then have "mk = cs_Mask x \<Longrightarrow> P x \<Longrightarrow> \<not> table_of (vw v) mk t" for mk t
        using full unfolding tabs_full_def by force
      then have "prevKeys (done @ [x]) P mk = prevKeys done P mk" if "table_of (vw v) mk t" for mk t
        using that unfolding pk by blast
      with I skip r1 show ?thesis by (simp add: s)
    next
      assume "\<exists>t k u. P x \<and> gm_get tables (cs_Mask x) = Some t \<and> SessionKey (cs_Mask x) (cs_Prefix x) = Inr k \<and>
          cl_DelSessionByKey cl t (cs_Mask x) k v0 = (Inr u, v1)"
      then obtain t k u where P: "P x" and t: "gm_get tables (cs_Mask x) = Some t"
        and k: "SessionKey (cs_Mask x) (cs_Prefix x) = Inr k" and d: "cl_DelSessionByKey cl t (cs_Mask x) k v0 = (Inr u, v1)"
        by blast
      from t have tab: "table_of (vw v0) (cs_Mask x) t" using full unfolding eq tabs_full_def by blast
      have "storedKey (cs_Mask x) k = k" using clean l k by (simp add: keys_clean_def)
      with DelSession_set [OF d tab] have V1: "vw v1 = setSes t ((vv_ses (vw v0) t)(k := None)) (vw v0)" by simp
      have same: "t' = t \<longleftrightarrow> mk = cs_Mask x" if "table_of (vw v) mk t'" for mk t'
        using that tab one_tableD [OF tabs_full_one [OF full]] table_of_unique_mask unfolding eq by metis
      have "view_wf (vw v1)" unfolding V1
        by (rule view_wf_setSes [OF _ tab]) (use I s in \<open>auto split: if_splits\<close>)
      moreover have "vv_ses (vw v1) t' = vv_ses (vw v) t' |` (- prevKeys (done @ [x]) P mk)" if tt: "table_of (vw v) mk t'" for mk t'
      proof -
        have v0: "vv_ses (vw v0) t' = vv_ses (vw v) t' |` (- prevKeys done P mk)" using I tt by (simp add: s)
        with same [OF tt] P k show ?thesis
          unfolding pk by (cases "mk = cs_Mask x") (auto simp: V1 restrict_map_def fun_eq_iff)
      qed
      moreover have "cls_frame (vw v) (vw v1)"
        using I s cls_frame_trans cls_frame_setSes(1) by (auto simp: V1)
      ultimately show ?thesis using I s r1 by (simp add: V1)
    qed
  qed (use full wf in \<open>simp_all add: prevKeys_def restrict_map_def\<close>)
  then show ?thesis by simp
qed

lemma deletePrevs_ok:
  assumes run: "forEach prev (deletePrev c cl tables wantKeys) n (r, v) = (Inr n', (r', v'))"
    and full: "tabs_full (vw v) tables" and wf: "view_wf (vw v)" and clean: "keys_clean prev"
  defines "P \<equiv> \<lambda>s. sessionMapKey c (cs_Mask s) (EncodeToString (projr (SessionKey (cs_Mask s) (cs_Prefix s)))) \<notin> set wantKeys"
  shows "rc_polIdx r' = rc_polIdx r \<and> tabs_full (vw v') tables \<and> view_wf (vw v') \<and> cls_frame (vw v) (vw v') \<and>
    (\<forall>mk t. table_of (vw v) mk t \<longrightarrow> vv_ses (vw v') t = vv_ses (vw v) t |` (- prevKeys prev P mk))"
  by (rule deleteSessions_ok [OF run full wf clean])
    (auto simp: deletePrev_def P_def andThen_split_Inr ret_def raise_def addSess_def split: sum.splits option.splits if_splits)

text \<open>The session stage of a removed pool.\<close>

lemma deletePoolSessions_ok:
  assumes run: "deletePoolSessions cl prev (r, v) = (Inr d, (r', v'))"
    and wf: "view_wf (vw v)" and one: "one_table (vw v)" and clean: "keys_clean prev"
  shows "rc_polIdx r' = rc_polIdx r \<and> view_wf (vw v') \<and> one_table (vw v') \<and> cls_frame (vw v) (vw v') \<and>
    (\<forall>mk t. table_of (vw v') mk t \<longrightarrow> vv_ses (vw v') t = pool_replaced (rc_polIdx r) prev [] mk (sesOn (vw v) mk t))"
proof (cases "prev = []")
  case True
  with run wf one show ?thesis
    by (simp add: deletePoolSessions_def ret_def pool_replaced_def prevKeys_def sessionMap_def restrict_map_def sesOn_def)
next
  case False
  from False run obtain tables v1 where f: "cl_FindTablesByMask cl v = (Inr tables, v1)"
    and del: "forEach prev (\<lambda>s deleted. case gm_get tables (cs_Mask s) of None \<Rightarrow> ret deleted
          | Some table \<Rightarrow> (case SessionKey (cs_Mask s) (cs_Prefix s) of Inl e \<Rightarrow> raise e
               | Inr key \<Rightarrow> andThen (onV (cl_DelSessionByKey cl table (cs_Mask s) key)) (\<lambda>_.
                   andThen (addSess (-1)) (\<lambda>_. ret (deleted + 1))))) 0 (r, v1) = (Inr d, (r', v'))"
    by (auto simp: deletePoolSessions_def andThen_split_Inr)
  from FindTables_full [OF f one] have V1: "vw v1 = vw v" and full: "tabs_full (vw v) tables" by simp_all
  have D: "rc_polIdx r' = rc_polIdx r \<and> tabs_full (vw v') tables \<and> view_wf (vw v') \<and> cls_frame (vw v1) (vw v') \<and>
    (\<forall>mk t. table_of (vw v1) mk t \<longrightarrow> vv_ses (vw v') t = vv_ses (vw v1) t |` (- prevKeys prev (\<lambda>_. True) mk))"
    by (rule deleteSessions_ok [OF del _ _ clean])
      (use full wf V1 in \<open>auto simp: andThen_split_Inr ret_def raise_def addSess_def split: sum.splits option.splits\<close>)
  then have "table_of (vw v') = table_of (vw v)" using full unfolding tabs_full_def by (auto simp: fun_eq_iff)
  with D show ?thesis
    using tabs_full_one [of "vw v'" tables] by (simp add: V1 pool_replaced_def sessionMap_def sesOn_def)
qed

lemma upsertMasks_ok:
  assumes run: "forEach mks (upsertMask cl byMask) (tables, cnt) (r, v) = (Inr (tables', cnt'), (r', v'))"
    and full: "tabs_full (vw v) tables" and wf: "view_wf (vw v)" and dist: "distinct mks"
    and ok: "\<And>mk. mk \<in> set mks \<Longrightarrow> wants_ok mk (getWants byMask mk) \<and>
       (\<forall>w \<in> set (getWants byMask mk). sw_key w = sessionMapKey c mk (EncodeToString (wantKey w)))"
  shows "rc_polIdx r' = rc_polIdx r \<and> tabs_full (vw v') tables' \<and> view_wf (vw v') \<and> cls_frame (vw v) (vw v') \<and>
    (\<forall>mk \<in> set mks. \<exists>t. table_of (vw v') mk t) \<and>
    (\<forall>mk t. table_of (vw v') mk t \<longrightarrow>
       vv_ses (vw v') t = sesOn (vw v) mk t ++ (if mk \<in> set mks then wantMap (getWants byMask mk) else Map.empty))"
proof -
  let ?W = "\<lambda>done mk. if mk \<in> set done then wantMap (getWants byMask mk) else Map.empty"
  let ?I = "\<lambda>done tc s. rc_polIdx (fst s) = rc_polIdx r \<and> tabs_full (vw (snd s)) (fst tc) \<and> view_wf (vw (snd s)) \<and>
      cls_frame (vw v) (vw (snd s)) \<and> (\<forall>mk \<in> set done. \<exists>t. table_of (vw (snd s)) mk t) \<and>
      (\<forall>mk t. table_of (vw (snd s)) mk t \<longrightarrow> vv_ses (vw (snd s)) t = sesOn (vw v) mk t ++ ?W done mk)"
  have "?I mks (tables', cnt') (r', v')"
    using run
  proof (rule forEach_inv [where I = ?I])
    fix "done" mk rest tc0 s0 tc1 s1
    assume mks: "mks = done @ mk # rest" and I: "?I done tc0 s0" and b: "upsertMask cl byMask mk tc0 s0 = (Inr tc1, s1)"
    obtain tb0 c0 tb1 c1 r0 v0 r1 v1 where s: "tc0 = (tb0, c0)" "tc1 = (tb1, c1)" "s0 = (r0, v0)" "s1 = (r1, v1)"
      by (cases tc0; cases tc1; cases s0; cases s1)
    have mk: "mk \<in> set mks" "mk \<notin> set done" using mks dist by auto
    from upsertMask_ok [OF b [unfolded s], of c] I ok [OF mk(1)] have R: "rc_polIdx r1 = rc_polIdx r0" "tabs_full (vw v1) tb1"
      "view_wf (vw v1)" "cls_frame (vw v0) (vw v1)" "\<exists>t. table_of (vw v1) mk t"
      "\<And>m t. table_of (vw v1) m t \<Longrightarrow> vv_ses (vw v1) t = sesOn (vw v0) m t ++ ?W [mk] m"
      by (simp_all add: s)
    have fr: "table_of (vw v) m t \<Longrightarrow> table_of (vw v0) m t" for m t using I s unfolding cls_frame_def by simp
    have old: "table_of (vw v0) m t" if "m \<in> set done" "table_of (vw v1) m t" for m t
    proof -
      from I that(1) s obtain t0 where t0: "table_of (vw v0) m t0" by auto
      with R(4) have "table_of (vw v1) m t0" unfolding cls_frame_def by blast
      with t0 one_tableD [OF tabs_full_one [OF R(2)] that(2)] show ?thesis by blast
    qed
    have "vv_ses (vw v1) t = sesOn (vw v) m t ++ ?W (done @ [mk]) m" if t: "table_of (vw v1) m t" for m t
    proof (cases "table_of (vw v0) m t")
      case True
      with I s have "vv_ses (vw v0) t = sesOn (vw v) m t ++ ?W done m" by simp
      with True R(6) [OF t] mk(2) show ?thesis by (auto simp: sesOn_def [of "vw v0"])
    next
      case False
      with old [OF _ t] fr R(6) [OF t] show ?thesis by (auto simp: sesOn_def)
    qed
    moreover have "\<exists>t. table_of (vw v1) m t" if "m \<in> set (done @ [mk])" for m
    proof (cases "m = mk")
      case False
      with that I s obtain t where "table_of (vw v0) m t" by auto
      with R(4) show ?thesis unfolding cls_frame_def by blast
    qed (use R(5) in simp)
    ultimately show "?I (done @ [mk]) tc1 s1"
      using R I s cls_frame_trans [of "vw v" "vw v0" "vw v1"] by simp
  qed (use full wf in \<open>simp add: sesOn_def\<close>)
  then show ?thesis by simp
qed

lemma wantKeys_iff:
  assumes names: "mask_names_ok c" and "\<forall>mk. getWants byMask mk = wants_for c idx next mk"
    and "gm_wf byMask"
    and known: "\<forall>s \<in> set next. session_known idx s"
  shows "sessionMapKey c mk (EncodeToString k) \<in> set (concat (map (\<lambda>(_, ws). map sw_key ws) byMask)) \<longleftrightarrow>
    sessionMap idx next mk k \<noteq> None"
proof -
  have "x \<in> set (concat (map (\<lambda>(_, ws). map sw_key ws) byMask)) \<longleftrightarrow> (\<exists>mk. \<exists>w \<in> set (getWants byMask mk). x = sw_key w)" for x
  proof -
    have "(m, ws) \<in> set byMask \<longleftrightarrow> gm_get byMask m = Some ws" for m ws
      using assms(3) by (simp add: map_of_eq_Some_iff)
    then have "x \<in> set (concat (map (\<lambda>(_, ws). map sw_key ws) byMask)) \<longleftrightarrow>
        (\<exists>m ws. gm_get byMask m = Some ws \<and> x \<in> sw_key ` set ws)" by auto
    moreover have "(\<exists>ws. gm_get byMask m = Some ws \<and> x \<in> sw_key ` set ws) \<longleftrightarrow> x \<in> sw_key ` set (getWants byMask m)" for m
      by (cases "gm_get byMask m") (simp_all add: getWants_def)
    ultimately show ?thesis by blast
  qed
  moreover have "(\<exists>m. \<exists>w \<in> set (wants_for c idx next m). sessionMapKey c mk (EncodeToString k) = sw_key w) \<longleftrightarrow>
      (\<exists>s \<in> set next. cs_Mask s = mk \<and> SessionKey mk (cs_Prefix s) = Inr k)"
    using known by (fastforce simp: wants_for_def want_of_def sessionMapKey_both [OF names] session_known_def)
  moreover have "sessionMap idx next mk k \<noteq> None \<longleftrightarrow> (\<exists>s \<in> set next. cs_Mask s = mk \<and> SessionKey mk (cs_Prefix s) = Inr k)"
  proof -
    have "sessionMap idx next mk k \<noteq> None \<longleftrightarrow> (\<exists>s \<in> set next. cs_Mask s = mk \<and> k = projr (SessionKey mk (cs_Prefix s)))"
      unfolding sessionMap_def map_of_eq_None_iff by (auto simp: image_iff)
    moreover have "k = projr (SessionKey mk (cs_Prefix s)) \<longleftrightarrow> SessionKey mk (cs_Prefix s) = Inr k" if "s \<in> set next" "cs_Mask s = mk" for s
      using known that by (auto simp: session_known_def)
    ultimately show ?thesis by blast
  qed
  ultimately show ?thesis using assms(2) by simp
qed

text \<open>One pool's session stage: on every table that existed, the pool's previous members are replaced by its
  new ones and nothing else changes; every new member ends up on the table of its mask.\<close>

lemma upsertPoolSessions_ok:
  assumes run: "upsertPoolSessions c ord cl prev next (r, v) = (Inr cnt, (r', v'))"
    and ord: "range_order ord" and names: "mask_names_ok c"
    and wf: "view_wf (vw v)" and one: "one_table (vw v)" and ok: "sessions_ok next" and clean: "keys_clean prev"
  shows "rc_polIdx r' = rc_polIdx r \<and> view_wf (vw v') \<and> one_table (vw v') \<and> cls_frame (vw v) (vw v') \<and>
    (\<forall>s \<in> set next. session_known (rc_polIdx r) s \<and> (\<exists>t. table_of (vw v') (cs_Mask s) t)) \<and>
    (\<forall>mk t. table_of (vw v') mk t \<longrightarrow> vv_ses (vw v') t = pool_replaced (rc_polIdx r) prev next mk (sesOn (vw v) mk t))"
proof -
  let ?idx = "rc_polIdx r"
  from run obtain tables v1 byMask r2 v2 d r3 v3 tables' am where
    f: "cl_FindTablesByMask cl v = (Inr tables, v1)"
    and w: "buildSessionWants c next (r, v1) = (Inr byMask, (r2, v2))"
    and p: "forEach prev (deletePrev c cl tables (concat (map (\<lambda>(_, ws). map sw_key ws) byMask))) 0 (r2, v2) = (Inr d, (r3, v3))"
    and m: "forEach (ord (gm_keys byMask)) (upsertMask cl byMask) (tables, 0, 0) (r3, v3) = (Inr (tables', am), (r', v'))"
    unfolding upsertPoolSessions_def andThen_split_Inr Let_def by (auto simp: ret_def split: prod.splits)
  from FindTables_full [OF f one] have V1: "vw v1 = vw v" and full: "tabs_full (vw v) tables" by simp_all
  note B = buildSessionWants_Inr [OF w]
  have V2: "vw v2 = vw v" and r2: "r2 = r" using B V1 by simp_all
  have known: "\<forall>s \<in> set next. session_known ?idx s" and gw: "\<forall>mk. getWants byMask mk = wants_for c ?idx next mk"
    and wfB: "gm_wf byMask" and domB: "dom (gm_get byMask) = cs_Mask ` set next" using B by blast+
  note wk = wantKeys_iff [OF names gw wfB known]
  have wok: "wants_ok mk (getWants byMask mk) \<and>
       (\<forall>w \<in> set (getWants byMask mk). sw_key w = sessionMapKey c mk (EncodeToString (wantKey w)))" for mk
    using gw wants_for_ok [OF ok known] wants_for_keys by simp
  note D = deletePrevs_ok [OF p _ _ clean, unfolded V2 r2, OF full wf, unfolded wk]
  have ks: "distinct (ord (gm_keys byMask))" "set (ord (gm_keys byMask)) = cs_Mask ` set next"
    using wfB domB range_order.ord_distinct [OF ord] range_order.ord_set [OF ord] gm_keys_dom by metis+
  have D1: "tabs_full (vw v3) tables" "view_wf (vw v3)" "cls_frame (vw v) (vw v3)" "rc_polIdx r3 = ?idx" using D by simp_all
  note M = upsertMasks_ok [OF m D1(1,2) ks(1) wok, unfolded ks(2)]
  have wm: "wantMap (getWants byMask mk) = sessionMap ?idx next mk" for mk using gw by (simp add: wants_for_map)
  have empty: "sessionMap ?idx next mk = Map.empty" if "mk \<notin> cs_Mask ` set next" for mk
  proof -
    from that have "filter (\<lambda>s. cs_Mask s = mk) next = []" by (auto simp: filter_empty_conv)
    then show ?thesis by (simp add: sessionMap_def)
  qed
  have t3: "table_of (vw v3) = table_of (vw v)" using D1(1) full unfolding tabs_full_def by (auto simp: fun_eq_iff)
  have ses: "vv_ses (vw v') t = pool_replaced ?idx prev next mk (sesOn (vw v) mk t)" if t: "table_of (vw v') mk t" for mk t
  proof -
    have "vv_ses (vw v') t = sesOn (vw v3) mk t ++ sessionMap ?idx next mk" using M t wm empty by auto
    also have "sesOn (vw v3) mk t = sesOn (vw v) mk t |` (- prevKeys prev
        (\<lambda>s. sessionMap ?idx next (cs_Mask s) (projr (SessionKey (cs_Mask s) (cs_Prefix s))) = None) mk)"
      using D by (auto simp: sesOn_def t3 restrict_map_def)
    also have "\<dots> ++ sessionMap ?idx next mk = pool_replaced ?idx prev next mk (sesOn (vw v) mk t)"
      by (auto simp: pool_replaced_def prevKeys_def restrict_map_def map_add_def fun_eq_iff split: option.splits)
    finally show ?thesis .
  qed
  from M have "rc_polIdx r' = ?idx" "view_wf (vw v')" "one_table (vw v')" "cls_frame (vw v) (vw v')"
    using D1(3,4) tabs_full_one [of "vw v'" tables'] cls_frame_trans [of "vw v" "vw v3" "vw v'"] by simp_all
  then show ?thesis using known ses M by blast
qed

end

end
