(* ===== verification/Delta_Equiv.thy ===== *)
theory Delta_Equiv
  imports Delta
begin

text \<open>
  The incremental path against the full one: under conditions on the delta (\<open>delta_fits\<close>) a successful
  \<open>ApplyDelta\<close> takes a VPP that is in sync with a desired state to one that is in sync with the merged
  state, and which serves every packet as the VPP a full pass of the merged state makes of it
  (\<open>same_plane\<close>). Without the condition that no member changes pools, a delta can lose a member's
  session (\<open>moved_member_loses_session\<close>).
\<close>

subsection \<open>Policers of a pool\<close>

text \<open>Every tracked policer exists under its tracked index.\<close>

definition tracked :: "vpp_view \<Rightarrow> (string, u32) gomap \<Rightarrow> bool" where
  "tracked V idx \<longleftrightarrow> (\<forall>n i. gm_get idx n = Some i \<longrightarrow> (\<exists>q. vv_pol V n = Some (i, q)))"

definition pool_of :: "contract_fns \<Rightarrow> string \<Rightarrow> PoolID option" where
  "pool_of c n = map_option fst (ParsePolicerName c n)"

lemma poolNames_iff: "range_order ord \<Longrightarrow>
    n \<in> set (poolNames c ord pool r) \<longleftrightarrow> pool_of c n = Some pool \<and> gm_get (rc_polIdx r) n \<noteq> None"
  unfolding poolNames_def set_filter range_order.ord_set gm_keys_dom
  by (auto simp: pool_of_def domIff split: option.splits)

context policer_api
begin

lemma upsertPoolPolicer_ok:
  assumes run: "upsertPoolPolicer p s cnt (r, v) = (Inr cnt', (r', v'))"
    and wf: "view_wf (vw v)" and tr: "tracked (vw v) (rc_polIdx r)"
  shows "view_wf (vw v') \<and> pol_frame (vw v) (vw v') \<and> tracked (vw v') (rc_polIdx r') \<and>
    gm_get (rc_polIdx r) \<subseteq>\<^sub>m gm_get (rc_polIdx r') \<and> pol_in_place (vw v') r' s \<and>
    (\<forall>n. n \<noteq> ps_Name s \<longrightarrow> vv_pol (vw v') n = vv_pol (vw v) n \<and> gm_get (rc_polIdx r') n = gm_get (rc_polIdx r) n)"
proof (cases "gm_get (rc_polIdx r) (ps_Name s)")
  case None
  with run obtain i where a: "pr_Add p s v = (Inr i, v')" and r': "rc_polIdx r' = gm_put (ps_Name s) i (rc_polIdx r)"
    by (cases cnt) (auto simp: upsertPoolPolicer_def andThen_split_Inr ret_def putIdx_def)
  note A = Add [OF a]
  from A wf have "view_wf (vw v')" by (simp add: view_wf_polAdd)
  moreover have "tracked (vw v') (rc_polIdx r')"
    using tr A by (auto simp: tracked_def r' gm_simps)
  ultimately show ?thesis
    using A None by (auto simp: r' gm_simps pol_in_place_def map_le_def)
next
  case (Some i)
  with run obtain u where "pr_Update p i s v = (Inr u, v')" and r': "r' = r"
    by (cases cnt) (auto simp: upsertPoolPolicer_def andThen_split_Inr ret_def)
  from Update [OF this(1)] have V': "vw v' = (vw v)\<lparr>vv_pol := polUpdate i (fst (installed_rate s)) (snd (installed_rate s)) (vv_pol (vw v))\<rparr>" .
  from tr Some obtain q where q: "vv_pol (vw v) (ps_Name s) = Some (i, q)" unfolding tracked_def by blast
  then have at: "vv_pol (vw v') (ps_Name s) = Some (i, installed_rate s)" by (simp add: V' polUpdate_def)
  have other: "vv_pol (vw v') n = vv_pol (vw v) n" if "n \<noteq> ps_Name s" for n
    using polUpdate_other [OF wf q that] by (simp add: V')
  have "tracked (vw v') (rc_polIdx r')"
    unfolding tracked_def
  proof (intro allI impI)
    fix n j assume "gm_get (rc_polIdx r') n = Some j"
    with tr Some at other r' show "\<exists>q. vv_pol (vw v') n = Some (j, q)"
      unfolding tracked_def by (cases "n = ps_Name s") auto
  qed
  with at other Some wf show ?thesis by (simp add: r' pol_in_place_def V' view_wf_polUpdate)
qed

lemma upsertPoolPolicers_ok:
  assumes run: "upsertPoolPolicers p specs (r, v) = (Inr cnt', (r', v'))"
    and wf: "view_wf (vw v)" and tr: "tracked (vw v) (rc_polIdx r)" and dist: "distinct (map ps_Name specs)"
  shows "view_wf (vw v') \<and> pol_frame (vw v) (vw v') \<and> tracked (vw v') (rc_polIdx r') \<and>
    gm_get (rc_polIdx r) \<subseteq>\<^sub>m gm_get (rc_polIdx r') \<and> (\<forall>s \<in> set specs. pol_in_place (vw v') r' s) \<and>
    (\<forall>n. n \<notin> ps_Name ` set specs \<longrightarrow> vv_pol (vw v') n = vv_pol (vw v) n \<and> gm_get (rc_polIdx r') n = gm_get (rc_polIdx r) n)"
proof -
  let ?I = "\<lambda>done (cnt :: int \<times> int) s. view_wf (vw (snd s)) \<and> pol_frame (vw v) (vw (snd s)) \<and> tracked (vw (snd s)) (rc_polIdx (fst s)) \<and>
    gm_get (rc_polIdx r) \<subseteq>\<^sub>m gm_get (rc_polIdx (fst s)) \<and> (\<forall>x \<in> set done. pol_in_place (vw (snd s)) (fst s) x) \<and>
    (\<forall>n. n \<notin> ps_Name ` set done \<longrightarrow> vv_pol (vw (snd s)) n = vv_pol (vw v) n \<and> gm_get (rc_polIdx (fst s)) n = gm_get (rc_polIdx r) n)"
  have "?I specs cnt' (r', v')"
    using run unfolding upsertPoolPolicers_def
  proof (rule forEach_inv [where I = ?I])
    fix "done" x rest c0 s0 c1 s1
    assume sp: "specs = done @ x # rest" and I: "?I done c0 s0" and b: "upsertPoolPolicer p x c0 s0 = (Inr c1, s1)"
    obtain r0 v0 r1 v1 where s: "s0 = (r0, v0)" "s1 = (r1, v1)" by (cases s0; cases s1)
    have "ps_Name x \<notin> ps_Name ` set done" using sp dist by simp
    then have new: "ps_Name y \<noteq> ps_Name x" if "y \<in> set done" for y using that by (metis imageI)
    from upsertPoolPolicer_ok [OF b [unfolded s]] I s have U: "view_wf (vw v1)" "pol_frame (vw v0) (vw v1)"
      "tracked (vw v1) (rc_polIdx r1)" "gm_get (rc_polIdx r0) \<subseteq>\<^sub>m gm_get (rc_polIdx r1)" "pol_in_place (vw v1) r1 x"
      "\<And>n. n \<noteq> ps_Name x \<Longrightarrow> vv_pol (vw v1) n = vv_pol (vw v0) n \<and> gm_get (rc_polIdx r1) n = gm_get (rc_polIdx r0) n"
      by simp_all
    have "pol_in_place (vw v1) r1 y" if "y \<in> set done" for y
      using I s that U(6) [OF new [OF that]] unfolding pol_in_place_def by simp
    with U I s pol_frame_trans [of "vw v" "vw v0" "vw v1"]
      map_le_trans [of "gm_get (rc_polIdx r)" "gm_get (rc_polIdx r0)" "gm_get (rc_polIdx r1)"]
    show "?I (done @ [x]) c1 s1" by simp
  qed (use wf tr in simp)
  then show ?thesis by simp
qed

lemma deletePoolPolicers_ok:
  assumes run: "deletePoolPolicers c ord p pool (r, v) = (Inr d, (r', v'))"
    and ord: "range_order ord" and wf: "view_wf (vw v)"
  shows "view_wf (vw v') \<and> pol_frame (vw v) (vw v') \<and>
    (\<forall>n. let gone = (pool_of c n = Some pool \<and> gm_get (rc_polIdx r) n \<noteq> None) in
       vv_pol (vw v') n = (if gone then None else vv_pol (vw v) n) \<and>
       gm_get (rc_polIdx r') n = (if gone then None else gm_get (rc_polIdx r) n))"
proof -
  let ?I = "\<lambda>done (n :: int) s. view_wf (vw (snd s)) \<and> pol_frame (vw v) (vw (snd s)) \<and>
    (\<forall>n. vv_pol (vw (snd s)) n = (if n \<in> set done then None else vv_pol (vw v) n) \<and>
       gm_get (rc_polIdx (fst s)) n = (if n \<in> set done then None else gm_get (rc_polIdx r) n))"
  from run have "forEach (poolNames c ord pool r) (\<lambda>name deleted. andThen (onV (pr_DeleteByName p name)) (\<lambda>_.
         andThen (modR (\<lambda>r. (delIdx name r)\<lparr>rc_actPol := rc_actPol r - 1\<rparr>)) (\<lambda>_. ret (deleted + 1)))) 0 (r, v) = (Inr d, (r', v'))"
    by (auto simp: deletePoolPolicers_def andThen_split_Inr)
  then have "?I (poolNames c ord pool r) d (r', v')"
  proof (rule forEach_inv [where I = ?I])
    fix "done" x rest c0 s0 c1 s1
    assume I: "?I done c0 s0" and b: "andThen (onV (pr_DeleteByName p x)) (\<lambda>_.
         andThen (modR (\<lambda>r. (delIdx x r)\<lparr>rc_actPol := rc_actPol r - 1\<rparr>)) (\<lambda>_. ret (c0 + 1))) s0 = (Inr c1, s1)"
    obtain r0 v0 r1 v1 where s: "s0 = (r0, v0)" "s1 = (r1, v1)" by (cases s0; cases s1)
    with b obtain u where "pr_DeleteByName p x v0 = (Inr u, v1)" and r1: "rc_polIdx r1 = gm_del x (rc_polIdx r0)"
      by (auto simp: andThen_split_Inr ret_def delIdx_def)
    from DeleteByName [OF this(1)] have V1: "vw v1 = (vw v0)\<lparr>vv_pol := (vv_pol (vw v0))(x := None)\<rparr>" .
    have "view_wf (vw v1)" "pol_frame (vw v) (vw v1)"
      using I s view_wf_polDel pol_frame_trans by (auto simp: V1)
    with I s show "?I (done @ [x]) c1 s1" by (auto simp: V1 r1 gm_simps)
  qed (use wf in simp)
  then show ?thesis by (simp add: poolNames_iff [OF ord] Let_def)
qed

end

subsection \<open>Being in sync\<close>

text \<open>The tables hold exactly the sessions \<open>S\<close>, each pointing at the tracked index of its policer.\<close>

definition ses_sync :: "vpp_view \<Rightarrow> (string, u32) gomap \<Rightarrow> ClassifySession set \<Rightarrow> bool" where
  "ses_sync V idx S \<longleftrightarrow>
     (\<forall>s \<in> S. session_known idx s \<and> (\<exists>t. table_of V (cs_Mask s) t)) \<and>
     (\<forall>mk t k i. table_of V mk t \<longrightarrow> (vv_ses V t k = Some i \<longleftrightarrow>
        (\<exists>s \<in> S. cs_Mask s = mk \<and> SessionKey mk (cs_Prefix s) = Inr k \<and> gm_get idx (cs_PolicerName s) = Some i)))"

text \<open>The managed policers are exactly \<open>P\<close>, each in place.\<close>

definition pol_sync :: "contract_fns \<Rightarrow> vpp_view \<Rightarrow> Reconciler \<Rightarrow> PolicerSpec set \<Rightarrow> bool" where
  "pol_sync c V r P \<longleftrightarrow> tracked V (rc_polIdx r) \<and> (\<forall>s \<in> P. pol_in_place V r s) \<and>
     (\<forall>n. managed c n \<and> n \<notin> ps_Name ` P \<longrightarrow> vv_pol V n = None)"

definition both_sync :: "contract_fns \<Rightarrow> vpp_view \<Rightarrow> Reconciler \<Rightarrow> ClassifySession set \<Rightarrow> PolicerSpec set \<Rightarrow> bool" where
  "both_sync c V r S P \<longleftrightarrow> view_wf V \<and> one_table V \<and> ses_sync V (rc_polIdx r) S \<and> pol_sync c V r P"

definition one_pool :: "ClassifySession set \<Rightarrow> bool" where
  "one_pool S \<longleftrightarrow> (\<forall>s \<in> S. \<forall>s' \<in> S. cs_Mask s = cs_Mask s' \<and> pfx_Addr (cs_Prefix s) = pfx_Addr (cs_Prefix s') \<longrightarrow>
     cs_PoolID s = cs_PoolID s')"

text \<open>Policer names carry the pool they belong to.\<close>

definition names_ok :: "contract_fns \<Rightarrow> ClassifySession set \<Rightarrow> PolicerSpec set \<Rightarrow> bool" where
  "names_ok c S P \<longleftrightarrow> (\<forall>s \<in> S. pool_of c (cs_PolicerName s) = Some (cs_PoolID s)) \<and>
     (\<forall>s \<in> P. pool_of c (ps_Name s) = Some (ps_PoolID s))"

lemma one_poolD:
  "one_pool S \<Longrightarrow> s \<in> S \<Longrightarrow> s' \<in> S \<Longrightarrow> cs_Mask s = mk \<Longrightarrow> cs_Mask s' = mk \<Longrightarrow>
     SessionKey mk (cs_Prefix s) = Inr k \<Longrightarrow> SessionKey mk (cs_Prefix s') = Inr k \<Longrightarrow> cs_PoolID s = cs_PoolID s'"
  unfolding one_pool_def using SessionKey_inject by metis

lemma one_pool_subset: "one_pool T \<Longrightarrow> S \<subseteq> T \<Longrightarrow> one_pool S"
  unfolding one_pool_def by blast

lemma names_ok_subset: "names_ok c T Q \<Longrightarrow> S \<subseteq> T \<Longrightarrow> P \<subseteq> Q \<Longrightarrow> names_ok c S P"
  unfolding names_ok_def by blast

lemma sessions_ok_subset: "sessions_ok ys \<Longrightarrow> set xs \<subseteq> set ys \<Longrightarrow> sessions_ok xs"
  unfolding sessions_ok_def by blast

lemma keys_clean_subset: "keys_clean ys \<Longrightarrow> set xs \<subseteq> set ys \<Longrightarrow> keys_clean xs"
  unfolding keys_clean_def by blast

lemma sessionMap_iff:
  assumes "sessions_ok next" and "\<forall>s \<in> set next. session_known idx s"
  shows "sessionMap idx next mk k = Some i \<longleftrightarrow>
    (\<exists>s \<in> set next. cs_Mask s = mk \<and> SessionKey mk (cs_Prefix s) = Inr k \<and> gm_get idx (cs_PolicerName s) = Some i)" (is "?l \<longleftrightarrow> ?r")
proof -
  have at: "sessionMap idx next mk k = gm_get idx (cs_PolicerName s)"
    if "s \<in> set next" "cs_Mask s = mk" "SessionKey mk (cs_Prefix s) = Inr k" for s
    using sessionMap_Some [OF assms that(1)] that assms(2) by (auto simp: session_known_def)
  show ?thesis
  proof
    assume ?l
    with sessionMap_SomeD [OF this assms(2)] at show ?r by metis
  next
    assume ?r
    with at show ?l by metis
  qed
qed

text \<open>Replacing one pool's sessions.\<close>

lemma ses_sync_replace:
  assumes sync: "ses_sync V idx S" and one: "one_table V'" and fr: "cls_frame V V'"
    and ses: "\<And>mk t. table_of V' mk t \<Longrightarrow> vv_ses V' t = pool_replaced idx prev next mk (sesOn V mk t)"
    and nxt: "\<forall>s \<in> set next. session_known idx s \<and> (\<exists>t. table_of V' (cs_Mask s) t)" "sessions_ok next"
    and prev: "{s \<in> S. cs_PoolID s = p} \<subseteq> set prev" and own: "\<forall>s \<in> set prev \<union> set next. cs_PoolID s = p"
    and uniq: "one_pool (S \<union> set prev \<union> set next)"
  shows "ses_sync V' idx ({s \<in> S. cs_PoolID s \<noteq> p} \<union> set next)"
proof -
  let ?at = "\<lambda>s mk k. cs_Mask s = mk \<and> SessionKey mk (cs_Prefix s) = Inr k"
  let ?hit = "\<lambda>s mk k i. ?at s mk k \<and> gm_get idx (cs_PolicerName s) = Some i"
  have known: "\<forall>s \<in> set next. session_known idx s" using nxt(1) by blast
  note nm = sessionMap_iff [OF nxt(2) known]
  have old: "sesOn V mk t k = Some i \<longleftrightarrow> (\<exists>s \<in> S. ?hit s mk k i)" if "table_of V' mk t" for mk t k i
  proof (cases "table_of V mk t")
    case True
    then show ?thesis using sync unfolding ses_sync_def sesOn_def by simp
  next
    case False
    have "\<not> (\<exists>s \<in> S. ?hit s mk k i)"
    proof
      assume "\<exists>s \<in> S. ?hit s mk k i"
      then obtain t0 where "table_of V mk t0" using sync unfolding ses_sync_def by blast
      moreover then have "t0 = t" using fr one_tableD [OF one that] unfolding cls_frame_def by metis
      ultimately show False using False by blast
    qed
    with False show ?thesis by (simp add: sesOn_def)
  qed
  have none: "sessionMap idx next mk k = None \<and> k \<notin> prevKeys prev (\<lambda>_. True) mk"
    if s: "s \<in> S" "cs_PoolID s \<noteq> p" "?at s mk k" for s mk k
  proof -
    have "cs_PoolID s' \<noteq> p" if "s' \<in> set prev \<union> set next" "?at s' mk k" for s'
      using one_poolD [OF uniq, of s s' mk k] s that by auto
    then have no: "\<not> ?at s' mk k" if "s' \<in> set prev \<union> set next" for s' using own that by blast
    have "sessionMap idx next mk k = None"
      using nm [of mk k] no by (cases "sessionMap idx next mk k") auto
    with no show ?thesis by (auto simp: prevKeys_def)
  qed
  have "vv_ses V' t k = Some i \<longleftrightarrow> (\<exists>s \<in> {s \<in> S. cs_PoolID s \<noteq> p} \<union> set next. ?hit s mk k i)" if t: "table_of V' mk t" for mk t k i
  proof -
    have "vv_ses V' t k = Some i \<longleftrightarrow> sessionMap idx next mk k = Some i \<or>
        (sessionMap idx next mk k = None \<and> k \<notin> prevKeys prev (\<lambda>_. True) mk \<and> sesOn V mk t k = Some i)"
      unfolding ses [OF t] pool_replaced_def by (auto simp: map_add_Some_iff restrict_map_def)
    also have "\<dots> \<longleftrightarrow> sessionMap idx next mk k = Some i \<or> (\<exists>s \<in> S. cs_PoolID s \<noteq> p \<and> ?hit s mk k i)"
    proof -
      have "cs_PoolID s \<noteq> p" if "s \<in> S" "?at s mk k" "k \<notin> prevKeys prev (\<lambda>_. True) mk" for s
        using that prev by (auto simp: prevKeys_def)
      then have eq: "sessionMap idx next mk k = None \<and> k \<notin> prevKeys prev (\<lambda>_. True) mk \<and> (\<exists>s \<in> S. ?hit s mk k i) \<longleftrightarrow>
          (\<exists>s \<in> S. cs_PoolID s \<noteq> p \<and> ?hit s mk k i)" using none by metis
      show ?thesis unfolding old [OF t] eq ..
    qed
    also have "\<dots> \<longleftrightarrow> (\<exists>s \<in> {s \<in> S. cs_PoolID s \<noteq> p} \<union> set next. ?hit s mk k i)"
      unfolding nm by blast
    finally show ?thesis .
  qed
  moreover have "\<forall>s \<in> S. session_known idx s \<and> (\<exists>t. table_of V' (cs_Mask s) t)"
    using sync fr unfolding ses_sync_def cls_frame_def by blast
  ultimately show ?thesis using nxt(1) unfolding ses_sync_def by blast
qed

text \<open>Changing policers and indices that the sessions do not use.\<close>

lemma ses_sync_cong:
  assumes "ses_sync V idx S" and "pol_frame V V'" and "\<And>s. s \<in> S \<Longrightarrow> gm_get idx' (cs_PolicerName s) = gm_get idx (cs_PolicerName s)"
  shows "ses_sync V' idx' S"
proof -
  have "table_of V' = table_of V" "vv_ses V' = vv_ses V"
    using assms(2) pol_frame_table_of unfolding pol_frame_def by (auto, metis vpp_view.ext_inject vpp_view.surjective vpp_view.update_convs(1))
  with assms(1,3) show ?thesis unfolding ses_sync_def session_known_def by auto
qed

subsection \<open>The loops of ApplyDelta\<close>

lemma cls_frame_pol_sync: "cls_frame V V' \<Longrightarrow> rc_polIdx r' = rc_polIdx r \<Longrightarrow> pol_sync c V r P \<Longrightarrow> pol_sync c V' r' P"
  by (simp add: cls_frame_def pol_sync_def tracked_def pol_in_place_def)

lemma pol_frame_view: "pol_frame V V' \<Longrightarrow> one_table V' = one_table V"
  by (drule pol_frame_table_of) (simp add: one_table_def)

lemma prevByPool_set: "set (prevByPool prev p) = {s \<in> set prev. cs_PoolID s = p}"
  by (auto simp: prevByPool_def)

context vpp_channel
begin

text \<open>A removed pool: its sessions and then its policers are gone, everything else stays in sync.\<close>

lemma removed_pool:
  assumes ds: "deletePoolSessions (NewClassify ch) (prevByPool prev p) (r, v) = (Inr d, (r1, v1))"
    and dp: "deletePoolPolicers c ord (NewPolicers c ch) p (r1, v1) = (Inr d', (r', v'))"
    and ord: "range_order ord" and sync: "both_sync c (vw v) r S P"
    and S: "S \<subseteq> set prev" and prev: "keys_clean prev" "one_pool (set prev)" and names: "names_ok c S P"
  shows "both_sync c (vw v') r' {s \<in> S. cs_PoolID s \<noteq> p} {s \<in> P. ps_PoolID s \<noteq> p}"
proof -
  let ?S = "{s \<in> S. cs_PoolID s \<noteq> p}"
  from sync have wf: "view_wf (vw v)" "one_table (vw v)" and ss: "ses_sync (vw v) (rc_polIdx r) S" and ps: "pol_sync c (vw v) r P"
    by (simp_all add: both_sync_def)
  note D = cls.deletePoolSessions_ok [OF ds wf keys_clean_subset [OF prev(1)], unfolded prevByPool_set, simplified]
  have s1: "ses_sync (vw v1) (rc_polIdx r) (?S \<union> set [])"
    by (rule ses_sync_replace [OF ss]) (use D S one_pool_subset [OF prev(2)] in \<open>auto simp: prevByPool_set sessions_ok_def\<close>)
  have p1: "pol_sync c (vw v1) r1 P" using D ps cls_frame_pol_sync by blast
  from D have r1: "rc_polIdx r1 = rc_polIdx r" and wf1: "view_wf (vw v1)" "one_table (vw v1)" by simp_all
  note Q = pol.deletePoolPolicers_ok [OF dp ord wf1(1), unfolded r1 Let_def]
  have gone: "vv_pol (vw v') n = (if pool_of c n = Some p \<and> gm_get (rc_polIdx r) n \<noteq> None then None else vv_pol (vw v1) n)"
    "gm_get (rc_polIdx r') n = (if pool_of c n = Some p \<and> gm_get (rc_polIdx r) n \<noteq> None then None else gm_get (rc_polIdx r) n)" for n
    using Q by blast+
  have "ses_sync (vw v') (rc_polIdx r') ?S"
    by (rule ses_sync_cong [OF s1 [simplified]]) (use Q names gone(2) in \<open>auto simp: names_ok_def\<close>)
  moreover have "pol_sync c (vw v') r' {s \<in> P. ps_PoolID s \<noteq> p}"
    unfolding pol_sync_def
  proof (intro conjI ballI allI impI)
    show "tracked (vw v') (rc_polIdx r')"
      using p1 unfolding pol_sync_def tracked_def gone r1 by (auto split: if_splits)
    show "pol_in_place (vw v') r' s" if "s \<in> {s \<in> P. ps_PoolID s \<noteq> p}" for s
      using that names p1 unfolding pol_sync_def pol_in_place_def gone r1 names_ok_def by simp
    show "vv_pol (vw v') n = None" if n: "managed c n \<and> n \<notin> ps_Name ` {s \<in> P. ps_PoolID s \<noteq> p}" for n
    proof (cases "n \<in> ps_Name ` P")
      case True
      then obtain s where s: "s \<in> P" "n = ps_Name s" by blast
      with n have "ps_PoolID s = p" by blast
      with s names have "pool_of c n = Some p" by (auto simp: names_ok_def)
      moreover have "gm_get (rc_polIdx r) n \<noteq> None" using p1 s unfolding pol_sync_def pol_in_place_def r1 by auto
      ultimately show ?thesis by (simp add: gone)
    next
      case False
      with n p1 show ?thesis by (simp add: pol_sync_def gone)
    qed
  qed
  ultimately show ?thesis
    using Q wf1(2) pol_frame_view [of "vw v1" "vw v'"] by (simp add: both_sync_def)
qed

lemma applyRemoved_sync:
  assumes "applyRemoved c ord (NewPolicers c ch) (NewClassify ch) prev pools res (r, v) = ((res', None), (r', v'))"
    and "range_order ord" and "both_sync c (vw v) r S P" and "S \<subseteq> set prev" and "keys_clean prev" and "one_pool (set prev)"
    and "names_ok c S P"
  shows "both_sync c (vw v') r' {s \<in> S. cs_PoolID s \<notin> set pools} {s \<in> P. ps_PoolID s \<notin> set pools}"
  using assms
proof (induction pools arbitrary: res r v S P)
  case (Cons p pools)
  let ?S = "{s \<in> S. cs_PoolID s \<noteq> p}" and ?P = "{s \<in> P. ps_PoolID s \<noteq> p}"
  from Cons.prems(1) obtain d r1 v1 d' r2 v2 res2 where
    ds: "deletePoolSessions (NewClassify ch) (prevByPool prev p) (r, v) = (Inr d, (r1, v1))"
    and dp: "deletePoolPolicers c ord (NewPolicers c ch) p (r1, v1) = (Inr d', (r2, v2))"
    and rest: "applyRemoved c ord (NewPolicers c ch) (NewClassify ch) prev pools res2 (r2, v2) = ((res', None), (r', v'))"
    by (auto simp: stage_None Let_def)
  have "both_sync c (vw v2) r2 ?S ?P" by (rule removed_pool [OF ds dp Cons.prems(2-)])
  from Cons.IH [OF rest Cons.prems(2) this] Cons.prems(4-) names_ok_subset [OF Cons.prems(7), of ?S ?P]
  have "both_sync c (vw v') r' {s \<in> ?S. cs_PoolID s \<notin> set pools} {s \<in> ?P. ps_PoolID s \<notin> set pools}" by blast
  moreover have "{s \<in> ?S. cs_PoolID s \<notin> set pools} = {s \<in> S. cs_PoolID s \<notin> set (p # pools)}"
    "{s \<in> ?P. ps_PoolID s \<notin> set pools} = {s \<in> P. ps_PoolID s \<notin> set (p # pools)}" by auto
  ultimately show ?case by simp
qed simp

text \<open>An upserted pool: policers added or updated, then the sessions replaced.\<close>

lemma upserted_pool:
  assumes up: "upsertPoolPolicers (NewPolicers c ch) specs (r, v) = (Inr n, (r1, v1))"
    and us: "upsertPoolSessions c ord (NewClassify ch) (prevByPool prev p) next (r1, v1) = (Inr n', (r', v'))"
    and ord: "range_order ord" and mn: "mask_names_ok c" and sync: "both_sync c (vw v) r S P"
    and S: "{s \<in> S. cs_PoolID s = p} \<subseteq> set prev" and clean: "keys_clean prev"
    and uniq: "one_pool (S \<union> set prev \<union> set next)" and names: "names_ok c S (P \<union> set specs)"
    and nxt: "sessions_ok next" "\<forall>s \<in> set next. cs_PoolID s = p" and specs: "distinct (map ps_Name specs)" "\<forall>s \<in> set specs. ps_PoolID s = p"
    and kept: "ps_Name ` {s \<in> P. ps_PoolID s = p} \<subseteq> ps_Name ` set specs"
  shows "both_sync c (vw v') r' ({s \<in> S. cs_PoolID s \<noteq> p} \<union> set next) ({s \<in> P. ps_PoolID s \<noteq> p} \<union> set specs)"
proof -
  from sync have wf: "view_wf (vw v)" "one_table (vw v)" and ss: "ses_sync (vw v) (rc_polIdx r) S" and ps: "pol_sync c (vw v) r P"
    by (simp_all add: both_sync_def)
  have tr: "tracked (vw v) (rc_polIdx r)" using ps by (simp add: pol_sync_def)
  note U = pol.upsertPoolPolicers_ok [OF up wf(1) tr specs(1)]
  have le: "gm_get (rc_polIdx r1) n = gm_get (rc_polIdx r) n" if "gm_get (rc_polIdx r) n \<noteq> None" for n
    using U that unfolding map_le_def by (metis domIff)
  have s1: "ses_sync (vw v1) (rc_polIdx r1) S"
    by (rule ses_sync_cong [OF ss]) (use U ss le in \<open>auto simp: ses_sync_def session_known_def\<close>)
  have p1: "pol_sync c (vw v1) r1 ({s \<in> P. ps_PoolID s \<noteq> p} \<union> set specs)"
    unfolding pol_sync_def
  proof (intro conjI ballI allI impI)
    show "tracked (vw v1) (rc_polIdx r1)" using U by blast
    show "pol_in_place (vw v1) r1 s" if s: "s \<in> {s \<in> P. ps_PoolID s \<noteq> p} \<union> set specs" for s
    proof (cases "s \<in> set specs")
      case False
      with s have sp: "s \<in> P" "ps_PoolID s \<noteq> p" by auto
      moreover have "pool_of c (ps_Name s') = Some (ps_PoolID s')" if "s' \<in> P \<union> set specs" for s'
        using names that unfolding names_ok_def by blast
      ultimately have "ps_Name s \<notin> ps_Name ` set specs" using specs(2)
        by (metis (no_types, lifting) UnI1 UnI2 imageE option.inject)
      moreover have "pol_in_place (vw v) r s" using ps sp by (simp add: pol_sync_def)
      ultimately show ?thesis using U unfolding pol_in_place_def by simp
    qed (use U in blast)
    show "vv_pol (vw v1) n = None" if n: "managed c n \<and> n \<notin> ps_Name ` ({s \<in> P. ps_PoolID s \<noteq> p} \<union> set specs)" for n
    proof -
      from n have "n \<notin> ps_Name ` set specs" by blast
      moreover from n kept have "n \<notin> ps_Name ` P" by blast
      ultimately show ?thesis using U ps n by (simp add: pol_sync_def)
    qed
  qed
  from U have wf1: "view_wf (vw v1)" "one_table (vw v1)" using wf(2) pol_frame_view by blast+
  note W = cls.upsertPoolSessions_ok [OF us ord mn wf1 nxt(1) keys_clean_subset [OF clean], unfolded prevByPool_set, simplified]
  have "one_pool (S \<union> {s \<in> set prev. cs_PoolID s = p} \<union> set next)" by (rule one_pool_subset [OF uniq]) blast
  then have "ses_sync (vw v') (rc_polIdx r1) ({s \<in> S. cs_PoolID s \<noteq> p} \<union> set next)"
    by (intro ses_sync_replace [OF s1, where prev = "prevByPool prev p"]) (use W S nxt in \<open>auto simp: prevByPool_set\<close>)
  moreover from W have W1: "cls_frame (vw v1) (vw v')" "rc_polIdx r' = rc_polIdx r1" "view_wf (vw v')" "one_table (vw v')" by simp_all
  ultimately show ?thesis using cls_frame_pol_sync [OF W1(1,2) p1] by (simp add: both_sync_def)
qed

text \<open>The data conditions of the upserts of a delta.\<close>

lemma applyUpserted_sync:
  assumes "applyUpserted c ord (NewPolicers c ch) (NewClassify ch) prev ups res (r, v) = ((res', None), (r', v'))"
    and "range_order ord" and "mask_names_ok c" and "both_sync c (vw v) r S P"
    and "\<forall>s \<in> S. cs_PoolID s \<in> pd_PoolID ` set ups \<longrightarrow> s \<in> set prev" and "keys_clean prev"
    and "one_pool (S \<union> set prev \<union> (\<Union>up \<in> set ups. set (pd_ClassifySessions up)))"
    and "names_ok c (S \<union> (\<Union>up \<in> set ups. set (pd_ClassifySessions up))) (P \<union> (\<Union>up \<in> set ups. set (pd_Policers up)))"
    and "distinct (map pd_PoolID ups)"
    and "\<forall>up \<in> set ups. sessions_ok (pd_ClassifySessions up) \<and> distinct (map ps_Name (pd_Policers up)) \<and>
      (\<forall>s \<in> set (pd_ClassifySessions up). cs_PoolID s = pd_PoolID up) \<and> (\<forall>s \<in> set (pd_Policers up). ps_PoolID s = pd_PoolID up) \<and>
      ps_Name ` {s \<in> P. ps_PoolID s = pd_PoolID up} \<subseteq> ps_Name ` set (pd_Policers up)"
  shows "both_sync c (vw v') r' ({s \<in> S. cs_PoolID s \<notin> pd_PoolID ` set ups} \<union> (\<Union>up \<in> set ups. set (pd_ClassifySessions up)))
     ({s \<in> P. ps_PoolID s \<notin> pd_PoolID ` set ups} \<union> (\<Union>up \<in> set ups. set (pd_Policers up)))"
  using assms
proof (induction ups arbitrary: res r v S P)
  case (Cons up ups)
  let ?p = "pd_PoolID up" and ?n = "set (pd_ClassifySessions up)" and ?q = "set (pd_Policers up)"
  let ?S = "{s \<in> S. cs_PoolID s \<noteq> ?p} \<union> ?n" and ?P = "{s \<in> P. ps_PoolID s \<noteq> ?p} \<union> ?q"
  from Cons.prems(1) obtain a r1 v1 b r2 v2 res2 where
    u: "upsertPoolPolicers (NewPolicers c ch) (pd_Policers up) (r, v) = (Inr a, (r1, v1))"
    and w: "upsertPoolSessions c ord (NewClassify ch) (prevByPool prev ?p) (pd_ClassifySessions up) (r1, v1) = (Inr b, (r2, v2))"
    and rest: "applyUpserted c ord (NewPolicers c ch) (NewClassify ch) prev ups res2 (r2, v2) = ((res', None), (r', v'))"
    by (auto simp: stage_None Let_def)
  note H = Cons.prems(10) [rule_format, of up, simplified]
  have "one_pool (S \<union> set prev \<union> ?n)" by (rule one_pool_subset [OF Cons.prems(7)]) auto
  moreover have "names_ok c S (P \<union> ?q)" by (rule names_ok_subset [OF Cons.prems(8)]) auto
  ultimately have "both_sync c (vw v2) r2 ?S ?P"
    by (intro upserted_pool [OF u w Cons.prems(2-4) _ Cons.prems(6)]) (use Cons.prems(5) H in auto)
  moreover have new: "?p \<notin> pd_PoolID ` set ups" using Cons.prems(9) by simp
  moreover have "s \<in> set prev" if "s \<in> ?S" "cs_PoolID s \<in> pd_PoolID ` set ups" for s
    using that Cons.prems(5) H new by auto
  moreover have "one_pool (?S \<union> set prev \<union> (\<Union>up \<in> set ups. set (pd_ClassifySessions up)))"
    by (rule one_pool_subset [OF Cons.prems(7)]) auto
  moreover have "names_ok c (?S \<union> (\<Union>up \<in> set ups. set (pd_ClassifySessions up))) (?P \<union> (\<Union>up \<in> set ups. set (pd_Policers up)))"
    by (rule names_ok_subset [OF Cons.prems(8)]) auto
  moreover have "ps_Name ` {s \<in> ?P. ps_PoolID s = pd_PoolID x} \<subseteq> ps_Name ` set (pd_Policers x)" if x: "x \<in> set ups" for x
  proof -
    have "{s \<in> ?P. ps_PoolID s = pd_PoolID x} \<subseteq> {s \<in> P. ps_PoolID s = pd_PoolID x}" using H new x by force
    moreover have "ps_Name ` {s \<in> P. ps_PoolID s = pd_PoolID x} \<subseteq> ps_Name ` set (pd_Policers x)" using Cons.prems(10) x by simp
    ultimately show ?thesis by blast
  qed
  ultimately have "both_sync c (vw v') r' ({s \<in> ?S. cs_PoolID s \<notin> pd_PoolID ` set ups} \<union> (\<Union>up \<in> set ups. set (pd_ClassifySessions up)))
     ({s \<in> ?P. ps_PoolID s \<notin> pd_PoolID ` set ups} \<union> (\<Union>up \<in> set ups. set (pd_Policers up)))"
    by (intro Cons.IH [OF rest Cons.prems(2,3)]) (use Cons.prems(6,9,10) in auto)
  moreover have "{s \<in> ?S. cs_PoolID s \<notin> pd_PoolID ` set ups} = {s \<in> S. cs_PoolID s \<notin> pd_PoolID ` set (up # ups)} \<union> ?n"
    "{s \<in> ?P. ps_PoolID s \<notin> pd_PoolID ` set ups} = {s \<in> P. ps_PoolID s \<notin> pd_PoolID ` set (up # ups)} \<union> ?q"
    using H new by auto
  ultimately show ?case by (simp add: Un_assoc)
qed simp

end

subsection \<open>A delta and a full pass agree\<close>

text \<open>VPP is in sync with a desired state.\<close>

definition in_sync :: "contract_fns \<Rightarrow> EdgeDesiredState \<Rightarrow> vpp_view \<Rightarrow> Reconciler \<Rightarrow> bool" where
  "in_sync c st V r \<longleftrightarrow> both_sync c V r (set (es_ClassifySessions st)) (set (es_Policers st))"

text \<open>A delta that fits the state it is merged into: rendered per pool, policer names of the right pool and
  unique within a fragment, a merged state that is a desired state, no member that changes pools, and
  upserted pools that keep the policers they had.\<close>

definition delta_fits :: "contract_fns \<Rightarrow> EdgeDesiredState \<Rightarrow> EdgeDesiredDelta \<Rightarrow> bool" where
  "delta_fits c st delta \<longleftrightarrow>
     wf_delta delta \<and> desired_ok c (merge_state delta st) \<and> keys_clean (es_ClassifySessions st) \<and>
     one_pool (set (es_ClassifySessions st) \<union> (\<Union>up \<in> set (ed_Upserts delta). set (pd_ClassifySessions up))) \<and>
     names_ok c (set (es_ClassifySessions st) \<union> (\<Union>up \<in> set (ed_Upserts delta). set (pd_ClassifySessions up)))
       (set (es_Policers st) \<union> (\<Union>up \<in> set (ed_Upserts delta). set (pd_Policers up))) \<and>
     (\<forall>up \<in> set (ed_Upserts delta). distinct (map ps_Name (pd_Policers up)) \<and>
        ps_Name ` {s \<in> set (es_Policers st). ps_PoolID s = pd_PoolID up} \<subseteq> ps_Name ` set (pd_Policers up))"

lemma in_sync_sessions:
  assumes "in_sync c st V r" and "desired_ok c st"
  shows "sessions_converged st V"
proof -
  from assms(1) have ss: "ses_sync V (rc_polIdx r) (set (es_ClassifySessions st))"
    and ps: "tracked V (rc_polIdx r)"
    by (simp_all add: in_sync_def both_sync_def pol_sync_def)
  have "\<exists>t k i q. SessionKey (cs_Mask s) (cs_Prefix s) = Inr k \<and> table_of V (cs_Mask s) t \<and> vv_ses V t k = Some i \<and>
      vv_pol V (cs_PolicerName s) = Some (i, q)" if s: "s \<in> set (es_ClassifySessions st)" for s
  proof -
    from ss s obtain i k t where "gm_get (rc_polIdx r) (cs_PolicerName s) = Some i"
      "SessionKey (cs_Mask s) (cs_Prefix s) = Inr k" "table_of V (cs_Mask s) t"
      unfolding ses_sync_def session_known_def by blast
    with ss ps s show ?thesis unfolding ses_sync_def tracked_def by metis
  qed
  with ss show ?thesis unfolding sessions_converged_def ses_sync_def by blast
qed

lemma merge_state_sets:
  "set (es_ClassifySessions (merge_state delta st)) = {s \<in> set (es_ClassifySessions st). cs_PoolID s \<notin> touched_pools delta} \<union>
     (\<Union>up \<in> set (ed_Upserts delta). set (pd_ClassifySessions up))"
  "set (es_Policers (merge_state delta st)) = {s \<in> set (es_Policers st). ps_PoolID s \<notin> touched_pools delta} \<union>
     (\<Union>up \<in> set (ed_Upserts delta). set (pd_Policers up))"
  by (auto simp: merge_state_fields)

context vpp_channel
begin

lemma ApplyDelta_sync:
  assumes run: "ApplyDelta c ro (Inr ch) delta (es_ClassifySessions st) (r, v) = ((res, None), (r', v'))"
    and ords: "range_order (ro_polDel ro)" "range_order (ro_wants ro)" and mn: "mask_names_ok c"
    and fits: "delta_fits c st delta" and sync: "in_sync c st (vw v) r"
  shows "in_sync c (merge_state delta st) (vw v') r' \<and> rc_lastGen r' = ed_Generation delta"
proof -
  let ?S = "set (es_ClassifySessions st)" and ?P = "set (es_Policers st)" and ?U = "ed_Upserts delta" and ?R = "ed_Removed delta"
  from run obtain res1 r1 v1 r2 where
    rem: "applyRemoved c (ro_polDel ro) (NewPolicers c ch) (NewClassify ch) (es_ClassifySessions st) ?R Result_zero (r, v) = ((res1, None), (r1, v1))"
    and ups: "applyUpserted c (ro_wants ro) (NewPolicers c ch) (NewClassify ch) (es_ClassifySessions st) ?U res1 (r1, v1) = ((res, None), (r2, v'))"
    and r': "r' = AdoptDeltaBaseline c (ro_hash ro) (ed_Generation delta) r2"
    by (auto simp: ApplyDelta_def split: prod.splits option.splits)
  from fits have F: "wf_delta delta" "desired_ok c (merge_state delta st)" "keys_clean (es_ClassifySessions st)"
    "one_pool (?S \<union> (\<Union>up \<in> set ?U. set (pd_ClassifySessions up)))"
    "names_ok c (?S \<union> (\<Union>up \<in> set ?U. set (pd_ClassifySessions up))) (?P \<union> (\<Union>up \<in> set ?U. set (pd_Policers up)))"
    and FU: "\<And>up. up \<in> set ?U \<Longrightarrow> distinct (map ps_Name (pd_Policers up)) \<and>
        ps_Name ` {s \<in> ?P. ps_PoolID s = pd_PoolID up} \<subseteq> ps_Name ` set (pd_Policers up)"
    unfolding delta_fits_def by blast+
  let ?S1 = "{s \<in> ?S. cs_PoolID s \<notin> set ?R}" and ?P1 = "{s \<in> ?P. ps_PoolID s \<notin> set ?R}"
  have s1: "both_sync c (vw v1) r1 ?S1 ?P1"
    by (rule applyRemoved_sync [OF rem ords(1) sync [unfolded in_sync_def] order_refl F(3)])
      (rule one_pool_subset [OF F(4)] names_ok_subset [OF F(5)]; blast)+
  have sok: "sessions_ok (pd_ClassifySessions up)" if "up \<in> set ?U" for up
    by (rule sessions_ok_subset [of "es_ClassifySessions (merge_state delta st)"])
      (use F(2) that merge_state_sets(1) [of delta st] in \<open>auto simp: desired_ok_def\<close>)
  have own: "distinct (map pd_PoolID ?U)" "\<forall>up \<in> set ?U. (\<forall>s \<in> set (pd_ClassifySessions up). cs_PoolID s = pd_PoolID up) \<and>
      (\<forall>s \<in> set (pd_Policers up). ps_PoolID s = pd_PoolID up)"
    using F(1) by (auto simp: wf_delta_def list_all_iff)
  have "both_sync c (vw v') r2 ({s \<in> ?S1. cs_PoolID s \<notin> pd_PoolID ` set ?U} \<union> (\<Union>up \<in> set ?U. set (pd_ClassifySessions up)))
     ({s \<in> ?P1. ps_PoolID s \<notin> pd_PoolID ` set ?U} \<union> (\<Union>up \<in> set ?U. set (pd_Policers up)))"
  proof (rule applyUpserted_sync [OF ups ords(2) mn s1 _ F(3)])
    show "one_pool (?S1 \<union> ?S \<union> (\<Union>up \<in> set ?U. set (pd_ClassifySessions up)))"
      by (rule one_pool_subset [OF F(4)]) blast
    show "names_ok c (?S1 \<union> (\<Union>up \<in> set ?U. set (pd_ClassifySessions up))) (?P1 \<union> (\<Union>up \<in> set ?U. set (pd_Policers up)))"
      by (rule names_ok_subset [OF F(5)]) blast+
  qed (use own sok FU in blast)+
  moreover have "{s \<in> ?S1. cs_PoolID s \<notin> pd_PoolID ` set ?U} = {s \<in> ?S. cs_PoolID s \<notin> touched_pools delta}"
    "{s \<in> ?P1. ps_PoolID s \<notin> pd_PoolID ` set ?U} = {s \<in> ?P. ps_PoolID s \<notin> touched_pools delta}"
    by (auto simp: touched_pools_def)
  ultimately have "in_sync c (merge_state delta st) (vw v') r2"
    unfolding in_sync_def merge_state_sets by simp
  moreover have "rc_polIdx r' = rc_polIdx r2" "rc_lastGen r' = ed_Generation delta"
    by (simp_all add: r' AdoptDeltaBaseline_def recomputePoolHash_def)
  ultimately show ?thesis
    by (simp add: in_sync_def both_sync_def pol_sync_def pol_in_place_def)
qed

end

lemma ApplyDelta_equals_sync:
  assumes "vpp_channel ch vw" and "orders_ok ro" and "mask_names_ok c" and "delta_fits c st delta" and "in_sync c st (vw v) r"
    and "ApplyDelta c ro (Inr ch) delta (es_ClassifySessions st) (r, v) = ((res, None), (r', v'))"
  shows "in_sync c (merge_state delta st) (vw v') r' \<and> rc_lastGen r' = ed_Generation delta"
  by (rule vpp_channel.ApplyDelta_sync [OF assms(1,6) _ _ assms(3-5)]) (use assms(2) in \<open>simp_all add: orders_ok_def\<close>)

subsection \<open>The same data plane\<close>

text \<open>Traffic that matches key \<open>k\<close> on the table of a mask meets policer \<open>n\<close>.\<close>

definition meets :: "vpp_view \<Rightarrow> MaskKind \<Rightarrow> bytes \<Rightarrow> string \<Rightarrow> bool" where
  "meets V mk k n \<longleftrightarrow> (\<exists>t i q. table_of V mk t \<and> vv_ses V t k = Some i \<and> vv_pol V n = Some (i, q))"

definition has_session :: "vpp_view \<Rightarrow> MaskKind \<Rightarrow> bytes \<Rightarrow> bool" where
  "has_session V mk k \<longleftrightarrow> (\<exists>t i. table_of V mk t \<and> vv_ses V t k = Some i)"

text \<open>Two VPPs serve the state \<open>d\<close> alike: the same sessions, each meeting the same policer by name, the
  same managed policers, and the same rate and burst of every policer but a pps one. The indices
  and table numbers VPP has chosen may differ.\<close>

definition same_plane :: "contract_fns \<Rightarrow> EdgeDesiredState \<Rightarrow> vpp_view \<Rightarrow> vpp_view \<Rightarrow> bool" where
  "same_plane c d V W \<longleftrightarrow>
     (\<forall>mk k. has_session V mk k = has_session W mk k) \<and> (\<forall>mk k n. meets V mk k n = meets W mk k n) \<and>
     (\<forall>n. managed c n \<longrightarrow> (vv_pol V n \<noteq> None) = (vv_pol W n \<noteq> None)) \<and>
     (\<forall>n s. specFor (es_Policers d) n = Some s \<and> ps_RateType s \<noteq> RatePps \<longrightarrow>
        map_option snd (vv_pol V n) = map_option snd (vv_pol W n))"

lemma has_session_iff:
  assumes "sessions_converged d V"
  shows "has_session V mk k \<longleftrightarrow> (\<exists>s \<in> set (es_ClassifySessions d). cs_Mask s = mk \<and> SessionKey mk (cs_Prefix s) = Inr k)"
  using assms unfolding sessions_converged_def has_session_def by (metis sum.inject(2))

lemma meets_iff:
  assumes conv: "sessions_converged d V" and wf: "view_wf V" and one: "one_table V"
  shows "meets V mk k n \<longleftrightarrow>
    (\<exists>s \<in> set (es_ClassifySessions d). cs_Mask s = mk \<and> SessionKey mk (cs_Prefix s) = Inr k \<and> cs_PolicerName s = n)"
    (is "?l \<longleftrightarrow> ?r")
proof
  assume ?r
  then show ?l using conv unfolding sessions_converged_def meets_def by (metis sum.inject(2))
next
  assume ?l
  then obtain t i q where h: "table_of V mk t" "vv_ses V t k = Some i" "vv_pol V n = Some (i, q)" by (auto simp: meets_def)
  with conv obtain s where s: "s \<in> set (es_ClassifySessions d)" "cs_Mask s = mk" "SessionKey mk (cs_Prefix s) = Inr k"
    unfolding sessions_converged_def by blast
  with conv obtain t' i' q' where "table_of V mk t'" "vv_ses V t' k = Some i'" "vv_pol V (cs_PolicerName s) = Some (i', q')"
    unfolding sessions_converged_def by (metis sum.inject(2))
  with h(1,2) one_tableD [OF one h(1), of t'] have "vv_pol V (cs_PolicerName s) = Some (i, q')" by simp
  from view_wf_pol [OF wf this h(3)] s show ?r by blast
qed

text \<open>The policers of a state are in VPP: what \<open>same_plane\<close> needs of them.\<close>

definition pols_of :: "contract_fns \<Rightarrow> EdgeDesiredState \<Rightarrow> vpp_view \<Rightarrow> bool" where
  "pols_of c d V \<longleftrightarrow>
     (\<forall>n s. specFor (es_Policers d) n = Some s \<longrightarrow> (\<exists>i q. vv_pol V n = Some (i, q) \<and> rate_converged s q)) \<and>
     (\<forall>n. managed c n \<and> n \<notin> ps_Name ` set (es_Policers d) \<longrightarrow> vv_pol V n = None)"

lemma pols_of_converged: "policers_converged c d V V' r' \<Longrightarrow> pols_of c d V'"
  unfolding policers_converged_def pols_of_def by blast

lemma pols_of_sync: "in_sync c d V r \<Longrightarrow> pols_of c d V"
proof -
  assume "in_sync c d V r"
  then have P: "\<forall>s \<in> set (es_Policers d). pol_in_place V r s"
    "\<forall>n. managed c n \<and> n \<notin> ps_Name ` set (es_Policers d) \<longrightarrow> vv_pol V n = None"
    by (simp_all add: in_sync_def both_sync_def pol_sync_def)
  have "\<exists>i q. vv_pol V n = Some (i, q) \<and> rate_converged s q" if "specFor (es_Policers d) n = Some s" for n s
    using P(1) specFor_Some [OF that] rate_convergedI [of _ s] unfolding pol_in_place_def by blast
  with P(2) show "pols_of c d V" unfolding pols_of_def by blast
qed

lemma pols_of_iff: "pols_of c d V \<Longrightarrow> managed c n \<Longrightarrow> vv_pol V n \<noteq> None \<longleftrightarrow> specFor (es_Policers d) n \<noteq> None"
  unfolding pols_of_def using specFor_dom [of "es_Policers d" n] by fastforce

lemma pols_of_rate:
  "pols_of c d V \<Longrightarrow> specFor (es_Policers d) n = Some s \<Longrightarrow> ps_RateType s \<noteq> RatePps \<Longrightarrow>
     map_option snd (vv_pol V n) = Some (ucast (ps_CIR s), ps_CommittedBurstBytes s)"
  unfolding pols_of_def rate_converged_def by fastforce

lemma same_planeI:
  assumes "sessions_converged d V" and "sessions_converged d W" and "view_wf V" and "view_wf W" and "one_table V" and "one_table W"
    and "pols_of c d V" and "pols_of c d W"
  shows "same_plane c d V W"
  using assms unfolding same_plane_def
  by (simp add: has_session_iff [of d] meets_iff [of d] pols_of_iff [of c d] pols_of_rate [of c d] del: not_None_eq)

text \<open>A data plane in sync is ready for a full pass: every policer it has is tracked.\<close>

lemma in_sync_ready:
  assumes sync: "in_sync c st V r" and d': "desired_ok c d'"
  shows "pass_ready d' V r"
proof -
  from sync have V: "view_wf V" "one_table V" and tr: "tracked V (rc_polIdx r)"
    and P: "\<forall>s \<in> set (es_Policers st). pol_in_place V r s"
      "\<forall>n. managed c n \<and> n \<notin> ps_Name ` set (es_Policers st) \<longrightarrow> vv_pol V n = None"
    by (simp_all add: in_sync_def both_sync_def pol_sync_def)
  have "idx_ok V r" using tr unfolding tracked_def idx_ok_def by (metis Pair_inject option.inject)
  moreover have "vv_pol V (cs_PolicerName s) = None" if s: "s \<in> set (es_ClassifySessions d')" and un: "untracked r s" for s
  proof -
    have "managed c (cs_PolicerName s)" using d' s unfolding desired_ok_def by fastforce
    moreover have "cs_PolicerName s \<notin> ps_Name ` set (es_Policers st)"
      using P(1) un unfolding untracked_def pol_in_place_def by fastforce
    ultimately show ?thesis using P(2) by blast
  qed
  then have "sessions_attributed V (filter (untracked r) (es_ClassifySessions d'))"
    unfolding sessions_attributed_def by simp
  ultimately show ?thesis using V by (simp add: pass_ready_def)
qed

lemma full_pass_plane:
  assumes "vpp_channel ch vw" and "orders_ok ro" and d: "desired_ok c d" and sync: "in_sync c st (vw v) r" and "\<not> deferred d r"
    and "Reconcile c ro (Inr ch) d (r, v) = ((res, None), (r', v'))"
  shows "sessions_converged d (vw v') \<and> pols_of c d (vw v') \<and> view_wf (vw v') \<and> one_table (vw v') \<and>
    rc_lastGen r' = es_Generation d"
  using Reconcile_pass [OF assms(1-3) in_sync_ready [OF sync d] assms(5,6)] pols_of_converged by blast

text \<open>C2: the incremental path is equivalent to a full pass. Start from a VPP in sync with a desired state
  \<open>st\<close> and a delta that fits it (\<open>delta_fits\<close>): it is rendered per pool, its policer names carry their
  pool, no member changes pools within it, and an upserted pool keeps the policers it had. When
  \<open>ApplyDelta\<close> reports no error on the delta, and a full \<open>Reconcile\<close> of the state \<open>Merge\<close> computes, run
  from the same VPP and the same reconciler instead, reports no error and is not deferred, the two
  leave the same data plane: the same classify sessions, each hitting the policer of the same name,
  the same managed policers, with the same rate and burst but for pps policers; both adopt the delta's
  generation. VPP is then in sync with the merged state, so that the next delta starts from such a
  state again. This holds for any number of removed and upserted pools in one delta, whatever order
  the code's map iterations take in either run. \<open>moved_member_loses_session\<close> shows that the condition on
  members that change pools is needed.\<close>

theorem ApplyDelta_equals_full:
  assumes "vpp_channel ch vw" and "orders_ok ro" and "mask_names_ok c" and "delta_fits c st delta" and "in_sync c st (vw v) r"
    and "ApplyDelta c ro (Inr ch) delta (es_ClassifySessions st) (r, v) = ((res, None), (r', v'))"
    and "orders_ok ro2" and "\<not> deferred (merge_state delta st) r"
    and "Reconcile c ro2 (Inr ch) (merge_state delta st) (r, v) = ((res2, None), (r2, v2))"
  shows "same_plane c (merge_state delta st) (vw v') (vw v2) \<and> rc_lastGen r' = rc_lastGen r2 \<and>
    sessions_converged (merge_state delta st) (vw v') \<and> in_sync c (merge_state delta st) (vw v') r' \<and>
    rc_lastGen r' = ed_Generation delta"
proof -
  let ?d = "merge_state delta st"
  have d: "desired_ok c ?d" using assms(4) by (simp add: delta_fits_def)
  note S = ApplyDelta_equals_sync [OF assms(1-6)]
  then have ses: "sessions_converged ?d (vw v')" and wf: "view_wf (vw v')" "one_table (vw v')" and pol: "pols_of c ?d (vw v')"
    using in_sync_sessions [OF _ d] pols_of_sync by (auto simp: in_sync_def both_sync_def)
  note F = full_pass_plane [OF assms(1,7) d assms(5,8,9)]
  have "same_plane c ?d (vw v') (vw v2)"
    by (rule same_planeI [OF ses _ wf(1) _ wf(2) _ pol]) (use F in simp_all)
  moreover have "es_Generation ?d = ed_Generation delta" by (simp add: merge_state_def Let_def)
  ultimately show ?thesis using S ses F by simp
qed

subsection \<open>A VPP in sync with two pools\<close>

definition sy_state :: EdgeDesiredState where
  "sy_state = EdgeDesiredState_zero
     \<lparr>es_Generation := 1, es_Policers := [ex_spec 1 ''p'', ex_spec 2 ''p2''],
      es_ClassifySessions := [ex_session 1 ''p'' 10, ex_session 2 ''p2'' 20]\<rparr>"

definition sy_vpp :: ref_vpp where
  "sy_vpp =
     \<lparr>rv_pol = [(''other'', 7, 7, 7), (''p'', 0, 1000, 5000), (''p2'', 1, 1000, 5000)],
      rv_tab = [(3, 1, 2, replicate 14 0 @ replicate 4 0xff @ replicate 14 0)], rv_next = [(3, NoTable)],
      rv_ses = [((3, replicate 14 0 @ [0, 0, 0, 10] @ replicate 14 0), 0), ((3, replicate 14 0 @ [0, 0, 0, 20] @ replicate 14 0), 1)],
      rv_bnd = [], rv_ifs = []\<rparr>"

definition sy_recon :: Reconciler where
  "sy_recon = (New 0 0)\<lparr>rc_polIdx := [(''p'', 0), (''p2'', 1)]\<rparr>"

lemmas sy_defs = sy_state_def sy_vpp_def sy_recon_def ex_spec_def ex_session_def EdgeDesiredState_zero_def New_def

lemma key_Dst32: "SessionKey MaskIP4Dst32 (Prefix (IPv4 w) 32) = Inr (replicate 14 0 @ be_bytes 4 w @ replicate 14 0)"
  by (simp add: SessionKey_iff addrBytesOf_def keyLead_def keyTail_def layouts vec_def)

lemma key_bytes:
  "be_bytes 4 (10 :: 32 word) = [0, 0, 0, 10]" "be_bytes 4 (20 :: 32 word) = [0, 0, 0, 20]" "be_bytes 4 (21 :: 32 word) = [0, 0, 0, 21]"
  by code_simp+

lemma key_stored:
  assumes "w = 10 \<or> w = 20 \<or> w = (21 :: 32 word)"
  shows "storedKey MaskIP4Dst32 (replicate 14 0 @ be_bytes 4 w @ replicate 14 0) = replicate 14 0 @ be_bytes 4 w @ replicate 14 0"
proof -
  have "\<forall>w \<in> set [10, 20, 21 :: 32 word].
      storedKey MaskIP4Dst32 (replicate 14 0 @ be_bytes 4 w @ replicate 14 0) = replicate 14 0 @ be_bytes 4 w @ replicate 14 0"
    by code_simp
  with assms show ?thesis by auto
qed

lemma sy_table: "table_of (ref_view sy_vpp) mk t \<longleftrightarrow> mk = MaskIP4Dst32 \<and> t = 3"
proof -
  have l: "layoutOf MaskIP4Dst32 = Some (1, 2, replicate 14 0 @ replicate 4 0xff @ replicate 14 0)" by code_simp
  then have "table_of (ref_view sy_vpp) MaskIP4Dst32 3" by (simp add: table_of_def ref_view_def sy_vpp_def)
  moreover have "t = 3" if "table_of (ref_view sy_vpp) mk t" for mk t
    using that by (auto simp: table_of_def ref_view_def sy_vpp_def split: if_splits)
  ultimately show ?thesis using table_of_unique_mask by metis
qed

lemma sy_in_sync: "in_sync ex_contract sy_state (ref_view sy_vpp) sy_recon"
proof -
  have m: "maskKey (replicate 14 0 @ replicate 4 0xff @ replicate 14 0) (replicate 14 0 @ [0, 0, 0, b] @ replicate 14 0)
      = replicate 14 0 @ [0, 0, 0, b] @ replicate 14 0" if "b = 10 \<or> b = 20" for b
    using key_stored [of 10] key_stored [of 20] storedKey_table [of "ref_view sy_vpp" MaskIP4Dst32 3] sy_table that
    by (auto simp: key_bytes ref_view_def sy_vpp_def)
  have "view_wf (ref_view sy_vpp)"
    using m [of 10] m [of 20] by (auto simp: view_wf_def ref_view_def sy_vpp_def NoTable_val split: if_splits)
  moreover have "one_table (ref_view sy_vpp)" by (simp add: one_table_def sy_table)
  moreover have "ses_sync (ref_view sy_vpp) (rc_polIdx sy_recon) (set (es_ClassifySessions sy_state))"
    unfolding ses_sync_def sy_table
    by (auto simp: session_known_def ref_view_def sy_defs key_Dst32 key_bytes)
  moreover have "pol_sync ex_contract (ref_view sy_vpp) sy_recon (set (es_Policers sy_state))"
    by (auto simp: pol_sync_def tracked_def pol_in_place_def ref_view_def sy_defs installed_rate_def managed_def ex_contract_def split: if_splits)
  ultimately show ?thesis by (simp add: in_sync_def both_sync_def)
qed

lemma sy_delta_fits: "delta_fits ex_contract sy_state ex_delta"
proof -
  have "desired_ok ex_contract (merge_state ex_delta sy_state)"
    using key_stored by (auto simp: desired_ok_def sessions_ok_def managed_def merge_state_fields sy_defs ex_delta_def
        touched_pools_def key_Dst32 ex_contract_def)
  moreover have "keys_clean (es_ClassifySessions sy_state)"
    using key_stored by (auto simp: keys_clean_def sy_defs key_Dst32)
  ultimately show ?thesis
    by (auto simp: delta_fits_def wf_delta_def one_pool_def names_ok_def pool_of_def ex_contract_def sy_defs ex_delta_def)
qed

lemma ex_mask_names: "mask_names_ok ex_contract"
  by (auto simp: mask_names_ok_def inj_def ex_contract_def split: MaskKind.splits)

theorem ApplyDelta_equals_full_witness:
  "\<exists>res r' v' res2 r2 v2. ApplyDelta ex_contract ex_orders (Inr ref_channel) ex_delta (es_ClassifySessions sy_state) (sy_recon, sy_vpp)
       = ((res, None), (r', v')) \<and>
     Reconcile ex_contract ex_orders (Inr ref_channel) (merge_state ex_delta sy_state) (sy_recon, sy_vpp) = ((res2, None), (r2, v2)) \<and>
     same_plane ex_contract (merge_state ex_delta sy_state) (ref_view v') (ref_view v2) \<and> rc_lastGen r' = 2"
proof -
  let ?out = "ApplyDelta ex_contract ex_orders (Inr ref_channel) ex_delta (es_ClassifySessions sy_state) (sy_recon, sy_vpp)"
  let ?full = "Reconcile ex_contract ex_orders (Inr ref_channel) (merge_state ex_delta sy_state) (sy_recon, sy_vpp)"
  have "snd (fst ?out) = None" by code_simp
  then obtain res r' v' where out: "?out = ((res, None), (r', v'))" by (cases ?out) auto
  have "snd (fst ?full) = None" by code_simp
  then obtain res2 r2 v2 where full: "?full = ((res2, None), (r2, v2))" by (cases ?full) auto
  have "\<not> deferred (merge_state ex_delta sy_state) sy_recon" by (simp add: deferred_def sy_recon_def New_def)
  from ApplyDelta_equals_full [OF ref.vpp_channel_axioms ex_orders_ok ex_mask_names sy_delta_fits sy_in_sync out ex_orders_ok this full]
    out full
  have "same_plane ex_contract (merge_state ex_delta sy_state) (ref_view v') (ref_view v2) \<and> rc_lastGen r' = ed_Generation ex_delta"
    by blast
  moreover have "ed_Generation ex_delta = 2" by (simp add: ex_delta_def)
  ultimately show ?thesis using out full by metis
qed

subsection \<open>A member that changes pools within one delta\<close>

text \<open>One delta hands member 10.x from pool 1 to pool 2: pool 2 is upserted with it first, then pool 1
  without it. Both upserts succeed, but the second deletes the session the first has just re-pointed.\<close>

definition mv_delta :: EdgeDesiredDelta where
  "mv_delta = ex_delta\<lparr>ed_Removed := [], ed_Upserts :=
     [\<lparr>pd_PoolID = 2, pd_Policers = [ex_spec 2 ''p2''], pd_ClassifySessions = [ex_session 2 ''p2'' 10, ex_session 2 ''p2'' 20],
       pd_Anchors = [], pd_FlowRedirects = [], pd_RedirectNextHop = AddrInvalid, pd_RedirectNextHopV6 = AddrInvalid\<rparr>,
      \<lparr>pd_PoolID = 1, pd_Policers = [ex_spec 1 ''p''], pd_ClassifySessions = [],
       pd_Anchors = [], pd_FlowRedirects = [], pd_RedirectNextHop = AddrInvalid, pd_RedirectNextHopV6 = AddrInvalid\<rparr>]\<rparr>"

lemma moved_member_loses_session:
  "case ApplyDelta ex_contract ex_orders (Inr ref_channel) mv_delta (es_ClassifySessions sy_state) (sy_recon, sy_vpp) of
     ((_, err), (r', v')) \<Rightarrow>
       err = None \<and> rc_lastGen r' = 2 \<and>
       ex_session 2 ''p2'' 10 \<in> set (es_ClassifySessions (merge_state mv_delta sy_state)) \<and>
       gm_get (rv_ses v') (3, replicate 14 0 @ [0, 0, 0, 10] @ replicate 14 0) = None"
  by code_simp

end
