(* ===== verification/Delta_Sequencer.thy ===== *)
theory Delta_Sequencer
  imports Contract
begin

text \<open>
  \<open>internal/agent/deltaseq.go\<close>: the reorder buffer in front of the delta hot path. The sequencer is
  wired to two functions of the reconciler, the applied generation \<open>la\<close> and the apply function \<open>ap\<close>,
  which act on a state of type \<open>'w\<close> (the reconciler, the store and VPP). The \<open>for\<close> loop of \<open>drain\<close> has
  no syntactic bound, so it is a \<open>partial_function\<close>; \<open>drain_returns\<close> proves that it always returns
  because every pending delta is stored under its own base generation.

  The locale \<open>delta_applier\<close> is the contract the sequencer relies on: on a ready state, applying a
  delta succeeds, keeps the state ready and moves the applied generation to the delta's. Its main
  result, \<open>submit_all_reordered\<close>, says that deltas of one chain take effect in chain order whatever
  the order of their arrival.
\<close>

type_synonym pending = "(u64, EdgeDesiredDelta) gomap"

definition defaultMaxPendingDeltas :: nat where
  "defaultMaxPendingDeltas = 512"

partial_function (option) drain ::
  "('w \<Rightarrow> u64) \<Rightarrow> (EdgeDesiredDelta \<Rightarrow> 'w \<Rightarrow> bool \<times> 'w) \<Rightarrow> pending \<Rightarrow> 'w \<Rightarrow> (pending \<times> 'w) option" where
  "drain la ap pend w =
     (case gm_get pend (la w) of
        None \<Rightarrow> Some (pend, w)
      | Some nxt \<Rightarrow>
          let pend' = gm_del (ed_BaseGeneration nxt) pend; r = ap nxt w
          in if \<not> fst r then Some (pend', snd r) else drain la ap pend' (snd r))"

definition evict :: "u64 \<Rightarrow> pending \<Rightarrow> pending" where
  "evict base pend = filter (\<lambda>kv. \<not> fst kv < base) pend"

definition Submit ::
  "('w \<Rightarrow> u64) \<Rightarrow> (EdgeDesiredDelta \<Rightarrow> 'w \<Rightarrow> bool \<times> 'w) \<Rightarrow> nat
   \<Rightarrow> EdgeDesiredDelta \<Rightarrow> pending \<Rightarrow> 'w \<Rightarrow> (pending \<times> 'w) option" where
  "Submit la ap max_pending delta pend w =
     (let base = la w; pend1 = evict base pend
      in if ed_BaseGeneration delta = base then
           (let r = ap delta w
            in if \<not> fst r then Some (pend1, snd r) else drain la ap pend1 (snd r))
         else if ed_BaseGeneration delta > base then
           (if length pend1 \<ge> max_pending then Some ([], w)
            else Some (gm_put (ed_BaseGeneration delta) delta pend1, w))
         else Some (pend1, w))"

definition Buffered :: "pending \<Rightarrow> nat" where
  "Buffered pend = length pend"

text \<open>A stream of deltas handed to the sequencer one by one.\<close>

fun submit_all ::
  "('w \<Rightarrow> u64) \<Rightarrow> (EdgeDesiredDelta \<Rightarrow> 'w \<Rightarrow> bool \<times> 'w) \<Rightarrow> nat
   \<Rightarrow> EdgeDesiredDelta list \<Rightarrow> pending \<Rightarrow> 'w \<Rightarrow> (pending \<times> 'w) option" where
  "submit_all la ap mx [] pend w = Some (pend, w)"
| "submit_all la ap mx (d # ds) pend w =
     (case Submit la ap mx d pend w of None \<Rightarrow> None | Some (p, w') \<Rightarrow> submit_all la ap mx ds p w')"

subsection \<open>The buffer invariant and termination\<close>

definition pending_ok :: "pending \<Rightarrow> bool" where
  "pending_ok pend \<longleftrightarrow> gm_wf pend \<and> (\<forall>k d. gm_get pend k = Some d \<longrightarrow> ed_BaseGeneration d = k)"

lemma pending_ok_Nil [simp]: "pending_ok []"
  by (simp add: pending_ok_def)

lemma pending_ok_del [intro]: "pending_ok pend \<Longrightarrow> pending_ok (gm_del k pend)"
  by (auto simp: pending_ok_def gm_simps split: if_splits)

lemma pending_ok_put [intro]: "pending_ok pend \<Longrightarrow> pending_ok (gm_put (ed_BaseGeneration d) d pend)"
  by (auto simp: pending_ok_def gm_simps split: if_splits)

lemma evict_get: "gm_wf pend \<Longrightarrow> gm_get (evict b pend) k = (if k < b then None else gm_get pend k)"
  by (induction pend) (auto simp: evict_def map_of_eq_None_iff)

lemma evict_wf: "gm_wf pend \<Longrightarrow> gm_wf (evict b pend)"
  by (simp add: evict_def distinct_map_filter)

lemma evict_length: "length (evict b pend) \<le> length pend"
  by (simp add: evict_def)

lemma pending_ok_evict [intro]: "pending_ok pend \<Longrightarrow> pending_ok (evict b pend)"
  by (auto simp: pending_ok_def evict_get evict_wf split: if_splits)

lemma drain_returns:
  assumes "pending_ok pend"
  shows "\<exists>pend' w'. drain la ap pend w = Some (pend', w') \<and> pending_ok pend'
           \<and> length pend' \<le> length pend"
  using assms
proof (induction "length pend" arbitrary: pend w rule: less_induct)
  case less
  show ?case
  proof (cases "gm_get pend (la w)")
    case None
    then show ?thesis using less.prems by (simp add: drain.simps)
  next
    case (Some nxt)
    let ?p = "gm_del (ed_BaseGeneration nxt) pend"
    have "la w \<in> dom (gm_get pend)" "ed_BaseGeneration nxt = la w"
      using Some less.prems by (auto simp: pending_ok_def)
    then have shorter: "length ?p < length pend"
      by (metis gm_length_del)
    have ok: "pending_ok ?p" using less.prems by blast
    show ?thesis
    proof (cases "fst (ap nxt w)")
      case True
      from less.hyps [OF shorter ok, of "snd (ap nxt w)"] Some True shorter
      show ?thesis
        by (subst drain.simps) (auto simp: Let_def)
    next
      case False
      then show ?thesis using Some ok shorter by (simp add: drain.simps Let_def)
    qed
  qed
qed

lemma Submit_returns:
  assumes "pending_ok pend"
  shows "\<exists>pend' w'. Submit la ap mx d pend w = Some (pend', w') \<and> pending_ok pend'
           \<and> length pend' \<le> max (length pend) mx"
proof -
  let ?e = "evict (la w) pend"
  have ok: "pending_ok ?e" and len: "length ?e \<le> length pend"
    using assms by (auto simp: evict_length)
  have wf: "gm_wf ?e" using ok by (simp add: pending_ok_def)
  have put: "length (gm_put (ed_BaseGeneration d) d ?e) \<le> Suc (length ?e)"
    using gm_length_put [OF wf] by simp
  show ?thesis
    using drain_returns [OF ok, of la ap "snd (ap d w)"] ok len put
    by (auto simp: Submit_def Let_def)
qed

text \<open>Whatever every call of the apply function keeps, a submission keeps.\<close>

lemma drain_keeps:
  assumes ap: "\<And>d w. P w \<Longrightarrow> P (snd (ap d w))" and "drain la ap pend w = Some (pend', w')" and "P w"
  shows "P w'"
proof -
  have "(\<forall>d w. P w \<longrightarrow> P (snd (ap d w))) \<longrightarrow> P w \<longrightarrow> P (snd (pend', w'))"
    using assms(2)
  proof (rule drain.raw_induct [rotated])
    fix dr :: "('a \<Rightarrow> u64) \<Rightarrow> (EdgeDesiredDelta \<Rightarrow> 'a \<Rightarrow> bool \<times> 'a) \<Rightarrow> pending \<Rightarrow> 'a \<Rightarrow> (pending \<times> 'a) option"
      and la ap pend w y
    assume IH: "\<And>la ap pend w y. dr la ap pend w = Some y \<Longrightarrow> (\<forall>d w. P w \<longrightarrow> P (snd (ap d w))) \<longrightarrow> P w \<longrightarrow> P (snd y)"
      and body: "(case gm_get pend (la w) of None \<Rightarrow> Some (pend, w)
        | Some nxt \<Rightarrow> let pend' = gm_del (ed_BaseGeneration nxt) pend; r = ap nxt w
            in if \<not> fst r then Some (pend', snd r) else dr la ap pend' (snd r)) = Some y"
    show "(\<forall>d w. P w \<longrightarrow> P (snd (ap d w))) \<longrightarrow> P w \<longrightarrow> P (snd y)"
      using body IH by (auto simp: Let_def split: option.splits if_splits)
  qed
  with ap assms(3) show ?thesis by simp
qed

lemma Submit_keeps:
  assumes ap: "\<And>d w. P w \<Longrightarrow> P (snd (ap d w))" and "Submit la ap mx d pend w = Some (pend', w')" and "P w"
  shows "P w'"
  using assms(2,3) ap drain_keeps [of P ap la, OF ap]
  by (auto simp: Submit_def Let_def split: if_splits)

text \<open>The same for what only the deltas of a set \<open>D\<close> keep, when the submitted one and the pending ones are of
  the set: a submission applies no others.\<close>

lemma pending_values_del: "snd ` set pend \<subseteq> D \<Longrightarrow> snd ` set (gm_del k pend) \<subseteq> D"
  by (auto simp: AList.delete_eq)

lemma pending_values_put: "snd ` set pend \<subseteq> D \<Longrightarrow> d \<in> D \<Longrightarrow> snd ` set (gm_put k d pend) \<subseteq> D"
  by (induction pend) auto

lemma drain_keeps_from:
  assumes ap: "\<And>d w. d \<in> D \<Longrightarrow> P w \<Longrightarrow> P (snd (ap d w))" and "drain la ap pend w = Some (pend', w')"
    and "P w" and "snd ` set pend \<subseteq> D"
  shows "P w' \<and> snd ` set pend' \<subseteq> D"
proof -
  have "(\<forall>d \<in> D. \<forall>w. P w \<longrightarrow> P (snd (ap d w))) \<longrightarrow> P w \<longrightarrow> snd ` set pend \<subseteq> D \<longrightarrow>
      P (snd (pend', w')) \<and> snd ` set (fst (pend', w')) \<subseteq> D"
    using assms(2)
  proof (rule drain.raw_induct [rotated])
    fix dr :: "('a \<Rightarrow> u64) \<Rightarrow> (EdgeDesiredDelta \<Rightarrow> 'a \<Rightarrow> bool \<times> 'a) \<Rightarrow> pending \<Rightarrow> 'a \<Rightarrow> (pending \<times> 'a) option"
      and la ap pend w y
    assume IH: "\<And>la ap pend w y. dr la ap pend w = Some y \<Longrightarrow> (\<forall>d \<in> D. \<forall>w. P w \<longrightarrow> P (snd (ap d w))) \<longrightarrow> P w \<longrightarrow>
        snd ` set pend \<subseteq> D \<longrightarrow> P (snd y) \<and> snd ` set (fst y) \<subseteq> D"
      and body: "(case gm_get pend (la w) of None \<Rightarrow> Some (pend, w)
        | Some nxt \<Rightarrow> let pend' = gm_del (ed_BaseGeneration nxt) pend; r = ap nxt w
            in if \<not> fst r then Some (pend', snd r) else dr la ap pend' (snd r)) = Some y"
    show "(\<forall>d \<in> D. \<forall>w. P w \<longrightarrow> P (snd (ap d w))) \<longrightarrow> P w \<longrightarrow> snd ` set pend \<subseteq> D \<longrightarrow> P (snd y) \<and> snd ` set (fst y) \<subseteq> D"
    proof (intro impI)
      assume k: "\<forall>d \<in> D. \<forall>w. P w \<longrightarrow> P (snd (ap d w))" and w: "P w" and sub: "snd ` set pend \<subseteq> D"
      show "P (snd y) \<and> snd ` set (fst y) \<subseteq> D"
      proof (cases "gm_get pend (la w)")
        case None
        with body have "y = (pend, w)" by simp
        with w sub show ?thesis by simp
      next
        case (Some nxt)
        then have "nxt \<in> D" using sub by (force dest: map_of_SomeD)
        with k w have "P (snd (ap nxt w))" by blast
        note nx = this pending_values_del [OF sub, of "ed_BaseGeneration nxt"]
        show ?thesis
        proof (cases "fst (ap nxt w)")
          case True
          with Some body have "dr la ap (gm_del (ed_BaseGeneration nxt) pend) (snd (ap nxt w)) = Some y" by (simp add: Let_def)
          from IH [OF this] k nx show ?thesis by blast
        next
          case False
          with Some body have "y = (gm_del (ed_BaseGeneration nxt) pend, snd (ap nxt w))" by (simp add: Let_def)
          with nx show ?thesis by simp
        qed
      qed
    qed
  qed
  with ap assms(3,4) show ?thesis by simp
qed

lemma Submit_keeps_from:
  assumes ap: "\<And>d w. d \<in> D \<Longrightarrow> P w \<Longrightarrow> P (snd (ap d w))" and run: "Submit la ap mx d pend w = Some (pend', w')"
    and P: "P w" and D: "d \<in> D" "snd ` set pend \<subseteq> D"
  shows "P w' \<and> snd ` set pend' \<subseteq> D"
proof -
  have ev: "snd ` set (evict (la w) pend) \<subseteq> D" using D(2) by (auto simp: evict_def)
  note dr = drain_keeps_from [of D P ap la, OF ap _ ap [OF D(1) P] ev]
  show ?thesis
    using run P ap [OF D(1) P] ev pending_values_put [OF ev D(1), of "ed_BaseGeneration d"] dr
    by (auto simp: Submit_def Let_def split: if_splits)
qed

text \<open>C35: the sequencer always returns and its buffer is bounded: handing any stream of deltas to a fresh
  sequencer terminates (the drain loop included), whatever the apply function does, and never
  holds more than the configured number of pending deltas, each under its own base generation.\<close>

theorem sequencer_bounded:
  "\<exists>pend w'. submit_all la ap mx ds [] w = Some (pend, w') \<and> Buffered pend \<le> mx
     \<and> gm_wf pend \<and> list_all (\<lambda>(k, d). ed_BaseGeneration d = k) pend"
proof -
  have "\<exists>pend' w'. submit_all la ap mx ds pend w = Some (pend', w') \<and> pending_ok pend'
          \<and> length pend' \<le> mx"
    if "pending_ok pend" "length pend \<le> mx" for pend
    using that
  proof (induction ds arbitrary: pend w)
    case (Cons d ds)
    then show ?case
      using Submit_returns [of pend la ap mx d w] by fastforce
  qed simp
  from this [of "[]"] show ?thesis
    by (fastforce simp: Buffered_def pending_ok_def list_all_iff)
qed

subsection \<open>Chains of deltas\<close>

text \<open>The controller mints the generations of an edge under one lock: each delta builds on the
  generation of its predecessor and generations grow.\<close>

fun chain :: "u64 \<Rightarrow> EdgeDesiredDelta list \<Rightarrow> bool" where
  "chain g [] = True"
| "chain g (d # ds) = (ed_BaseGeneration d = g \<and> g < ed_Generation d \<and> chain (ed_Generation d) ds)"

definition pt :: "u64 \<Rightarrow> EdgeDesiredDelta list \<Rightarrow> nat \<Rightarrow> u64" where
  "pt g ds k = (if k = 0 then g else ed_Generation (ds ! (k - 1)))"

lemma chain_nth: "chain g ds \<Longrightarrow> k < length ds \<Longrightarrow>
    ed_BaseGeneration (ds ! k) = pt g ds k \<and> pt g ds k < pt g ds (Suc k)"
proof (induction ds arbitrary: g k)
  case (Cons d ds)
  show ?case
  proof (cases k)
    case 0
    then show ?thesis using Cons.prems by (simp add: pt_def)
  next
    case (Suc j)
    then have "ed_BaseGeneration (ds ! j) = pt (ed_Generation d) ds j \<and>
        pt (ed_Generation d) ds j < pt (ed_Generation d) ds (Suc j)"
      using Cons by simp
    then show ?thesis using Suc by (cases j) (simp_all add: pt_def)
  qed
qed simp

lemma pt_mono:
  assumes "chain g ds" and "i < j" and "j \<le> length ds"
  shows "pt g ds i < pt g ds j"
  using assms(2,3)
proof (induction j)
  case (Suc j)
  have step: "pt g ds j < pt g ds (Suc j)"
    using chain_nth [OF assms(1)] Suc.prems by simp
  then show ?case
    using Suc by (cases "i = j") auto
qed simp

lemma base_nth_inject:
  assumes "chain g ds" and "i < length ds" and "j < length ds"
    and "ed_BaseGeneration (ds ! i) = ed_BaseGeneration (ds ! j)"
  shows "i = j"
  using assms chain_nth [OF assms(1)] pt_mono [OF assms(1), of i j] pt_mono [OF assms(1), of j i]
  by (metis less_imp_le_nat less_irrefl linorder_neqE_nat)

lemma chain_distinct: "chain g ds \<Longrightarrow> distinct ds"
  using base_nth_inject by (metis distinct_conv_nth)

lemma in_set_dropE:
  assumes "d \<in> set (drop k ds)"
  obtains j where "k \<le> j" and "j < length ds" and "d = ds ! j"
proof -
  from assms obtain i where "i < length (drop k ds)" "d = drop k ds ! i"
    by (auto simp only: in_set_conv_nth)
  then show thesis using that [of "k + i"] by auto
qed

locale delta_applier =
  fixes la :: "'w \<Rightarrow> u64"
    and ap :: "EdgeDesiredDelta \<Rightarrow> 'w \<Rightarrow> bool \<times> 'w"
    and ready :: "'w \<Rightarrow> bool"
  assumes ap_ready: "ready w \<Longrightarrow> fst (ap d w) \<and> ready (snd (ap d w)) \<and> la (snd (ap d w)) = ed_Generation d"
    and ap_not_ready: "\<not> ready w \<Longrightarrow> ap d w = (False, w)"
begin

definition run :: "EdgeDesiredDelta list \<Rightarrow> 'w \<Rightarrow> 'w" where
  "run ds w = fold (\<lambda>d w. snd (ap d w)) ds w"

lemma run_ready: "ready w \<Longrightarrow> ready (run ds w)"
  by (induction ds arbitrary: w) (auto simp: run_def ap_ready)

lemma la_run_take:
  assumes "ready w" and "k \<le> length ds"
  shows "la (run (take k ds) w) = pt (la w) ds k"
proof (cases k)
  case 0
  then show ?thesis by (simp add: run_def pt_def)
next
  case (Suc j)
  then have "run (take k ds) w = snd (ap (ds ! j) (run (take j ds) w))"
    using assms(2) by (simp add: run_def take_Suc_conv_app_nth)
  then show ?thesis
    using ap_ready [OF run_ready [OF assms(1)]] Suc by (simp add: pt_def)
qed

text \<open>The state of the sequencer after the deltas \<open>pre\<close> of the chain \<open>ds\<close> have arrived: the first \<open>k\<close>
  are applied, the others of \<open>pre\<close> are pending.\<close>

definition inv_upto :: "EdgeDesiredDelta list \<Rightarrow> 'w \<Rightarrow> EdgeDesiredDelta set \<Rightarrow> nat \<Rightarrow> pending \<Rightarrow> 'w \<Rightarrow> bool" where
  "inv_upto ds w0 pre k pend w \<longleftrightarrow>
     k \<le> length ds \<and> w = run (take k ds) w0 \<and> set (take k ds) \<subseteq> pre \<and> gm_wf pend \<and>
     (\<forall>g d. gm_get pend g = Some d \<longleftrightarrow> d \<in> pre \<and> d \<in> set (drop k ds) \<and> ed_BaseGeneration d = g)"

definition gap_at :: "EdgeDesiredDelta list \<Rightarrow> EdgeDesiredDelta set \<Rightarrow> nat \<Rightarrow> bool" where
  "gap_at ds pre k \<longleftrightarrow> k < length ds \<longrightarrow> ds ! k \<notin> pre"

lemma drop_Suc_mem:
  assumes "distinct ds" and "k < length ds"
  shows "d \<in> set (drop (Suc k) ds) \<longleftrightarrow> d \<in> set (drop k ds) \<and> d \<noteq> ds ! k"
proof -
  have "drop k ds = ds ! k # drop (Suc k) ds"
    using assms(2) by (simp add: Cons_nth_drop_Suc)
  moreover have "distinct (drop k ds)" using assms(1) by simp
  ultimately show ?thesis by auto
qed

lemma pending_at_point:
  assumes ch: "chain (la w0) ds" and "ready w0" and i: "inv_upto ds w0 pre k pend w"
  shows "gm_get pend (la w) = (if k < length ds \<and> ds ! k \<in> pre then Some (ds ! k) else None)"
proof -
  have law: "la w = pt (la w0) ds k"
    using i la_run_take [OF assms(2)] by (auto simp: inv_upto_def)
  have only: "d = ds ! k" if d: "d \<in> set (drop k ds)" "ed_BaseGeneration d = la w" for d
  proof -
    from d(1) obtain j where j: "k \<le> j" "j < length ds" "d = ds ! j"
      by (rule in_set_dropE)
    have "ed_BaseGeneration (ds ! k) = ed_BaseGeneration (ds ! j)"
      using chain_nth [OF ch] j d(2) law by (metis le_less_trans)
    then show ?thesis
      using base_nth_inject [OF ch _ j(2)] j by (metis le_less_trans)
  qed
  have mem: "ds ! k \<in> set (drop k ds)" "ed_BaseGeneration (ds ! k) = la w" if "k < length ds"
    using that chain_nth [OF ch that] law by (auto simp: in_set_conv_nth intro!: exI [of _ 0])
  show ?thesis
  proof (cases "gm_get pend (la w)")
    case None
    then show ?thesis using i mem by (auto simp: inv_upto_def map_of_eq_Some_iff)
  next
    case (Some d)
    then have "d \<in> pre" "d \<in> set (drop k ds)" "ed_BaseGeneration d = la w"
      using i by (auto simp: inv_upto_def)
    moreover have "k < length ds"
      using \<open>d \<in> set (drop k ds)\<close> by (metis drop_all empty_iff linorder_not_less list.set(1))
    ultimately show ?thesis using Some only by auto
  qed
qed

lemma inv_advance:
  assumes ch: "chain (la w0) ds" and r: "ready w0" and i: "inv_upto ds w0 pre k pend w"
    and k: "k < length ds"
  shows "inv_upto ds w0 (insert (ds ! k) pre) (Suc k) (gm_del (ed_BaseGeneration (ds ! k)) pend)
           (snd (ap (ds ! k) w))"
proof -
  have d: "distinct ds" using ch by (rule chain_distinct)
  have w: "snd (ap (ds ! k) w) = run (take (Suc k) ds) w0"
    using i k by (simp add: inv_upto_def run_def take_Suc_conv_app_nth)
  have keep: "ed_BaseGeneration e \<noteq> ed_BaseGeneration (ds ! k)" if "e \<in> set (drop (Suc k) ds)" for e
  proof -
    from that obtain j where "Suc k \<le> j" "j < length ds" "e = ds ! j"
      by (rule in_set_dropE)
    then show ?thesis using base_nth_inject [OF ch _ k, of j] by auto
  qed
  show ?thesis
    unfolding inv_upto_def
  proof (intro conjI allI)
    show "set (take (Suc k) ds) \<subseteq> insert (ds ! k) pre"
      using i k by (auto simp: inv_upto_def take_Suc_conv_app_nth)
    show "gm_get (gm_del (ed_BaseGeneration (ds ! k)) pend) g = Some e \<longleftrightarrow>
        e \<in> insert (ds ! k) pre \<and> e \<in> set (drop (Suc k) ds) \<and> ed_BaseGeneration e = g" for g e
      using i keep drop_Suc_mem [OF d k] by (auto simp: inv_upto_def gm_simps)
  qed (use i k w in \<open>auto simp: inv_upto_def\<close>)
qed

lemma drain_inv:
  assumes ch: "chain (la w0) ds" and r: "ready w0" and "inv_upto ds w0 pre k pend w"
  shows "\<exists>k' pend' w'. drain la ap pend w = Some (pend', w') \<and> inv_upto ds w0 pre k' pend' w'
           \<and> gap_at ds pre k'"
  using assms(3)
proof (induction "length ds - k" arbitrary: k pend w rule: less_induct)
  case less
  show ?case
  proof (cases "k < length ds \<and> ds ! k \<in> pre")
    case False
    then have "gm_get pend (la w) = None"
      using pending_at_point [OF ch r less.prems] by auto
    then show ?thesis
      using less.prems False by (auto simp: drain.simps gap_at_def)
  next
    case True
    let ?p = "gm_del (ed_BaseGeneration (ds ! k)) pend"
    have look: "gm_get pend (la w) = Some (ds ! k)"
      using pending_at_point [OF ch r less.prems] True by simp
    have ok: "fst (ap (ds ! k) w)"
      using ap_ready run_ready [OF r] less.prems by (auto simp: inv_upto_def)
    have "inv_upto ds w0 pre (Suc k) ?p (snd (ap (ds ! k) w))"
      using inv_advance [OF ch r less.prems] True by (simp add: insert_absorb)
    from less.hyps [OF _ this] True have
      "\<exists>k' pend' w'. drain la ap ?p (snd (ap (ds ! k) w)) = Some (pend', w')
         \<and> inv_upto ds w0 pre k' pend' w' \<and> gap_at ds pre k'" by auto
    then show ?thesis
      by (subst drain.simps) (simp add: look ok Let_def)
  qed
qed

lemma evict_id:
  assumes ch: "chain (la w0) ds" and r: "ready w0" and i: "inv_upto ds w0 pre k pend w"
  shows "evict (la w) pend = pend"
proof -
  have law: "la w = pt (la w0) ds k"
    using i la_run_take [OF r] by (auto simp: inv_upto_def)
  have "\<not> g < la w" if "(g, d) \<in> set pend" for g d
  proof -
    have "gm_get pend g = Some d" using that i by (auto simp: inv_upto_def)
    then have "d \<in> set (drop k ds)" "ed_BaseGeneration d = g" using i by (auto simp: inv_upto_def)
    then obtain j where j: "k \<le> j" "j < length ds" "d = ds ! j" and g: "ed_BaseGeneration d = g"
      by (auto elim: in_set_dropE)
    then have "g = pt (la w0) ds j" using chain_nth [OF ch j(2)] by simp
    then show ?thesis using pt_mono [OF ch, of k j] j law by (cases "k = j") auto
  qed
  then show ?thesis by (auto simp: evict_def filter_id_conv)
qed

lemma pending_room:
  assumes i: "inv_upto ds w0 pre k pend w" and d: "d \<in> set ds" "d \<notin> pre" and "length ds \<le> mx"
  shows "length pend < mx"
proof -
  have sub: "set (gm_keys pend) \<subseteq> ed_BaseGeneration ` (set ds - {d})"
  proof
    fix g assume "g \<in> set (gm_keys pend)"
    then obtain e where "gm_get pend g = Some e" by (auto simp: gm_keys_dom simp del: set_map)
    then have "e \<in> pre" "e \<in> set (drop k ds)" "ed_BaseGeneration e = g" using i by (auto simp: inv_upto_def)
    then show "g \<in> ed_BaseGeneration ` (set ds - {d})" using d(2) by (auto dest: in_set_dropD)
  qed
  have "length pend = card (set (gm_keys pend))"
    using i by (metis inv_upto_def distinct_card length_map)
  also have "\<dots> \<le> card (set ds - {d})"
    using sub by (meson card_image_le card_mono finite_Diff finite_imageI finite_set le_trans)
  also have "\<dots> < card (set ds)" using d(1) by (intro card_Diff1_less) auto
  also have "\<dots> \<le> length ds" by (rule card_length)
  finally show ?thesis using assms(4) by simp
qed

lemma Submit_inv:
  assumes ch: "chain (la w0) ds" and r: "ready w0"
    and i: "inv_upto ds w0 pre k pend w" and gap: "gap_at ds pre k"
    and d: "d \<in> set ds" "d \<notin> pre" and mx: "length ds \<le> mx"
  shows "\<exists>k' pend' w'. Submit la ap mx d pend w = Some (pend', w')
           \<and> inv_upto ds w0 (insert d pre) k' pend' w' \<and> gap_at ds (insert d pre) k'"
proof -
  have law: "la w = pt (la w0) ds k"
    using i la_run_take [OF r] by (auto simp: inv_upto_def)
  obtain j where j: "j < length ds" "d = ds ! j" using d(1) by (auto simp: in_set_conv_nth)
  have "k \<le> j"
  proof (rule ccontr)
    assume "\<not> k \<le> j"
    then have "d \<in> set (take k ds)" using j by (auto simp: in_set_conv_nth intro!: exI [of _ j])
    then show False using i d(2) by (auto simp: inv_upto_def)
  qed
  have based: "ed_BaseGeneration d = pt (la w0) ds j" using chain_nth [OF ch] j by simp
  have ev: "evict (la w) pend = pend" by (rule evict_id [OF ch r i])
  show ?thesis
  proof (cases "j = k")
    case True
    have "gm_get pend (la w) = None"
      using pending_at_point [OF ch r i] d(2) j True by simp
    then have del: "gm_del (ed_BaseGeneration (ds ! k)) pend = pend"
      using based j True law by (simp add: gm_del_absent)
    have "inv_upto ds w0 (insert d pre) (Suc k) pend (snd (ap d w))"
      using inv_advance [OF ch r i] del j True by simp
    then have "\<exists>k' pend' w'. drain la ap pend (snd (ap d w)) = Some (pend', w')
        \<and> inv_upto ds w0 (insert d pre) k' pend' w' \<and> gap_at ds (insert d pre) k'"
      by (rule drain_inv [OF ch r])
    moreover have "ready w" using run_ready [OF r] i by (simp add: inv_upto_def)
    then have "fst (ap d w)" using ap_ready by blast
    moreover have "ed_BaseGeneration d = la w" using based law True by simp
    ultimately show ?thesis
      by (simp add: Submit_def ev)
  next
    case False
    with \<open>k \<le> j\<close> have kj: "k < j" by simp
    have "la w < ed_BaseGeneration d" using pt_mono [OF ch kj] j law based by simp
    moreover have "\<not> mx \<le> length pend" using pending_room [OF i d mx] by simp
    moreover have dk: "d \<in> set (drop k ds)"
      using j kj by (auto simp: in_set_conv_nth intro!: exI [of _ "j - k"])
    moreover have "inv_upto ds w0 (insert d pre) k (gm_put (ed_BaseGeneration d) d pend) w"
    proof -
      have uniq: "e = d" if "e \<in> set (drop k ds)" "ed_BaseGeneration e = ed_BaseGeneration d" for e
        using that j base_nth_inject [OF ch _ j(1)] by (metis in_set_conv_nth in_set_dropD)
      show ?thesis
        using i dk uniq by (auto simp: inv_upto_def gm_simps split: if_splits)
    qed
    moreover have "gap_at ds (insert d pre) k"
      using gap j kj chain_distinct [OF ch] by (auto simp: gap_at_def nth_eq_iff_index_eq)
    ultimately show ?thesis
      by (auto simp: Submit_def Let_def ev)
  qed
qed

lemma submit_all_inv:
  assumes ch: "chain (la w0) ds" and r: "ready w0" and mx: "length ds \<le> mx"
    and "inv_upto ds w0 pre k pend w" and "gap_at ds pre k"
    and "distinct es" and "set es \<subseteq> set ds - pre"
  shows "\<exists>k' pend' w'. submit_all la ap mx es pend w = Some (pend', w')
           \<and> inv_upto ds w0 (pre \<union> set es) k' pend' w' \<and> gap_at ds (pre \<union> set es) k'"
  using assms(4-)
proof (induction es arbitrary: pre k pend w)
  case (Cons d es)
  from Submit_inv [OF ch r Cons.prems(1,2) _ _ mx, of d] Cons.prems(4)
  obtain k1 p1 w1 where s: "Submit la ap mx d pend w = Some (p1, w1)"
    and i1: "inv_upto ds w0 (insert d pre) k1 p1 w1" and g1: "gap_at ds (insert d pre) k1"
    by auto
  from Cons.IH [OF i1 g1] Cons.prems s show ?case by auto
qed auto

text \<open>Deltas of one chain, in any order of arrival, take effect in chain order and leave nothing
  pending.\<close>

lemma submit_all_reordered:
  assumes ch: "chain (la w) ds" and r: "ready w" and perm: "mset es = mset ds"
    and mx: "length ds \<le> mx"
  shows "submit_all la ap mx es [] w = Some ([], run ds w)"
proof -
  have d: "distinct es" and s: "set es = set ds"
    using perm chain_distinct [OF ch] by (metis mset_eq_imp_distinct_iff, metis set_mset_mset)
  have "inv_upto ds w {} 0 [] w" by (simp add: inv_upto_def run_def)
  from submit_all_inv [OF ch r mx this _ d] s
  obtain k pend w' where sub: "submit_all la ap mx es [] w = Some (pend, w')"
    and i: "inv_upto ds w (set ds) k pend w'" and g: "gap_at ds (set ds) k"
    by (auto simp: gap_at_def)
  have k: "k = length ds" using g i by (auto simp: gap_at_def inv_upto_def)
  then have "gm_get pend g = None" for g
    using i by (cases "gm_get pend g") (auto simp: inv_upto_def)
  then have "pend = []"
    by (cases pend) (auto, metis option.distinct(1))
  then show ?thesis using sub i k by (simp add: inv_upto_def)
qed

text \<open>Without a base state nothing is ever applied.\<close>

lemma submit_all_not_ready:
  assumes "\<not> ready w" and "submit_all la ap mx es pend w = Some (pend', w')" and "pending_ok pend"
  shows "w' = w"
  using assms(2,3)
proof (induction es arbitrary: pend)
  case (Cons d es)
  have dr: "drain la ap p w = Some (p', v) \<Longrightarrow> v = w" for p p' v
    by (cases "gm_get p (la w)") (simp_all add: drain.simps [of la ap p w] ap_not_ready [OF assms(1)])
  obtain p1 w1 where s: "Submit la ap mx d pend w = Some (p1, w1)" and "pending_ok p1"
    using Submit_returns [OF Cons.prems(2), of la ap mx d w] by auto
  moreover have "w1 = w"
    using s dr by (auto simp: Submit_def Let_def ap_not_ready [OF assms(1)] split: if_splits)
  ultimately show ?case using Cons by auto
qed simp

end

end
