(* ===== verification/Agent_Loop.thy ===== *)
theory Agent_Loop
  imports Delta_Equiv Delta_Sequencer
begin

text \<open>
  The wiring of \<open>cmd/edge-agent/main.go\<close> and the loop of \<open>Reconciler.Run\<close>. The agent's state is the desired
  store, the reconciler, VPP, the sequencer's buffer and the pending wake of the BIRD materializer
  (\<open>None\<close> when none is configured). The reconcile goroutine's \<open>select\<close> and the calls of the transport
  goroutine are the events of a step relation; each step is one iteration of the \<open>select\<close> or one call
  under the store's lock. What a step reads from outside (the time, the result of \<open>conn.Channel()\<close>, the
  order of map iterations) is carried by its event.
\<close>

record 'v agent =
  ag_store :: DesiredStore
  ag_recon :: Reconciler
  ag_vpp :: 'v
  ag_pending :: pending
  ag_bird :: "bool option"

definition birdWake :: "'v agent \<Rightarrow> 'v agent" where
  "birdWake a = a\<lparr>ag_bird := map_option (\<lambda>_. True) (ag_bird a)\<rparr>"

text \<open>What the outside provides while one delta is applied: the clock, the channel and the map orders.\<close>

type_synonym 'v delta_env = "EdgeDesiredDelta \<Rightarrow> int \<times> range_orders \<times> (error + 'v channel)"

definition applyOneDelta :: "contract_fns \<Rightarrow> 'v delta_env \<Rightarrow> EdgeDesiredDelta \<Rightarrow> 'v agent \<Rightarrow> bool \<times> 'v agent" where
  "applyOneDelta c env delta a =
     (case env delta of (now, ro, chan) \<Rightarrow>
        (case Merge now delta (ag_store a) of
           (None, _) \<Rightarrow> (False, a)
         | (Some prev, store) \<Rightarrow>
             (case ApplyDelta c ro chan delta prev (ag_recon a, ag_vpp a) of
                ((_, Some e), (r, v)) \<Rightarrow>
                  (True, a\<lparr>ag_store := store, ag_recon := AdoptDeltaBaseline c (ro_hash ro) (ed_Generation delta) r, ag_vpp := v\<rparr>)
              | ((_, None), (r, v)) \<Rightarrow> (True, birdWake (a\<lparr>ag_store := store, ag_recon := r, ag_vpp := v\<rparr>)))))"

definition appliedGen :: "'v agent \<Rightarrow> u64" where
  "appliedGen a = LastAppliedGeneration (ag_recon a)"

definition onDelta :: "contract_fns \<Rightarrow> 'v delta_env \<Rightarrow> EdgeDesiredDelta \<Rightarrow> 'v agent \<Rightarrow> 'v agent" where
  "onDelta c env d a =
     (case Submit appliedGen (applyOneDelta c env) defaultMaxPendingDeltas d (ag_pending a) a of
        Some (pend, a') \<Rightarrow> a'\<lparr>ag_pending := pend\<rparr>
      | None \<Rightarrow> a)"

definition onDesired :: "int \<Rightarrow> EdgeDesiredState \<Rightarrow> 'v agent \<Rightarrow> 'v agent" where
  "onDesired now st a =
     (case Accept now st (ag_store a) of
        (True, store) \<Rightarrow> birdWake (a\<lparr>ag_store := store, ag_recon := Wake (ag_recon a)\<rparr>)
      | (False, store) \<Rightarrow> a\<lparr>ag_store := store\<rparr>)"

definition runPass :: "contract_fns \<Rightarrow> range_orders \<Rightarrow> error + 'v channel \<Rightarrow> 'v agent \<Rightarrow> 'v agent" where
  "runPass c ro chan a =
     (case runOnce c ro chan (Desired (ag_store a)) (ag_recon a, ag_vpp a) of
        (_, (r, v)) \<Rightarrow> a\<lparr>ag_recon := r, ag_vpp := v\<rparr>)"

subsection \<open>The applier's contract\<close>

lemma ApplyDelta_lastGen:
  "ApplyDelta c ro chan delta prev s = ((res, None), (r', v')) \<Longrightarrow> rc_lastGen r' = ed_Generation delta"
  by (auto simp: ApplyDelta_def AdoptDeltaBaseline_def recomputePoolHash_def split: sum.splits prod.splits option.splits)

lemma birdWake_simps [simp]:
  "ag_store (birdWake a) = ag_store a" "ag_recon (birdWake a) = ag_recon a" "ag_vpp (birdWake a) = ag_vpp a"
  "ag_pending (birdWake a) = ag_pending a"
  by (simp_all add: birdWake_def)

lemma applyOneDelta_cold: "\<not> dst_haveState (ag_store a) \<Longrightarrow> applyOneDelta c env d a = (False, a)"
  by (simp add: applyOneDelta_def Merge_def split: prod.splits)

lemma applyOneDelta_ready:
  assumes "dst_haveState (ag_store a)"
  shows "fst (applyOneDelta c env d a) \<and> appliedGen (snd (applyOneDelta c env d a)) = ed_Generation d \<and>
    ag_store (snd (applyOneDelta c env d a)) = snd (Merge (fst (env d)) d (ag_store a)) \<and>
    ag_pending (snd (applyOneDelta c env d a)) = ag_pending a"
proof -
  obtain now ro chan where e: "env d = (now, ro, chan)" by (cases "env d")
  obtain prev store where m: "Merge now d (ag_store a) = (Some prev, store)"
    using assms by (simp add: Merge_def)
  obtain out r v where "ApplyDelta c ro chan d prev (ag_recon a, ag_vpp a) = (out, r, v)" by (rule prod_cases3)
  then obtain res err where x: "ApplyDelta c ro chan d prev (ag_recon a, ag_vpp a) = ((res, err), (r, v))" by (cases out) simp
  show ?thesis
    using ApplyDelta_lastGen [of c ro chan d prev "(ag_recon a, ag_vpp a)" res r v] x
    by (cases err) (auto simp: applyOneDelta_def e m appliedGen_def LastAppliedGeneration_def AdoptDeltaBaseline_def recomputePoolHash_def)
qed

text \<open>The sequencer's contract holds for the agent's apply function.\<close>

interpretation apply_one: delta_applier appliedGen "applyOneDelta c env" "\<lambda>a. dst_haveState (ag_store a)"
proof
  fix a :: "'a agent" and d
  assume r: "dst_haveState (ag_store a)"
  have "dst_haveState (snd (Merge (fst (env d)) d (ag_store a)))" using r by (simp add: Merge_def)
  with applyOneDelta_ready [OF r, of c env d] show "fst (applyOneDelta c env d a) \<and>
      dst_haveState (ag_store (snd (applyOneDelta c env d a))) \<and> appliedGen (snd (applyOneDelta c env d a)) = ed_Generation d"
    by simp
qed (rule applyOneDelta_cold)

lemma run_store:
  assumes "dst_haveState (ag_store a)"
  shows "dst_haveState (ag_store (apply_one.run c env ds a)) \<and>
    dst_state (ag_store (apply_one.run c env ds a)) = fold merge_state ds (dst_state (ag_store a))"
  using assms
proof (induction ds arbitrary: a)
  case (Cons d ds)
  have "dst_haveState (ag_store (snd (applyOneDelta c env d a)))"
    "dst_state (ag_store (snd (applyOneDelta c env d a))) = merge_state d (dst_state (ag_store a))"
    using applyOneDelta_ready [OF Cons.prems, of c env d] Cons.prems by (simp_all add: Merge_def)
  with Cons.IH [of "snd (applyOneDelta c env d a)"] show ?case by (simp add: apply_one.run_def)
qed (simp add: apply_one.run_def)

text \<open>C13: deltas take effect in chain order whatever the order of their arrival. If the deltas of a chain that
  starts at the applied generation are handed to the sequencer in any order (at most as many as its
  buffer holds), the agent ends, with an empty buffer, in the state it would have reached by applying
  them one after the other: the store serves the state with all of them merged in chain order, and
  the applied generation is that of the last one. This holds whether or not VPP accepts the deltas.\<close>

theorem agent_deltas_reordered:
  assumes "dst_haveState (ag_store a)" and "chain (appliedGen a) ds" and "mset es = mset ds"
    and "length ds \<le> defaultMaxPendingDeltas"
  shows "\<exists>a'. submit_all appliedGen (applyOneDelta c env) defaultMaxPendingDeltas es [] a = Some ([], a') \<and>
    a' = fold (\<lambda>d a. snd (applyOneDelta c env d a)) ds a \<and>
    Desired (ag_store a') = Some (fold merge_state ds (dst_state (ag_store a))) \<and>
    appliedGen a' = last (appliedGen a # map ed_Generation ds)"
proof -
  let ?a = "apply_one.run c env ds a"
  have "appliedGen ?a = last (appliedGen a # map ed_Generation ds)"
    using apply_one.la_run_take [OF assms(1), of "length ds" ds c env]
    by (cases ds rule: rev_cases) (simp_all add: pt_def nth_append)
  moreover have "Desired (ag_store ?a) = Some (fold merge_state ds (dst_state (ag_store a)))"
    using run_store [OF assms(1), of c env ds] by (simp add: Desired_def)
  ultimately show ?thesis
    using apply_one.submit_all_reordered [OF assms(2,1,3,4), of c env] by (simp add: apply_one.run_def)
qed

text \<open>Two chained deltas on the VPP of \<open>sy_vpp\<close>.\<close>

definition sy_agent :: "ref_vpp agent" where
  "sy_agent = \<lparr>ag_store = snd (Accept 0 sy_state NewDesiredStore), ag_recon = sy_recon\<lparr>rc_lastGen := 1\<rparr>, ag_vpp = sy_vpp,
     ag_pending = [], ag_bird = Some False\<rparr>"

definition sy_env :: "ref_vpp delta_env" where
  "sy_env d = (7, ex_orders, Inr ref_channel)"

definition ex_delta2 :: EdgeDesiredDelta where
  "ex_delta2 = ex_delta\<lparr>ed_Generation := 3, ed_BaseGeneration := 2, ed_Removed := []\<rparr>"

lemma sy_store: "dst_haveState (ag_store sy_agent)" "dst_state (ag_store sy_agent) = sy_state"
  by (simp_all add: sy_agent_def Accept_def NewDesiredStore_def)

lemma sy_chain: "chain (appliedGen sy_agent) [ex_delta, ex_delta2]"
  by (simp add: appliedGen_def LastAppliedGeneration_def sy_agent_def ex_delta_def ex_delta2_def)

theorem agent_deltas_reordered_witness:
  "\<exists>a'. submit_all appliedGen (applyOneDelta ex_contract sy_env) defaultMaxPendingDeltas [ex_delta2, ex_delta] [] sy_agent = Some ([], a') \<and>
    Desired (ag_store a') = Some (merge_state ex_delta2 (merge_state ex_delta sy_state)) \<and> appliedGen a' = 3"
  using agent_deltas_reordered [OF sy_store(1) sy_chain, of "[ex_delta2, ex_delta]" ex_contract sy_env]
  by (simp add: sy_store add_mset_commute defaultMaxPendingDeltas_def) (auto simp: ex_delta2_def)

subsection \<open>A stream of deltas keeps VPP in sync with the store\<close>

text \<open>Every delta of the list fits the state it meets and is applied without error.\<close>

fun stream_fits :: "contract_fns \<Rightarrow> EdgeDesiredState \<Rightarrow> EdgeDesiredDelta list \<Rightarrow> bool" where
  "stream_fits c st [] = True"
| "stream_fits c st (d # ds) = (delta_fits c st d \<and> stream_fits c (merge_state d st) ds)"

fun stream_applies :: "contract_fns \<Rightarrow> 'v delta_env \<Rightarrow> 'v channel \<Rightarrow> EdgeDesiredDelta list \<Rightarrow> 'v agent \<Rightarrow> bool" where
  "stream_applies c env ch [] a = True"
| "stream_applies c env ch (d # ds) a =
     (snd (snd (env d)) = Inr ch \<and>
      snd (fst (ApplyDelta c (fst (snd (env d))) (Inr ch) d (es_ClassifySessions (dst_state (ag_store a))) (ag_recon a, ag_vpp a))) = None \<and>
      stream_applies c env ch ds (snd (applyOneDelta c env d a)))"

lemma applyOneDelta_in_sync:
  assumes ch: "vpp_channel ch vw" and mn: "mask_names_ok c" and ro: "orders_ok (fst (snd (env d)))"
    and held: "dst_haveState (ag_store a)" and sync: "in_sync c (dst_state (ag_store a)) (vw (ag_vpp a)) (ag_recon a)"
    and fits: "delta_fits c (dst_state (ag_store a)) d" and applies: "stream_applies c env ch [d] a"
  shows "in_sync c (merge_state d (dst_state (ag_store a))) (vw (ag_vpp (snd (applyOneDelta c env d a)))) (ag_recon (snd (applyOneDelta c env d a)))"
proof -
  obtain now o1 chan where e: "env d = (now, o1, chan)" by (cases "env d")
  from applies e have chan: "chan = Inr ch" by simp
  let ?st = "dst_state (ag_store a)"
  let ?x = "ApplyDelta c o1 (Inr ch) d (es_ClassifySessions ?st) (ag_recon a, ag_vpp a)"
  obtain out r v where "?x = (out, r, v)" by (rule prod_cases3)
  with applies e obtain res where x: "?x = ((res, None), (r, v))" by (cases out) auto
  then have "snd (applyOneDelta c env d a) = birdWake (a\<lparr>ag_store := snd (Merge now d (ag_store a)), ag_recon := r, ag_vpp := v\<rparr>)"
    using held by (simp add: applyOneDelta_def e chan Merge_def)
  with ApplyDelta_equals_sync [OF ch _ mn fits sync x] ro e show ?thesis by simp
qed

lemma stream_in_sync:
  assumes ch: "vpp_channel ch vw" and mn: "mask_names_ok c" and ro: "\<forall>d \<in> set ds. orders_ok (fst (snd (env d)))"
    and "dst_haveState (ag_store a)" and "in_sync c (dst_state (ag_store a)) (vw (ag_vpp a)) (ag_recon a)"
    and "stream_fits c (dst_state (ag_store a)) ds" and "stream_applies c env ch ds a"
  shows "in_sync c (fold merge_state ds (dst_state (ag_store a))) (vw (ag_vpp (apply_one.run c env ds a))) (ag_recon (apply_one.run c env ds a))"
  using ro assms(4-)
proof (induction ds arbitrary: a)
  case (Cons d ds)
  let ?a = "snd (applyOneDelta c env d a)"
  have st: "dst_haveState (ag_store ?a)" "dst_state (ag_store ?a) = merge_state d (dst_state (ag_store a))"
    using run_store [OF Cons.prems(2), of c env "[d]"] by (simp_all add: apply_one.run_def)
  have "in_sync c (merge_state d (dst_state (ag_store a))) (vw (ag_vpp ?a)) (ag_recon ?a)"
    by (rule applyOneDelta_in_sync [OF ch mn]) (use Cons.prems in simp_all)
  with Cons.IH [of ?a] Cons.prems st show ?case by (simp add: apply_one.run_def)
qed (simp add: apply_one.run_def)

text \<open>C3: the composition of store, sequencer and delta path. Start from an agent whose VPP is in sync with
  the state its store serves, and take deltas that form a chain from the applied generation and fit
  (\<open>stream_fits\<close>): each is rendered per pool, with policer names that carry their pool, moves no member
  between pools, and keeps the policers of the pools it upserts. When they arrive in any order, at
  most as many as the reorder buffer holds, and VPP accepts each of them (\<open>stream_applies\<close>), VPP ends in
  sync with the state the store serves, which is the initial one with the deltas merged in chain
  order. A delta that moves a member is not covered, and can break the sync: see
  \<open>moved_member_loses_session\<close>.\<close>

theorem agent_stream_in_sync:
  assumes "vpp_channel ch vw" and "mask_names_ok c" and "\<forall>d \<in> set ds. orders_ok (fst (snd (env d)))"
    and "Desired (ag_store a) = Some st" and "in_sync c st (vw (ag_vpp a)) (ag_recon a)"
    and "chain (appliedGen a) ds" and "mset es = mset ds" and "length ds \<le> defaultMaxPendingDeltas"
    and "stream_fits c st ds" and "stream_applies c env ch ds a"
  shows "\<exists>a' st'. submit_all appliedGen (applyOneDelta c env) defaultMaxPendingDeltas es [] a = Some ([], a') \<and>
    Desired (ag_store a') = Some st' \<and> st' = fold merge_state ds st \<and> in_sync c st' (vw (ag_vpp a')) (ag_recon a')"
proof -
  from assms(4) have st: "dst_haveState (ag_store a)" "dst_state (ag_store a) = st"
    by (auto simp: Desired_def split: if_splits)
  let ?a = "apply_one.run c env ds a"
  have "submit_all appliedGen (applyOneDelta c env) defaultMaxPendingDeltas es [] a = Some ([], ?a)"
    by (rule apply_one.submit_all_reordered [OF assms(6) st(1) assms(7,8)])
  moreover have "Desired (ag_store ?a) = Some (fold merge_state ds st)"
    using run_store [OF st(1), of c env ds] by (simp add: Desired_def st)
  moreover have "in_sync c (fold merge_state ds st) (vw (ag_vpp ?a)) (ag_recon ?a)"
    using stream_in_sync [OF assms(1-3) st(1), unfolded st(2), OF assms(5,9,10)] .
  ultimately show ?thesis by blast
qed

lemma sy_delta2_fits: "delta_fits ex_contract (merge_state ex_delta sy_state) ex_delta2"
proof -
  have "desired_ok ex_contract (merge_state ex_delta2 (merge_state ex_delta sy_state))"
    using key_stored by (auto simp: desired_ok_def sessions_ok_def managed_def merge_state_fields sy_defs ex_delta_def ex_delta2_def
        touched_pools_def key_Dst32 ex_contract_def)
  moreover have "keys_clean (es_ClassifySessions (merge_state ex_delta sy_state))"
    using key_stored by (auto simp: keys_clean_def merge_state_fields sy_defs ex_delta_def touched_pools_def key_Dst32)
  ultimately show ?thesis
    by (auto simp: delta_fits_def wf_delta_def one_pool_def names_ok_def pool_of_def ex_contract_def merge_state_fields touched_pools_def
        sy_defs ex_delta_def ex_delta2_def)
qed

lemma sy_in_sync1: "in_sync ex_contract sy_state (ref_view (ag_vpp sy_agent)) (ag_recon sy_agent)"
  using sy_in_sync by (simp add: in_sync_def both_sync_def pol_sync_def pol_in_place_def sy_agent_def)

theorem agent_stream_in_sync_witness:
  "\<exists>a' st'. submit_all appliedGen (applyOneDelta ex_contract sy_env) defaultMaxPendingDeltas [ex_delta2, ex_delta] [] sy_agent = Some ([], a') \<and>
    Desired (ag_store a') = Some st' \<and> st' = merge_state ex_delta2 (merge_state ex_delta sy_state) \<and>
    in_sync ex_contract st' (ref_view (ag_vpp a')) (ag_recon a')"
proof -
  have "stream_applies ex_contract sy_env ref_channel [ex_delta, ex_delta2] sy_agent"
    by (simp add: sy_env_def) code_simp
  then show ?thesis
    using agent_stream_in_sync [OF ref.vpp_channel_axioms ex_mask_names _ _ sy_in_sync1 sy_chain, of sy_env "[ex_delta2, ex_delta]"]
    by (simp add: sy_store Desired_def sy_delta_fits sy_delta2_fits add_mset_commute defaultMaxPendingDeltas_def sy_env_def ex_orders_ok)
qed

text \<open>C14: a delta VPP rejects. When the apply fails after the merge, the agent still reports the chain as
  advanced and adopts the delta's generation, so that later deltas are not stranded; the store serves
  the merged state, which the next full pass retries; and BIRD is not woken.\<close>

theorem failed_delta_advances_chain:
  assumes "dst_haveState (ag_store a)" and "env d = (now, ro, chan)"
    and "ApplyDelta c ro chan d (es_ClassifySessions (dst_state (ag_store a))) (ag_recon a, ag_vpp a) = ((res, Some e), (r, v))"
  shows "\<exists>a'. applyOneDelta c env d a = (True, a') \<and> appliedGen a' = ed_Generation d \<and> ag_bird a' = ag_bird a \<and>
    Desired (ag_store a') = Some (merge_state d (dst_state (ag_store a))) \<and>
    rc_polSnap (ag_recon a') = Some (rc_polIdx r) \<and> ag_vpp a' = v"
  using assms by (simp add: applyOneDelta_def Merge_def Desired_def appliedGen_def LastAppliedGeneration_def
      AdoptDeltaBaseline_def recomputePoolHash_def)

theorem failed_delta_advances_chain_witness:
  "\<exists>a'. applyOneDelta ex_contract (\<lambda>_. (7, ex_orders, Inl ErrNotHealthy)) ex_delta sy_agent = (True, a') \<and>
    appliedGen a' = 2 \<and> ag_bird a' = Some False \<and> Desired (ag_store a') = Some (merge_state ex_delta sy_state)"
  using failed_delta_advances_chain [of sy_agent "\<lambda>_. (7, ex_orders, Inl ErrNotHealthy)" ex_delta 7 ex_orders "Inl ErrNotHealthy"
      ex_contract Result_zero ErrNotHealthy "ag_recon sy_agent" "ag_vpp sy_agent"]
  by (simp add: sy_store ApplyDelta_def) (auto simp: sy_agent_def ex_delta_def)

subsection \<open>The loop\<close>

text \<open>The cases of the \<open>select\<close> in \<open>Reconciler.Run\<close> (timer, wake, queued delta, VPP reconnect), the calls of
  the transport goroutine (a pushed state, a queued delta, the connection callbacks), and VPP changing
  by itself.\<close>

datatype 'v agent_event =
    EvTick range_orders "error + 'v channel"
  | EvWake range_orders "error + 'v channel"
  | EvDelta "'v delta_env"
  | EvReconnect range_orders "error + 'v channel"
  | EvPush int EdgeDesiredState
  | EvQueue EdgeDesiredDelta
  | EvControllerUp
  | EvControllerDown
  | EvVpp 'v

definition onRecon :: "(Reconciler \<Rightarrow> Reconciler) \<Rightarrow> 'v agent \<Rightarrow> 'v agent" where
  "onRecon f a = a\<lparr>ag_recon := f (ag_recon a)\<rparr>"

definition popDelta :: "Reconciler \<Rightarrow> Reconciler" where
  "popDelta r = r\<lparr>rc_deltaQ := tl (rc_deltaQ r), rc_applying := True\<rparr>"

definition takeWake :: "Reconciler \<Rightarrow> Reconciler" where
  "takeWake r = r\<lparr>rc_wake := False\<rparr>"

definition setApplying :: "bool \<Rightarrow> Reconciler \<Rightarrow> Reconciler" where
  "setApplying b r = r\<lparr>rc_applying := b\<rparr>"

inductive agent_step :: "contract_fns \<Rightarrow> 'v agent \<Rightarrow> 'v agent_event \<Rightarrow> 'v agent \<Rightarrow> bool" for c where
  tick: "agent_step c a (EvTick ro chan) (runPass c ro chan a)"
| wake: "rc_wake (ag_recon a) \<Longrightarrow> agent_step c a (EvWake ro chan) (runPass c ro chan (onRecon takeWake a))"
| delta: "rc_deltaQ (ag_recon a) \<noteq> [] \<Longrightarrow>
    agent_step c a (EvDelta env) (onRecon (setApplying False) (onDelta c env (hd (rc_deltaQ (ag_recon a))) (onRecon popDelta a)))"
| reconnect: "agent_step c a (EvReconnect ro chan) (runPass c ro chan (onRecon Reset a))"
| push: "agent_step c a (EvPush now st) (onDesired now st a)"
| queue: "agent_step c a (EvQueue d) (onRecon (SubmitDelta d) a)"
| up: "agent_step c a EvControllerUp (a\<lparr>ag_store := ControllerUp (ag_store a)\<rparr>)"
| down: "agent_step c a EvControllerDown (a\<lparr>ag_store := ControllerDown (ag_store a)\<rparr>)"
| vpp: "agent_step c a (EvVpp v) (a\<lparr>ag_vpp := v\<rparr>)"

inductive agent_run :: "contract_fns \<Rightarrow> 'v agent \<Rightarrow> 'v agent_event list \<Rightarrow> 'v agent \<Rightarrow> bool" for c a where
  refl: "agent_run c a [] a"
| step: "agent_run c a es b \<Longrightarrow> agent_step c b e b' \<Longrightarrow> agent_run c a (es @ [e]) b'"

inductive_cases agent_stepE: "agent_step c a e a'"

text \<open>The agent as \<open>main\<close> builds it.\<close>

definition agent_init :: "u32 \<Rightarrow> u32 \<Rightarrow> string list \<Rightarrow> 'v \<Rightarrow> bool \<Rightarrow> 'v agent" where
  "agent_init nb mem ifaces v bird =
     \<lparr>ag_store = NewDesiredStore, ag_recon = SetPolicerInterfaces ifaces (New nb mem), ag_vpp = v, ag_pending = [],
      ag_bird = (if bird then Some False else None)\<rparr>"

subsubsection \<open>What passes and deltas leave alone\<close>

text \<open>The fields of the reconciler that other goroutines write: the queue, the wake and the drop counter.\<close>

definition inbox :: "Reconciler \<Rightarrow> EdgeDesiredDelta list \<times> bool \<times> u64" where
  "inbox r = (rc_deltaQ r, rc_wake r, rc_deltasDropped r)"

definition inboxOf :: "Reconciler \<times> 'v \<Rightarrow> EdgeDesiredDelta list \<times> bool \<times> u64" where
  "inboxOf s = inbox (fst s)"

lemma steady_inbox: "steady s' = steady s \<Longrightarrow> inboxOf s' = inboxOf s"
  by (cases "fst s"; cases "fst s'") (simp add: steady_def inboxOf_def inbox_def)

lemma keeps_inbox: "keeps steady m \<Longrightarrow> keeps inboxOf m"
  unfolding keeps_def using steady_inbox by blast

lemma inbox_modR [intro]: "(\<And>r. inbox (f r) = inbox r) \<Longrightarrow> keeps inboxOf (modR f)"
  by (auto simp: keeps_def inboxOf_def modR_def)

lemma inbox_onV [simp, intro]: "keeps inboxOf (onV m)" and inbox_getR [simp, intro]: "keeps inboxOf (getR f)"
  by (auto intro: keeps_inbox)

lemma inbox_simps [simp]:
  "inbox (finishPass c ord d r) = inbox r" "inbox (anchorCounts cnt r) = inbox r" "inbox (AdoptDeltaBaseline c ord g r) = inbox r"
  "inbox (r\<lparr>rc_applying := b\<rparr>) = inbox r" "inbox (r\<lparr>rc_pendingEmpty := b\<rparr>) = inbox r" "inbox (putIdx n i r) = inbox r"
  "inbox (delIdx n r) = inbox r" "inbox (r\<lparr>rc_actPol := k\<rparr>) = inbox r" "inbox (r\<lparr>rc_actSess := k\<rparr>) = inbox r" "inbox (Reset r) = inbox r"
  by (simp_all add: inbox_def finishPass_def recomputePoolHash_def anchorCounts_def AdoptDeltaBaseline_def putIdx_def delIdx_def Reset_def)

text \<open>The same for the stages of a pass, which return a result next to an optional error.\<close>

definition keepsK :: "(Reconciler \<times> 'v \<Rightarrow> 'o \<times> (Reconciler \<times> 'v)) \<Rightarrow> bool" where
  "keepsK f \<longleftrightarrow> (\<forall>s. inboxOf (snd (f s)) = inboxOf s)"

lemma keepsKD: "keepsK f \<Longrightarrow> f s = (out, s') \<Longrightarrow> inboxOf s' = inboxOf s"
  unfolding keepsK_def by (metis snd_conv)

lemma stage_inbox:
  assumes "keeps inboxOf m" and "\<And>a. keepsK (k a)"
  shows "keepsK (stage m res k)"
  unfolding keepsK_def
proof
  fix s
  obtain x s1 where m: "m s = (x, s1)" by (cases "m s")
  with assms(1) have "inboxOf s1 = inboxOf s" by (rule keepsD)
  with assms(2) show "inboxOf (snd (stage m res k s)) = inboxOf s"
    by (cases x) (simp_all add: stage_def m keepsK_def del: split_paired_All)
qed

lemma applyPass_inbox: "keepsK (applyPass c ro ch d)"
proof -
  have att: "keepsK (attestPass c ro ch d res0)" for res0
    by (auto simp: keepsK_def attestPass_def inboxOf_def split: prod.splits sum.splits)
  have b: "keeps inboxOf (andThen (getR rc_policerIfaces) (\<lambda>ifs. onV (reconcileBindings (ro_head4 ro) (ro_head6 ro) ch ifs)))"
    by auto
  show ?thesis
    unfolding applyPass_def Let_def
    by (intro stage_inbox att b keeps_inbox [OF steady_relearn] keeps_inbox [OF steady_policers] keeps_inbox [OF steady_classify])
qed

lemma runOnce_inbox:
  assumes "runOnce c ro chan p (r, v) = (n, (r', v'))"
  shows "inbox r' = inbox r"
proof (cases p)
  case (Some d)
  from assms Some obtain out r1 where R: "Reconcile c ro chan d (r\<lparr>rc_applying := True\<rparr>, v) = (out, (r1, v'))" "inbox r' = inbox r1"
    by (auto simp: runOnce_def split: prod.splits)
  then have "inbox r1 = inbox r"
    by (auto simp: Reconcile_def Let_def inboxOf_def split: if_splits sum.splits dest!: keepsKD [OF applyPass_inbox])
  with R show ?thesis by simp
qed (use assms in \<open>auto simp: runOnce_def\<close>)

lemmas inbox_intros = keeps_intros inbox_onV inbox_getR inbox_modR

lemma inbox_wants: "keeps inboxOf (buildSessionWants c ss)"
  unfolding buildSessionWants_def by (intro inbox_intros)

lemma inbox_applyUpserts: "keeps inboxOf (applyUpserts cl t ws hits)"
  by (auto simp: keeps_def inboxOf_def applyUpserts_def Let_def split: prod.splits option.splits)

lemma inbox_poolPolicers: "keeps inboxOf (upsertPoolPolicers p specs)"
  unfolding upsertPoolPolicers_def upsertPoolPolicer_def by (intro inbox_intros) simp_all

lemma inbox_delPolicers: "keeps inboxOf (deletePoolPolicers c ord p pool)"
  unfolding deletePoolPolicers_def by (intro inbox_intros) simp_all

lemma inbox_delSessions: "keeps inboxOf (deletePoolSessions cl ss)"
  unfolding deletePoolSessions_def addSess_def by (intro inbox_intros) simp_all

lemma inbox_poolSessions: "keeps inboxOf (upsertPoolSessions c ord cl prev nxt)"
  unfolding upsertPoolSessions_def deletePrev_def upsertMask_def ensureTable_def addSess_def Let_def
  by (intro inbox_intros inbox_wants inbox_applyUpserts) simp_all

lemma applyRemoved_inbox: "keepsK (applyRemoved c ord p cl prev pools res)"
proof (induction pools arbitrary: res)
  case (Cons pool pools)
  have "applyRemoved c ord p cl prev (pool # pools) res = stage (deletePoolSessions cl (prevByPool prev pool)) res (\<lambda>d.
       let res1 = res\<lparr>res_SessionsDeleted := res_SessionsDeleted res + d\<rparr> in
       stage (deletePoolPolicers c ord p pool) res1 (\<lambda>pd.
         applyRemoved c ord p cl prev pools (res1\<lparr>res_PolicersDeleted := res_PolicersDeleted res1 + pd\<rparr>)))"
    by (rule ext) simp
  then show ?case
    by (simp only: Let_def) (intro stage_inbox inbox_delSessions inbox_delPolicers Cons.IH)
qed (simp add: keepsK_def)

lemma applyUpserted_inbox: "keepsK (applyUpserted c ord p cl prev ups res)"
proof (induction ups arbitrary: res)
  case (Cons up ups)
  have sp: "(\<And>a b. keepsK (f a b)) \<Longrightarrow> keepsK (case z of (a, b) \<Rightarrow> f a b)" for f :: "'x \<Rightarrow> 'y \<Rightarrow> Reconciler \<times> 'a \<Rightarrow> 'o \<times> (Reconciler \<times> 'a)" and z
    by (cases z) simp
  show ?case
    unfolding keepsK_def applyUpserted.simps Let_def
    by (rule allI, rule keepsK_def [THEN iffD1, rule_format]) (intro stage_inbox inbox_poolPolicers inbox_poolSessions sp Cons.IH)
qed (simp add: keepsK_def)

lemma ApplyDelta_inbox:
  assumes "ApplyDelta c ro chan delta prev (r, v) = (out, (r', v'))"
  shows "inbox r' = inbox r"
proof (cases chan)
  case (Inr ch)
  note R = keepsKD [OF applyRemoved_inbox [of c "ro_polDel ro" "NewPolicers c ch" "NewClassify ch" prev "ed_Removed delta" Result_zero], of "(r, v)"]
    and U = keepsKD [OF applyUpserted_inbox [of c "ro_wants ro" "NewPolicers c ch" "NewClassify ch" prev "ed_Upserts delta"]]
  show ?thesis
    using assms Inr
    by (auto simp: ApplyDelta_def inboxOf_def split: prod.splits option.splits dest!: R U)
qed (use assms in \<open>simp add: ApplyDelta_def\<close>)

lemma applyOneDelta_inbox: "inbox (ag_recon (snd (applyOneDelta c env d a))) = inbox (ag_recon a)"
  by (auto simp: applyOneDelta_def split: prod.splits option.splits dest: ApplyDelta_inbox)

lemma onDelta_inbox: "inbox (ag_recon (onDelta c env d a)) = inbox (ag_recon a)"
proof -
  have "inbox (ag_recon a') = inbox (ag_recon a)"
    if "Submit appliedGen (applyOneDelta c env) defaultMaxPendingDeltas d (ag_pending a) a = Some (p, a')" for p a'
    by (rule Submit_keeps [where P = "\<lambda>x. inbox (ag_recon x) = inbox (ag_recon a)", OF _ that]) (simp_all add: applyOneDelta_inbox)
  then show ?thesis by (simp add: onDelta_def split: option.splits)
qed

lemma runPass_simps [simp]:
  "inbox (ag_recon (runPass c ro chan a)) = inbox (ag_recon a)" "ag_store (runPass c ro chan a) = ag_store a"
  "ag_pending (runPass c ro chan a) = ag_pending a"
  by (auto simp: runPass_def split: prod.splits dest: runOnce_inbox)

lemma onRecon_simps [simp]:
  "ag_store (onRecon f a) = ag_store a" "ag_recon (onRecon f a) = f (ag_recon a)" "ag_pending (onRecon f a) = ag_pending a"
  "ag_vpp (onRecon f a) = ag_vpp a"
  by (simp_all add: onRecon_def)

lemma onDelta_pending:
  assumes "pending_ok (ag_pending a)" and "length (ag_pending a) \<le> defaultMaxPendingDeltas"
  shows "pending_ok (ag_pending (onDelta c env d a)) \<and> length (ag_pending (onDelta c env d a)) \<le> defaultMaxPendingDeltas"
  using Submit_returns [OF assms(1), of appliedGen "applyOneDelta c env" defaultMaxPendingDeltas d a] assms(2)
  by (auto simp: onDelta_def)

lemma onDesired_simps:
  "rc_deltaQ (ag_recon (onDesired now st a)) = rc_deltaQ (ag_recon a)" "ag_pending (onDesired now st a) = ag_pending a"
  "rc_applying (ag_recon (onDesired now st a)) = rc_applying (ag_recon a)"
  "rc_wake (ag_recon a) \<Longrightarrow> rc_wake (ag_recon (onDesired now st a))"
  by (auto simp: onDesired_def Wake_def split: prod.splits bool.splits)

lemma inboxD: "inbox r = inbox r' \<Longrightarrow> rc_deltaQ r = rc_deltaQ r' \<and> rc_wake r = rc_wake r'"
  by (simp add: inbox_def)

lemma runPass_inbox [simp]:
  "rc_deltaQ (ag_recon (runPass c ro chan a)) = rc_deltaQ (ag_recon a)" "rc_wake (ag_recon (runPass c ro chan a)) = rc_wake (ag_recon a)"
  using inboxD [OF runPass_simps(1) [of c ro chan a]] by blast+

lemma runPass_applying: "\<not> rc_applying (ag_recon (runPass c ro chan a))"
  by (auto simp: runPass_def runOnce_def split: prod.splits option.splits)

subsubsection \<open>Invariants\<close>

definition agent_inv :: "'v agent \<Rightarrow> bool" where
  "agent_inv a \<longleftrightarrow> length (rc_deltaQ (ag_recon a)) \<le> deltaQ_cap \<and> pending_ok (ag_pending a) \<and>
     length (ag_pending a) \<le> defaultMaxPendingDeltas \<and> \<not> rc_applying (ag_recon a)"

lemma agent_step_inv: "agent_step c a e a' \<Longrightarrow> agent_inv a \<Longrightarrow> agent_inv a'"
proof (induction rule: agent_step.induct)
  case (delta a env)
  let ?a = "onRecon popDelta a"
  have "rc_deltaQ (ag_recon (onDelta c env (hd (rc_deltaQ (ag_recon a))) ?a)) = tl (rc_deltaQ (ag_recon a))"
    using inboxD [OF onDelta_inbox, of c env "hd (rc_deltaQ (ag_recon a))" ?a] by (simp add: popDelta_def)
  with delta onDelta_pending [of ?a c env "hd (rc_deltaQ (ag_recon a))"] show ?case
    by (auto simp: agent_inv_def setApplying_def)
next
  case (push a now st)
  then show ?case by (simp add: agent_inv_def onDesired_simps)
qed (auto simp: agent_inv_def runPass_applying takeWake_def Reset_def SubmitDelta_def split: if_splits)

text \<open>C15: the loop's buffers. Whatever pushes, deltas, reconnects, failures and VPP restarts an agent sees after
  its start, the queue of deltas holds at most 64, the reorder buffer at most 512, each pending delta
  sits under its own base generation, and between two iterations the agent is not marked as applying.\<close>

theorem agent_buffers_bounded:
  assumes "agent_run c (agent_init nb mem ifs v bird) es a"
  shows "length (rc_deltaQ (ag_recon a)) \<le> 64 \<and> Buffered (ag_pending a) \<le> 512 \<and> pending_ok (ag_pending a) \<and>
    (Busy (ag_recon a) \<longleftrightarrow> rc_deltaQ (ag_recon a) \<noteq> [])"
proof -
  have "agent_inv a"
    using assms
  proof (induction rule: agent_run.induct)
    case refl
    show ?case by (simp add: agent_inv_def agent_init_def SetPolicerInterfaces_def New_def)
  qed (auto intro: agent_step_inv)
  then show ?thesis by (simp add: agent_inv_def deltaQ_cap_def defaultMaxPendingDeltas_def Buffered_def Busy_def)
qed

theorem agent_buffers_bounded_witness:
  "length (rc_deltaQ (ag_recon (onRecon (SubmitDelta ex_delta) (agent_init 0 0 [] sy_vpp True)))) \<le> 64 \<and>
   Busy (ag_recon (onRecon (SubmitDelta ex_delta) (agent_init 0 0 [] sy_vpp True)))"
proof -
  have "agent_run ex_contract (agent_init 0 0 [] sy_vpp True) ([] @ [EvQueue ex_delta]) (onRecon (SubmitDelta ex_delta) (agent_init 0 0 [] sy_vpp True))"
    by (rule agent_run.step [OF agent_run.refl agent_step.queue])
  from agent_buffers_bounded [OF this] show ?thesis
    by (simp add: SubmitDelta_def deltaQ_cap_def agent_init_def SetPolicerInterfaces_def New_def)
qed

text \<open>Before the first full state: nothing of the agent is programmed and VPP is as it was.\<close>

definition cold :: "'v \<Rightarrow> 'v agent \<Rightarrow> bool" where
  "cold v a \<longleftrightarrow> \<not> dst_haveState (ag_store a) \<and> ag_vpp a = v \<and> rc_polIdx (ag_recon a) = [] \<and> rc_lastGen (ag_recon a) = 0 \<and>
     rc_polSnap (ag_recon a) = None"

lemma onDelta_cold:
  assumes "cold v a"
  shows "cold v (onDelta c env d a)"
proof -
  have "a' = a" if "Submit appliedGen (applyOneDelta c env) defaultMaxPendingDeltas d (ag_pending a) a = Some (p, a')" for p a'
    using Submit_keeps [where P = "\<lambda>x. x = a", OF _ that] applyOneDelta_cold [of a c env] assms by (simp add: cold_def)
  with assms show ?thesis by (auto simp: onDelta_def cold_def split: option.splits)
qed

lemma agent_step_cold:
  assumes "agent_step c a e a'" and "cold v a" and "\<forall>t st. e \<noteq> EvPush t st" and "\<forall>v'. e \<noteq> EvVpp v'"
  shows "cold v a'"
  using assms
proof (induction rule: agent_step.induct)
  case (delta a env)
  have "cold v (onRecon popDelta a)" using delta by (simp add: cold_def popDelta_def)
  from onDelta_cold [OF this, of c env] show ?case by (simp add: cold_def setApplying_def)
qed (auto simp: cold_def runPass_def runOnce_def Desired_def takeWake_def Reset_def SubmitDelta_def ControllerUp_def ControllerDown_def)

text \<open>C16: cold start. Until the controller has pushed a full state, the agent does not touch VPP: whatever
  ticks, wakes, VPP reconnects, controller connects and deltas (in any number and order) it sees, VPP is
  exactly as the agent found it, no policer is tracked, no generation is applied, and \<open>Desired\<close> serves
  nothing.\<close>

theorem cold_start_leaves_vpp:
  assumes "agent_run c (agent_init nb mem ifs v bird) es a"
    and "\<forall>t st. EvPush t st \<notin> set es" and "\<forall>v'. EvVpp v' \<notin> set es"
  shows "ag_vpp a = v \<and> Desired (ag_store a) = None \<and> rc_polIdx (ag_recon a) = [] \<and> appliedGen a = 0"
proof -
  have "cold v a"
    using assms
  proof (induction rule: agent_run.induct)
    case refl
    show ?case by (simp add: cold_def agent_init_def SetPolicerInterfaces_def New_def NewDesiredStore_def)
  next
    case (step es b e b')
    from step.prems have "\<forall>t st. e \<noteq> EvPush t st" "\<forall>v'. e \<noteq> EvVpp v'" by auto
    moreover have "cold v b" using step by simp
    ultimately show ?case by (intro agent_step_cold [OF step.hyps(2)])
  qed
  then show ?thesis by (simp add: cold_def Desired_def appliedGen_def LastAppliedGeneration_def)
qed

theorem cold_start_leaves_vpp_witness:
  "\<exists>a. agent_run ex_contract (agent_init 0 0 [''eth0''] ex_vpp True)
       [EvQueue ex_delta, EvDelta sy_env, EvTick ex_orders (Inr ref_channel), EvReconnect ex_orders (Inr ref_channel)] a \<and>
     ag_vpp a = ex_vpp \<and> Desired (ag_store a) = None"
proof -
  let ?a0 = "agent_init 0 0 [''eth0''] ex_vpp True"
  let ?a1 = "onRecon (SubmitDelta ex_delta) ?a0"
  have q: "rc_deltaQ (ag_recon ?a1) \<noteq> []" by (simp add: SubmitDelta_def deltaQ_cap_def agent_init_def SetPolicerInterfaces_def New_def)
  let ?a2 = "onRecon (setApplying False) (onDelta ex_contract sy_env (hd (rc_deltaQ (ag_recon ?a1))) (onRecon popDelta ?a1))"
  let ?a3 = "runPass ex_contract ex_orders (Inr ref_channel) ?a2"
  let ?a4 = "runPass ex_contract ex_orders (Inr ref_channel) (onRecon Reset ?a3)"
  have "agent_run ex_contract ?a0 (((([] @ [EvQueue ex_delta]) @ [EvDelta sy_env]) @ [EvTick ex_orders (Inr ref_channel)]) @
      [EvReconnect ex_orders (Inr ref_channel)]) ?a4"
    by (rule agent_run.step [OF agent_run.step [OF agent_run.step [OF agent_run.step [OF agent_run.refl agent_step.queue]
      agent_step.delta [OF q]] agent_step.tick] agent_step.reconnect])
  then show ?thesis using cold_start_leaves_vpp [of ex_contract 0 0 "[''eth0'']" ex_vpp True] by fastforce
qed

lemma agent_step_wake:
  "agent_step c a e a' \<Longrightarrow> rc_wake (ag_recon a) \<Longrightarrow> \<forall>ro chan. e \<noteq> EvWake ro chan \<Longrightarrow> rc_wake (ag_recon a')"
proof (induction rule: agent_step.induct)
  case (delta a env)
  then show ?case
    using inboxD [OF onDelta_inbox, of c env "hd (rc_deltaQ (ag_recon a))" "onRecon popDelta a"] by (simp add: popDelta_def setApplying_def)
qed (auto simp: onDesired_simps Reset_def SubmitDelta_def)

subsubsection \<open>Where the served state comes from\<close>

text \<open>The deltas the agent holds, queued or in the reorder buffer; and that the store serves one of the
  states \<open>S\<close> with some of the deltas \<open>D\<close> merged in (with none when \<open>quiet\<close>).\<close>

definition deltas_held :: "'v agent \<Rightarrow> EdgeDesiredDelta set" where
  "deltas_held a = set (rc_deltaQ (ag_recon a)) \<union> snd ` set (ag_pending a)"

definition stored_from :: "EdgeDesiredState set \<Rightarrow> EdgeDesiredDelta set \<Rightarrow> bool \<Rightarrow> DesiredStore \<Rightarrow> bool" where
  "stored_from S D quiet store \<longleftrightarrow>
     (\<exists>st0 \<in> S. \<exists>ds. set ds \<subseteq> D \<and> (quiet \<longrightarrow> ds = []) \<and> Desired store = Some (fold merge_state ds st0))"

definition serves_from :: "EdgeDesiredState set \<Rightarrow> EdgeDesiredDelta set \<Rightarrow> bool \<Rightarrow> 'v agent \<Rightarrow> bool" where
  "serves_from S D quiet a \<longleftrightarrow> deltas_held a \<subseteq> D \<and> stored_from S D quiet (ag_store a)"

fun pushed :: "'v agent_event \<Rightarrow> EdgeDesiredState set" where
  "pushed (EvPush now st) = {st}"
| "pushed _ = {}"

fun queued :: "'v agent_event \<Rightarrow> EdgeDesiredDelta set" where
  "queued (EvQueue d) = {d}"
| "queued _ = {}"

fun takes_delta :: "'v agent_event \<Rightarrow> bool" where
  "takes_delta (EvDelta env) = True"
| "takes_delta _ = False"

lemma stored_from_mono: "stored_from S D q store \<Longrightarrow> S \<subseteq> S' \<Longrightarrow> D \<subseteq> D' \<Longrightarrow> (q' \<Longrightarrow> q) \<Longrightarrow> stored_from S' D' q' store"
  unfolding stored_from_def by (meson subset_iff)

lemma stored_from_controller:
  "stored_from S D q (ControllerUp store) = stored_from S D q store" "stored_from S D q (ControllerDown store) = stored_from S D q store"
  by (simp_all add: stored_from_def Desired_def ControllerUp_def ControllerDown_def)

lemma stored_from_applyOneDelta:
  assumes "d \<in> D" and st: "stored_from S D q (ag_store a)"
  shows "stored_from S D False (ag_store (snd (applyOneDelta c env d a)))"
proof -
  from st obtain st0 ds where s: "st0 \<in> S" "set ds \<subseteq> D" "Desired (ag_store a) = Some (fold merge_state ds st0)"
    unfolding stored_from_def by blast
  then have h: "dst_haveState (ag_store a)" "dst_state (ag_store a) = fold merge_state ds st0"
    by (auto simp: Desired_def split: if_splits)
  then have "Desired (ag_store (snd (applyOneDelta c env d a))) = Some (fold merge_state (ds @ [d]) st0)"
    using run_store [OF h(1), of c env "[d]"] by (simp add: apply_one.run_def Desired_def)
  with s assms(1) show ?thesis unfolding stored_from_def by (intro bexI [of _ st0] exI [of _ "ds @ [d]"]) auto
qed

lemma applyOneDelta_pending: "ag_pending (snd (applyOneDelta c env d a)) = ag_pending a"
  by (auto simp: applyOneDelta_def split: prod.splits option.splits)

lemma onDelta_from:
  assumes "d \<in> D" and "snd ` set (ag_pending a) \<subseteq> D" and "stored_from S D q (ag_store a)"
  shows "snd ` set (ag_pending (onDelta c env d a)) \<subseteq> D \<and> stored_from S D False (ag_store (onDelta c env d a))"
proof -
  have st: "stored_from S D False (ag_store a)" by (rule stored_from_mono [OF assms(3)]) simp_all
  have "stored_from S D False (ag_store a') \<and> snd ` set p \<subseteq> D"
    if "Submit appliedGen (applyOneDelta c env) defaultMaxPendingDeltas d (ag_pending a) a = Some (p, a')" for p a'
    by (rule Submit_keeps_from [where P = "\<lambda>x. stored_from S D False (ag_store x)", OF _ that st assms(1,2)])
      (rule stored_from_applyOneDelta)
  with st assms(2) show ?thesis by (auto simp: onDelta_def split: option.splits)
qed

lemma agent_step_serves:
  "agent_step c a e a' \<Longrightarrow> serves_from S D q a \<Longrightarrow>
     serves_from (S \<union> pushed e) (D \<union> queued e) (q \<and> \<not> takes_delta e) a'"
proof (induction rule: agent_step.induct)
  case (delta a env)
  let ?d = "hd (rc_deltaQ (ag_recon a))" and ?a = "onRecon popDelta a"
  have tl: "set (tl (rc_deltaQ (ag_recon a))) \<subseteq> D" and d: "?d \<in> D"
    using delta by (auto simp: serves_from_def deltas_held_def dest: list.set_sel)
  have "rc_deltaQ (ag_recon (onDelta c env ?d ?a)) = tl (rc_deltaQ (ag_recon a))"
    using inboxD [OF onDelta_inbox, of c env ?d ?a] by (simp add: popDelta_def)
  moreover have "snd ` set (ag_pending (onDelta c env ?d ?a)) \<subseteq> D \<and> stored_from S D False (ag_store (onDelta c env ?d ?a))"
    by (rule onDelta_from [OF d]) (use delta in \<open>auto simp: serves_from_def deltas_held_def\<close>)
  ultimately show ?case using tl by (simp add: serves_from_def deltas_held_def setApplying_def)
next
  case (push a now st)
  have "stored_from (insert st S) D q (snd (Accept now st (ag_store a)))"
  proof (cases "fst (Accept now st (ag_store a))")
    case True
    then have "Desired (snd (Accept now st (ag_store a))) = Some st" by (auto simp: Accept_def Desired_def split: if_splits)
    then show ?thesis unfolding stored_from_def by (intro bexI [of _ st] exI [of _ "[]"]) simp_all
  next
    case False
    then have "snd (Accept now st (ag_store a)) = ag_store a" by (auto simp: Accept_def split: if_splits)
    with push show ?thesis by (auto simp: serves_from_def intro: stored_from_mono)
  qed
  moreover have "ag_store (onDesired now st a) = snd (Accept now st (ag_store a))"
    by (auto simp: onDesired_def split: prod.splits bool.splits)
  ultimately show ?case using push by (simp add: serves_from_def deltas_held_def onDesired_simps)
next
  case (queue a d)
  have "stored_from S (insert d D) q (ag_store a)" using queue by (auto simp: serves_from_def intro: stored_from_mono)
  with queue show ?case by (auto simp: serves_from_def deltas_held_def SubmitDelta_def)
qed (auto simp: serves_from_def deltas_held_def takeWake_def Reset_def stored_from_controller)

lemma agent_run_serves:
  "agent_run c a es b \<Longrightarrow> serves_from S D True a \<Longrightarrow>
     serves_from (S \<union> (\<Union>e \<in> set es. pushed e)) (D \<union> (\<Union>e \<in> set es. queued e)) (\<not> (\<exists>e \<in> set es. takes_delta e)) b"
proof (induction rule: agent_run.induct)
  case (step es b e b')
  from agent_step_serves [OF step.hyps(2) step.IH [OF step.prems]] show ?case by (simp add: Un_ac conj_commute)
qed simp

lemma agent_run_wake:
  "agent_run c a es b \<Longrightarrow> rc_wake (ag_recon a) \<Longrightarrow> \<forall>ro chan. EvWake ro chan \<notin> set es \<Longrightarrow> rc_wake (ag_recon b)"
proof (induction rule: agent_run.induct)
  case (step es b e b')
  then have "\<forall>ro chan. e \<noteq> EvWake ro chan" by auto
  moreover have "rc_wake (ag_recon b)" using step by simp
  ultimately show ?case by (intro agent_step_wake [OF step.hyps(2)])
qed simp

lemma in_pushed [simp]: "x \<in> pushed e \<longleftrightarrow> (\<exists>now. e = EvPush now x)"
  by (cases e) auto

lemma in_queued [simp]: "x \<in> queued e \<longleftrightarrow> e = EvQueue x"
  by (cases e) auto

lemma takes_delta_iff: "takes_delta e \<longleftrightarrow> (\<exists>env. e = EvDelta env)"
  by (cases e) auto

text \<open>A pass that reports no error and is not deferred adopts the generation of the state it ran on.\<close>

lemma Reconcile_adopts:
  assumes "Reconcile c ro chan d (r, v) = ((res, None), (r', v'))" and "\<not> deferred d r"
  shows "rc_lastGen r' = es_Generation d"
proof -
  from assms obtain ch where "applyPass c ro ch d (r\<lparr>rc_pendingEmpty := False\<rparr>, v) = ((res, None), (r', v'))"
    by (auto simp: Reconcile_def deferred_def Let_def split: if_splits sum.splits)
  then obtain res0 s4 where "attestPass c ro ch d res0 s4 = ((res, None), (r', v'))"
    unfolding applyPass_def Let_def stage_None by blast
  then show ?thesis
    by (cases s4) (auto simp: attestPass_def finishPass_def anchorCounts_def recomputePoolHash_def split: prod.splits sum.splits)
qed

text \<open>What a pass of the loop is: one \<open>Reconcile\<close> of the state the store serves.\<close>

definition pass_on :: "contract_fns \<Rightarrow> range_orders \<Rightarrow> error + 'v channel \<Rightarrow> EdgeDesiredState \<Rightarrow> 'v agent \<Rightarrow> 'v agent \<Rightarrow> bool" where
  "pass_on c ro chan d b b' \<longleftrightarrow>
     (\<exists>res err r v. Reconcile c ro chan d ((ag_recon b)\<lparr>rc_wake := False, rc_applying := True\<rparr>, ag_vpp b) = ((res, err), (r, v)) \<and>
        b' = b\<lparr>ag_recon := r\<lparr>rc_applying := False\<rparr>, ag_vpp := v\<rparr> \<and>
        (err = None \<and> \<not> deferred d (ag_recon b) \<longrightarrow> appliedGen b' = es_Generation d))"

lemma wake_pass:
  assumes step: "agent_step c b (EvWake ro chan) b'" and d: "Desired (ag_store b) = Some d"
  shows "pass_on c ro chan d b b'"
proof -
  let ?r = "(ag_recon b)\<lparr>rc_wake := False, rc_applying := True\<rparr>"
  from step have b': "b' = runPass c ro chan (onRecon takeWake b)" by (auto elim: agent_stepE)
  obtain out r v where "Reconcile c ro chan d (?r, ag_vpp b) = (out, r, v)" by (rule prod_cases3)
  then obtain res err where R: "Reconcile c ro chan d (?r, ag_vpp b) = ((res, err), (r, v))" by (cases out) simp
  then have "b' = b\<lparr>ag_recon := r\<lparr>rc_applying := False\<rparr>, ag_vpp := v\<rparr>"
    by (simp add: b' runPass_def runOnce_def d onRecon_def takeWake_def)
  moreover have "\<not> deferred d (ag_recon b) \<Longrightarrow> \<not> deferred d ?r" by (simp add: deferred_def)
  ultimately show ?thesis
    using R Reconcile_adopts [of c ro chan d ?r "ag_vpp b" res r v] unfolding pass_on_def
    by (intro exI [of _ res] exI [of _ err] exI [of _ r] exI [of _ v]) (auto simp: appliedGen_def LastAppliedGeneration_def)
qed

text \<open>C17: no accepted push is lost. After the store accepts a pushed state, whatever ticks, deltas, VPP
  reconnects, pushes and controller changes happen in whatever order before the loop takes the
  wake-up: the wake-up is pending, so that the loop can take it, and the store serves the pushed state,
  or a state pushed since, with deltas merged in that the agent held or received since (with none
  merged when the loop has taken no delta: without a later push or delta it is exactly the pushed
  state). The iteration that takes the wake-up is a \<open>Reconcile\<close> of exactly that served state, and when
  it reports no error and is not deferred the applied generation is that state's.\<close>

theorem accepted_push_is_served:
  assumes "Accept now st (ag_store a) = (True, s)" and "agent_run c (onDesired now st a) es b"
    and "\<forall>ro chan. EvWake ro chan \<notin> set es"
  shows "\<exists>st0 ds served. served = fold merge_state ds st0 \<and> Desired (ag_store b) = Some served \<and>
    (st0 = st \<or> (\<exists>t. EvPush t st0 \<in> set es)) \<and> set ds \<subseteq> deltas_held a \<union> {d. EvQueue d \<in> set es} \<and>
    ((\<forall>env. EvDelta env \<notin> set es) \<longrightarrow> ds = []) \<and>
    rc_wake (ag_recon b) \<and> (\<forall>ro chan. \<exists>b'. agent_step c b (EvWake ro chan) b') \<and>
    (\<forall>ro chan b'. agent_step c b (EvWake ro chan) b' \<longrightarrow> pass_on c ro chan served b b')"
proof -
  have st: "Desired (ag_store (onDesired now st a)) = Some st"
    using assms(1) by (auto simp: onDesired_def Accept_def Desired_def split: if_splits)
  have "rc_wake (ag_recon (onDesired now st a))" using assms(1) by (simp add: onDesired_def Wake_def)
  then have w: "rc_wake (ag_recon b)" by (rule agent_run_wake [OF assms(2) _ assms(3)])
  have "serves_from {st} (deltas_held a) True (onDesired now st a)"
    using st by (auto simp: serves_from_def stored_from_def deltas_held_def onDesired_simps)
  from agent_run_serves [OF assms(2) this] obtain st0 ds where D: "Desired (ag_store b) = Some (fold merge_state ds st0)"
    and st0: "st0 \<in> {st} \<union> (\<Union>e \<in> set es. pushed e)" and ds: "set ds \<subseteq> deltas_held a \<union> (\<Union>e \<in> set es. queued e)"
      "\<not> (\<exists>e \<in> set es. takes_delta e) \<longrightarrow> ds = []"
    unfolding serves_from_def stored_from_def by blast
  have "st0 = st \<or> (\<exists>t. EvPush t st0 \<in> set es)" using st0 by auto
  moreover have "(\<Union>e \<in> set es. queued e) = {d. EvQueue d \<in> set es}" by auto
  moreover have "(\<forall>env. EvDelta env \<notin> set es) \<longrightarrow> ds = []" using ds(2) by (auto simp: takes_delta_iff)
  moreover have "\<exists>b'. agent_step c b (EvWake ro chan) b'" for ro chan using agent_step.wake [OF w] by blast
  ultimately show ?thesis
    using w ds(1) D wake_pass [OF _ D] by (intro exI [of _ st0] exI [of _ ds] exI [of _ "fold merge_state ds st0"]) simp
qed

theorem accepted_push_is_served_witness:
  "\<exists>b. agent_run ex_contract (onDesired 3 ex_state (agent_init 0 0 [''eth0''] ex_vpp True))
      [EvTick ex_orders (Inr ref_channel), EvControllerDown] b \<and> rc_wake (ag_recon b) \<and> Desired (ag_store b) = Some ex_state"
proof -
  let ?a0 = "agent_init 0 0 [''eth0''] ex_vpp True"
  let ?a1 = "runPass ex_contract ex_orders (Inr ref_channel) (onDesired 3 ex_state ?a0)"
  have acc: "Accept 3 ex_state (ag_store ?a0) = (True, snd (Accept 3 ex_state (ag_store ?a0)))"
    by (simp add: agent_init_def Accept_def NewDesiredStore_def)
  have run: "agent_run ex_contract (onDesired 3 ex_state ?a0) (([] @ [EvTick ex_orders (Inr ref_channel)]) @ [EvControllerDown])
      (?a1\<lparr>ag_store := ControllerDown (ag_store ?a1)\<rparr>)"
    by (rule agent_run.step [OF agent_run.step [OF agent_run.refl agent_step.tick] agent_step.down])
  from accepted_push_is_served [OF acc run] run show ?thesis by fastforce
qed

end
