(* ===== verification/Liveness.thy ===== *)
theory Liveness
  imports Reconcile
begin

text \<open>
  The data-plane liveness signals of \<open>internal/agent\<close>: \<open>phase.go\<close> (the phase tracker), \<open>health.go\<close> (the
  reconcile-driven health report), \<open>faultsensor.go\<close> (the determinate fault kinds), \<open>vpp_liveness.go\<close>
  (the heartbeat watchdog) and \<open>probe.go\<close> (the forwarding probe). Every callback the code samples
  (\<open>conn.Healthy\<close>, the busy signals, the clock, the stats reads, the ping) is an argument holding the
  sampled value; a callback that may be nil is an \<open>option\<close>.
\<close>

subsection \<open>phase.go\<close>

record PhaseInputs =
  pin_SocketUp :: bool
  pin_EverConnected :: bool
  pin_Pending :: int
  pin_ApplyErr :: "error option"
  pin_BirdBusy :: bool
  pin_ApplyBusy :: bool

definition ComputePhase :: "PhaseInputs \<Rightarrow> DataPlanePhase" where
  "ComputePhase i =
     (if \<not> pin_SocketUp i \<and> pin_EverConnected i then PhaseDead
      else if \<not> pin_SocketUp i then PhasePending
      else if pin_ApplyErr i \<noteq> None then PhaseDegraded
      else if 0 < pin_Pending i \<or> pin_BirdBusy i \<or> pin_ApplyBusy i then PhaseReconciling
      else PhaseReady)"

record PhaseTracker =
  pt_everConnected :: bool
  pt_pending :: int
  pt_applyErr :: "error option"
  pt_phase :: DataPlanePhase

text \<open>What a recomputation samples: the socket and the two busy signals.\<close>

record phase_sample =
  sm_up :: bool
  sm_birdBusy :: "bool option"
  sm_applyBusy :: "bool option"

definition sampled :: "bool option \<Rightarrow> bool" where
  "sampled b = (case b of None \<Rightarrow> False | Some x \<Rightarrow> x)"

definition recomputeLocked :: "phase_sample \<Rightarrow> PhaseTracker \<Rightarrow> PhaseTracker" where
  "recomputeLocked s pt =
     (let ever = pt_everConnected pt \<or> sm_up s
      in pt\<lparr>pt_everConnected := ever,
            pt_phase := ComputePhase \<lparr>pin_SocketUp = sm_up s, pin_EverConnected = ever, pin_Pending = pt_pending pt,
              pin_ApplyErr = pt_applyErr pt, pin_BirdBusy = sampled (sm_birdBusy s), pin_ApplyBusy = sampled (sm_applyBusy s)\<rparr>\<rparr>)"

definition NewPhaseTracker :: PhaseTracker where
  "NewPhaseTracker = \<lparr>pt_everConnected = False, pt_pending = 0, pt_applyErr = None, pt_phase = PhasePending\<rparr>"

definition SetApplyState :: "int \<Rightarrow> error option \<Rightarrow> phase_sample \<Rightarrow> PhaseTracker \<Rightarrow> PhaseTracker" where
  "SetApplyState pending applyErr s pt = recomputeLocked s (pt\<lparr>pt_pending := pending, pt_applyErr := applyErr\<rparr>)"

definition Tick :: "phase_sample \<Rightarrow> PhaseTracker \<Rightarrow> DataPlanePhase \<times> PhaseTracker" where
  "Tick s pt = (let pt' = recomputeLocked s pt in (pt_phase pt', pt'))"

definition sensorBusy :: "phase_sample \<Rightarrow> PhaseTracker \<Rightarrow> bool \<times> PhaseTracker" where
  "sensorBusy s pt = (case Tick s pt of (ph, pt') \<Rightarrow> (ph = PhaseReconciling, pt'))"

subsection \<open>health.go\<close>

text \<open>Go strings are bytes: the dash of the reason is its UTF-8 encoding.\<close>

definition emDash :: string where
  "emDash = [CHR 0xE2, CHR 0x80, CHR 0x94]"

text \<open>\<open>Classify\<close>; \<open>errText\<close> stands for \<open>Error()\<close> of the pass error.\<close>

definition Classify :: "(error \<Rightarrow> string) \<Rightarrow> EdgeID \<Rightarrow> EdgeDesiredState \<Rightarrow> bool \<Rightarrow> Result \<Rightarrow> error option \<Rightarrow> int \<Rightarrow> HealthReport" where
  "Classify errText edge desired vppHealthy res reconcileErr nowMs =
     (let rep = \<lparr>hr_EdgeID = edge, hr_GenerationApplied = es_Generation desired, hr_AppliedVersion = es_DesiredVersion desired,
            hr_ObservedAtUnixMs = nowMs, hr_VPPConnected = vppHealthy, hr_PolicersDesired = int (length (es_Policers desired)),
            hr_SessionsDesired = int (length (es_ClassifySessions desired)), hr_PolicersActual = res_PolicersActual res,
            hr_SessionsActual = res_SessionsActual res, hr_RepairActions = Total res, hr_DeltasDropped = 0,
            hr_State = HealthHealthy, hr_Reason = '''', hr_Phase = PhaseUnknown, hr_FaultKind = FaultNone,
            hr_BirdFeedFails = 0, hr_BirdFeedLastOKUnixMs = 0\<rparr>
      in if \<not> vppHealthy then rep\<lparr>hr_State := HealthDataPlaneDown, hr_Reason := ''vpp control link down''\<rparr>
         else (case reconcileErr of
             Some e \<Rightarrow> rep\<lparr>hr_State := HealthDegraded,
                hr_Reason := ''reconcile pass incomplete (vpp slow/transient, connection alive) '' @ emDash @ '' retrying: '' @ errText e\<rparr>
           | None \<Rightarrow> if 0 < hr_RepairActions rep
                then rep\<lparr>hr_State := HealthDegraded, hr_Reason := ''data-plane drift repaired locally (soft-death symptom)''\<rparr>
                else rep))"

record HealthChecker =
  hc_edgeID :: EdgeID
  hc_forced :: bool
  hc_phase :: "PhaseTracker option"
  hc_last :: "HealthReport option"

definition NewHealthChecker :: "EdgeID \<Rightarrow> PhaseTracker option \<Rightarrow> HealthChecker" where
  "NewHealthChecker edge pt = \<lparr>hc_edgeID = edge, hc_forced = False, hc_phase = pt, hc_last = None\<rparr>"

definition SetForcedDataPlaneDown :: "bool \<Rightarrow> HealthChecker \<Rightarrow> HealthChecker" where
  "SetForcedDataPlaneDown on h = h\<lparr>hc_forced := on\<rparr>"

text \<open>What \<open>Observe\<close> samples: the link as seen by the checker, the drop counter, the clock, and the
  phase tracker's own sample.\<close>

record observe_env =
  oe_healthy :: bool
  oe_dropped :: "u64 option"
  oe_now :: int
  oe_phase :: phase_sample

definition pendingOf :: "HealthReport \<Rightarrow> int" where
  "pendingOf rep = max 0 (hr_PolicersDesired rep - hr_PolicersActual rep) + max 0 (hr_SessionsDesired rep - hr_SessionsActual rep)"

definition Observe :: "(error \<Rightarrow> string) \<Rightarrow> observe_env \<Rightarrow> EdgeDesiredState \<Rightarrow> Result \<Rightarrow> error option \<Rightarrow> HealthChecker \<Rightarrow> HealthChecker" where
  "Observe errText env desired res reconcileErr h =
     (let rep0 = Classify errText (hc_edgeID h) desired (oe_healthy env) res reconcileErr (oe_now env);
          rep1 = (case oe_dropped env of None \<Rightarrow> rep0 | Some n \<Rightarrow> rep0\<lparr>hr_DeltasDropped := n\<rparr>);
          rep2 = (if hc_forced h
                  then rep1\<lparr>hr_State := HealthDataPlaneDown, hr_Reason := ''forced data-plane-down (chaos/test hook, 6.13)''\<rparr> else rep1)
      in case hc_phase h of
           None \<Rightarrow> h\<lparr>hc_last := Some rep2\<rparr>
         | Some pt \<Rightarrow> (let pt' = SetApplyState (pendingOf rep2) reconcileErr (oe_phase env) pt
                        in h\<lparr>hc_phase := Some pt', hc_last := Some (rep2\<lparr>hr_Phase := pt_phase pt'\<rparr>)\<rparr>))"

definition Last :: "HealthChecker \<Rightarrow> HealthReport option" where
  "Last h = hc_last h"

subsection \<open>faultsensor.go\<close>

definition linkDownAmong :: "Interface list \<Rightarrow> string list \<Rightarrow> string list" where
  "linkDownAmong ifs names =
     (let byName = gm_collect if_Name (\<lambda>i. i) ifs
      in filter (\<lambda>n. case gm_get byName n of Some i \<Rightarrow> if_Up i \<and> \<not> if_LinkUp i | None \<Rightarrow> False) names)"

fun joinComma :: "string list \<Rightarrow> string" where
  "joinComma [] = ''''"
| "joinComma [s] = s"
| "joinComma (s # ss) = s @ '','' @ joinComma ss"

text \<open>What \<open>Fault\<close> samples, in the order it may look: the link, the heartbeat verdict, the interface dump,
  the link again, the probe verdict.\<close>

record fault_sample =
  fs_healthy :: bool
  fs_vppDead :: "bool option"
  fs_dump :: "error + Interface list"
  fs_healthy2 :: bool
  fs_broken :: "bool option"

definition Fault :: "string list \<Rightarrow> fault_sample \<Rightarrow> FaultKind \<times> string" where
  "Fault policerIfaces s =
     (if \<not> fs_healthy s then (FaultVPPGone, ''vpp control link down (api.sock EOF)'')
      else if sampled (fs_vppDead s) then (FaultVPPGone, ''vpp dead via stats heartbeat (process gone or main-thread wedge)'')
      else (case fs_dump s of
          Inl e \<Rightarrow>
            (if \<not> fs_healthy2 s then (FaultVPPGone, ''vpp control link down (dump failed)'')
             else if sampled (fs_broken s)
             then (FaultForwardingBroken, ''forwarding probe: path black-holed (interface dump unavailable)'')
             else (FaultNone, ''''))
        | Inr ifs \<Rightarrow>
            (let down = linkDownAmong ifs policerIfaces
             in if down \<noteq> [] then (FaultLinkDown, ''link down on '' @ joinComma down)
                else if sampled (fs_broken s)
                then (FaultForwardingBroken, ''forwarding probe: path black-holed (device up, not forwarding)'')
                else (FaultNone, ''''))))"

subsection \<open>vpp_liveness.go\<close>

record VppLiveness =
  vl_wedgeGrace :: int
  vl_reconnectEvery :: "int option"
  vl_lastReconnect :: "int option"
  vl_haveBeat :: bool
  vl_lastBeat :: u64
  vl_lastAdvance :: int
  vl_dead :: bool

definition NewVppLiveness :: "int \<Rightarrow> int option \<Rightarrow> VppLiveness" where
  "NewVppLiveness grace every =
     \<lparr>vl_wedgeGrace = grace, vl_reconnectEvery = every, vl_lastReconnect = None, vl_haveBeat = False, vl_lastBeat = 0,
      vl_lastAdvance = 0, vl_dead = False\<rparr>"

text \<open>The effects of one \<open>check\<close>: the transition hook's argument, and whether the stats reader is rebuilt.\<close>

record check_out =
  co_transition :: "bool option"
  co_reconnect :: bool

definition set_dead :: "bool \<Rightarrow> VppLiveness \<Rightarrow> bool option \<times> VppLiveness" where
  "set_dead dead p = (if vl_dead p = dead then (None, p) else (Some dead, p\<lparr>vl_dead := dead\<rparr>))"

text \<open>One poll: the heartbeat read, whether its error means that the process is gone, the clock and the busy
  signal.\<close>

record beat_sample =
  bs_read :: "error + u64"
  bs_disconnected :: bool
  bs_now :: int
  bs_busy :: "bool option"

text \<open>The fall-through of \<open>check\<close>: the heartbeat did not advance. The zero time of \<open>lastReconnect\<close> lies further
  back than any interval.\<close>

definition staleReconnect :: "int \<Rightarrow> VppLiveness \<Rightarrow> bool \<times> VppLiveness" where
  "staleReconnect now p =
     (case vl_reconnectEvery p of
        None \<Rightarrow> (False, p)
      | Some every \<Rightarrow>
          if (case vl_lastReconnect p of None \<Rightarrow> True | Some t \<Rightarrow> every \<le> now - t)
          then (True, p\<lparr>vl_lastReconnect := Some now\<rparr>) else (False, p))"

definition stalled :: "beat_sample \<Rightarrow> VppLiveness \<Rightarrow> check_out \<times> VppLiveness" where
  "stalled s p =
     (if sampled (bs_busy s) then (\<lparr>co_transition = None, co_reconnect = False\<rparr>, p)
      else if vl_haveBeat p \<and> vl_wedgeGrace p \<le> bs_now s - vl_lastAdvance p
      then (case set_dead True p of (tr, p') \<Rightarrow>
              (case staleReconnect (bs_now s) p' of (rc, p'') \<Rightarrow> (\<lparr>co_transition = tr, co_reconnect = rc\<rparr>, p'')))
      else (\<lparr>co_transition = None, co_reconnect = False\<rparr>, p))"

definition check :: "beat_sample \<Rightarrow> VppLiveness \<Rightarrow> check_out \<times> VppLiveness" where
  "check s p =
     (case bs_read s of
        Inl e \<Rightarrow>
          if bs_disconnected s
          then (case set_dead True p of (tr, p') \<Rightarrow> (\<lparr>co_transition = tr, co_reconnect = False\<rparr>, p'))
          else stalled s p
      | Inr beat \<Rightarrow>
          if \<not> vl_haveBeat p \<or> vl_lastBeat p < beat
          then (case set_dead False (p\<lparr>vl_haveBeat := True, vl_lastBeat := beat, vl_lastAdvance := bs_now s\<rparr>) of
                  (tr, p') \<Rightarrow> (\<lparr>co_transition = tr, co_reconnect = False\<rparr>, p'))
          else if beat < vl_lastBeat p
          then (case set_dead False (p\<lparr>vl_lastBeat := beat, vl_lastAdvance := bs_now s\<rparr>) of
                  (tr, p') \<Rightarrow> (\<lparr>co_transition = tr, co_reconnect = False\<rparr>, p'))
          else stalled s p)"

definition Dead :: "VppLiveness \<Rightarrow> bool" where
  "Dead p = vl_dead p"

subsection \<open>probe.go\<close>

record ForwardingProbe =
  fp_k :: int
  fp_fails :: int
  fp_everHealthy :: bool
  fp_broken :: bool
  fp_lastGen :: u64

definition NewForwardingProbe :: "int \<Rightarrow> ForwardingProbe" where
  "NewForwardingProbe k =
     \<lparr>fp_k = (if k < 1 then 1 else k), fp_fails = 0, fp_everHealthy = False, fp_broken = False, fp_lastGen = 0\<rparr>"

definition BindDataplaneGeneration :: "u64 \<Rightarrow> ForwardingProbe \<Rightarrow> ForwardingProbe" where
  "BindDataplaneGeneration g p = p\<lparr>fp_lastGen := g\<rparr>"

definition Broken :: "ForwardingProbe \<Rightarrow> bool" where
  "Broken p = fp_broken p"

text \<open>One round: the data-plane generation (\<open>None\<close> when unbound), the ping's result and the busy signal.\<close>

record round_sample =
  rs_gen :: "u64 option"
  rs_ping :: "error + int"
  rs_busy :: "bool option"

definition disarm :: "u64 option \<Rightarrow> ForwardingProbe \<Rightarrow> ForwardingProbe" where
  "disarm gen p =
     (case gen of None \<Rightarrow> p
      | Some g \<Rightarrow> if g \<noteq> fp_lastGen p then p\<lparr>fp_lastGen := g, fp_fails := 0, fp_everHealthy := False, fp_broken := False\<rparr> else p)"

definition probe_round :: "round_sample \<Rightarrow> ForwardingProbe \<Rightarrow> ForwardingProbe" where
  "probe_round s p0 =
     (let p = disarm (rs_gen s) p0
      in case rs_ping s of
           Inl e \<Rightarrow> p
         | Inr recv \<Rightarrow>
             if 0 < recv then p\<lparr>fp_fails := 0, fp_everHealthy := True, fp_broken := False\<rparr>
             else if \<not> fp_everHealthy p then p
             else if sampled (rs_busy s) then p
             else (let p' = p\<lparr>fp_fails := fp_fails p + 1\<rparr>
                   in if fp_k p' \<le> fp_fails p' \<and> \<not> fp_broken p' then p'\<lparr>fp_broken := True\<rparr> else p'))"

subsection \<open>The phase over a history\<close>

datatype phase_op = OpTick phase_sample | OpApply int "error option" phase_sample

fun phase_step :: "phase_op \<Rightarrow> PhaseTracker \<Rightarrow> PhaseTracker" where
  "phase_step (OpTick s) pt = snd (Tick s pt)"
| "phase_step (OpApply n e s) pt = SetApplyState n e s pt"

fun op_sample :: "phase_op \<Rightarrow> phase_sample" where
  "op_sample (OpTick s) = s"
| "op_sample (OpApply _ _ s) = s"

text \<open>The outcome of the last pass in a history.\<close>

fun last_apply :: "phase_op list \<Rightarrow> int \<times> error option" where
  "last_apply [] = (0, None)"
| "last_apply (OpApply n e _ # _) = (n, e)"
| "last_apply (OpTick _ # ops) = last_apply ops"

lemma phase_run_fields:
  "pt_everConnected (fold phase_step ops NewPhaseTracker) \<longleftrightarrow> (\<exists>op \<in> set ops. sm_up (op_sample op))"
  "(pt_pending (fold phase_step ops NewPhaseTracker), pt_applyErr (fold phase_step ops NewPhaseTracker)) = last_apply (rev ops)"
proof (induction ops rule: rev_induct)
  case (snoc op ops)
  { case 1 show ?case using snoc(1) by (cases op) (auto simp: Tick_def SetApplyState_def recomputeLocked_def Let_def) }
  { case 2 show ?case using snoc(2) by (cases op) (simp_all add: Tick_def SetApplyState_def recomputeLocked_def Let_def) }
qed (simp_all add: NewPhaseTracker_def)

text \<open>C29: the reported phase, from the whole history of ticks and reconcile passes. Dead means the socket is
  down now and was up at some time; Pending means it has never been up; on a live socket the phase is
  Degraded exactly when the last pass failed, otherwise Reconciling exactly when that pass left work or
  a busy signal is up, otherwise Ready. No timeout is involved, and an idle period changes nothing.\<close>

theorem phase_of_history:
  fixes ops op
  defines "hist \<equiv> ops @ [op]"
  defines "ph \<equiv> pt_phase (fold phase_step hist NewPhaseTracker)" and "up \<equiv> sm_up (op_sample op)"
    and "busy \<equiv> sampled (sm_birdBusy (op_sample op)) \<or> sampled (sm_applyBusy (op_sample op))"
  shows "(ph = PhaseDead \<longleftrightarrow> \<not> up \<and> (\<exists>x \<in> set hist. sm_up (op_sample x))) \<and>
    (ph = PhasePending \<longleftrightarrow> (\<forall>x \<in> set hist. \<not> sm_up (op_sample x))) \<and>
    (ph = PhaseDegraded \<longleftrightarrow> up \<and> snd (last_apply (rev hist)) \<noteq> None) \<and>
    (ph = PhaseReconciling \<longleftrightarrow> up \<and> snd (last_apply (rev hist)) = None \<and> (0 < fst (last_apply (rev hist)) \<or> busy)) \<and>
    (ph = PhaseReady \<longleftrightarrow> up \<and> snd (last_apply (rev hist)) = None \<and> fst (last_apply (rev hist)) \<le> 0 \<and> \<not> busy)"
proof -
  let ?pt = "fold phase_step ops NewPhaseTracker"
  have e: "pt_everConnected ?pt \<longleftrightarrow> (\<exists>x \<in> set ops. sm_up (op_sample x))" by (rule phase_run_fields)
  have l: "last_apply (rev ops) = (pt_pending ?pt, pt_applyErr ?pt)" by (simp add: phase_run_fields)
  have "ph = pt_phase (phase_step op ?pt)" by (simp add: ph_def hist_def)
  then show ?thesis
    unfolding hist_def up_def busy_def using e l
    by (cases op) (auto simp: Tick_def SetApplyState_def recomputeLocked_def Let_def ComputePhase_def)
qed

theorem phase_of_history_witness:
  "pt_phase (fold phase_step ([OpApply 0 (Some ErrIO) \<lparr>sm_up = True, sm_birdBusy = None, sm_applyBusy = Some True\<rparr>] @
      [OpTick \<lparr>sm_up = False, sm_birdBusy = None, sm_applyBusy = None\<rparr>]) NewPhaseTracker) = PhaseDead"
  using phase_of_history [of "[OpApply 0 (Some ErrIO) \<lparr>sm_up = True, sm_birdBusy = None, sm_applyBusy = Some True\<rparr>]"
      "OpTick \<lparr>sm_up = False, sm_birdBusy = None, sm_applyBusy = None\<rparr>"] by simp

subsection \<open>The forwarding probe over a history\<close>

text \<open>The reference: reading the history backwards, how many conclusive zero-reach rounds there were since the
  target was last reachable; \<open>None\<close> when it has not been reachable since the start or since VPP last
  restarted.\<close>

definition genAfter :: "u64 \<Rightarrow> round_sample list \<Rightarrow> u64" where
  "genAfter g0 rs = fold (\<lambda>s g. case rs_gen s of None \<Rightarrow> g | Some g' \<Rightarrow> g') rs g0"

definition restarted :: "u64 \<Rightarrow> round_sample list \<Rightarrow> round_sample \<Rightarrow> bool" where
  "restarted g0 before s = (case rs_gen s of None \<Rightarrow> False | Some g \<Rightarrow> g \<noteq> genAfter g0 before)"

fun streak :: "u64 \<Rightarrow> round_sample list \<Rightarrow> nat option" where
  "streak g0 [] = None"
| "streak g0 (s # older) =
     (case rs_ping s of
        Inl e \<Rightarrow> if restarted g0 (rev older) s then None else streak g0 older
      | Inr recv \<Rightarrow>
          if 0 < recv then Some 0
          else if restarted g0 (rev older) s then None
          else if sampled (rs_busy s) then streak g0 older
          else map_option Suc (streak g0 older))"

definition probe_run :: "int \<Rightarrow> u64 \<Rightarrow> round_sample list \<Rightarrow> ForwardingProbe" where
  "probe_run k g0 rs = fold probe_round rs (BindDataplaneGeneration g0 (NewForwardingProbe k))"

lemma probe_run_inv:
  "let p = probe_run k g0 rs; st = streak g0 (rev rs) in
     fp_k p = max 1 k \<and> fp_lastGen p = genAfter g0 rs \<and> (fp_everHealthy p \<longleftrightarrow> st \<noteq> None) \<and>
     fp_fails p = (case st of None \<Rightarrow> 0 | Some n \<Rightarrow> int n) \<and> (fp_broken p \<longleftrightarrow> (\<exists>n. st = Some n \<and> max 1 k \<le> int n))"
proof (induction rs rule: rev_induct)
  case Nil
  show ?case by (simp add: probe_run_def BindDataplaneGeneration_def NewForwardingProbe_def genAfter_def)
next
  case (snoc s rs)
  have g: "genAfter g0 (rs @ [s]) = (case rs_gen s of None \<Rightarrow> genAfter g0 rs | Some g \<Rightarrow> g)"
    by (simp add: genAfter_def split: option.split)
  have r: "probe_run k g0 (rs @ [s]) = probe_round s (probe_run k g0 rs)" by (simp add: probe_run_def)
  show ?case
    using snoc unfolding r g Let_def
    by (auto simp: probe_round_def disarm_def restarted_def Let_def split: sum.splits option.splits)
qed

text \<open>C30: the forwarding-broken verdict, against a reference that reads the history backwards. Whatever sequence
  of rounds the probe saw, it reports the path broken exactly when the target had been reachable since
  the start and since VPP's last restart, and at least \<open>k\<close> conclusive zero-reach rounds (not counting
  rounds that could not run and rounds during materialization) have followed without it being
  reachable again.\<close>

theorem probe_verdict:
  "Broken (probe_run k g0 rs) \<longleftrightarrow> (\<exists>n. streak g0 (rev rs) = Some n \<and> max 1 k \<le> int n)"
  using probe_run_inv [of k g0 rs] by (simp add: Broken_def Let_def)

subsection \<open>The heartbeat watchdog over a frozen heartbeat\<close>

definition frozen :: "u64 \<Rightarrow> beat_sample \<Rightarrow> bool" where
  "frozen beat s \<longleftrightarrow> (case bs_read s of Inl _ \<Rightarrow> \<not> bs_disconnected s | Inr b \<Rightarrow> b = beat)"

definition beat_run :: "beat_sample list \<Rightarrow> VppLiveness \<Rightarrow> VppLiveness" where
  "beat_run ss p = fold (\<lambda>s p. snd (check s p)) ss p"

lemma check_frozen:
  assumes "vl_haveBeat p" and "frozen (vl_lastBeat p) s"
  shows "let p' = snd (check s p) in
    vl_haveBeat p' \<and> vl_lastBeat p' = vl_lastBeat p \<and> vl_lastAdvance p' = vl_lastAdvance p \<and> vl_wedgeGrace p' = vl_wedgeGrace p \<and>
    (vl_dead p' \<longleftrightarrow> vl_dead p \<or> \<not> sampled (bs_busy s) \<and> vl_wedgeGrace p \<le> bs_now s - vl_lastAdvance p)"
proof -
  have "check s p = stalled s p"
    using assms by (auto simp: check_def frozen_def split: sum.splits)
  then show ?thesis
    using assms(1) by (auto simp: stalled_def set_dead_def staleReconnect_def Let_def split: option.splits)
qed

text \<open>A stalled heartbeat. While the heartbeat does not advance (the same value, or reads that fail without
  a disconnect), VPP is declared dead at the first poll that is not during materialization and is at
  least the grace period after the last advance, and not before; the busy gate delays the verdict but
  never loses it.\<close>

lemma stalled_heartbeat_verdict:
  assumes "vl_haveBeat p" and "\<forall>s \<in> set ss. frozen (vl_lastBeat p) s"
  shows "Dead (beat_run ss p) \<longleftrightarrow>
    Dead p \<or> (\<exists>s \<in> set ss. \<not> sampled (bs_busy s) \<and> vl_wedgeGrace p \<le> bs_now s - vl_lastAdvance p)"
  using assms
proof (induction ss arbitrary: p)
  case (Cons s ss)
  let ?p = "snd (check s p)"
  note C = check_frozen [of p s, unfolded Let_def]
  have "Dead (beat_run ss ?p) \<longleftrightarrow> Dead ?p \<or> (\<exists>s \<in> set ss. \<not> sampled (bs_busy s) \<and> vl_wedgeGrace ?p \<le> bs_now s - vl_lastAdvance ?p)"
    by (rule Cons.IH) (use C Cons.prems in simp_all)
  with C Cons.prems show ?case by (auto simp: beat_run_def Dead_def)
qed (simp add: beat_run_def)

end
