(* ===== verification/Report.thy ===== *)
theory Report
  imports Liveness
begin

text \<open>
  \<open>internal/agent/report.go\<close>: the report the agent sends to the controller, and the loop that sends it. The sources
  the options wire are sampled values (\<open>None\<close> when an option is absent). The loop's state is its last send,
  the coalescing wake channel and the armed timers; its history of sends is kept for the theorems. Times are
  in milliseconds. The delays of \<open>main.go\<close> that turn health transitions into wake-ups are at the end of the
  model.
\<close>

subsection \<open>Building a report\<close>

record report_env =
  re_now :: int
  re_fault :: "(FaultKind \<times> string) option"
  re_capacity :: "CapacityReport option"
  re_poolHash :: "u64 option"
  re_birdFeed :: "(int \<times> int) option"
  re_phase :: "DataPlanePhase option"
  re_desiredCounts :: "(int \<times> int \<times> bool) option"
  re_actualCounts :: "(int \<times> int \<times> bool) option"

definition overlayFault :: "(FaultKind \<times> string) option \<Rightarrow> HealthReport \<Rightarrow> HealthReport" where
  "overlayFault fault h =
     (case fault of
        None \<Rightarrow> h
      | Some (fk, reason) \<Rightarrow>
          if fk \<noteq> FaultNone
          then (let h1 = h\<lparr>hr_FaultKind := fk, hr_State := HealthDataPlaneDown\<rparr> in if reason \<noteq> '''' then h1\<lparr>hr_Reason := reason\<rparr> else h1)
          else h)"

definition overlayHealth :: "report_env \<Rightarrow> HealthReport \<Rightarrow> HealthReport" where
  "overlayHealth env h0 =
     (let h1 = (case re_birdFeed env of None \<Rightarrow> h0 | Some (fails, ok) \<Rightarrow> h0\<lparr>hr_BirdFeedFails := fails, hr_BirdFeedLastOKUnixMs := ok\<rparr>);
          h2 = (case re_phase env of None \<Rightarrow> h1 | Some ph \<Rightarrow> h1\<lparr>hr_Phase := ph\<rparr>);
          h3 = (case re_desiredCounts env of Some (pol, sess, True) \<Rightarrow> h2\<lparr>hr_PolicersDesired := pol, hr_SessionsDesired := sess\<rparr> | _ \<Rightarrow> h2)
      in case re_actualCounts env of Some (pol, sess, True) \<Rightarrow> h3\<lparr>hr_PolicersActual := pol, hr_SessionsActual := sess\<rparr> | _ \<Rightarrow> h3)"

definition Build :: "contract_fns \<Rightarrow> EdgeID \<Rightarrow> HealthReport option \<Rightarrow> report_env \<Rightarrow> EdgeReport option" where
  "Build c edge observed env =
     (case observed of
        None \<Rightarrow> None
      | Some h \<Rightarrow> Some
          \<lparr>er_SchemaVersion = SchemaVersion c, er_EdgeID = edge, er_Generation = hr_GenerationApplied h, er_ReportedAtUnixMs = re_now env,
           er_Health = overlayHealth env (overlayFault (re_fault env) h),
           er_Capacity = (case re_capacity env of None \<Rightarrow> \<lparr>cr_NICCapacityBps = 0, cr_SessionBudget = 0\<rparr> | Some cap \<Rightarrow> cap),
           er_InstalledPoolHash = (case re_poolHash env of None \<Rightarrow> 0 | Some ph \<Rightarrow> ph)\<rparr>)"

subsection \<open>The loop\<close>

definition wakeMinInterval :: int where "wakeMinInterval = 1000"

text \<open>\<open>rp_sent\<close> is the history of sends, newest first: the time, whether a wake-up caused it, and the report.\<close>

record reporter =
  rp_lastSend :: "int option"
  rp_wake :: bool
  rp_timers :: "int list"
  rp_sent :: "(int \<times> bool \<times> EdgeReport) list"

definition NewReporter :: reporter where
  "NewReporter = \<lparr>rp_lastSend = None, rp_wake = False, rp_timers = [], rp_sent = []\<rparr>"

definition Reporter_Wake :: "reporter \<Rightarrow> reporter" where
  "Reporter_Wake r = r\<lparr>rp_wake := True\<rparr>"

text \<open>\<open>send\<close>: the result of \<open>SendReport\<close> is only logged.\<close>

definition send :: "int \<Rightarrow> bool \<Rightarrow> EdgeReport option \<Rightarrow> reporter \<Rightarrow> reporter" where
  "send now woken built r =
     (case built of None \<Rightarrow> r | Some rep \<Rightarrow> r\<lparr>rp_lastSend := Some now, rp_sent := (now, woken, rep) # rp_sent r\<rparr>)"

text \<open>The \<open>select\<close>: the ticker, the wake channel (enabled when a wake is pending), and outside the loop a firing timer
  (the earliest armed one) and a call of \<open>Wake\<close>. The zero time of \<open>lastSend\<close> is further back than any interval.\<close>

datatype report_event =
    RTick int "EdgeReport option"
  | RWoken int "EdgeReport option"
  | RTimer
  | RWakeCall

fun report_step :: "report_event \<Rightarrow> reporter \<Rightarrow> reporter" where
  "report_step (RTick now built) r = send now False built r"
| "report_step (RWoken now built) r =
     (if \<not> rp_wake r then r
      else (let r' = r\<lparr>rp_wake := False\<rparr>
            in case rp_lastSend r of
                 Some t \<Rightarrow> if now - t < wakeMinInterval then r'\<lparr>rp_timers := rp_timers r @ [now + (wakeMinInterval - (now - t))]\<rparr>
                           else send now True built r'
               | None \<Rightarrow> send now True built r'))"
| "report_step RTimer r = (case rp_timers r of [] \<Rightarrow> r | _ # ts \<Rightarrow> Reporter_Wake (r\<lparr>rp_timers := ts\<rparr>))"
| "report_step RWakeCall r = Reporter_Wake r"

subsection \<open>From transitions to wake-ups\<close>

definition reportDownJitterMax :: int where "reportDownJitterMax = 2000"
definition reportUpDelay :: int where "reportUpDelay = 2500"

text \<open>The delay after a transition; \<open>jitter\<close> is the random number drawn below \<open>reportDownJitterMax\<close>.\<close>

definition transitionDelay :: "int \<Rightarrow> bool \<Rightarrow> int" where
  "transitionDelay jitter up = (if up then jitter + reportUpDelay else jitter)"

subsection \<open>What the report says of faults\<close>

lemma Fault_reason: "Fault ifs s = (fk, reason) \<Longrightarrow> fk \<noteq> FaultNone \<Longrightarrow> reason \<noteq> ''''"
  by (auto simp: Fault_def Let_def split: if_splits sum.splits)

lemma overlayHealth_keeps:
  "hr_State (overlayHealth env h) = hr_State h" "hr_FaultKind (overlayHealth env h) = hr_FaultKind h" "hr_Reason (overlayHealth env h) = hr_Reason h"
  "hr_GenerationApplied (overlayHealth env h) = hr_GenerationApplied h" "hr_RepairActions (overlayHealth env h) = hr_RepairActions h"
  by (auto simp: overlayHealth_def Let_def split: option.splits prod.splits bool.splits)

text \<open>C25: a determinate fault reaches the controller with the next report, whatever the last pass observed. The report built
  while the sensor sees VPP gone (the control link down now, the heartbeat verdict dead, or the link lost
  during the interface dump), else a policer interface with carrier lost, else a black-holed probe path,
  carries exactly that kind with a reason and declares the data plane down; when the sensor sees nothing,
  the state and reason are those of the last pass. The generation echoed is the one the pass applied.\<close>

theorem report_types_fault:
  fixes s ifs
  assumes "re_fault env = Some (Fault ifs s)"
  defines "gone \<equiv> \<not> fs_healthy s \<or> sampled (fs_vppDead s) \<or> (isl (fs_dump s) \<and> \<not> fs_healthy2 s)"
  defines "down \<equiv> \<not> isl (fs_dump s) \<and> linkDownAmong (projr (fs_dump s)) ifs \<noteq> []"
  defines "kind \<equiv> (if gone then FaultVPPGone else if down then FaultLinkDown
    else if sampled (fs_broken s) then FaultForwardingBroken else FaultNone)"
  shows "\<exists>r. Build c edge (Some h) env = Some r \<and> er_Generation r = hr_GenerationApplied h \<and>
    (if kind \<noteq> FaultNone
     then hr_FaultKind (er_Health r) = kind \<and> hr_State (er_Health r) = HealthDataPlaneDown \<and> hr_Reason (er_Health r) \<noteq> ''''
     else hr_FaultKind (er_Health r) = hr_FaultKind h \<and> hr_State (er_Health r) = hr_State h \<and> hr_Reason (er_Health r) = hr_Reason h)"
proof -
  obtain fk reason where f: "Fault ifs s = (fk, reason)" by (cases "Fault ifs s")
  have "fk = kind"
    using f unfolding kind_def gone_def down_def by (auto simp: Fault_def Let_def split: if_splits sum.splits)
  with Fault_reason [OF f] show ?thesis
    by (auto simp: Build_def assms(1) f overlayFault_def overlayHealth_keeps Let_def)
qed

definition ex_health :: HealthReport where
  "ex_health = \<lparr>hr_EdgeID = ''e1'', hr_GenerationApplied = 7, hr_AppliedVersion = 3, hr_ObservedAtUnixMs = 0, hr_VPPConnected = True,
     hr_PolicersDesired = 1, hr_SessionsDesired = 1, hr_PolicersActual = 1, hr_SessionsActual = 1, hr_RepairActions = 0, hr_DeltasDropped = 0,
     hr_State = HealthHealthy, hr_Reason = '''', hr_Phase = PhaseReady, hr_FaultKind = FaultNone, hr_BirdFeedFails = 0, hr_BirdFeedLastOKUnixMs = 0\<rparr>"

definition ex_fault_sample :: fault_sample where
  "ex_fault_sample = \<lparr>fs_healthy = True, fs_vppDead = Some False, fs_dump = Inr [\<lparr>if_Name = ''eth0'', if_SwIfIndex = 1, if_Up = True, if_LinkUp = False\<rparr>],
     fs_healthy2 = True, fs_broken = Some True\<rparr>"

definition ex_report_env :: report_env where
  "ex_report_env = \<lparr>re_now = 5, re_fault = Some (Fault [''eth0''] ex_fault_sample), re_capacity = None, re_poolHash = None, re_birdFeed = None,
     re_phase = None, re_desiredCounts = None, re_actualCounts = None\<rparr>"

theorem report_types_fault_witness:
  "\<forall>c. \<exists>r. Build c ''e1'' (Some ex_health) ex_report_env = Some r \<and> hr_FaultKind (er_Health r) = FaultLinkDown \<and>
     hr_State (er_Health r) = HealthDataPlaneDown"
proof
  fix c
  have e: "re_fault ex_report_env = Some (Fault [''eth0''] ex_fault_sample)" by (simp add: ex_report_env_def)
  have "linkDownAmong [\<lparr>if_Name = ''eth0'', if_SwIfIndex = 1, if_Up = True, if_LinkUp = False\<rparr>] [''eth0''] \<noteq> []"
    by (simp add: linkDownAmong_def gm_collect_def)
  then show "\<exists>r. Build c ''e1'' (Some ex_health) ex_report_env = Some r \<and> hr_FaultKind (er_Health r) = FaultLinkDown \<and>
      hr_State (er_Health r) = HealthDataPlaneDown"
    using report_types_fault [OF e, of c "''e1''" ex_health] by (simp add: ex_fault_sample_def sampled_def) blast
qed

subsection \<open>Wake-ups are deferred\<close>

fun spaced :: "(int \<times> bool \<times> EdgeReport) list \<Rightarrow> bool" where
  "spaced (x # y # rest) = ((fst (snd x) \<longrightarrow> fst y + wakeMinInterval \<le> fst x) \<and> spaced (y # rest))"
| "spaced _ = True"

definition report_inv :: "reporter \<Rightarrow> bool" where
  "report_inv r \<longleftrightarrow> spaced (rp_sent r) \<and> rp_lastSend r = (case rp_sent r of [] \<Rightarrow> None | x # _ \<Rightarrow> Some (fst x)) \<and>
     (\<forall>t \<in> set (rp_timers r). \<exists>x \<in> set (rp_sent r). t = fst x + wakeMinInterval)"

lemma send_inv:
  "report_inv r \<Longrightarrow> (woken \<Longrightarrow> \<forall>t. rp_lastSend r = Some t \<longrightarrow> wakeMinInterval \<le> now - t) \<Longrightarrow> report_inv (send now woken built r)"
  by (cases "rp_sent r") (auto simp: report_inv_def send_def split: option.splits)

lemma report_step_inv: "report_inv r \<Longrightarrow> report_inv (report_step ev r)"
proof (cases ev)
  case (RWoken now built)
  assume inv: "report_inv r"
  then have inv': "report_inv (r\<lparr>rp_wake := False\<rparr>)" by (simp add: report_inv_def)
  show ?thesis
  proof (cases "rp_wake r \<and> (\<exists>t. rp_lastSend r = Some t \<and> now - t < wakeMinInterval)")
    case True
    then obtain t where t: "rp_wake r" "rp_lastSend r = Some t" "now - t < wakeMinInterval" by auto
    with inv obtain x rest where "rp_sent r = x # rest" "t = fst x" by (cases "rp_sent r") (auto simp: report_inv_def)
    with t inv show ?thesis by (auto simp: RWoken report_inv_def Let_def)
  next
    case False
    then show ?thesis
      using inv send_inv [OF inv', of True now built] by (auto simp: RWoken Let_def split: option.splits)
  qed
next
  case (RTick now built)
  assume "report_inv r"
  then show ?thesis using send_inv [of r False now built] by (simp add: RTick)
qed (auto simp: report_inv_def Reporter_Wake_def split: list.splits)

definition pending_wake :: "reporter \<Rightarrow> bool" where
  "pending_wake r \<longleftrightarrow> rp_wake r \<or> rp_timers r \<noteq> []"

lemma step_pending:
  assumes "pending_wake r" and "\<forall>now. ev \<noteq> RWoken now None"
  shows "pending_wake (report_step ev r) \<or> length (rp_sent r) < length (rp_sent (report_step ev r))"
proof (cases ev)
  case (RWoken now built)
  then obtain rep where "built = Some rep" using assms(2) by (cases built) auto
  then show ?thesis using assms(1) by (auto simp: RWoken pending_wake_def send_def Let_def split: option.splits)
qed (use assms in \<open>auto simp: pending_wake_def send_def Reporter_Wake_def split: option.splits list.splits\<close>)

lemma step_sent_mono: "length (rp_sent r) \<le> length (rp_sent (report_step ev r))"
  by (cases ev) (auto simp: send_def Reporter_Wake_def Let_def split: option.splits list.splits)

lemma run_sent_mono: "length (rp_sent r) \<le> length (rp_sent (fold report_step es r))"
  by (induction es arbitrary: r) (auto intro: order_trans step_sent_mono)

lemma run_pending:
  "pending_wake r \<Longrightarrow> pending_wake (fold report_step es r) \<or> length (rp_sent r) < length (rp_sent (fold report_step es r)) \<or>
     (\<exists>now. RWoken now None \<in> set es)"
proof (induction es arbitrary: r)
  case (Cons ev es)
  have "pending_wake (report_step ev r) \<or> length (rp_sent r) < length (rp_sent (report_step ev r)) \<or> (\<exists>now. ev = RWoken now None)"
    using step_pending [of r ev] Cons.prems by auto
  then show ?case
    using Cons.IH [of "report_step ev r"] run_sent_mono [of "report_step ev r" es] step_sent_mono [of r ev] by auto
qed simp

text \<open>C26: a wake-up inside the guard interval is deferred. After any history, a call of \<open>Wake\<close> stays pending
  through any further events (as a waiting wake-up or an armed timer) until a report has been sent after
  it, or until the loop takes a wake-up while \<open>Build\<close> has nothing to report (there is no health yet, that
  is, before the end of the first pass), which consumes it; every armed timer is due one guard interval
  after an actual send; and over the whole history a report sent because of a wake-up comes at least the
  guard interval after the report before it. The comments on the guard interval and on \<open>Wake\<close> still say
  that a wake-up inside the interval is dropped; the loop, and its own comment, defer it.\<close>

theorem wakes_deferred:
  fixes pre post :: "report_event list"
  defines "before \<equiv> fold report_step pre NewReporter" and "after \<equiv> fold report_step (pre @ RWakeCall # post) NewReporter"
  shows "(rp_wake after \<or> rp_timers after \<noteq> [] \<or> length (rp_sent before) < length (rp_sent after) \<or>
      (\<exists>now. RWoken now None \<in> set post)) \<and>
    (\<forall>t \<in> set (rp_timers after). \<exists>x \<in> set (rp_sent after). t = fst x + wakeMinInterval) \<and> spaced (rp_sent after)"
proof -
  have run: "report_inv r \<Longrightarrow> report_inv (fold report_step es r)" for es r
    by (induction es arbitrary: r) (simp_all add: report_step_inv)
  have "report_inv after" unfolding after_def by (rule run) (simp add: report_inv_def NewReporter_def)
  moreover have "pending_wake after \<or> length (rp_sent before) < length (rp_sent after) \<or> (\<exists>now. RWoken now None \<in> set post)"
    using run_pending [of "Reporter_Wake before" post]
    by (simp add: pending_wake_def Reporter_Wake_def before_def after_def)
  ultimately show ?thesis by (auto simp: report_inv_def pending_wake_def)
qed

theorem wakes_deferred_witness:
  "\<forall>c. \<exists>rep. Build c ''e1'' (Some ex_health) ex_report_env = Some rep \<and>
    (let r = fold report_step ([RTick 100 (Some rep)] @ RWakeCall # [RWoken 400 (Some rep)]) NewReporter
     in rp_timers r = [1100] \<and> \<not> rp_wake r \<and> length (rp_sent r) = 1)"
proof
  fix c
  obtain rep where b: "Build c ''e1'' (Some ex_health) ex_report_env = Some rep" by (simp add: Build_def)
  let ?r = "fold report_step ([RTick 100 (Some rep)] @ RWakeCall # [RWoken 400 (Some rep)]) NewReporter"
  have "rp_wake ?r \<or> rp_timers ?r \<noteq> [] \<or> length (rp_sent (fold report_step [RTick 100 (Some rep)] NewReporter)) < length (rp_sent ?r)"
    using wakes_deferred [of "[RTick 100 (Some rep)]" "[RWoken 400 (Some rep)]"] by simp
  then have "rp_timers ?r = [1100] \<and> \<not> rp_wake ?r \<and> length (rp_sent ?r) = 1"
    by (simp add: send_def NewReporter_def Reporter_Wake_def wakeMinInterval_def)
  then show "\<exists>rep. Build c ''e1'' (Some ex_health) ex_report_env = Some rep \<and>
    (let r = fold report_step ([RTick 100 (Some rep)] @ RWakeCall # [RWoken 400 (Some rep)]) NewReporter
     in rp_timers r = [1100] \<and> \<not> rp_wake r \<and> length (rp_sent r) = 1)"
    using b by (auto simp: Let_def)
qed

end
