(* ===== verification/Vpp_Conn.thy ===== *)
theory Vpp_Conn
  imports Vpp_Api
begin

text \<open>
  \<open>internal/vpp/conn.go\<close>: the managed connection. Its state machine is driven by govpp's connection events
  (\<open>handleEvent\<close>, called from \<open>watch\<close>); the two signal channels have one slot and are sent to without
  blocking, so each is a pending flag. The goroutines that receive from them are the drain operations.
  \<open>Connect\<close> with its options comes last. Durations are in nanoseconds, as in Go; the logger is not modelled.
\<close>

record Conn =
  cn_replyTimeout :: int
  cn_healthy :: bool
  cn_gen :: u64
  cn_reconnect :: bool
  cn_healthNotify :: bool
  cn_readyDone :: bool
  cn_closed :: bool

definition Conn_init :: Conn where
  "Conn_init = \<lparr>cn_replyTimeout = 0, cn_healthy = False, cn_gen = 0, cn_reconnect = False, cn_healthNotify = False, cn_readyDone = False, cn_closed = False\<rparr>"

text \<open>The states of \<open>core.ConnectionEvent\<close>; a \<open>Connected\<close> event comes with the result of the compatibility check.\<close>

datatype conn_event = Connected "error option" | Disconnected | Failed | OtherState

definition setHealthy :: "bool \<Rightarrow> Conn \<Rightarrow> Conn" where
  "setHealthy v c = (if cn_healthy c = v then c else c\<lparr>cn_healthy := v, cn_healthNotify := True\<rparr>)"

definition signalReady :: "Conn \<Rightarrow> bool \<times> Conn" where
  "signalReady c = (if \<not> cn_readyDone c then (True, c\<lparr>cn_readyDone := True\<rparr>) else (False, c))"

definition notifyReconnect :: "Conn \<Rightarrow> Conn" where
  "notifyReconnect c = c\<lparr>cn_reconnect := True\<rparr>"

fun handleEvent :: "conn_event \<Rightarrow> Conn \<Rightarrow> Conn" where
  "handleEvent (Connected (Some err)) c = setHealthy False c"
| "handleEvent (Connected None) c =
     (let c1 = setHealthy True c; c2 = c1\<lparr>cn_gen := cn_gen c1 + 1\<rparr>
      in case signalReady c2 of (True, c3) \<Rightarrow> c3 | (False, c3) \<Rightarrow> notifyReconnect c3)"
| "handleEvent Disconnected c = setHealthy False c"
| "handleEvent Failed c = setHealthy False c"
| "handleEvent OtherState c = c"

definition Healthy :: "Conn \<Rightarrow> bool" where
  "Healthy c = cn_healthy c"

definition Generation :: "Conn \<Rightarrow> u64" where
  "Generation c = cn_gen c"

text \<open>\<open>Channel\<close>: \<open>fresh\<close> is the result of govpp's \<open>NewAPIChannel\<close>; the second component is the reply timeout set on
  the channel, \<open>None\<close> for govpp's default.\<close>

definition Channel :: "(error + 'v channel) \<Rightarrow> Conn \<Rightarrow> error + 'v channel \<times> int option" where
  "Channel fresh c =
     (if \<not> cn_healthy c then Inl ErrNotHealthy
      else (case fresh of Inl e \<Rightarrow> Inl e | Inr ch \<Rightarrow> Inr (ch, if 0 < cn_replyTimeout c then Some (cn_replyTimeout c) else None)))"

definition Conn_Close :: "Conn \<Rightarrow> Conn" where
  "Conn_Close c = (if cn_closed c then c else c\<lparr>cn_closed := True, cn_healthy := False\<rparr>)"

text \<open>\<open>verifyCompatibility\<close>: nothing to check without messages; otherwise the channel and the check decide.\<close>

definition verifyCompatibility :: "'m list \<Rightarrow> error option \<Rightarrow> error option \<Rightarrow> error option" where
  "verifyCompatibility msgs chanErr checkErr =
     (if msgs = [] then None else case chanErr of Some e \<Rightarrow> Some e | None \<Rightarrow> checkErr)"

subsection \<open>Histories\<close>

text \<open>What happens to a connection after it was made: events, and the two consumers taking their signal. The
  reconcile loop resets its caches when it takes the reconnect signal; the report loop takes the health
  signal and looks at \<open>Healthy\<close>. The history keeps, beside the connection, how many restarts the
  reconcile loop has caught up with and what the report loop saw last.\<close>

datatype conn_op = OpEvent conn_event | OpTakeReconnect | OpTakeHealth

record conn_watch =
  cw_conn :: Conn
  cw_caughtUp :: nat
  cw_seenHealthy :: bool

fun watch_step :: "conn_op \<Rightarrow> nat \<times> conn_watch \<Rightarrow> nat \<times> conn_watch" where
  "watch_step (OpEvent e) (n, w) = (n + (if e = Connected None then 1 else 0), w\<lparr>cw_conn := handleEvent e (cw_conn w)\<rparr>)"
| "watch_step OpTakeReconnect (n, w) =
     (n, if cn_reconnect (cw_conn w) then w\<lparr>cw_conn := (cw_conn w)\<lparr>cn_reconnect := False\<rparr>, cw_caughtUp := n\<rparr> else w)"
| "watch_step OpTakeHealth (n, w) =
     (n, if cn_healthNotify (cw_conn w)
         then w\<lparr>cw_conn := (cw_conn w)\<lparr>cn_healthNotify := False\<rparr>, cw_seenHealthy := cn_healthy (cw_conn w)\<rparr> else w)"

definition watch_run :: "conn_op list \<Rightarrow> nat \<times> conn_watch" where
  "watch_run ops = fold watch_step ops (0, \<lparr>cw_conn = Conn_init, cw_caughtUp = 1, cw_seenHealthy = False\<rparr>)"

fun last_state :: "conn_op list \<Rightarrow> bool" where
  "last_state [] = False"
| "last_state (OpEvent (Connected e) # _) = (e = None)"
| "last_state (OpEvent Disconnected # _) = False"
| "last_state (OpEvent Failed # _) = False"
| "last_state (_ # ops) = last_state ops"

definition watch_inv :: "conn_op list \<Rightarrow> nat \<times> conn_watch \<Rightarrow> bool" where
  "watch_inv ops s \<longleftrightarrow> (case s of (n, w) \<Rightarrow>
     n = length (filter (\<lambda>op. op = OpEvent (Connected None)) ops) \<and>
     cn_gen (cw_conn w) = of_nat n \<and> (cn_readyDone (cw_conn w) \<longleftrightarrow> 0 < n) \<and>
     (cn_healthy (cw_conn w) \<longleftrightarrow> last_state (rev ops)) \<and>
     1 \<le> cw_caughtUp w \<and> (cn_reconnect (cw_conn w) \<longrightarrow> 1 \<le> n) \<and>
     (\<not> cn_reconnect (cw_conn w) \<longrightarrow> n \<le> cw_caughtUp w) \<and>
     (\<not> cn_healthNotify (cw_conn w) \<longrightarrow> cw_seenHealthy w = cn_healthy (cw_conn w)))"

lemma watch_run_inv: "watch_inv ops (watch_run ops)"
proof (induction ops rule: rev_induct)
  case Nil
  show ?case by (simp add: watch_inv_def watch_run_def Conn_init_def)
next
  case (snoc op ops)
  obtain n w where w: "watch_run ops = (n, w)" by (cases "watch_run ops")
  have s: "watch_run (ops @ [op]) = watch_step op (n, w)" using w by (simp add: watch_run_def)
  note IH = snoc [unfolded w watch_inv_def, simplified]
  have "watch_inv (ops @ [op]) (watch_step op (n, w))"
  proof (cases op)
    case (OpEvent e)
    have "watch_inv (ops @ [OpEvent e]) (watch_step (OpEvent e) (n, w))"
    proof (cases e)
      case (Connected x)
      then show ?thesis
        using IH by (cases x) (auto simp: watch_inv_def setHealthy_def signalReady_def notifyReconnect_def Let_def)
    qed (insert IH, auto simp: watch_inv_def setHealthy_def)
    then show ?thesis by (simp add: OpEvent)
  qed (insert IH, auto simp: watch_inv_def)
  then show ?case by (simp only: s)
qed

definition connects :: "conn_op list \<Rightarrow> nat" where
  "connects ops = length (filter (\<lambda>op. op = OpEvent (Connected None)) ops)"

text \<open>C31: the connection never hides a VPP restart or a health change. Over any history of connection events and of
  the consumers taking their signals in any interleaving: the link is healthy exactly when the last
  decisive event was a connect that passed the compatibility check; the generation counts those
  connects; as long as the reconcile loop has not caught up with a reconnect its signal is pending,
  however many reconnects were coalesced; and as long as the report loop's last look at the health is
  outdated its signal is pending.\<close>

theorem conn_signals_complete:
  "let (n, w) = watch_run ops in
     n = connects ops \<and> Generation (cw_conn w) = of_nat (connects ops) \<and>
     (Healthy (cw_conn w) \<longleftrightarrow> last_state (rev ops)) \<and>
     (cn_reconnect (cw_conn w) \<or> connects ops \<le> cw_caughtUp w) \<and>
     (cn_healthNotify (cw_conn w) \<or> cw_seenHealthy w = Healthy (cw_conn w))"
  using watch_run_inv [of ops]
  by (auto simp: watch_inv_def connects_def Generation_def Healthy_def split: prod.splits)

text \<open>A channel is only handed out on a healthy connection, with the configured reply timeout.\<close>

lemma Channel_needs_health:
  "(\<exists>ch t. Channel fresh c = Inr (ch, t)) \<longleftrightarrow> Healthy c \<and> (\<exists>ch. fresh = Inr ch)"
  by (cases fresh) (simp_all add: Channel_def Healthy_def)

subsection \<open>Connecting\<close>

text \<open>\<open>messages.go\<close>: the messages checked on every connect, by their binary-API names.\<close>

definition RequiredMessages :: "string list" where
  "RequiredMessages =
     [''policer_add'', ''policer_del'', ''policer_update'', ''policer_bind_v2'',
      ''classify_add_del_table'', ''classify_add_del_session'', ''policer_classify_set_interface'',
      ''probe_classify_lookup'', ''lcp_itf_pair_add_del_v3'']"

record conn_config =
  cc_attempts :: int
  cc_interval :: int
  cc_compatMsgs :: "string list"
  cc_readyWait :: int
  cc_healthTimeout :: int
  cc_replyTimeout :: int

type_synonym conn_option = "conn_config \<Rightarrow> conn_config"

definition WithReconnect :: "int \<Rightarrow> int \<Rightarrow> conn_option" where
  "WithReconnect attempts interval c = c\<lparr>cc_attempts := attempts, cc_interval := interval\<rparr>"

definition WithReadyTimeout :: "int \<Rightarrow> conn_option" where
  "WithReadyTimeout d c = c\<lparr>cc_readyWait := d\<rparr>"

definition WithReplyTimeout :: "int \<Rightarrow> conn_option" where
  "WithReplyTimeout d c = c\<lparr>cc_replyTimeout := d\<rparr>"

definition WithHealthCheck :: "int \<Rightarrow> conn_option" where
  "WithHealthCheck d c = c\<lparr>cc_healthTimeout := d\<rparr>"

text \<open>govpp's constants: the default attempts and interval, and the health check's reply timeout, which is a variable of
  the process.\<close>

record govpp_defaults =
  gd_attempts :: int
  gd_interval :: int
  gd_healthReplyTimeout :: int

definition conn_config_of :: "govpp_defaults \<Rightarrow> conn_option list \<Rightarrow> conn_config" where
  "conn_config_of g opts =
     foldl (\<lambda>cfg opt. opt cfg)
       \<lparr>cc_attempts = gd_attempts g, cc_interval = gd_interval g, cc_compatMsgs = RequiredMessages, cc_readyWait = 15000000000,
        cc_healthTimeout = 0, cc_replyTimeout = 0\<rparr> opts"

definition healthReplyTimeout :: "govpp_defaults \<Rightarrow> conn_config \<Rightarrow> int" where
  "healthReplyTimeout g cfg = (if 0 < cc_healthTimeout cfg then cc_healthTimeout cfg else gd_healthReplyTimeout g)"

text \<open>What govpp sends. For a connect, what opening a channel and \<open>CheckCompatiblity\<close> answer at that moment.\<close>

datatype core_event = CoreConnected "error option" "string list \<Rightarrow> error option" | CoreDisconnected | CoreFailed | CoreOther

primrec checked :: "conn_config \<Rightarrow> core_event \<Rightarrow> conn_event" where
  "checked cfg (CoreConnected chanErr check) = Connected (verifyCompatibility (cc_compatMsgs cfg) chanErr (check (cc_compatMsgs cfg)))"
| "checked cfg CoreDisconnected = Disconnected"
| "checked cfg CoreFailed = Failed"
| "checked cfg CoreOther = OtherState"

text \<open>\<open>watch\<close>: what its \<open>select\<close> receives, in order; the loop ends with the \<open>done\<close> channel or the event channel closed.\<close>

datatype watch_input = WEvent core_event | WDone | WEventsClosed

fun Conn_watch :: "conn_config \<Rightarrow> watch_input list \<Rightarrow> Conn \<Rightarrow> Conn" where
  "Conn_watch cfg (WEvent ev # ins) c = Conn_watch cfg ins (handleEvent (checked cfg ev) c)"
| "Conn_watch cfg _ c = c"

text \<open>\<open>waitReady\<close> is a \<open>select\<close> over the ready channel and the deadline: with both there, either is taken.\<close>

inductive waitReady :: "Conn \<Rightarrow> bool \<Rightarrow> error option \<Rightarrow> bool" where
  ready: "cn_readyDone c \<Longrightarrow> waitReady c ctxDone None"
| deadline: "ctxDone \<Longrightarrow> waitReady c ctxDone (Some ErrNotReady)"

inductive_simps waitReady_simps: "waitReady c ctxDone r"

text \<open>\<open>Connect\<close>: \<open>async\<close> is the result of \<open>AsyncConnect\<close>; \<open>ins\<close> is what the watch goroutine has received when the wait
  ends, and \<open>ctxDone\<close> whether the deadline has passed by then. On failure the connection is closed.\<close>

definition newConn :: "conn_config \<Rightarrow> Conn" where
  "newConn cfg = Conn_init\<lparr>cn_replyTimeout := cc_replyTimeout cfg\<rparr>"

inductive Connect :: "govpp_defaults \<Rightarrow> conn_option list \<Rightarrow> error option \<Rightarrow> watch_input list \<Rightarrow> bool \<Rightarrow> error + Conn \<Rightarrow> Conn \<Rightarrow> bool"
  for g opts where
  async: "Connect g opts (Some e) ins ctxDone (Inl e) c"
| up: "cfg = conn_config_of g opts \<Longrightarrow> c = Conn_watch cfg ins (newConn cfg) \<Longrightarrow> waitReady c ctxDone None \<Longrightarrow>
     Connect g opts None ins ctxDone (Inr c) c"
| notReady: "cfg = conn_config_of g opts \<Longrightarrow> waitReady (Conn_watch cfg ins (newConn cfg)) ctxDone (Some e) \<Longrightarrow>
     c = Conn_Close (Conn_watch cfg ins (newConn cfg)) \<Longrightarrow> Connect g opts None ins ctxDone (Inl e) c"

inductive_cases ConnectE: "Connect g opts async ins ctxDone res c"

text \<open>The events the watch loop handles: those before the first closed channel.\<close>

fun handled :: "watch_input list \<Rightarrow> core_event list" where
  "handled (WEvent ev # ins) = ev # handled ins"
| "handled _ = []"

lemma watch_handled: "Conn_watch cfg ins c = fold (\<lambda>ev. handleEvent (checked cfg ev)) (handled ins) c"
  by (induction cfg ins c rule: Conn_watch.induct) auto

lemma handleEvent_ready: "cn_readyDone (handleEvent ev c) \<longleftrightarrow> cn_readyDone c \<or> ev = Connected None"
  by (cases "(ev, c)" rule: handleEvent.cases) (auto simp: setHealthy_def signalReady_def notifyReconnect_def Let_def)

lemma handleEvent_timeout [simp]: "cn_replyTimeout (handleEvent ev c) = cn_replyTimeout c"
  by (cases "(ev, c)" rule: handleEvent.cases) (auto simp: setHealthy_def signalReady_def notifyReconnect_def Let_def)

lemma watch_ready: "cn_readyDone (Conn_watch cfg ins c) \<longleftrightarrow> cn_readyDone c \<or> (\<exists>ev \<in> set (handled ins). checked cfg ev = Connected None)"
  by (induction cfg ins c rule: Conn_watch.induct) (auto simp: handleEvent_ready)

lemma watch_timeout [simp]: "cn_replyTimeout (Conn_watch cfg ins c) = cn_replyTimeout c"
  by (induction cfg ins c rule: Conn_watch.induct) auto

lemma watch_closed [simp]: "cn_closed (Conn_watch cfg ins c) = cn_closed c"
proof (induction cfg ins c rule: Conn_watch.induct)
  case (1 cfg ev ins c)
  then show ?case
    by (cases "(checked cfg ev, c)" rule: handleEvent.cases) (auto simp: setHealthy_def signalReady_def notifyReconnect_def Let_def)
qed auto

lemma newConn_ready [simp]: "\<not> cn_readyDone (newConn cfg)" "\<not> cn_closed (newConn cfg)" "cn_replyTimeout (newConn cfg) = cc_replyTimeout cfg"
  by (simp_all add: newConn_def Conn_init_def)

lemma RequiredMessages_nonempty: "RequiredMessages \<noteq> []"
  by (simp add: RequiredMessages_def)

lemma checked_compatible:
  assumes "cc_compatMsgs cfg = RequiredMessages"
  shows "checked cfg ev = Connected None \<longleftrightarrow> (\<exists>check. ev = CoreConnected None check \<and> check RequiredMessages = None)"
proof (cases ev)
  case (CoreConnected chanErr check)
  then show ?thesis by (cases chanErr) (simp_all add: verifyCompatibility_def assms RequiredMessages_nonempty)
qed simp_all

lemma option_keeps_messages:
  "cc_compatMsgs (WithReconnect a i c) = cc_compatMsgs c" "cc_compatMsgs (WithReadyTimeout d c) = cc_compatMsgs c"
  "cc_compatMsgs (WithReplyTimeout d c) = cc_compatMsgs c" "cc_compatMsgs (WithHealthCheck d c) = cc_compatMsgs c"
  by (simp_all add: WithReconnect_def WithReadyTimeout_def WithReplyTimeout_def WithHealthCheck_def)

text \<open>\<open>Connect\<close> is fail-closed: it hands out a connection only after a connect at which a channel could be opened and VPP
  accepted every required message, and that connection gives its channels the configured reply timeout;
  without such a connect it can only fail, at the deadline, and the connection is left closed and unhealthy.\<close>

theorem Connect_fail_closed:
  assumes "Connect g opts None ins ctxDone res c" and "cc_compatMsgs (conn_config_of g opts) = RequiredMessages"
  defines "compatible \<equiv> \<exists>check. CoreConnected None check \<in> set (handled ins) \<and> check RequiredMessages = None"
  shows "case res of
      Inr c' \<Rightarrow> c' = c \<and> compatible \<and> cn_replyTimeout c = cc_replyTimeout (conn_config_of g opts)
    | Inl e \<Rightarrow> e = ErrNotReady \<and> ctxDone \<and> cn_closed c \<and> \<not> Healthy c"
proof -
  let ?w = "Conn_watch (conn_config_of g opts) ins (newConn (conn_config_of g opts))"
  have ready: "cn_readyDone ?w \<longleftrightarrow> compatible"
    by (auto simp: watch_ready compatible_def checked_compatible [OF assms(2)])
  from assms(1) show ?thesis
  proof cases
    case (up cfg)
    with ready show ?thesis by (simp add: waitReady_simps)
  next
    case (notReady cfg e)
    then show ?thesis by (simp add: waitReady_simps Conn_Close_def Healthy_def watch_closed)
  qed
qed

end
