(* ===== verification/Fault_Uplink.thy ===== *)
theory Fault_Uplink
  imports Report Vpp_Conn
begin

text \<open>
  The path of a VPP loss to the controller: the managed connection (\<open>Vpp_Conn\<close>), the loop
  \<open>runHealthTransitionReports\<close> of \<open>cmd/edge-agent/main.go\<close> between its health signal and the reporter's wake
  channel, the heartbeat watchdog with its transition hook, the fault sensor and the reporter (\<open>Report\<close>). The
  goroutines interleave: each event below is one iteration of one of their \<open>select\<close> statements, a timer that fires, or a
  call from outside.
\<close>

subsection \<open>runHealthTransitionReports\<close>

text \<open>The loop waits for a transition, or it waits out a delay that ends at a time.\<close>

datatype transition_loop = AwaitTransition | Delaying int

text \<open>Receiving a transition: the health is looked at now, the delay depends on it.\<close>

definition takeTransition :: "int \<Rightarrow> int \<Rightarrow> transition_loop \<times> Conn \<Rightarrow> transition_loop \<times> Conn" where
  "takeTransition jitter now s =
     (case s of
        (AwaitTransition, c) \<Rightarrow>
          if cn_healthNotify c
          then (let c' = c\<lparr>cn_healthNotify := False\<rparr> in (Delaying (now + transitionDelay jitter (Healthy c')), c'))
          else s
      | (Delaying t, c) \<Rightarrow> s)"

text \<open>The delay is over: the reporter is woken and the loop starts again.\<close>

definition delayOver :: "transition_loop \<times> reporter \<Rightarrow> transition_loop \<times> reporter" where
  "delayOver s = (case s of (Delaying t, r) \<Rightarrow> (AwaitTransition, Reporter_Wake r) | (AwaitTransition, r) \<Rightarrow> s)"

text \<open>The hook of \<open>vppLive.OnTransition\<close>: the time at which the reporter will be woken.\<close>

definition onTransition :: "int \<Rightarrow> int \<Rightarrow> bool \<Rightarrow> int" where
  "onTransition jitter now dead = now + transitionDelay jitter (\<not> dead)"

subsection \<open>The composition\<close>

text \<open>\<open>ul_live\<close> is the watchdog, if it could be set up, and \<open>ul_after\<close> the wake-ups its hook has scheduled. \<open>ul_seen\<close> is whether
  VPP was gone (link down or heartbeat verdict) when the last report was built.\<close>

record uplink =
  ul_conn :: Conn
  ul_live :: "VppLiveness option"
  ul_after :: "int list"
  ul_loop :: transition_loop
  ul_observed :: "HealthReport option"
  ul_rep :: reporter
  ul_seen :: "bool option"

definition uplink_init :: "VppLiveness option \<Rightarrow> uplink" where
  "uplink_init live = \<lparr>ul_conn = Conn_init, ul_live = live, ul_after = [], ul_loop = AwaitTransition, ul_observed = None, ul_rep = NewReporter, ul_seen = None\<rparr>"

definition liveDead :: "uplink \<Rightarrow> bool option" where
  "liveDead u = map_option Dead (ul_live u)"

definition vpp_gone :: "uplink \<Rightarrow> bool" where
  "vpp_gone u \<longleftrightarrow> \<not> Healthy (ul_conn u) \<or> sampled (liveDead u)"

text \<open>A report is built while the loop sends: the fault sensor looks at the link and at the watchdog's verdict; what it samples after
  that, and the other sources of the report, come with the event.\<close>

datatype uplink_event =
    UEvent conn_event
  | UTakeTransition int int
  | UDelayOver
  | UBeat beat_sample int
  | UAfter
  | UPass HealthReport
  | UTick int fault_sample report_env
  | UWoken int fault_sample report_env
  | UTimer
  | UWakeCall

definition uplinkBuild :: "contract_fns \<Rightarrow> EdgeID \<Rightarrow> string list \<Rightarrow> fault_sample \<Rightarrow> report_env \<Rightarrow> uplink \<Rightarrow> EdgeReport option" where
  "uplinkBuild c edge ifs s env u =
     Build c edge (ul_observed u) (env\<lparr>re_fault := Some (Fault ifs (s\<lparr>fs_healthy := Healthy (ul_conn u), fs_vppDead := liveDead u\<rparr>))\<rparr>)"

definition reported :: "report_event \<Rightarrow> uplink \<Rightarrow> uplink" where
  "reported ev u =
     (let r' = report_step ev (ul_rep u)
      in u\<lparr>ul_rep := r', ul_seen := (if length (rp_sent (ul_rep u)) < length (rp_sent r') then Some (vpp_gone u) else ul_seen u)\<rparr>)"

fun uplink_step :: "contract_fns \<Rightarrow> EdgeID \<Rightarrow> string list \<Rightarrow> uplink_event \<Rightarrow> uplink \<Rightarrow> uplink" where
  "uplink_step c edge ifs (UEvent e) u = u\<lparr>ul_conn := handleEvent e (ul_conn u)\<rparr>"
| "uplink_step c edge ifs (UTakeTransition jitter now) u =
     (case takeTransition jitter now (ul_loop u, ul_conn u) of (l, cn) \<Rightarrow> u\<lparr>ul_loop := l, ul_conn := cn\<rparr>)"
| "uplink_step c edge ifs UDelayOver u = (case delayOver (ul_loop u, ul_rep u) of (l, r) \<Rightarrow> u\<lparr>ul_loop := l, ul_rep := r\<rparr>)"
| "uplink_step c edge ifs (UBeat s jitter) u =
     (case ul_live u of
        None \<Rightarrow> u
      | Some p \<Rightarrow>
          (case check s p of (co, p') \<Rightarrow>
             u\<lparr>ul_live := Some p',
               ul_after := (case co_transition co of None \<Rightarrow> ul_after u | Some dead \<Rightarrow> ul_after u @ [onTransition jitter (bs_now s) dead])\<rparr>))"
| "uplink_step c edge ifs UAfter u = (case ul_after u of [] \<Rightarrow> u | _ # ts \<Rightarrow> u\<lparr>ul_after := ts, ul_rep := Reporter_Wake (ul_rep u)\<rparr>)"
| "uplink_step c edge ifs (UPass h) u = u\<lparr>ul_observed := Some h\<rparr>"
| "uplink_step c edge ifs (UTick now s env) u = reported (RTick now (uplinkBuild c edge ifs s env u)) u"
| "uplink_step c edge ifs (UWoken now s env) u = reported (RWoken now (uplinkBuild c edge ifs s env u)) u"
| "uplink_step c edge ifs UTimer u = reported RTimer u"
| "uplink_step c edge ifs UWakeCall u = reported RWakeCall u"

definition uplink_run :: "contract_fns \<Rightarrow> EdgeID \<Rightarrow> string list \<Rightarrow> VppLiveness option \<Rightarrow> uplink_event list \<Rightarrow> uplink" where
  "uplink_run c edge ifs live evs = fold (uplink_step c edge ifs) evs (uplink_init live)"

text \<open>Something on the way to the controller: an untaken signal, a running delay, a pending wake-up or an armed timer.\<close>

definition underway :: "uplink \<Rightarrow> bool" where
  "underway u \<longleftrightarrow> cn_healthNotify (ul_conn u) \<or> ul_loop u \<noteq> AwaitTransition \<or> ul_after u \<noteq> [] \<or> pending_wake (ul_rep u)"

definition says_gone :: "EdgeReport \<Rightarrow> bool" where
  "says_gone r \<longleftrightarrow> hr_FaultKind (er_Health r) = FaultVPPGone \<and> hr_State (er_Health r) = HealthDataPlaneDown"

subsection \<open>The invariant\<close>

definition uplink_inv :: "uplink \<Rightarrow> bool" where
  "uplink_inv u \<longleftrightarrow>
     (case rp_sent (ul_rep u) of
        [] \<Rightarrow> True
      | x # _ \<Rightarrow> ul_observed u \<noteq> None \<and> (ul_seen u = Some (vpp_gone u) \<or> underway u \<and> ul_seen u \<noteq> None) \<and>
          (ul_seen u = Some True \<longrightarrow> says_gone (snd (snd x))))"

lemma handleEvent_signals: "Healthy (handleEvent e c) = Healthy c \<and> (cn_healthNotify c \<longrightarrow> cn_healthNotify (handleEvent e c)) \<or> cn_healthNotify (handleEvent e c)"
  by (cases "(e, c)" rule: handleEvent.cases) (auto simp: setHealthy_def signalReady_def notifyReconnect_def Healthy_def Let_def)

lemma check_transition:
  assumes "check s p = (co, p')"
  shows "case co_transition co of None \<Rightarrow> Dead p' = Dead p | Some d \<Rightarrow> Dead p' = d"
  using assms by (auto simp: check_def stalled_def set_dead_def staleReconnect_def Dead_def split: sum.splits if_splits option.splits prod.splits)

lemma build_gone:
  assumes "uplinkBuild c edge ifs s env u = Some r" and "vpp_gone u"
  shows "says_gone r"
  using assms by (auto simp: vpp_gone_def uplinkBuild_def Build_def overlayFault_def overlayHealth_keeps Fault_def says_gone_def Let_def split: option.splits)

lemma build_some: "ul_observed u \<noteq> None \<Longrightarrow> \<exists>r. uplinkBuild c edge ifs s env u = Some r"
  by (auto simp: uplinkBuild_def Build_def)

text \<open>A step of the reporter that sends: the new report is the one built, with the health of now.\<close>

lemma reported_sent:
  assumes "uplink_inv u" and ev: "ev = RTick now built \<or> ev = RWoken now built" and b: "built = uplinkBuild c edge ifs s env u"
  shows "uplink_inv (reported ev u)"
proof (cases "length (rp_sent (ul_rep u)) < length (rp_sent (report_step ev (ul_rep u)))")
  case True
  then obtain r w where built: "built = Some r" and snt: "rp_sent (report_step ev (ul_rep u)) = (now, w, r) # rp_sent (ul_rep u)"
    using ev by (elim disjE) (cases built; fastforce simp: send_def Let_def split: option.splits if_splits)+
  have "ul_observed u \<noteq> None" using built b by (auto simp: uplinkBuild_def Build_def split: option.splits)
  moreover have "vpp_gone u \<longrightarrow> says_gone r" using build_gone built b by simp
  moreover have "vpp_gone (reported ev u) = vpp_gone u" by (simp add: vpp_gone_def liveDead_def reported_def Let_def)
  ultimately show ?thesis using True by (simp add: uplink_inv_def reported_def snt Let_def)
next
  case False
  then have same: "rp_sent (report_step ev (ul_rep u)) = rp_sent (ul_rep u)"
    using ev by (auto simp: send_def Let_def split: option.splits if_splits)
  show ?thesis
  proof (cases "rp_sent (ul_rep u)")
    case (Cons x xs)
    then have "ul_observed u \<noteq> None" using assms(1) by (simp add: uplink_inv_def)
    then have "built \<noteq> None" using build_some b by blast
    then have "pending_wake (ul_rep u) \<longrightarrow> pending_wake (report_step ev (ul_rep u))"
      using step_pending [of "ul_rep u" ev] ev False by auto
    then show ?thesis using assms(1) Cons False by (auto simp: uplink_inv_def reported_def same underway_def vpp_gone_def liveDead_def Let_def)
  qed (use same False in \<open>simp add: uplink_inv_def reported_def Let_def\<close>)
qed

lemma reported_quiet:
  assumes "uplink_inv u" and "ev = RTimer \<or> ev = RWakeCall"
  shows "uplink_inv (reported ev u)"
proof -
  have same: "rp_sent (report_step ev (ul_rep u)) = rp_sent (ul_rep u)"
    using assms(2) by (auto simp: Reporter_Wake_def split: list.splits)
  moreover have "pending_wake (ul_rep u) \<longrightarrow> pending_wake (report_step ev (ul_rep u))"
    using assms(2) by (auto simp: pending_wake_def Reporter_Wake_def split: list.splits)
  ultimately show ?thesis using assms(1) by (auto simp: uplink_inv_def reported_def underway_def vpp_gone_def liveDead_def Let_def split: list.splits)
qed

lemma uplink_step_inv:
  assumes "uplink_inv u"
  shows "uplink_inv (uplink_step c edge ifs ev u)"
proof (cases ev)
  case (UEvent e)
  then show ?thesis
    using assms handleEvent_signals [of e "ul_conn u"] by (auto simp: uplink_inv_def underway_def vpp_gone_def liveDead_def split: list.splits)
next
  case (UTakeTransition jitter now)
  then show ?thesis
    using assms by (auto simp: uplink_inv_def underway_def vpp_gone_def liveDead_def takeTransition_def Healthy_def Let_def split: list.splits transition_loop.splits)
next
  case UDelayOver
  then show ?thesis
    using assms by (auto simp: uplink_inv_def underway_def vpp_gone_def liveDead_def delayOver_def Reporter_Wake_def pending_wake_def split: list.splits transition_loop.splits)
next
  case (UBeat s jitter)
  show ?thesis
  proof (cases "ul_live u")
    case (Some p)
    obtain co p' where k: "check s p = (co, p')" by fastforce
    show ?thesis
      using assms check_transition [OF k]
      by (cases "co_transition co") (auto simp: UBeat Some k uplink_inv_def underway_def vpp_gone_def liveDead_def split: list.splits)
  qed (use assms in \<open>simp add: UBeat\<close>)
next
  case UAfter
  then show ?thesis
    using assms by (auto simp: uplink_inv_def underway_def vpp_gone_def liveDead_def Reporter_Wake_def pending_wake_def split: list.splits)
next
  case (UPass h)
  then show ?thesis using assms by (auto simp: uplink_inv_def underway_def vpp_gone_def liveDead_def split: list.splits)
qed (use assms in \<open>auto intro: reported_sent reported_quiet\<close>)

lemma uplink_run_inv: "uplink_inv (uplink_run c edge ifs live evs)"
proof -
  have "uplink_inv u \<Longrightarrow> uplink_inv (fold (uplink_step c edge ifs) evs u)" for u
    by (induction evs arbitrary: u) (simp_all add: uplink_step_inv)
  then show ?thesis by (simp add: uplink_run_def uplink_inv_def uplink_init_def NewReporter_def)
qed

text \<open>C24: a VPP loss always reaches the controller. VPP counts as gone while its link is down or the heartbeat watchdog
  holds it dead. In any interleaving of connection events, heartbeat polls, the transition loop, scheduled wake-ups, the
  report loop with its guard interval and reconcile passes, once a first report has been sent: as long as the current
  verdict differs from the one the last report was built with, a signal, a delay, a scheduled or pending wake-up or a
  timer is underway, so that another report will follow; and when nothing is underway while VPP is gone, the last report
  the controller got says that VPP is gone and that the data plane is down.\<close>

theorem vpp_loss_reaches_controller:
  assumes "rp_sent (ul_rep u) = x # rest" and "u = uplink_run c edge ifs live evs"
  shows "(ul_seen u = Some (vpp_gone u) \<or> underway u) \<and> (vpp_gone u \<and> \<not> underway u \<longrightarrow> says_gone (snd (snd x)))"
  using uplink_run_inv [of c edge ifs live evs] assms by (auto simp: uplink_inv_def)

text \<open>What is underway completes: on a link that went down, taking the signal, letting the delay (below the jitter bound)
  pass and waking the report loop after the guard interval sends a report that says so.\<close>

lemma loss_reported_in_order:
  assumes "ul_observed u = Some h" "ul_loop u = AwaitTransition" "cn_healthNotify (ul_conn u)" "\<not> Healthy (ul_conn u)"
    and "0 \<le> jitter" "jitter < reportDownJitterMax" and "\<forall>t. rp_lastSend (ul_rep u) = Some t \<longrightarrow> t + wakeMinInterval \<le> late"
  shows "\<exists>r. let u' = fold (uplink_step c edge ifs) [UTakeTransition jitter now, UDelayOver, UWoken late s env] u
    in rp_sent (ul_rep u') = (late, True, r) # rp_sent (ul_rep u) \<and> says_gone r \<and>
      ul_loop (uplink_step c edge ifs (UTakeTransition jitter now) u) = Delaying (now + jitter)"
proof -
  let ?u = "u\<lparr>ul_conn := (ul_conn u)\<lparr>cn_healthNotify := False\<rparr>, ul_loop := AwaitTransition, ul_rep := Reporter_Wake (ul_rep u)\<rparr>"
  obtain r where r: "uplinkBuild c edge ifs s env ?u = Some r" using build_some [of ?u c edge ifs s env] assms(1) by auto
  have "says_gone r" using build_gone [OF r] assms(4) by (simp add: Healthy_def vpp_gone_def)
  with r show ?thesis
    using assms(2-4,7)
    by (auto simp: takeTransition_def delayOver_def transitionDelay_def Healthy_def reported_def Reporter_Wake_def send_def Let_def
        split: option.splits)
qed

theorem vpp_loss_reaches_controller_witness:
  "\<forall>c. \<exists>u. u = uplink_run c ''e1'' [] None [UEvent (Connected None), UPass ex_health, UTick 100 ex_fault_sample ex_report_env,
      UEvent Disconnected, UTakeTransition 700 1000, UDelayOver, UWoken 1700 ex_fault_sample ex_report_env] \<and>
    length (rp_sent (ul_rep u)) = 2 \<and> vpp_gone u \<and> \<not> underway u \<and> says_gone (snd (snd (hd (rp_sent (ul_rep u)))))"
proof
  fix c
  define u where "u = uplink_run c ''e1'' [] None [UEvent (Connected None), UPass ex_health, UTick 100 ex_fault_sample ex_report_env,
      UEvent Disconnected, UTakeTransition 700 1000, UDelayOver, UWoken 1700 ex_fault_sample ex_report_env]"
  have st: "length (rp_sent (ul_rep u)) = 2" "vpp_gone u" "\<not> underway u"
    by (simp_all add: u_def uplink_run_def uplink_init_def Conn_init_def setHealthy_def signalReady_def notifyReconnect_def Let_def reported_def
        uplinkBuild_def Build_def send_def NewReporter_def takeTransition_def delayOver_def Reporter_Wake_def Healthy_def transitionDelay_def
        wakeMinInterval_def underway_def pending_wake_def vpp_gone_def)
  then obtain x rest where x: "rp_sent (ul_rep u) = x # rest" by (cases "rp_sent (ul_rep u)") auto
  have "says_gone (snd (snd x))"
    using vpp_loss_reaches_controller [OF x u_def] st by simp
  with x st show "\<exists>u. u = uplink_run c ''e1'' [] None [UEvent (Connected None), UPass ex_health, UTick 100 ex_fault_sample ex_report_env,
      UEvent Disconnected, UTakeTransition 700 1000, UDelayOver, UWoken 1700 ex_fault_sample ex_report_env] \<and>
    length (rp_sent (ul_rep u)) = 2 \<and> vpp_gone u \<and> \<not> underway u \<and> says_gone (snd (snd (hd (rp_sent (ul_rep u)))))"
    by (intro exI [of _ u]) (simp add: u_def [symmetric])
qed

end
