(* ===== verification/Metrics.thy ===== *)
theory Metrics
  imports Liveness Complex_Main
begin

text \<open>
  \<open>internal/metrics/metrics.go\<close>: the Prometheus surface. A collector is its current value; \<open>rnd\<close> is the
  rounding of a real number to the nearest \<open>float64\<close>, \<open>stateCode\<close> the number of a health state in the
  contract module. Prometheus counters refuse to go down and the registry refuses a second
  collector of the same name: both panic, which is the value \<open>None\<close>.
\<close>

record Metrics =
  mt_reconcilePasses :: real
  mt_reconcileErrors :: real
  mt_repairs :: real
  mt_healthState :: real
  mt_vppConnected :: real
  mt_birdFeedFails :: real
  mt_birdFeedLastOK :: real
  mt_policersDesired :: real
  mt_sessionsDesired :: real
  mt_generation :: real
  mt_frozen :: real
  mt_dataPlanePhase :: real

text \<open>\<open>New\<close> registers the collectors one by one.\<close>

definition collectorNames :: "string list" where
  "collectorNames =
     [''sbw_agent_reconcile_passes_total'', ''sbw_agent_reconcile_errors_total'', ''sbw_agent_reconcile_repairs_total'',
      ''sbw_agent_health_state'', ''sbw_agent_vpp_connected'', ''sbw_agent_bird_feed_consecutive_failures'',
      ''sbw_agent_bird_feed_last_success_timestamp_seconds'', ''sbw_agent_policers_desired'',
      ''sbw_agent_classify_sessions_desired'', ''sbw_agent_desired_generation'', ''sbw_agent_controller_frozen'',
      ''sbw_agent_dataplane_phase'']"

definition MustRegister :: "string \<Rightarrow> string list option \<Rightarrow> string list option" where
  "MustRegister name reg = (case reg of None \<Rightarrow> None | Some names \<Rightarrow> if name \<in> set names then None else Some (names @ [name]))"

definition Metrics_zero :: Metrics where
  "Metrics_zero = \<lparr>mt_reconcilePasses = 0, mt_reconcileErrors = 0, mt_repairs = 0, mt_healthState = 0, mt_vppConnected = 0, mt_birdFeedFails = 0,
     mt_birdFeedLastOK = 0, mt_policersDesired = 0, mt_sessionsDesired = 0, mt_generation = 0, mt_frozen = 0, mt_dataPlanePhase = 0\<rparr>"

definition Metrics_New :: "Metrics option" where
  "Metrics_New = map_option (\<lambda>_. Metrics_zero) (fold MustRegister collectorNames (Some []))"

definition counterAdd :: "real \<Rightarrow> real \<Rightarrow> real option" where
  "counterAdd v x = (if v < 0 then None else Some (x + v))"

definition boolGauge :: "bool \<Rightarrow> real" where
  "boolGauge b = (if b then 1 else 0)"

text \<open>The recording methods do nothing on a nil receiver.\<close>

definition RecordReconcile :: "error option \<Rightarrow> Metrics option \<Rightarrow> Metrics option" where
  "RecordReconcile reconcileErr =
     map_option (\<lambda>m. let m1 = m\<lparr>mt_reconcilePasses := mt_reconcilePasses m + 1\<rparr>
       in if reconcileErr \<noteq> None then m1\<lparr>mt_reconcileErrors := mt_reconcileErrors m1 + 1\<rparr> else m1)"

definition RecordHealth :: "(real \<Rightarrow> real) \<Rightarrow> (HealthState \<Rightarrow> int) \<Rightarrow> HealthReport \<Rightarrow> Metrics option \<Rightarrow> Metrics option option" where
  "RecordHealth rnd stateCode r mo =
     (case mo of
        None \<Rightarrow> Some None
      | Some m \<Rightarrow>
          (case counterAdd (rnd (of_int (hr_RepairActions r))) (mt_repairs m) of
             None \<Rightarrow> None
           | Some reps \<Rightarrow> Some (Some (m\<lparr>mt_repairs := reps, mt_healthState := rnd (of_int (stateCode (hr_State r))),
               mt_policersDesired := rnd (of_int (hr_PolicersDesired r)), mt_sessionsDesired := rnd (of_int (hr_SessionsDesired r)),
               mt_generation := rnd (of_int (uint (hr_GenerationApplied r))), mt_vppConnected := boolGauge (hr_VPPConnected r)\<rparr>))))"

definition RecordBirdFeed :: "(real \<Rightarrow> real) \<Rightarrow> int \<Rightarrow> int \<Rightarrow> Metrics option \<Rightarrow> Metrics option" where
  "RecordBirdFeed rnd fails lastOKUnixMs =
     map_option (\<lambda>m. m\<lparr>mt_birdFeedFails := rnd (of_int fails), mt_birdFeedLastOK := rnd (rnd (of_int lastOKUnixMs) / 1000)\<rparr>)"

fun phaseCode :: "DataPlanePhase \<Rightarrow> real" where
  "phaseCode PhaseReady = 0"
| "phaseCode PhaseReconciling = 1"
| "phaseCode PhasePending = 2"
| "phaseCode PhaseDegraded = 3"
| "phaseCode PhaseDead = 4"
| "phaseCode PhaseUnknown = - 1"

definition RecordPhase :: "DataPlanePhase \<Rightarrow> Metrics option \<Rightarrow> Metrics option" where
  "RecordPhase p = map_option (\<lambda>m. m\<lparr>mt_dataPlanePhase := phaseCode p\<rparr>)"

definition RecordDesiredStatus :: "(real \<Rightarrow> real) \<Rightarrow> bool \<Rightarrow> u64 \<Rightarrow> Metrics option \<Rightarrow> Metrics option" where
  "RecordDesiredStatus rnd isFrozen generation =
     map_option (\<lambda>m. let m1 = m\<lparr>mt_frozen := boolGauge isFrozen\<rparr>
       in if 0 < generation then m1\<lparr>mt_generation := rnd (of_int (uint generation))\<rparr> else m1)"

subsection \<open>Properties\<close>

lemma MustRegister_all:
  "distinct (names @ rest) \<Longrightarrow> fold MustRegister rest (Some names) = Some (names @ rest)"
  by (induction rest arbitrary: names) (simp_all add: MustRegister_def)

text \<open>Building the metrics never panics: the collectors have different names.\<close>

lemma Metrics_New_ok: "Metrics_New = Some Metrics_zero"
proof -
  have "distinct ([] @ collectorNames)" unfolding collectorNames_def by code_simp
  from MustRegister_all [OF this] show ?thesis by (simp add: Metrics_New_def)
qed

text \<open>The phase gauge tells the phases apart.\<close>

lemma phaseCode_inj: "phaseCode p = phaseCode q \<longleftrightarrow> p = q"
  by (cases p; cases q) simp_all

text \<open>Rounding: what a \<open>float64\<close> does to the integers it represents exactly.\<close>

definition exact53 :: "(real \<Rightarrow> real) \<Rightarrow> bool" where
  "exact53 rnd \<longleftrightarrow> (\<forall>n :: int. \<bar>n\<bar> \<le> 2 ^ 53 \<longrightarrow> rnd (of_int n) = of_int n)"

text \<open>A report of a pass is recorded exactly: its repair actions are never negative, so the counter does not panic, and
  below \<open>2 ^ 53\<close> the gauges hold the report's numbers.\<close>

lemma RecordHealth_exact:
  assumes "exact53 rnd" and "0 \<le> hr_RepairActions r" and "hr_RepairActions r \<le> 2 ^ 53" and "uint (hr_GenerationApplied r) \<le> 2 ^ 53"
  shows "\<exists>m'. RecordHealth rnd stateCode r (Some m) = Some (Some m') \<and> mt_repairs m' = mt_repairs m + of_int (hr_RepairActions r) \<and>
    mt_generation m' = of_int (uint (hr_GenerationApplied r)) \<and> (mt_vppConnected m' = 1 \<longleftrightarrow> hr_VPPConnected r)"
proof -
  have "rnd (of_int (hr_RepairActions r)) = of_int (hr_RepairActions r)"
    using assms(1-3) unfolding exact53_def by simp
  moreover have "rnd (of_int (uint (hr_GenerationApplied r))) = of_int (uint (hr_GenerationApplied r))"
    using assms(1,4) unfolding exact53_def by (metis abs_of_nonneg unsigned_greater_eq)
  ultimately show ?thesis using assms(2) by (simp add: RecordHealth_def counterAdd_def boolGauge_def)
qed

end
