(* ===== verification/Metering.thy ===== *)
theory Metering
  imports Reconcile
begin

text \<open>
  \<open>internal/vpp/stats.go\<close> and \<open>internal/agent/metering.go\<close>: reading VPP's stats segment and turning the policer
  counters into metering samples. The adapter's \<open>DumpStats\<close> is a parameter; a scalar gauge is a \<open>float64\<close> of
  an abstract type \<open>'f\<close>, converted by the parameter \<open>toU64\<close>.
\<close>

subsection \<open>stats.go\<close>

datatype 'f stat_data = CombinedCounterStat "(u64 \<times> u64) list list" | ScalarStat 'f | OtherStat

record 'f stat_entry =
  se_Name :: string
  se_Data :: "'f stat_data"

definition IsStatsDisconnected :: "error \<Rightarrow> bool" where
  "IsStatsDisconnected err = (err = ErrStatsDisconnected)"

record PolicerCounters =
  pc_ConformPackets :: u64
  pc_ConformBytes :: u64
  pc_ExceedPackets :: u64
  pc_ExceedBytes :: u64
  pc_ViolatePackets :: u64
  pc_ViolateBytes :: u64

definition PolicerCounters_zero :: PolicerCounters where
  "PolicerCounters_zero = \<lparr>pc_ConformPackets = 0, pc_ConformBytes = 0, pc_ExceedPackets = 0, pc_ExceedBytes = 0, pc_ViolatePackets = 0, pc_ViolateBytes = 0\<rparr>"

definition statPolicerConform :: string where "statPolicerConform = ''/net/policer/conform''"
definition statPolicerExceed :: string where "statPolicerExceed = ''/net/policer/exceed''"
definition statPolicerViolate :: string where "statPolicerViolate = ''/net/policer/violate''"

definition HasSuffix :: "string \<Rightarrow> string \<Rightarrow> bool" where
  "HasSuffix s suf = (length suf \<le> length s \<and> drop (length s - length suf) s = suf)"

text \<open>govpp's per-interface counters, with the fields the agent reads, and the agent's own struct.\<close>

record InterfaceCounters =
  ic_InterfaceIndex :: u32
  ic_InterfaceName :: string
  ic_Rx :: "u64 \<times> u64"
  ic_Tx :: "u64 \<times> u64"
  ic_Drops :: u64
  ic_RxErrors :: u64
  ic_RxMiss :: u64
  ic_RxNoBuf :: u64
  ic_Punts :: u64

record InterfaceStats =
  is_SwIfIndex :: u32
  is_Name :: string
  is_RxPackets :: u64
  is_RxBytes :: u64
  is_TxPackets :: u64
  is_TxBytes :: u64
  is_Drops :: u64
  is_RxErrors :: u64
  is_RxMiss :: u64
  is_RxNoBuf :: u64
  is_Punts :: u64

definition foldInterfaceStats :: "InterfaceCounters list \<Rightarrow> InterfaceStats list" where
  "foldInterfaceStats ifs =
     map (\<lambda>c. \<lparr>is_SwIfIndex = ic_InterfaceIndex c, is_Name = ic_InterfaceName c, is_RxPackets = fst (ic_Rx c), is_RxBytes = snd (ic_Rx c),
       is_TxPackets = fst (ic_Tx c), is_TxBytes = snd (ic_Tx c), is_Drops = ic_Drops c, is_RxErrors = ic_RxErrors c, is_RxMiss = ic_RxMiss c,
       is_RxNoBuf = ic_RxNoBuf c, is_Punts = ic_Punts c\<rparr>) ifs"

record ErrorStat =
  es_ErrName :: string
  es_Count :: u64

definition foldErrorStats :: "(string \<times> u64 list) list \<Rightarrow> ErrorStat list" where
  "foldErrorStats es =
     foldl (\<lambda>out (name, vs). let total = foldl (+) 0 vs in if total = 0 then out else out @ [\<lparr>es_ErrName = name, es_Count = total\<rparr>]) [] es"

text \<open>The reads over govpp's high-level connection, whose answers are the parameters.\<close>

definition ReadInterfaceStats :: "error + InterfaceCounters list \<Rightarrow> error + InterfaceStats list" where
  "ReadInterfaceStats got = (case got of Inl e \<Rightarrow> Inl e | Inr ifs \<Rightarrow> Inr (foldInterfaceStats ifs))"

definition ReadErrorStats :: "error + (string \<times> u64 list) list \<Rightarrow> error + ErrorStat list" where
  "ReadErrorStats got = (case got of Inl e \<Rightarrow> Inl e | Inr es \<Rightarrow> Inr (foldErrorStats es))"

text \<open>Exactly the counters that fired are reported, in the order of the segment, each with its sum over the threads.\<close>

lemma foldErrorStats_fired:
  "map (\<lambda>e. (es_ErrName e, es_Count e)) (foldErrorStats es) = filter (\<lambda>(_, n). n \<noteq> 0) (map (\<lambda>(name, vs). (name, sum_list vs)) es)"
proof -
  have total: "foldl (+) n vs = n + sum_list vs" for n :: u64 and vs by (induction vs arbitrary: n) (simp_all add: add.assoc)
  show ?thesis by (induction es rule: rev_induct) (auto simp: foldErrorStats_def Let_def total split: prod.splits)
qed

fun gaugeOf :: "('f \<Rightarrow> u64) \<Rightarrow> string \<Rightarrow> 'f stat_entry list \<Rightarrow> error + u64" where
  "gaugeOf toU64 name [] = Inl ErrStats"
| "gaugeOf toU64 name (e # es) =
     (if se_Name e \<noteq> name then gaugeOf toU64 name es
      else (case se_Data e of ScalarStat v \<Rightarrow> Inr (toU64 v) | _ \<Rightarrow> Inl ErrStats))"

definition ReadGauge :: "('f \<Rightarrow> u64) \<Rightarrow> (string list \<Rightarrow> error + 'f stat_entry list) \<Rightarrow> string \<Rightarrow> error + u64" where
  "ReadGauge toU64 dumpStats name = (case dumpStats [name] of Inl e \<Rightarrow> Inl e | Inr es \<Rightarrow> gaugeOf toU64 name es)"

definition indexCount :: "(u64 \<times> u64) list list \<Rightarrow> nat" where
  "indexCount ccs = foldl (\<lambda>n thread. if length thread > n then length thread else n) 0 ccs"

definition threadSums :: "nat \<Rightarrow> (u64 \<times> u64) list list \<Rightarrow> u64 \<times> u64" where
  "threadSums i ccs =
     foldl (\<lambda>(pkts, bytes) thread. if i < length thread then (pkts + fst (thread ! i), bytes + snd (thread ! i)) else (pkts, bytes)) (0, 0) ccs"

definition setCounters :: "string \<Rightarrow> u64 \<times> u64 \<Rightarrow> PolicerCounters \<Rightarrow> PolicerCounters" where
  "setCounters name s c =
     (if HasSuffix name ''conform'' then c\<lparr>pc_ConformPackets := fst s, pc_ConformBytes := snd s\<rparr>
      else if HasSuffix name ''exceed'' then c\<lparr>pc_ExceedPackets := fst s, pc_ExceedBytes := snd s\<rparr>
      else if HasSuffix name ''violate'' then c\<lparr>pc_ViolatePackets := fst s, pc_ViolateBytes := snd s\<rparr>
      else c)"

definition countersAt :: "(u32, PolicerCounters) gomap \<Rightarrow> u32 \<Rightarrow> PolicerCounters" where
  "countersAt m i = (case gm_get m i of None \<Rightarrow> PolicerCounters_zero | Some c \<Rightarrow> c)"

definition readEntry :: "'f stat_entry \<Rightarrow> (u32, PolicerCounters) gomap \<Rightarrow> (u32, PolicerCounters) gomap" where
  "readEntry e out =
     (case se_Data e of
        CombinedCounterStat ccs \<Rightarrow>
          fold (\<lambda>i out. gm_put (of_nat i) (setCounters (se_Name e) (threadSums i ccs) (countersAt out (of_nat i))) out) [0 ..< indexCount ccs] out
      | _ \<Rightarrow> out)"

definition ReadPolicers :: "(string list \<Rightarrow> error + 'f stat_entry list) \<Rightarrow> error + (u32, PolicerCounters) gomap" where
  "ReadPolicers dumpStats =
     (case dumpStats [statPolicerConform, statPolicerExceed, statPolicerViolate] of
        Inl e \<Rightarrow> Inl e
      | Inr es \<Rightarrow> Inr (fold readEntry es []))"

subsection \<open>metering.go\<close>

record MeteringSample =
  ms_TS :: int
  ms_Edge :: string
  ms_PoolID :: u64
  ms_Dir :: string
  ms_ConformPkts :: u64
  ms_ConformBytes :: u64
  ms_ExceedPkts :: u64
  ms_ExceedBytes :: u64
  ms_ViolatePkts :: u64
  ms_ViolateBytes :: u64

definition sampleOf :: "int \<Rightarrow> string \<Rightarrow> PoolID \<Rightarrow> string \<Rightarrow> PolicerCounters \<Rightarrow> MeteringSample" where
  "sampleOf ts edge pool dir c =
     \<lparr>ms_TS = ts, ms_Edge = edge, ms_PoolID = pool, ms_Dir = dir, ms_ConformPkts = pc_ConformPackets c, ms_ConformBytes = pc_ConformBytes c,
      ms_ExceedPkts = pc_ExceedPackets c, ms_ExceedBytes = pc_ExceedBytes c, ms_ViolatePkts = pc_ViolatePackets c, ms_ViolateBytes = pc_ViolateBytes c\<rparr>"

definition Metering_loop :: "contract_fns \<Rightarrow> int \<Rightarrow> string \<Rightarrow> (u32, PolicerCounters) gomap \<Rightarrow> (string, u32) gomap \<Rightarrow> string list \<Rightarrow> MeteringSample list" where
  "Metering_loop c ts edge counters idx names =
     foldl (\<lambda>out name.
        case (ParsePolicerName c name, gm_get idx name) of
          (Some (pool, dir), Some i) \<Rightarrow> out @ [sampleOf ts edge pool dir (countersAt counters i)]
        | _ \<Rightarrow> out) [] names"

definition Metering_Collect :: "contract_fns \<Rightarrow> (string list \<Rightarrow> string list) \<Rightarrow> (string list \<Rightarrow> error + 'f stat_entry list) \<Rightarrow> int \<Rightarrow> string \<Rightarrow>
    (string, u32) gomap \<Rightarrow> error + MeteringSample list" where
  "Metering_Collect c ord dumpStats ts edge idx =
     (case ReadPolicers dumpStats of
        Inl e \<Rightarrow> Inl e
      | Inr counters \<Rightarrow> Inr (Metering_loop c ts edge counters idx (ord (gm_keys idx))))"

text \<open>One tick of \<open>Run\<close>: the batch handed to the sink, if any. The result of \<open>Emit\<close> is only logged.\<close>

definition meter_tick :: "error + MeteringSample list \<Rightarrow> MeteringSample list option" where
  "meter_tick collected = (case collected of Inl e \<Rightarrow> None | Inr samples \<Rightarrow> if samples = [] then None else Some samples)"

subsection \<open>The counters are the per-thread sums\<close>

definition colSum :: "(u64 \<times> u64 \<Rightarrow> u64) \<Rightarrow> nat \<Rightarrow> (u64 \<times> u64) list list \<Rightarrow> u64" where
  "colSum f i ccs = sum_list (map (\<lambda>t. if i < length t then f (t ! i) else 0) ccs)"

lemma threadSums_colSum: "threadSums i ccs = (colSum fst i ccs, colSum snd i ccs)"
proof -
  have "foldl (\<lambda>(pkts, bytes) thread. if i < length thread then (pkts + fst (thread ! i), bytes + snd (thread ! i)) else (pkts, bytes)) (p, b) ccs =
      (p + colSum fst i ccs, b + colSum snd i ccs)" for p b
    by (induction ccs arbitrary: p b) (auto simp: colSum_def add.assoc)
  from this [of 0 0] show ?thesis by (simp add: threadSums_def)
qed

lemma indexCount_le: "t \<in> set ccs \<Longrightarrow> length t \<le> indexCount ccs"
proof -
  have mono: "n \<le> foldl (\<lambda>n thread. if length thread > n then length thread else n) n ccs" for n and ccs :: "(u64 \<times> u64) list list"
  proof (induction ccs arbitrary: n)
    case (Cons t ccs)
    show ?case using Cons.IH [of n] Cons.IH [of "length t"] by (auto intro: less_imp_le order_trans)
  qed simp
  have "t \<in> set ccs \<Longrightarrow> length t \<le> foldl (\<lambda>n thread. if length thread > n then length thread else n) n ccs" for n
  proof (induction ccs arbitrary: n)
    case (Cons s ccs)
    then show ?case using mono [of "if length s > n then length s else n" ccs] by (auto split: if_splits)
  qed simp
  then show "t \<in> set ccs \<Longrightarrow> length t \<le> indexCount ccs" by (simp add: indexCount_def)
qed

lemma colSum_beyond: "indexCount ccs \<le> i \<Longrightarrow> colSum f i ccs = 0"
proof -
  assume "indexCount ccs \<le> i"
  then have "\<not> i < length t" if "t \<in> set ccs" for t using indexCount_le [OF that] by simp
  then have "map (\<lambda>t. if i < length t then f (t ! i) else 0) ccs = map (\<lambda>_. 0) ccs" by simp
  then show ?thesis unfolding colSum_def by (simp only: sum_list_0)
qed

lemma countersAt_readEntry:
  assumes "se_Data e = CombinedCounterStat ccs" and "indexCount ccs \<le> 2 ^ 32"
  shows "countersAt (readEntry e out) i =
    (if unat i < indexCount ccs then setCounters (se_Name e) (threadSums (unat i) ccs) (countersAt out i) else countersAt out i)"
proof -
  have "n \<le> 2 ^ 32 \<Longrightarrow>
      countersAt (fold (\<lambda>i out. gm_put (of_nat i) (setCounters (se_Name e) (threadSums i ccs) (countersAt out (of_nat i))) out) [0 ..< n] out) i =
      (if unat i < n then setCounters (se_Name e) (threadSums (unat i) ccs) (countersAt out i) else countersAt out i)" for n
  proof (induction n)
    case (Suc n)
    then have n: "n < 2 ^ 32" by simp
    have "i = of_nat n \<longleftrightarrow> unat i = n" using n by (auto simp: unat_of_nat)
    with Suc show ?case by (auto simp: countersAt_def gm_simps less_Suc_eq)
  qed simp
  from this [OF assms(2)] show ?thesis by (simp add: readEntry_def assms(1))
qed

text \<open>The three vectors, in any order.\<close>

definition policer_vectors :: "(u64 \<times> u64) list list \<Rightarrow> (u64 \<times> u64) list list \<Rightarrow> (u64 \<times> u64) list list \<Rightarrow> 'f stat_entry list" where
  "policer_vectors C E V =
     [\<lparr>se_Name = statPolicerConform, se_Data = CombinedCounterStat C\<rparr>, \<lparr>se_Name = statPolicerExceed, se_Data = CombinedCounterStat E\<rparr>,
      \<lparr>se_Name = statPolicerViolate, se_Data = CombinedCounterStat V\<rparr>]"

definition summed :: "(u64 \<times> u64) list list \<Rightarrow> (u64 \<times> u64) list list \<Rightarrow> (u64 \<times> u64) list list \<Rightarrow> nat \<Rightarrow> PolicerCounters" where
  "summed C E V i =
     \<lparr>pc_ConformPackets = colSum fst i C, pc_ConformBytes = colSum snd i C, pc_ExceedPackets = colSum fst i E, pc_ExceedBytes = colSum snd i E,
      pc_ViolatePackets = colSum fst i V, pc_ViolateBytes = colSum snd i V\<rparr>"

lemma suffixes:
  "HasSuffix statPolicerConform ''conform''" "\<not> HasSuffix statPolicerExceed ''conform''" "HasSuffix statPolicerExceed ''exceed''"
  "\<not> HasSuffix statPolicerViolate ''conform''" "\<not> HasSuffix statPolicerViolate ''exceed''" "HasSuffix statPolicerViolate ''violate''"
  by (simp_all add: HasSuffix_def statPolicerConform_def statPolicerExceed_def statPolicerViolate_def)

lemma perm2: "{#y, z#} = {#b, c#} \<Longrightarrow> y = b \<and> z = c \<or> y = c \<and> z = b"
  by (auto simp: add_eq_conv_ex)

lemma perm3: "mset xs = mset [a, b, c] \<Longrightarrow> xs \<in> {[a, b, c], [a, c, b], [b, a, c], [b, c, a], [c, a, b], [c, b, a]}"
proof -
  assume m: "mset xs = mset [a, b, c]"
  then have "length xs = 3" using mset_eq_length by fastforce
  then obtain x y z where xs: "xs = [x, y, z]" by (auto simp: numeral_3_eq_3 length_Suc_conv)
  have "x \<in> set [a, b, c]" using mset_eq_setD [OF m] by (auto simp: xs)
  then consider "x = a" | "x = b" | "x = c" by auto
  then show ?thesis
  proof cases
    case 1
    then have "{#y, z#} = {#b, c#}" using m by (simp add: xs)
    from perm2 [OF this] 1 show ?thesis by (elim disjE) (simp_all add: xs)
  next
    case 2
    have "add_mset b {#y, z#} = {#a, b, c#}" using m 2 by (simp only: xs mset.simps)
    also have "\<dots> = add_mset b {#a, c#}" by (rule add_mset_commute)
    finally have "add_mset b {#y, z#} = add_mset b {#a, c#}" .
    then have "{#y, z#} = {#a, c#}" by simp
    from perm2 [OF this] 2 show ?thesis by (elim disjE) (simp_all add: xs)
  next
    case 3
    have "add_mset c {#y, z#} = {#a, b, c#}" using m 3 by (simp only: xs mset.simps)
    also have "\<dots> = {#a, c, b#}" by (simp only: add_mset_commute [of b c])
    also have "\<dots> = add_mset c {#a, b#}" by (rule add_mset_commute)
    finally have "add_mset c {#y, z#} = add_mset c {#a, b#}" .
    then have "{#y, z#} = {#a, b#}" by simp
    from perm2 [OF this] 3 show ?thesis by (elim disjE) (simp_all add: xs)
  qed
qed

lemma counters_summed:
  assumes "mset es = mset (policer_vectors C E V)" and "indexCount C \<le> 2 ^ 32" "indexCount E \<le> 2 ^ 32" "indexCount V \<le> 2 ^ 32"
  shows "countersAt (fold readEntry es []) i = summed C E V (unat i)"
proof -
  have z: "countersAt [] i = PolicerCounters_zero" by (simp add: countersAt_def)
  show ?thesis
    using perm3 [OF assms(1) [unfolded policer_vectors_def]] assms(2-)
    by (elim insertE emptyE)
      (simp_all add: countersAt_readEntry [where ccs = C] countersAt_readEntry [where ccs = E] countersAt_readEntry [where ccs = V] z summed_def
        PolicerCounters_zero_def setCounters_def suffixes threadSums_colSum colSum_beyond)
qed

lemma Metering_loop_map:
  assumes "set names \<subseteq> dom (gm_get idx)"
  shows "Metering_loop c ts edge counters idx names =
    map (\<lambda>name. case ParsePolicerName c name of Some (pool, dir) \<Rightarrow> sampleOf ts edge pool dir (countersAt counters (the (gm_get idx name))))
      (filter (\<lambda>name. ParsePolicerName c name \<noteq> None) names)"
  using assms
proof (induction names rule: rev_induct)
  case (snoc name names)
  then obtain i where "gm_get idx name = Some i" by auto
  with snoc show ?case by (auto simp: Metering_loop_def split: option.splits prod.splits)
qed (simp add: Metering_loop_def)

text \<open>C27: metering is exact. If the stats segment delivers the three policer vectors (in any order, with any number of
  threads of any lengths), a collection emits exactly one sample per tracked policer whose name is a pool's,
  for any iteration order: for that pool and direction, with each of the six counters equal to the sum over
  all threads of that policer's column modulo \<open>2 ^ 64\<close>, and zero where a thread has no such column. Other names
  produce nothing; nothing is emitted when the read fails.\<close>

theorem metering_exact:
  assumes "dumpStats [statPolicerConform, statPolicerExceed, statPolicerViolate] = Inr es"
    and "mset es = mset (policer_vectors C E V)" and "indexCount C \<le> 2 ^ 32" "indexCount E \<le> 2 ^ 32" "indexCount V \<le> 2 ^ 32"
    and "gm_wf idx" and "range_order ord"
  shows "\<exists>samples. Metering_Collect c ord dumpStats ts edge idx = Inr samples \<and>
    length samples = length (filter (\<lambda>name. ParsePolicerName c name \<noteq> None) (gm_keys idx)) \<and>
    set samples = {sampleOf ts edge pool dir (summed C E V (unat i)) | name pool dir i.
      gm_get idx name = Some i \<and> ParsePolicerName c name = Some (pool, dir)}"
proof -
  let ?names = "ord (gm_keys idx)" and ?cs = "fold readEntry es []" and ?P = "\<lambda>name. ParsePolicerName c name \<noteq> None"
  have keys: "set ?names = dom (gm_get idx)" and ms: "mset ?names = mset (gm_keys idx)"
    by (simp only: range_order.ord_set [OF assms(7)] gm_keys_dom) (rule range_order.ord_mset [OF assms(7)])
  define samples where "samples = Metering_loop c ts edge ?cs idx ?names"
  have map: "samples = map (\<lambda>name. case ParsePolicerName c name of
      Some (pool, dir) \<Rightarrow> sampleOf ts edge pool dir (countersAt ?cs (the (gm_get idx name)))) (filter ?P ?names)"
    unfolding samples_def using keys by (intro Metering_loop_map) simp
  have "length samples = length (filter ?P (gm_keys idx))"
  proof -
    have "mset (filter ?P ?names) = mset (filter ?P (gm_keys idx))" by (simp only: mset_filter ms)
    then have "length (filter ?P ?names) = length (filter ?P (gm_keys idx))" by (rule mset_eq_length)
    then show ?thesis unfolding map by (simp only: length_map)
  qed
  moreover have "set samples = {sampleOf ts edge pool dir (summed C E V (unat i)) | name pool dir i.
      gm_get idx name = Some i \<and> ParsePolicerName c name = Some (pool, dir)}" (is "_ = ?S")
  proof (intro set_eqI iffI)
    fix x assume "x \<in> set samples"
    then obtain name where "name \<in> set ?names" "?P name"
      and x: "x = (case ParsePolicerName c name of Some (pool, dir) \<Rightarrow> sampleOf ts edge pool dir (countersAt ?cs (the (gm_get idx name))))"
      by (auto simp: map)
    then obtain i pool dir where "gm_get idx name = Some i" "ParsePolicerName c name = Some (pool, dir)" using keys by auto
    then show "x \<in> ?S" using x counters_summed [OF assms(2-5), of i] by auto
  next
    fix x assume "x \<in> ?S"
    then obtain name pool dir i where n: "gm_get idx name = Some i" "ParsePolicerName c name = Some (pool, dir)"
      and x: "x = sampleOf ts edge pool dir (summed C E V (unat i))" by auto
    have "x = (case ParsePolicerName c name of Some (pool, dir) \<Rightarrow> sampleOf ts edge pool dir (countersAt ?cs (the (gm_get idx name))))"
      using n x counters_summed [OF assms(2-5), of i] by simp
    moreover have "name \<in> set (filter ?P ?names)" using n keys by auto
    ultimately show "x \<in> set samples" unfolding map by (auto intro!: image_eqI [of x _ name])
  qed
  moreover have "Metering_Collect c ord dumpStats ts edge idx = Inr samples"
    by (simp add: Metering_Collect_def ReadPolicers_def assms(1) samples_def)
  ultimately show ?thesis by blast
qed

definition ex_meter_fns :: "contract_fns \<Rightarrow> contract_fns" where
  "ex_meter_fns c = c\<lparr>ParsePolicerName := \<lambda>n. if take 4 n = ''pool'' then Some (7, ''in'') else None\<rparr>"

definition ex_dump :: "string list \<Rightarrow> error + unit stat_entry list" where
  "ex_dump names = Inr (rev (policer_vectors [[(1, 10), (2, 20)], [(3, 30)]] [[(0, 0), (5, 50)]] []))"

theorem metering_exact_witness:
  "\<forall>c. \<exists>samples. Metering_Collect (ex_meter_fns c) rev ex_dump 9 ''e1'' [(''pool-a'', 0), (''other'', 1)] = Inr samples \<and> length samples = 1 \<and>
     sampleOf 9 ''e1'' 7 ''in'' (summed [[(1, 10), (2, 20)], [(3, 30)]] [[(0, 0), (5, 50)]] [] 0) \<in> set samples"
proof
  fix c
  let ?C = "[[(1, 10), (2, 20)], [(3, 30)]] :: (u64 \<times> u64) list list" and ?E = "[[(0, 0), (5, 50)]] :: (u64 \<times> u64) list list"
    and ?idx = "[(''pool-a'', 0), (''other'', 1)] :: (string, u32) gomap"
  have d: "ex_dump [statPolicerConform, statPolicerExceed, statPolicerViolate] = Inr (rev (policer_vectors ?C ?E []))"
    by (simp add: ex_dump_def)
  have m: "mset (rev (policer_vectors ?C ?E [])) = mset (policer_vectors ?C ?E [] :: unit stat_entry list)" by simp
  have sizes: "indexCount ?C \<le> 2 ^ 32" "indexCount ?E \<le> 2 ^ 32" "indexCount [] \<le> 2 ^ 32" "gm_wf ?idx"
    by (simp_all add: indexCount_def)
  have parse: "ParsePolicerName (ex_meter_fns c) ''pool-a'' = Some (7, ''in'')" "ParsePolicerName (ex_meter_fns c) ''other'' = None"
    by (simp_all add: ex_meter_fns_def)
  obtain samples where s: "Metering_Collect (ex_meter_fns c) rev ex_dump 9 ''e1'' ?idx = Inr samples"
    and len: "length samples = length (filter (\<lambda>name. ParsePolicerName (ex_meter_fns c) name \<noteq> None) (gm_keys ?idx))"
    and set: "set samples = {sampleOf 9 ''e1'' pool dir (summed ?C ?E [] (unat i)) | name pool dir i.
      gm_get ?idx name = Some i \<and> ParsePolicerName (ex_meter_fns c) name = Some (pool, dir)}"
    using metering_exact [where dumpStats = ex_dump and C = ?C and E = ?E and V = "[]" and idx = ?idx and ord = rev and c = "ex_meter_fns c"
        and ts = 9 and edge = "''e1''", OF d m sizes range_rev.range_order_axioms] by blast
  have "gm_get ?idx ''pool-a'' = Some 0" by simp
  then have "sampleOf 9 ''e1'' 7 ''in'' (summed ?C ?E [] (unat (0 :: u32))) \<in> set samples" unfolding set using parse(1) by blast
  moreover have "length samples = 1" using parse by (simp add: len)
  ultimately show "\<exists>samples. Metering_Collect (ex_meter_fns c) rev ex_dump 9 ''e1'' ?idx = Inr samples \<and> length samples = 1 \<and>
      sampleOf 9 ''e1'' 7 ''in'' (summed ?C ?E [] 0) \<in> set samples"
    using s by auto
qed

end
