(* ===== verification/Go_Strings.thy ===== *)
theory Go_Strings
  imports Prelude
begin

text \<open>
  The parts of Go's \<open>strings\<close>, \<open>strconv\<close> and \<open>fmt\<close> that the BIRD components use. A Go string is a byte
  sequence, here a \<open>string\<close>. White space is the ASCII white space; BIRD's output and the agent's own files
  use no other. \<open>parseDec_dec\<close> and \<open>Atoi_code\<close> are the round trips of printing and reading numbers.
\<close>

subsection \<open>Numbers in decimal and hexadecimal\<close>

definition isDigit :: "char \<Rightarrow> bool" where
  "isDigit c \<longleftrightarrow> 48 \<le> (of_char c :: nat) \<and> (of_char c :: nat) \<le> 57"

definition digitVal :: "char \<Rightarrow> nat" where
  "digitVal c = of_char c - 48"

definition digitChar :: "nat \<Rightarrow> char" where
  "digitChar d = char_of (if d < 10 then 48 + d else 87 + d)"

fun showBase :: "nat \<Rightarrow> nat \<Rightarrow> string" where
  "showBase b n = (if b < 2 \<or> n < b then [digitChar n] else showBase b (n div b) @ [digitChar (n mod b)])"

declare showBase.simps [simp del]

abbreviation dec :: "nat \<Rightarrow> string" where "dec \<equiv> showBase 10"

definition padLeft :: "nat \<Rightarrow> string \<Rightarrow> string" where
  "padLeft k s = replicate (k - length s) CHR ''0'' @ s"

definition parseDec :: "string \<Rightarrow> nat" where
  "parseDec s = foldl (\<lambda>a c. a * 10 + digitVal c) 0 s"

text \<open>\<open>fmt\<close>'s \<open>%d\<close> of an \<open>int\<close>, and \<open>%04d\<close> of a code.\<close>

definition showInt :: "int \<Rightarrow> string" where
  "showInt i = (if i < 0 then CHR ''-'' # dec (nat (- i)) else dec (nat i))"

text \<open>\<open>strconv.Atoi\<close> on a 64-bit platform: an optional sign, then digits, in the range of \<open>int64\<close>.\<close>

definition signOf :: "string \<Rightarrow> bool \<times> string" where
  "signOf s = (case s of [] \<Rightarrow> (False, s)
     | c # t \<Rightarrow> if c = CHR ''-'' then (True, t) else if c = CHR ''+'' then (False, t) else (False, s))"

definition Atoi :: "string \<Rightarrow> int option" where
  "Atoi s =
     (let (neg, ds) = signOf s; v = (if neg then - int (parseDec ds) else int (parseDec ds))
      in if ds = [] \<or> \<not> list_all isDigit ds \<or> v < - (2 ^ 63) \<or> 2 ^ 63 \<le> v then None else Some v)"

text \<open>\<open>strconv.ParseUint(s, 10, bits)\<close>.\<close>

definition ParseUint :: "nat \<Rightarrow> string \<Rightarrow> nat option" where
  "ParseUint bits s = (if s = [] \<or> \<not> list_all isDigit s \<or> 2 ^ bits \<le> parseDec s then None else Some (parseDec s))"

lemma digitChar_val [simp]: "d < 10 \<Longrightarrow> digitVal (digitChar d) = d" and digitChar_digit [simp]: "d < 10 \<Longrightarrow> isDigit (digitChar d)"
  by (simp_all add: digitVal_def digitChar_def isDigit_def)

lemma parseDec_snoc [simp]: "parseDec (s @ [c]) = parseDec s * 10 + digitVal c" and parseDec_Nil [simp]: "parseDec [] = 0"
  by (simp_all add: parseDec_def)

lemma parseDec_dec [simp]: "parseDec (dec n) = n"
proof (induction n rule: less_induct)
  case (less n)
  then show ?case
    using parseDec_snoc [of "[]"] by (subst showBase.simps) simp
qed

lemma dec_digits [simp]: "list_all isDigit (dec n)"
proof (induction n rule: less_induct)
  case (less n)
  then show ?case by (subst showBase.simps) simp
qed

lemma showBase_nonempty [simp]: "showBase b n \<noteq> []"
  by (subst showBase.simps) simp

lemma dec_length: "n < 10 ^ k \<Longrightarrow> 0 < k \<Longrightarrow> length (dec n) \<le> k"
proof (induction k arbitrary: n)
  case (Suc k)
  show ?case
  proof (cases "n < 10")
    case True
    then show ?thesis by (subst showBase.simps) simp
  next
    case False
    then have "k \<noteq> 0" using Suc.prems(1) by (cases k) auto
    moreover have "n div 10 < 10 ^ k" using Suc.prems(1) by (simp add: less_mult_imp_div_less)
    ultimately have "length (dec (n div 10)) \<le> k" using Suc.IH by simp
    then show ?thesis using False by (subst showBase.simps) simp
  qed
qed simp

lemma foldl_zeros: "foldl (\<lambda>a c. a * 10 + digitVal c) 0 (replicate k CHR ''0'' @ s) = parseDec s"
  by (induction k) (simp_all add: parseDec_def digitVal_def)

lemma parseDec_pad [simp]: "parseDec (padLeft k s) = parseDec s"
  unfolding padLeft_def by (subst parseDec_def) (rule foldl_zeros)

lemma padLeft_digits: "list_all isDigit s \<Longrightarrow> list_all isDigit (padLeft k s)"
  by (auto simp: padLeft_def isDigit_def list_all_iff)

lemma padLeft_length: "length s \<le> k \<Longrightarrow> length (padLeft k s) = k"
  by (simp add: padLeft_def)

lemma digit_not_sign: "isDigit c \<Longrightarrow> c \<noteq> CHR ''-'' \<and> c \<noteq> CHR ''+'' \<and> c \<noteq> CHR '' '' \<and> c \<noteq> CHR 0x0A \<and> c \<noteq> CHR 0x0D"
  by (auto simp: isDigit_def)

lemma signOf_digits: "list_all isDigit s \<Longrightarrow> signOf s = (False, s)"
  using digit_not_sign by (cases s) (auto simp: signOf_def)

lemma Atoi_digits: "list_all isDigit s \<Longrightarrow> s \<noteq> [] \<Longrightarrow> parseDec s < 2 ^ 63 \<Longrightarrow> Atoi s = Some (int (parseDec s))"
  by (simp add: Atoi_def signOf_digits nat_less_iff)

lemma Atoi_code: "n < 10000 \<Longrightarrow> Atoi (padLeft 4 (dec n)) = Some (int n)"
  by (subst Atoi_digits) (simp_all add: padLeft_digits, simp add: padLeft_def)

subsection \<open>Cutting strings\<close>

definition isSpace :: "char \<Rightarrow> bool" where
  "isSpace c \<longleftrightarrow> c = CHR '' '' \<or> (9 \<le> (of_char c :: nat) \<and> (of_char c :: nat) \<le> 13)"

definition TrimRight :: "string \<Rightarrow> char list \<Rightarrow> string" where
  "TrimRight s cutset = rev (dropWhile (\<lambda>c. c \<in> set cutset) (rev s))"

definition TrimSpace :: "string \<Rightarrow> string" where
  "TrimSpace s = rev (dropWhile isSpace (rev (dropWhile isSpace s)))"

definition HasPrefix :: "string \<Rightarrow> string \<Rightarrow> bool" where
  "HasPrefix s p = (take (length p) s = p)"

text \<open>\<open>strings.Split\<close> by a one-character separator, \<open>strings.Join\<close> and \<open>strings.Fields\<close>.\<close>

fun Split :: "string \<Rightarrow> char \<Rightarrow> string list" where
  "Split [] sep = [[]]"
| "Split (c # s) sep =
     (if c = sep then [] # Split s sep
      else (case Split s sep of [] \<Rightarrow> [[c]] | p # ps \<Rightarrow> (c # p) # ps))"

fun Join :: "string list \<Rightarrow> string \<Rightarrow> string" where
  "Join [] sep = []"
| "Join [p] sep = p"
| "Join (p # q # ps) sep = p @ sep @ Join (q # ps) sep"

function Fields :: "string \<Rightarrow> string list" where
  "Fields s =
     (let t = dropWhile isSpace s
      in if t = [] then [] else takeWhile (\<lambda>c. \<not> isSpace c) t # Fields (dropWhile (\<lambda>c. \<not> isSpace c) t))"
  by pat_completeness auto
termination
proof (relation "measure length")
  fix s x :: string
  assume x: "x = dropWhile isSpace s" and ne: "x \<noteq> []"
  then have h: "\<not> isSpace (hd x)" using hd_dropWhile [of isSpace s] by simp
  have "length (dropWhile (\<lambda>c. \<not> isSpace c) x) < length x"
    using h ne by (cases x) (auto simp: le_imp_less_Suc length_dropWhile_le)
  also have "\<dots> \<le> length s" unfolding x by (rule length_dropWhile_le)
  finally show "(dropWhile (\<lambda>c. \<not> isSpace c) x, s) \<in> measure length" by simp
qed simp

declare Fields.simps [simp del]

lemma TrimRight_id: "s = [] \<or> last s \<notin> set cutset \<Longrightarrow> TrimRight (s @ t) cutset = s" if "set t \<subseteq> set cutset"
  using that by (cases s rule: rev_cases) (auto simp: TrimRight_def dropWhile_append subset_iff)

lemma Join_snoc: "ps \<noteq> [] \<Longrightarrow> Join (ps @ [p]) sep = Join ps sep @ sep @ p"
  by (induction ps sep rule: Join.induct) auto

lemma Split_nonempty [simp]: "Split s sep \<noteq> []"
  by (induction s) (auto split: list.splits)

lemma Split_Join_one: "sep \<notin> set p \<Longrightarrow> Split (p @ sep # s) sep = p # Split s sep"
  by (induction p) auto

lemma Split_plain: "sep \<notin> set p \<Longrightarrow> Split p sep = [p]"
  by (induction p) auto

lemma Split_Join: "ps \<noteq> [] \<Longrightarrow> \<forall>p\<in>set ps. sep \<notin> set p \<Longrightarrow> Split (Join ps [sep]) sep = ps"
proof (induction ps "[sep]" rule: Join.induct)
  case (3 p q ps)
  then show ?case by (simp add: Split_Join_one)
qed (simp_all add: Split_plain)

text \<open>Text without white space is its own trim.\<close>

lemma TrimSpace_id: "list_all (\<lambda>c. \<not> isSpace c) s \<Longrightarrow> TrimSpace s = s"
proof -
  assume "list_all (\<lambda>c. \<not> isSpace c) s"
  then have h: "\<forall>c\<in>set s. \<not> isSpace c" by (simp add: list_all_iff)
  have "dropWhile isSpace s = s" using h by (cases s) auto
  moreover have "dropWhile isSpace (rev s) = rev s" using h by (cases "rev s") (auto simp: dropWhile_eq_self_iff dest: hd_in_set)
  ultimately show ?thesis by (simp add: TrimSpace_def)
qed

lemma digit_not_space: "isDigit c \<Longrightarrow> \<not> isSpace c \<and> c \<noteq> CHR '':'' \<and> c \<noteq> CHR '',''"
  by (auto simp: isDigit_def isSpace_def)

lemma TrimSpace_dec [simp]: "TrimSpace (dec n) = dec n"
  using dec_digits [of n] digit_not_space by (intro TrimSpace_id) (auto simp: list_all_iff)

lemma ParseUint_dec: "n < 2 ^ bits \<Longrightarrow> ParseUint bits (dec n) = Some n"
  by (simp add: ParseUint_def)

end
