(* ===== verification/Kafka_Sink.thy ===== *)
theory Kafka_Sink
  imports Metering Go_Strings "HOL-Library.Sublist"
begin

text \<open>
  \<open>internal/kafkasink/kafkasink.go\<close>: the Kafka producer of the metering samples. franz-go's client, the file
  system, the certificate parser and the JSON encoder are parameters: the options of the client are
  data, and a batch handed to \<open>ProduceSync\<close> is answered with its first error.
\<close>

subsection \<open>The producer's configuration\<close>

record kafka_config =
  kc_Brokers :: "string list"
  kc_Topic :: string
  kc_Username :: string
  kc_Password :: string
  kc_Mechanism :: string
  kc_TLSCAFile :: string
  kc_TLSInsecureSkipVerify :: bool
  kc_Plaintext :: bool

datatype sasl_mech = Sha256Mechanism string string | Sha512Mechanism string string

record 'pool tls_config =
  tls_InsecureSkipVerify :: bool
  tls_RootCAs :: "'pool option"

datatype 'pool kgo_opt =
    SeedBrokers "string list"
  | DefaultProduceTopic string
  | SASL sasl_mech
  | DialTLSConfig "'pool tls_config"

text \<open>\<open>certs\<close> is \<open>AppendCertsFromPEM\<close> on a new pool: \<open>None\<close> when the file has no usable certificate.\<close>

definition tlsOf :: "(string \<Rightarrow> error + bytes) \<Rightarrow> (bytes \<Rightarrow> 'pool option) \<Rightarrow> kafka_config \<Rightarrow> error + 'pool tls_config" where
  "tlsOf readFile certs cfg =
     (let base = \<lparr>tls_InsecureSkipVerify = kc_TLSInsecureSkipVerify cfg, tls_RootCAs = None\<rparr>
      in if kc_TLSCAFile cfg = [] then Inr base
         else (case readFile (kc_TLSCAFile cfg) of
                 Inl e \<Rightarrow> Inl e
               | Inr pem \<Rightarrow> (case certs pem of None \<Rightarrow> Inl (ErrConfig (kc_TLSCAFile cfg)) | Some pool \<Rightarrow> Inr (base\<lparr>tls_RootCAs := Some pool\<rparr>))))"

definition kafkaOpts :: "(string \<Rightarrow> error + bytes) \<Rightarrow> (bytes \<Rightarrow> 'pool option) \<Rightarrow> kafka_config \<Rightarrow> error + 'pool kgo_opt list" where
  "kafkaOpts readFile certs cfg =
     (let opts = [SeedBrokers (kc_Brokers cfg), DefaultProduceTopic (kc_Topic cfg)]
      in if kc_Plaintext cfg then Inr opts
         else (let mech = (if kc_Mechanism cfg = ''SCRAM-SHA-512'' then Sha512Mechanism (kc_Username cfg) (kc_Password cfg)
                           else Sha256Mechanism (kc_Username cfg) (kc_Password cfg))
               in case tlsOf readFile certs cfg of
                    Inl e \<Rightarrow> Inl e
                  | Inr tls \<Rightarrow> Inr (opts @ [SASL mech, DialTLSConfig tls])))"

record 'client Sink =
  sk_client :: 'client
  sk_topic :: string

definition Sink_New :: "(string \<Rightarrow> error + bytes) \<Rightarrow> (bytes \<Rightarrow> 'pool option) \<Rightarrow> ('pool kgo_opt list \<Rightarrow> error + 'client) \<Rightarrow> kafka_config \<Rightarrow> error + 'client Sink" where
  "Sink_New readFile certs newClient cfg =
     (if kc_Brokers cfg = [] \<or> kc_Topic cfg = [] then Inl (ErrConfig ''brokers and topic required'')
      else (case kafkaOpts readFile certs cfg of
              Inl e \<Rightarrow> Inl e
            | Inr opts \<Rightarrow> (case newClient opts of Inl e \<Rightarrow> Inl e | Inr cl \<Rightarrow> Inr \<lparr>sk_client = cl, sk_topic = kc_Topic cfg\<rparr>)))"

subsection \<open>Emitting a batch\<close>

record kgo_record =
  kr_Topic :: string
  kr_Key :: string
  kr_Value :: bytes

definition poolKey :: "u64 \<Rightarrow> string" where
  "poolKey pool = dec (unat pool)"

definition recordsOf :: "(MeteringSample \<Rightarrow> error + bytes) \<Rightarrow> string \<Rightarrow> MeteringSample list \<Rightarrow> kgo_record list" where
  "recordsOf marshal topic samples =
     foldl (\<lambda>recs smp. case marshal smp of
        Inl _ \<Rightarrow> recs
      | Inr b \<Rightarrow> recs @ [\<lparr>kr_Topic = topic, kr_Key = poolKey (ms_PoolID smp), kr_Value = b\<rparr>]) [] samples"

text \<open>\<open>Emit\<close>: \<open>produce\<close> is \<open>ProduceSync(recs).FirstErr()\<close> on the client's state.\<close>

definition Emit :: "(MeteringSample \<Rightarrow> error + bytes) \<Rightarrow> (kgo_record list \<Rightarrow> 'client \<Rightarrow> error option \<times> 'client) \<Rightarrow> MeteringSample list \<Rightarrow>
    'client Sink \<Rightarrow> error option \<times> 'client Sink" where
  "Emit marshal produce samples s =
     (let recs = recordsOf marshal (sk_topic s) samples
      in if recs = [] then (None, s)
         else (case produce recs (sk_client s) of (err, cl) \<Rightarrow> (err, s\<lparr>sk_client := cl\<rparr>)))"

text \<open>The ticks of the metering loop over this sink: a failed collection or an empty one emits nothing.\<close>

definition meterRun :: "(MeteringSample \<Rightarrow> error + bytes) \<Rightarrow> (kgo_record list \<Rightarrow> 'client \<Rightarrow> error option \<times> 'client) \<Rightarrow>
    (error + MeteringSample list) list \<Rightarrow> 'client Sink \<Rightarrow> 'client Sink" where
  "meterRun marshal produce ticks s =
     fold (\<lambda>got s. case meter_tick got of None \<Rightarrow> s | Some batch \<Rightarrow> snd (Emit marshal produce batch s)) ticks s"

subsection \<open>Properties\<close>

lemma poolKey_inj [simp]: "poolKey p = poolKey q \<longleftrightarrow> p = q"
proof
  assume "poolKey p = poolKey q"
  then have "parseDec (dec (unat p)) = parseDec (dec (unat q))" by (simp only: poolKey_def)
  then show "p = q" by (simp add: unsigned_word_eqI)
qed simp

lemma recordsOf_append: "recordsOf marshal topic (xs @ ys) = recordsOf marshal topic xs @ recordsOf marshal topic ys"
proof (induction ys rule: rev_induct)
  case (snoc y ys)
  then show ?case unfolding append_assoc [symmetric] by (simp add: recordsOf_def split: sum.splits)
qed (simp add: recordsOf_def)

lemma recordsOf_Cons:
  "recordsOf marshal topic (x # xs) =
     (case marshal x of Inl _ \<Rightarrow> [] | Inr b \<Rightarrow> [\<lparr>kr_Topic = topic, kr_Key = poolKey (ms_PoolID x), kr_Value = b\<rparr>]) @ recordsOf marshal topic xs"
  using recordsOf_append [of marshal topic "[x]" xs] by (simp add: recordsOf_def split: sum.splits)

text \<open>The records with a pool's key are that pool's samples, in their order.\<close>

lemma recordsOf_pool:
  "filter (\<lambda>r. kr_Key r = poolKey p) (recordsOf marshal topic xs) = recordsOf marshal topic (filter (\<lambda>s. ms_PoolID s = p) xs)"
proof (induction xs)
  case (Cons x xs)
  then show ?case by (auto simp: recordsOf_Cons split: sum.splits)
qed (simp add: recordsOf_def)

text \<open>What the sink relies on of franz-go's producer and the broker, on the log of the topic: \<open>ProduceSync\<close> appends
  the records of the batch in their order, each at most once (the producer is idempotent by default); when it reports
  no error all of them are in the log, and when it reports one any of them may be missing. \<open>part\<close> is the partitioner, a
  function of the key alone.\<close>

definition partition_log :: "(string \<Rightarrow> nat) \<Rightarrow> kgo_record list \<Rightarrow> nat \<Rightarrow> kgo_record list" where
  "partition_log part log n = filter (\<lambda>r. part (kr_Key r) = n) log"

definition broker_log :: "(kgo_record list \<Rightarrow> 'client \<Rightarrow> error option \<times> 'client) \<Rightarrow> ('client \<Rightarrow> kgo_record list) \<Rightarrow> bool" where
  "broker_log produce log \<longleftrightarrow>
     (\<forall>recs cl err cl'. produce recs cl = (err, cl') \<longrightarrow>
        (\<exists>got. log cl' = log cl @ got \<and> subseq got recs \<and> (err = None \<longrightarrow> got = recs)))"

text \<open>What a tick collected; a failed collection is none.\<close>

definition batchOf :: "error + MeteringSample list \<Rightarrow> MeteringSample list" where
  "batchOf got = (case got of Inl _ \<Rightarrow> [] | Inr xs \<Rightarrow> xs)"

lemma Emit_log:
  assumes "broker_log produce log" and "Emit marshal produce batch s = (err, s')"
  shows "\<exists>got. log (sk_client s') = log (sk_client s) @ got \<and> subseq got (recordsOf marshal (sk_topic s) batch) \<and>
    (err = None \<longrightarrow> got = recordsOf marshal (sk_topic s) batch) \<and> sk_topic s' = sk_topic s"
proof (cases "recordsOf marshal (sk_topic s) batch = []")
  case True
  with assms(2) show ?thesis by (simp add: Emit_def)
next
  case False
  with assms(2) obtain cl where "produce (recordsOf marshal (sk_topic s) batch) (sk_client s) = (err, cl)" "s' = s\<lparr>sk_client := cl\<rparr>"
    by (auto simp: Emit_def Let_def split: prod.splits)
  with assms(1) show ?thesis unfolding broker_log_def by fastforce
qed

text \<open>The records of pool \<open>p\<close> that one tick adds.\<close>

definition tick_part :: "(MeteringSample \<Rightarrow> error + bytes) \<Rightarrow> (kgo_record list \<Rightarrow> 'client \<Rightarrow> error option \<times> 'client) \<Rightarrow> u64 \<Rightarrow>
    error + MeteringSample list \<Rightarrow> 'client Sink \<Rightarrow> kgo_record list \<Rightarrow> bool" where
  "tick_part marshal produce p got s added \<longleftrightarrow>
     (let wanted = recordsOf marshal (sk_topic s) (filter (\<lambda>x. ms_PoolID x = p) (batchOf got))
      in subseq added wanted \<and> (fst (Emit marshal produce (batchOf got) s) = None \<longrightarrow> added = wanted))"

lemma tick_log:
  fixes p :: u64 and marshal :: "MeteringSample \<Rightarrow> error + bytes"
  assumes "broker_log produce log"
  defines "step \<equiv> \<lambda>got s. case meter_tick got of None \<Rightarrow> s | Some batch \<Rightarrow> snd (Emit marshal produce batch s)"
  shows "\<exists>got. log (sk_client (step tick s)) = log (sk_client s) @ got \<and>
    tick_part marshal produce p tick s (filter (\<lambda>r. kr_Key r = poolKey p) got) \<and> sk_topic (step tick s) = sk_topic s"
proof (cases "meter_tick tick")
  case None
  then have "batchOf tick = []" by (auto simp: meter_tick_def batchOf_def split: sum.splits if_splits)
  with None show ?thesis by (intro exI [of _ "[]"]) (simp add: step_def tick_part_def recordsOf_def)
next
  case (Some batch)
  then have b: "batchOf tick = batch" by (auto simp: meter_tick_def batchOf_def split: sum.splits if_splits)
  obtain err s' where e: "Emit marshal produce batch s = (err, s')" by (cases "Emit marshal produce batch s")
  from Emit_log [OF assms(1) e] obtain got where g: "log (sk_client s') = log (sk_client s) @ got"
    "subseq got (recordsOf marshal (sk_topic s) batch)" "err = None \<longrightarrow> got = recordsOf marshal (sk_topic s) batch" "sk_topic s' = sk_topic s"
    by blast
  from subseq_filter [OF g(2), of "\<lambda>r. kr_Key r = poolKey p"] g(3)
  have "tick_part marshal produce p tick s (filter (\<lambda>r. kr_Key r = poolKey p) got)"
    by (simp add: tick_part_def b e recordsOf_pool)
  with g(1,4) show ?thesis by (intro exI [of _ got]) (simp add: step_def Some e)
qed

lemma meterRun_log:
  assumes "broker_log produce log"
  shows "\<exists>parts. length parts = length ticks \<and>
    filter (\<lambda>r. kr_Key r = poolKey p) (log (sk_client (meterRun marshal produce ticks s))) =
      filter (\<lambda>r. kr_Key r = poolKey p) (log (sk_client s)) @ concat parts \<and>
    (\<forall>k < length ticks. tick_part marshal produce p (ticks ! k) (meterRun marshal produce (take k ticks) s) (parts ! k))"
proof (induction ticks arbitrary: s)
  case (Cons tick ticks)
  let ?mine = "filter (\<lambda>r. kr_Key r = poolKey p)"
  define s' where "s' = (case meter_tick tick of None \<Rightarrow> s | Some batch \<Rightarrow> snd (Emit marshal produce batch s))"
  have run: "meterRun marshal produce (tick # xs) s = meterRun marshal produce xs s'" for xs
    by (simp add: meterRun_def s'_def)
  from tick_log [OF assms, where tick = tick and marshal = marshal and s = s and p = p] obtain got where g: "log (sk_client s') = log (sk_client s) @ got"
    "tick_part marshal produce p tick s (?mine got)" by (auto simp: s'_def)
  from Cons.IH [of s'] obtain parts where parts: "length parts = length ticks"
    "?mine (log (sk_client (meterRun marshal produce ticks s'))) = ?mine (log (sk_client s')) @ concat parts"
    "\<forall>k < length ticks. tick_part marshal produce p (ticks ! k) (meterRun marshal produce (take k ticks) s') (parts ! k)" by blast
  have "meterRun marshal produce [] s = s" by (simp add: meterRun_def)
  with g parts show ?case by (intro exI [of _ "?mine got # parts"]) (simp add: run All_less_Suc2)
qed (simp add: meterRun_def)

text \<open>C28: metering reaches the billing stream in order. Over any sequence of metering ticks, with a broker that may
  refuse batches or lose records of a batch whose send reports an error (\<open>broker_log\<close>), and a partitioner that looks
  at the key only: all records of a pool are in one partition, no record of another pool carries its key, and read in
  the order of the partition its records are one part per tick, in the order of the ticks. The part of a tick whose
  \<open>Emit\<close> reports no error is exactly the pool's samples of that tick in the order they were collected, encoded one by
  one; the part of a tick whose \<open>Emit\<close> reports an error is some of them in that order, and what is missing is never
  sent again (the loop logs the error and drops the batch). A failed collection adds nothing.\<close>

theorem pool_samples_in_order:
  assumes "broker_log produce log" and "log (sk_client s) = []"
  shows "let s' = meterRun marshal produce ticks s; mine = (\<lambda>r. kr_Key r = poolKey p)
    in (\<exists>parts. length parts = length ticks \<and>
          filter mine (partition_log part (log (sk_client s')) (part (poolKey p))) = concat parts \<and>
          (\<forall>k < length ticks. tick_part marshal produce p (ticks ! k) (meterRun marshal produce (take k ticks) s) (parts ! k))) \<and>
       (\<forall>n. n \<noteq> part (poolKey p) \<longrightarrow> filter mine (partition_log part (log (sk_client s')) n) = [])"
proof -
  let ?log = "log (sk_client (meterRun marshal produce ticks s))"
  have "filter (\<lambda>r. kr_Key r = poolKey p) (partition_log part ?log (part (poolKey p))) = filter (\<lambda>r. kr_Key r = poolKey p) ?log"
    by (auto simp: partition_log_def intro: filter_cong)
  moreover have "n \<noteq> part (poolKey p) \<Longrightarrow> filter (\<lambda>r. kr_Key r = poolKey p) (partition_log part ?log n) = []" for n
    by (auto simp: partition_log_def filter_empty_conv)
  ultimately show ?thesis
    using meterRun_log [OF assms(1), of ticks p marshal s] assms(2) by (simp add: Let_def)
qed

definition ex_sample :: "u64 \<Rightarrow> MeteringSample" where
  "ex_sample p = sampleOf 9 ''e1'' p ''in'' PolicerCounters_zero"

text \<open>A broker that takes a batch of at most one record and refuses larger ones after the first record.\<close>

definition ex_produce :: "kgo_record list \<Rightarrow> kgo_record list \<Rightarrow> error option \<times> kgo_record list" where
  "ex_produce recs cl = (if length recs \<le> 1 then (None, cl @ recs) else (Some ErrStats, cl @ take 1 recs))"

lemma ex_broker: "broker_log ex_produce (\<lambda>cl. cl)"
proof -
  have "subseq (take 1 recs) recs" for recs :: "kgo_record list" by (cases recs) auto
  then show ?thesis by (auto simp: broker_log_def ex_produce_def)
qed

theorem pool_samples_in_order_witness:
  "\<exists>parts. length parts = 3 \<and>
     filter (\<lambda>r. kr_Key r = poolKey 7) (partition_log length (sk_client (meterRun (\<lambda>_. Inr []) ex_produce
       [Inr [ex_sample 7, ex_sample 8], Inl ErrStats, Inr [ex_sample 7]] \<lparr>sk_client = [], sk_topic = ''sbw.metering''\<rparr>)) (length (poolKey 7))) = concat parts \<and>
     length (parts ! 2) = 1"
proof -
  let ?ticks = "[Inr [ex_sample 7, ex_sample 8], Inl ErrStats, Inr [ex_sample 7]]" and ?s = "\<lparr>sk_client = [], sk_topic = ''sbw.metering''\<rparr>"
  from pool_samples_in_order [OF ex_broker, of ?s "\<lambda>_. Inr []" ?ticks 7 length] obtain parts where parts: "length parts = 3"
    "filter (\<lambda>r. kr_Key r = poolKey 7) (partition_log length (sk_client (meterRun (\<lambda>_. Inr []) ex_produce ?ticks ?s)) (length (poolKey 7))) = concat parts"
    "\<forall>k < 3. tick_part (\<lambda>_. Inr []) ex_produce 7 (?ticks ! k) (meterRun (\<lambda>_. Inr []) ex_produce (take k ?ticks) ?s) (parts ! k)"
    by (auto simp: Let_def numeral_3_eq_3)
  obtain s where s: "meterRun (\<lambda>_. Inr []) ex_produce (take 2 ?ticks) ?s = s" by blast
  from parts(3) [rule_format, of 2] have "tick_part (\<lambda>_. Inr []) ex_produce 7 (Inr [ex_sample 7]) s (parts ! 2)" by (simp add: s [symmetric])
  then have "length (parts ! 2) = 1"
    by (simp add: tick_part_def batchOf_def recordsOf_def ex_sample_def sampleOf_def Emit_def ex_produce_def Let_def)
  with parts show ?thesis by blast
qed

text \<open>Without the plaintext switch the client is built with SASL and TLS only, and a configured CA file is the root of
  trust or the sink is not built.\<close>

lemma Sink_New_secure:
  assumes "Sink_New readFile certs newClient cfg = Inr s" and "\<not> kc_Plaintext cfg"
  shows "\<exists>mech tls. newClient [SeedBrokers (kc_Brokers cfg), DefaultProduceTopic (kc_Topic cfg), SASL mech, DialTLSConfig tls] = Inr (sk_client s) \<and>
    mech \<in> {Sha256Mechanism (kc_Username cfg) (kc_Password cfg), Sha512Mechanism (kc_Username cfg) (kc_Password cfg)} \<and>
    (if kc_TLSCAFile cfg = [] then tls_RootCAs tls = None
     else \<exists>pem pool. readFile (kc_TLSCAFile cfg) = Inr pem \<and> certs pem = Some pool \<and> tls_RootCAs tls = Some pool)"
proof -
  obtain tls where tls: "tlsOf readFile certs cfg = Inr tls"
    and cl: "newClient [SeedBrokers (kc_Brokers cfg), DefaultProduceTopic (kc_Topic cfg),
        SASL (if kc_Mechanism cfg = ''SCRAM-SHA-512'' then Sha512Mechanism (kc_Username cfg) (kc_Password cfg)
              else Sha256Mechanism (kc_Username cfg) (kc_Password cfg)), DialTLSConfig tls] = Inr (sk_client s)"
    using assms by (auto simp: Sink_New_def kafkaOpts_def Let_def split: if_splits sum.splits)
  have "if kc_TLSCAFile cfg = [] then tls_RootCAs tls = None
      else \<exists>pem pool. readFile (kc_TLSCAFile cfg) = Inr pem \<and> certs pem = Some pool \<and> tls_RootCAs tls = Some pool"
    using tls by (auto simp: tlsOf_def Let_def split: if_splits sum.splits option.splits)
  with cl show ?thesis by (intro exI conjI) auto
qed

end
