(* ===== verification/Vpp_Ping.thy ===== *)
theory Vpp_Ping
  imports Vpp_Conn Go_Strings
begin

text \<open>
  \<open>internal/vpp/ping.go\<close>: debug-CLI commands over the binary API and the data-plane ping. The \<open>cli_inband\<close>
  request is a parameter: given the reply timeout set on the channel, the command and VPP's state it
  fails with a code or returns the command's output. \<open>Sscanf\<close> is Go's scanner for the formats
  used here: literal characters, spaces and \<open>%d\<close>. Its result is the list of the operands stored, so Go's
  count is its length.
\<close>

type_synonym 'v cli = "int option \<Rightarrow> string \<Rightarrow> 'v \<Rightarrow> (int + string) \<times> 'v"

text \<open>\<open>CliInband\<close>: a positive \<open>timeout\<close> replaces the reply timeout the connection has set.\<close>

definition CliInband :: "'v cli \<Rightarrow> (error + 'v channel) \<Rightarrow> Conn \<Rightarrow> string \<Rightarrow> int \<Rightarrow> ('v, string) act" where
  "CliInband cli fresh c cmd timeout v =
     (case Channel fresh c of
        Inl e \<Rightarrow> (Inl e, v)
      | Inr (ch, t) \<Rightarrow>
          (case cli (if 0 < timeout then Some timeout else t) cmd v of
             (Inl code, v') \<Rightarrow> (Inl (ErrVpp code), v')
           | (Inr reply, v') \<Rightarrow> (Inr reply, v')))"

subsection \<open>fmt.Sscanf\<close>

text \<open>The scanner skips spaces before a verb; a newline there does not match the format.\<close>

definition skipSpace :: "string \<Rightarrow> string option" where
  "skipSpace s =
     (let t = dropWhile (\<lambda>c. isSpace c \<and> c \<noteq> CHR 0x0A) s in case t of c # _ \<Rightarrow> if c = CHR 0x0A then None else Some t | [] \<Rightarrow> Some t)"

text \<open>One \<open>%d\<close>: an optional sign, at least one digit, in the range of \<open>int64\<close>.\<close>

definition scanInt :: "string \<Rightarrow> (int \<times> string) option" where
  "scanInt s =
     (let sign = (case s of c # _ \<Rightarrow> if c = CHR ''+'' \<or> c = CHR ''-'' then [c] else [] | [] \<Rightarrow> []);
          rest = drop (length sign) s;
          ds = takeWhile isDigit rest
      in if ds = [] then None
         else map_option (\<lambda>v. (v, dropWhile isDigit rest)) (Atoi (sign @ ds)))"

fun Sscanf :: "string \<Rightarrow> string \<Rightarrow> int list" where
  "Sscanf [] s = []"
| "Sscanf (f # fs) s =
     (if f = CHR ''%'' then
        (case fs of
           [] \<Rightarrow> []
         | _ # fs' \<Rightarrow>
             (case Option.bind (skipSpace s) scanInt of None \<Rightarrow> [] | Some (v, s') \<Rightarrow> v # Sscanf fs' s'))
      else if isSpace f then
        (case s of
           [] \<Rightarrow> Sscanf fs []
         | c # _ \<Rightarrow> if isSpace c \<and> c \<noteq> CHR 0x0A then Sscanf fs (dropWhile (\<lambda>c. isSpace c \<and> c \<noteq> CHR 0x0A) s) else [])
      else (case s of [] \<Rightarrow> [] | c # s' \<Rightarrow> if c = f then Sscanf fs s' else []))"

subsection \<open>The ping\<close>

fun pingLines :: "string list \<Rightarrow> (int \<times> int) option" where
  "pingLines [] = None"
| "pingLines (line # rest) =
     (let l = TrimSpace line
      in if \<not> HasPrefix l ''Statistics:'' then pingLines rest
         else (case Sscanf ''Statistics: %d sent, %d received'' l of
                 [sent, recv] \<Rightarrow> Some (sent, recv)
               | _ \<Rightarrow> pingLines rest))"

definition parsePingStats :: "string \<Rightarrow> (int \<times> int) option" where
  "parsePingStats out = pingLines (Split out CHR 0x0A)"

text \<open>\<open>Ping\<close>: \<open>f2\<close> prints the interval with two decimals.\<close>

definition pingCmd :: "('f \<Rightarrow> string) \<Rightarrow> string \<Rightarrow> int \<Rightarrow> 'f \<Rightarrow> string" where
  "pingCmd f2 target cnt interval = ''ping '' @ target @ '' repeat '' @ showInt cnt @ '' interval '' @ f2 interval"

definition Ping :: "('f \<Rightarrow> string) \<Rightarrow> 'v cli \<Rightarrow> (error + 'v channel) \<Rightarrow> Conn \<Rightarrow> string \<Rightarrow> int \<Rightarrow> 'f \<Rightarrow> int \<Rightarrow> ('v, int \<times> int) act" where
  "Ping f2 cli fresh c target cnt interval timeout =
     andThen (CliInband cli fresh c (pingCmd f2 target cnt interval) timeout)
       (\<lambda>out. case parsePingStats out of None \<Rightarrow> raise (ErrUnparseable out) | Some r \<Rightarrow> ret r)"

subsection \<open>Reading the summary\<close>

text \<open>The summary line as VPP prints it, up to the word \<open>received\<close>.\<close>

definition summary :: "nat \<Rightarrow> nat \<Rightarrow> string" where
  "summary sent recv = ''Statistics: '' @ dec sent @ '' sent, '' @ dec recv @ '' received''"

lemma dec_cases: obtains d ds where "dec n = d # ds" "isDigit d"
  using dec_digits [of n] showBase_nonempty [of 10 n] by (cases "dec n") auto

lemma scanInt_dec:
  assumes "n < 2 ^ 63" and "\<not> isDigit c"
  shows "Option.bind (skipSpace (dec n @ c # r)) scanInt = Some (int n, c # r)"
proof -
  obtain d ds where d: "dec n = d # ds" "isDigit d" by (rule dec_cases)
  have ts: "takeWhile isDigit (dec n @ c # r) = dec n" "dropWhile isDigit (dec n @ c # r) = c # r"
    using dec_digits [of n] assms(2) by (simp_all add: list_all_iff takeWhile_append2 dropWhile_append2)
  have Atoi: "Atoi (dec n) = Some (int n)" using Atoi_digits [OF dec_digits, of n] assms(1) by simp
  have "skipSpace (dec n @ c # r) = Some (dec n @ c # r)"
    using d digit_not_space [OF d(2)] digit_not_sign [OF d(2)] by (simp add: skipSpace_def)
  moreover have "scanInt (dec n @ c # r) = Some (int n, c # r)"
    using ts d digit_not_sign [OF d(2)] Atoi by (simp add: scanInt_def Let_def)
  ultimately show ?thesis by simp
qed

lemma TrimSpace_keeps:
  assumes "p \<noteq> []" and "\<not> isSpace (hd p)" and "\<not> isSpace (last p)" and "list_all isSpace ws"
  shows "\<exists>r'. TrimSpace (ws @ p @ r) = p @ r'"
proof -
  have "dropWhile isSpace (ws @ p @ r) = p @ r"
    using assms by (cases p) (simp_all add: list_all_iff dropWhile_append2)
  moreover have "dropWhile isSpace (rev p) = rev p"
    using assms(1,3) by (cases p rule: rev_cases) simp_all
  ultimately have "TrimSpace (ws @ p @ r) = (if \<forall>x \<in> set r. isSpace x then p else p @ rev (dropWhile isSpace (rev r)))"
    by (simp add: TrimSpace_def dropWhile_append)
  then show ?thesis by auto
qed

lemma isSpace_chars:
  "isSpace CHR '' ''" "\<not> isSpace CHR ''S''" "\<not> isSpace CHR ''t''" "\<not> isSpace CHR ''a''" "\<not> isSpace CHR ''i''" "\<not> isSpace CHR ''s''"
  "\<not> isSpace CHR ''c''" "\<not> isSpace CHR '':''" "\<not> isSpace CHR ''e''" "\<not> isSpace CHR ''n''" "\<not> isSpace CHR '',''" "\<not> isSpace CHR ''r''"
  "\<not> isSpace CHR ''v''" "\<not> isSpace CHR ''d''" "\<not> isDigit CHR '' ''"
  by (simp_all add: isSpace_def isDigit_def)

lemma Sscanf_space:
  "isSpace f \<Longrightarrow> f \<noteq> CHR ''%'' \<Longrightarrow> \<not> isSpace c \<Longrightarrow> Sscanf (f # fs) (CHR '' '' # c # s) = Sscanf fs (c # s)"
  by (simp add: isSpace_chars)

lemma Sscanf_verb:
  assumes "n < 2 ^ 63" and "\<not> isDigit c"
  shows "Sscanf (CHR ''%'' # CHR ''d'' # fs) (dec n @ c # s) = int n # Sscanf fs (c # s)"
  using scanInt_dec [OF assms] by simp

lemma Sscanf_space_verb:
  assumes "n < 2 ^ 63" and "\<not> isDigit c"
  shows "Sscanf (CHR '' '' # CHR ''%'' # CHR ''d'' # fs) (CHR '' '' # dec n @ c # s) = int n # Sscanf fs (c # s)"
proof -
  obtain d ds where d: "dec n = d # ds" "isDigit d" by (rule dec_cases)
  have "Sscanf (CHR '' '' # CHR ''%'' # CHR ''d'' # fs) (CHR '' '' # d # (ds @ c # s)) = Sscanf (CHR ''%'' # CHR ''d'' # fs) (d # (ds @ c # s))"
    by (rule Sscanf_space) (simp_all add: isSpace_chars digit_not_space d(2))
  then show ?thesis using Sscanf_verb [OF assms, of fs s] by (simp only: d append_Cons)
qed

lemma Sscanf_literal: "f \<noteq> CHR ''%'' \<Longrightarrow> \<not> isSpace f \<Longrightarrow> Sscanf (f # fs) (f # s) = Sscanf fs s"
  by simp

lemma Sscanf_no_verb: "CHR ''%'' \<notin> set fs \<Longrightarrow> Sscanf fs s = []"
  by (induction fs s rule: Sscanf.induct) (auto split: list.splits)

declare Sscanf.simps [simp del]

lemma Sscanf_summary:
  assumes "sent < 2 ^ 63" and "recv < 2 ^ 63"
  shows "Sscanf ''Statistics: %d sent, %d received'' (summary sent recv @ r) = [int sent, int recv]"
  using assms
  by (simp add: summary_def Sscanf_literal Sscanf_space_verb Sscanf_space Sscanf_no_verb isSpace_chars)

text \<open>The ping summary is read back exactly. Whatever VPP printed before it (as long as no earlier line starts with
  \<open>Statistics:\<close>) and after it, and with any indentation, \<open>parsePingStats\<close> returns the two numbers VPP
  printed; and without a line starting with \<open>Statistics:\<close> it returns nothing.\<close>

lemma pingLines_skip: "\<forall>l \<in> set ls. \<not> HasPrefix (TrimSpace l) ''Statistics:'' \<Longrightarrow> pingLines (ls @ rest) = pingLines rest"
  by (induction ls) (simp_all add: Let_def)

lemma summary_trimmed:
  assumes "list_all isSpace ws"
  shows "\<exists>r'. TrimSpace (ws @ summary sent recv @ r) = summary sent recv @ r'"
  by (rule TrimSpace_keeps) (use assms in \<open>simp_all add: summary_def isSpace_chars\<close>)

theorem parsePingStats_exact:
  fixes ws r :: string
  assumes "\<forall>l \<in> set (before @ after) \<union> {ws, r}. CHR 0x0A \<notin> set l" and "\<forall>l \<in> set before. \<not> HasPrefix (TrimSpace l) ''Statistics:''"
    and "list_all isSpace ws" and "sent < 2 ^ 63" and "recv < 2 ^ 63"
  shows "parsePingStats (Join (before @ (ws @ summary sent recv @ r) # after) [CHR 0x0A]) = Some (int sent, int recv)"
proof -
  obtain r' where t: "TrimSpace (ws @ summary sent recv @ r) = summary sent recv @ r'" using summary_trimmed [OF assms(3)] by blast
  have "CHR 0x0A \<notin> set (summary sent recv)"
    using dec_digits [of sent] dec_digits [of recv] by (auto simp: summary_def list_all_iff isDigit_def)
  then have "Split (Join (before @ (ws @ summary sent recv @ r) # after) [CHR 0x0A]) CHR 0x0A = before @ (ws @ summary sent recv @ r) # after"
    using assms(1) by (intro Split_Join) auto
  moreover have "HasPrefix (summary sent recv @ r') ''Statistics:''" by (simp add: summary_def HasPrefix_def)
  ultimately show ?thesis
    by (simp add: parsePingStats_def pingLines_skip [OF assms(2)] t Sscanf_summary [OF assms(4,5)])
qed

lemma parsePingStats_none:
  "\<forall>l \<in> set (Split out CHR 0x0A). \<not> HasPrefix (TrimSpace l) ''Statistics:'' \<Longrightarrow> parsePingStats out = None"
  using pingLines_skip [of _ "[]"] by (simp add: parsePingStats_def)

end
