(* ===== verification/Bird_Wire.thy ===== *)
theory Bird_Wire
  imports Contract
begin

text \<open>
  \<open>internal/birdfeed/encode.go\<close> and \<open>internal/redirectec/redirectec.go\<close>: the frames the agent writes to
  BIRD's \<open>api\<close> protocol. The second half is a decoder for the format the header of \<open>encode.go\<close>
  documents, and the round trip of every frame and of whole streams of frames.
\<close>

subsection \<open>Redirect communities\<close>

text \<open>\<open>As4\<close> panics on an address that is not IPv4: \<open>None\<close>. The callers have checked the family.\<close>

definition IP4 :: "Addr \<Rightarrow> bytes option" where
  "IP4 nextHop = map_option (\<lambda>b4. [0x01, 0x0c] @ b4 @ [0, 0]) (As4 nextHop)"

definition I6 :: "Addr \<Rightarrow> bytes" where
  "I6 nextHop6 = be_bytes 2 (0x000c :: u16) @ As16 nextHop6 @ [0, 0]"

subsection \<open>Frames\<close>

definition wireVersion :: u8 where "wireVersion = 1"
definition hdrLen :: nat where "hdrLen = 8"
definition opAdd :: u8 where "opAdd = 1"
definition opDel :: u8 where "opDel = 2"
definition opEOR :: u8 where "opEOR = 3"
definition opHello :: u8 where "opHello = 4"
definition netIP4 :: u8 where "netIP4 = 1"
definition netIP6 :: u8 where "netIP6 = 2"
definition netFlow4 :: u8 where "netFlow4 = 7"
definition netFlow6 :: u8 where "netFlow6 = 8"
definition attrBlackhole :: u8 where "attrBlackhole = 1"
definition attrExtComm :: u8 where "attrExtComm = 2"
definition attrCommunity :: u8 where "attrCommunity = 4"
definition attrLargeCommunity :: u8 where "attrLargeCommunity = 5"

lemmas wire_consts = wireVersion_def hdrLen_def opAdd_def opDel_def opEOR_def opHello_def netIP4_def netIP6_def
  netFlow4_def netFlow6_def attrBlackhole_def attrExtComm_def attrCommunity_def attrLargeCommunity_def

definition frame :: "u8 \<Rightarrow> bytes \<Rightarrow> bytes" where
  "frame op body = [wireVersion, op, 0, 0] @ be_bytes 4 (of_nat (hdrLen + length body) :: u32) @ body"

definition addrBytes :: "Addr \<Rightarrow> bytes" where
  "addrBytes a = (if Is4 a then (case As4 a of Some x \<Rightarrow> x | None \<Rightarrow> []) else As16 a)"

definition frameHello :: bytes where "frameHello = frame opHello []"
definition frameEOR :: bytes where "frameEOR = frame opEOR []"

definition frameAnchor :: "u8 \<Rightarrow> Prefix \<Rightarrow> bytes \<Rightarrow> bytes" where
  "frameAnchor op p attrs =
     (let a = pfx_Addr p; nt = (if Is6 a then netIP6 else netIP4)
      in frame op ([nt, word_of_int (pfx_Bits p)] @ addrBytes a @ (if op = opAdd then [attrBlackhole, 0] @ attrs else [])))"

definition communityBytes :: "Community \<Rightarrow> bytes" where
  "communityBytes c = be_bytes 2 (com_ASN c) @ be_bytes 2 (com_Value c)"

definition largeCommunityBytes :: "LargeCommunity \<Rightarrow> bytes" where
  "largeCommunityBytes lc = be_bytes 4 (lc_GlobalAdmin lc) @ be_bytes 4 (lc_LocalData1 lc) @ be_bytes 4 (lc_LocalData2 lc)"

definition anchorAttrBytes :: "Anchor \<Rightarrow> bytes" where
  "anchorAttrBytes a =
     (if an_Communities a = [] \<and> an_LargeCommunities a = [] then []
      else (let n = length (an_Communities a); n' = (if n > 63 then 63 else n);
                m = length (an_LargeCommunities a); m' = (if m > 21 then 21 else m)
            in (if n > 0 then [attrCommunity, of_nat (n' * 4)] @ concat (map communityBytes (take n' (an_Communities a))) else []) @
               (if m > 0 then [attrLargeCommunity, of_nat (m' * 12)] @
                  concat (map largeCommunityBytes (take m' (an_LargeCommunities a))) else [])))"

definition frameFlow :: "u8 \<Rightarrow> Prefix \<Rightarrow> bytes \<Rightarrow> bytes" where
  "frameFlow op src ec =
     (let a = pfx_Addr src; nt = (if Is6 a then netFlow6 else netFlow4)
      in frame op ([nt, word_of_int (pfx_Bits src)] @ addrBytes a @ (if op = opAdd then [attrExtComm, of_nat (length ec)] @ ec else [])))"

subsection \<open>The documented format, as a decoder\<close>

datatype wire_msg = MHello | MEOR | MAdd u8 Prefix "(u8 \<times> bytes) list" | MDel u8 Prefix

text \<open>A stream is cut into frames by the length field, which counts the whole frame.\<close>

definition frameLen :: "bytes \<Rightarrow> nat" where
  "frameLen s = be_nat (take 4 (drop 4 s))"

function splitFrames :: "bytes \<Rightarrow> bytes list" where
  "splitFrames s =
     (if length s < 8 \<or> frameLen s < 8 \<or> length s < frameLen s then []
      else take (frameLen s) s # splitFrames (drop (frameLen s) s))"
  by auto
termination by (relation "measure length") auto

declare splitFrames.simps [simp del]

fun tlvs :: "bytes \<Rightarrow> (u8 \<times> bytes) list option" where
  "tlvs [] = Some []"
| "tlvs [_] = None"
| "tlvs (t # l # rest) =
     (if length rest < unat l then None else map_option (Cons (t, take (unat l) rest)) (tlvs (drop (unat l) rest)))"

definition netAddr :: "u8 \<Rightarrow> bytes \<Rightarrow> Addr" where
  "netAddr nt bs = (if nt = netIP4 \<or> nt = netFlow4 then IPv4 (of_nat (be_nat bs)) else IPv6 (of_nat (be_nat bs)))"

definition keyLen :: "u8 \<Rightarrow> nat" where
  "keyLen nt = (if nt = netIP4 \<or> nt = netFlow4 then 4 else 16)"

definition decodeRoute :: "u8 \<Rightarrow> bytes \<Rightarrow> wire_msg option" where
  "decodeRoute op body =
     (case body of
        nt # px # rest \<Rightarrow>
          if length rest < keyLen nt then None
          else (let p = Prefix (netAddr nt (take (keyLen nt) rest)) (uint px); attrs = drop (keyLen nt) rest
                in if op = opDel then (if attrs = [] then Some (MDel nt p) else None)
                   else map_option (MAdd nt p) (tlvs attrs))
      | _ \<Rightarrow> None)"

definition decodeFrame :: "bytes \<Rightarrow> wire_msg option" where
  "decodeFrame f =
     (if length f < 8 \<or> f ! 0 \<noteq> wireVersion \<or> frameLen f \<noteq> length f then None
      else if f ! 1 = opHello then (if drop 8 f = [] then Some MHello else None)
      else if f ! 1 = opEOR then (if drop 8 f = [] then Some MEOR else None)
      else if f ! 1 = opAdd \<or> f ! 1 = opDel then decodeRoute (f ! 1) (drop 8 f)
      else None)"

text \<open>The values of the community attributes.\<close>

fun decodeCommunities :: "bytes \<Rightarrow> Community list" where
  "decodeCommunities (a # b # c # d # rest) =
     \<lparr>com_ASN = of_nat (be_nat [a, b]), com_Value = of_nat (be_nat [c, d])\<rparr> # decodeCommunities rest"
| "decodeCommunities _ = []"

fun decodeLargeCommunities :: "bytes \<Rightarrow> LargeCommunity list" where
  "decodeLargeCommunities (a0 # a1 # a2 # a3 # b0 # b1 # b2 # b3 # c0 # c1 # c2 # c3 # rest) =
     \<lparr>lc_GlobalAdmin = of_nat (be_nat [a0, a1, a2, a3]), lc_LocalData1 = of_nat (be_nat [b0, b1, b2, b3]),
      lc_LocalData2 = of_nat (be_nat [c0, c1, c2, c3])\<rparr> # decodeLargeCommunities rest"
| "decodeLargeCommunities _ = []"

definition attrsOf :: "u8 \<Rightarrow> (u8 \<times> bytes) list \<Rightarrow> bytes" where
  "attrsOf t as = concat (map snd (filter (\<lambda>(u, _). u = t) as))"

subsection \<open>Framing\<close>

lemma frame_length [simp]: "length (frame op b) = 8 + length b"
  by (simp add: frame_def)

lemma frame_nth [simp]: "frame op b ! 0 = wireVersion" "frame op b ! Suc 0 = op" "drop 8 (frame op b) = b"
  by (simp_all add: frame_def)

definition smallBody :: "bytes \<Rightarrow> bool" where
  "smallBody b \<longleftrightarrow> 8 + length b < 2 ^ 32"

lemma frameLen_frame: "smallBody b \<Longrightarrow> frameLen (frame op b @ rest) = 8 + length b"
proof -
  assume "smallBody b"
  then have "unat (of_nat (hdrLen + length b) :: u32) = 8 + length b"
    by (simp add: unat_of_nat hdrLen_def smallBody_def del: of_nat_add)
  moreover have "take 4 (drop 4 (frame op b @ rest)) = be_bytes 4 (of_nat (hdrLen + length b) :: u32)"
    by (simp add: frame_def)
  ultimately show ?thesis
    using be_nat_be_bytes [of 4 "of_nat (hdrLen + length b) :: u32"] \<open>smallBody b\<close>
    by (simp add: frameLen_def smallBody_def)
qed

lemma splitFrames_cons: "smallBody b \<Longrightarrow> splitFrames (frame op b @ rest) = frame op b # splitFrames rest"
  by (subst splitFrames.simps) (simp add: frameLen_frame)

lemma splitFrames_Nil [simp]: "splitFrames [] = []"
  by (subst splitFrames.simps) simp

lemma splitFrames_concat:
  "(\<And>f. f \<in> set fs \<Longrightarrow> \<exists>op b. f = frame op b \<and> smallBody b) \<Longrightarrow> splitFrames (concat fs) = fs"
proof (induction fs)
  case (Cons f fs)
  obtain op b where "f = frame op b" "smallBody b" using Cons.prems [of f] by auto
  with Cons show ?case by (simp add: splitFrames_cons)
qed simp

lemma decodeFrame_frame:
  "smallBody b \<Longrightarrow> decodeFrame (frame op b) =
     (if op = opHello then (if b = [] then Some MHello else None)
      else if op = opEOR then (if b = [] then Some MEOR else None)
      else if op = opAdd \<or> op = opDel then decodeRoute op b else None)"
  using frameLen_frame [of b op "[]"] by (simp add: decodeFrame_def)

subsection \<open>Route keys\<close>

lemma be_roundtrip: "(256::nat) ^ n = 2 ^ LENGTH('a) \<Longrightarrow> of_nat (be_nat (be_bytes n w)) = (w :: 'a::len word)"
  using unsigned_less [of w] by (simp add: be_nat_be_bytes)

lemma bits_roundtrip: "0 \<le> b \<Longrightarrow> b \<le> 128 \<Longrightarrow> uint (word_of_int b :: u8) = b"
  by (simp add: unsigned_of_int take_bit_int_eq_self)

definition netOf :: "bool \<Rightarrow> Prefix \<Rightarrow> u8" where
  "netOf flow p = (if Is6 (pfx_Addr p) then (if flow then netFlow6 else netIP6) else (if flow then netFlow4 else netIP4))"

definition routeKey :: "bool \<Rightarrow> Prefix \<Rightarrow> bytes" where
  "routeKey flow p = [netOf flow p, word_of_int (pfx_Bits p)] @ addrBytes (pfx_Addr p)"

lemma frameAnchor_key: "frameAnchor op p attrs = frame op (routeKey False p @ (if op = opAdd then [attrBlackhole, 0] @ attrs else []))"
  by (simp add: frameAnchor_def routeKey_def netOf_def Let_def)

lemma frameFlow_key:
  "frameFlow op p ec = frame op (routeKey True p @ (if op = opAdd then [attrExtComm, of_nat (length ec)] @ ec else []))"
  by (simp add: frameFlow_def routeKey_def netOf_def Let_def)

lemma decodeRoute_key:
  assumes "Prefix_IsValid p"
  shows "decodeRoute op (routeKey flow p @ attrs) =
    (if op = opDel then (if attrs = [] then Some (MDel (netOf flow p) p) else None) else map_option (MAdd (netOf flow p) p) (tlvs attrs))"
proof (cases p)
  case (Prefix a b)
  with assms have b: "0 \<le> b" "b \<le> 128" by (cases a; simp)+
  show ?thesis
  proof (cases a)
    case (IPv4 w)
    then show ?thesis
      using Prefix bits_roundtrip [OF b] be_roundtrip [of 4, where w = w]
      by (simp add: decodeRoute_def routeKey_def netOf_def addrBytes_def keyLen_def netAddr_def wire_consts Let_def)
  next
    case (IPv6 w)
    then show ?thesis
      using Prefix bits_roundtrip [OF b] be_roundtrip [of 16, where w = w]
      by (simp add: decodeRoute_def routeKey_def netOf_def addrBytes_def keyLen_def netAddr_def wire_consts Let_def)
  qed (use assms Prefix in simp)
qed

lemma routeKey_inject:
  assumes "Prefix_IsValid p" and "Prefix_IsValid q"
  shows "routeKey f p = routeKey g q \<longleftrightarrow> f = g \<and> p = q"
proof
  assume eq: "routeKey f p = routeKey g q"
  then have "decodeRoute opDel (routeKey f p @ []) = decodeRoute opDel (routeKey g q @ [])" by simp
  then have "netOf f p = netOf g q" "p = q"
    by (simp_all only: decodeRoute_key [OF assms(1)] decodeRoute_key [OF assms(2)]) auto
  then show "f = g \<and> p = q" by (auto simp: netOf_def wire_consts split: if_splits)
qed simp

lemma routeKey_length: "Prefix_IsValid p \<Longrightarrow> length (routeKey f p) \<le> 18"
  by (cases p; cases "pfx_Addr p") (auto simp: routeKey_def addrBytes_def)

subsection \<open>Attributes\<close>

lemma tlvs_cons: "length v < 256 \<Longrightarrow> tlvs (t # of_nat (length v) # v @ rest) = map_option (Cons (t, v)) (tlvs rest)"
  by (simp add: unat_of_nat)

definition communityValue :: "Anchor \<Rightarrow> bytes" where
  "communityValue a = concat (map communityBytes (take 63 (an_Communities a)))"

definition largeCommunityValue :: "Anchor \<Rightarrow> bytes" where
  "largeCommunityValue a = concat (map largeCommunityBytes (take 21 (an_LargeCommunities a)))"

definition anchorTLVs :: "Anchor \<Rightarrow> (u8 \<times> bytes) list" where
  "anchorTLVs a =
     (if an_Communities a = [] then [] else [(attrCommunity, communityValue a)]) @
     (if an_LargeCommunities a = [] then [] else [(attrLargeCommunity, largeCommunityValue a)])"

lemma communityValue_length: "length (communityValue a) = 4 * min 63 (length (an_Communities a))"
proof -
  have "length (concat (map communityBytes cs)) = 4 * length cs" for cs
    by (induction cs) (simp_all add: communityBytes_def)
  then show ?thesis by (simp add: communityValue_def min.commute)
qed

lemma largeCommunityValue_length: "length (largeCommunityValue a) = 12 * min 21 (length (an_LargeCommunities a))"
proof -
  have "length (concat (map largeCommunityBytes cs)) = 12 * length cs" for cs
    by (induction cs) (simp_all add: largeCommunityBytes_def)
  then show ?thesis by (simp add: largeCommunityValue_def min.commute)
qed

lemma anchorAttrBytes_eq:
  "anchorAttrBytes a =
     (if an_Communities a = [] then [] else [attrCommunity, of_nat (length (communityValue a))] @ communityValue a) @
     (if an_LargeCommunities a = [] then [] else [attrLargeCommunity, of_nat (length (largeCommunityValue a))] @ largeCommunityValue a)"
proof -
  have m: "(if k < n then k else n) = min k n" for k n :: nat by simp
  have c: "concat (map communityBytes (take (min 63 (length (an_Communities a))) (an_Communities a))) = communityValue a"
    and l: "concat (map largeCommunityBytes (take (min 21 (length (an_LargeCommunities a))) (an_LargeCommunities a))) = largeCommunityValue a"
    by (simp_all add: communityValue_def largeCommunityValue_def min_def)
  show ?thesis
    unfolding anchorAttrBytes_def Let_def m c l communityValue_length largeCommunityValue_length by (simp add: mult.commute)
qed

lemma tlvs_anchor: "tlvs (anchorAttrBytes a) = Some (anchorTLVs a)"
proof -
  have "length (communityValue a) < 256" "length (largeCommunityValue a) < 256"
    by (simp_all add: communityValue_length largeCommunityValue_length)
  then show ?thesis
    using tlvs_cons [of "largeCommunityValue a" attrLargeCommunity "[]"] tlvs_cons [of "communityValue a" attrCommunity "[]"]
    by (simp add: anchorAttrBytes_eq anchorTLVs_def tlvs_cons del: tlvs.simps(3))
qed

lemma anchorAttrBytes_length: "length (anchorAttrBytes a) \<le> 508"
  using min.cobounded1 [of 63 "length (an_Communities a)"] min.cobounded1 [of 21 "length (an_LargeCommunities a)"]
  by (simp add: anchorAttrBytes_eq communityValue_length largeCommunityValue_length del: min.bounded_iff) linarith

lemma decodeCommunities_cons: "decodeCommunities (communityBytes c @ rest) = c # decodeCommunities rest"
proof -
  have e: "be_bytes 2 w = [ucast (drop_bit 8 w), ucast w]" for w :: u16
    by (simp add: numeral_2_eq_2)
  show ?thesis
    using be_roundtrip [of 2, where w = "com_ASN c"] be_roundtrip [of 2, where w = "com_Value c"]
    by (simp add: communityBytes_def e)
qed

lemma decodeLargeCommunities_cons: "decodeLargeCommunities (largeCommunityBytes c @ rest) = c # decodeLargeCommunities rest"
proof -
  have e: "be_bytes 4 w = [ucast (drop_bit 8 (drop_bit 8 (drop_bit 8 w))), ucast (drop_bit 8 (drop_bit 8 w)), ucast (drop_bit 8 w), ucast w]"
    for w :: u32
    by (simp only: numeral_eq_Suc pred_numeral_simps be_bytes.simps append.simps BitM.simps Num.numeral_One One_nat_def)
  show ?thesis
    using be_roundtrip [of 4, where w = "lc_GlobalAdmin c"] be_roundtrip [of 4, where w = "lc_LocalData1 c"]
      be_roundtrip [of 4, where w = "lc_LocalData2 c"]
    by (simp add: largeCommunityBytes_def e)
qed

lemma anchorTLVs_communities: "decodeCommunities (attrsOf attrCommunity (anchorTLVs a)) = take 63 (an_Communities a)"
proof -
  have "decodeCommunities (concat (map communityBytes cs)) = cs" for cs
    by (induction cs) (simp_all add: decodeCommunities_cons)
  then show ?thesis by (simp add: attrsOf_def anchorTLVs_def communityValue_def wire_consts)
qed

lemma anchorTLVs_largeCommunities:
  "decodeLargeCommunities (attrsOf attrLargeCommunity (anchorTLVs a)) = take 21 (an_LargeCommunities a)"
proof -
  have "decodeLargeCommunities (concat (map largeCommunityBytes cs)) = cs" for cs
    by (induction cs) (simp_all add: decodeLargeCommunities_cons)
  then show ?thesis by (simp add: attrsOf_def anchorTLVs_def largeCommunityValue_def wire_consts)
qed

subsection \<open>The round trip\<close>

datatype feed_msg = FHello | FEOR | FAnchor Anchor | FAnchorDel Prefix | FFlow Prefix bytes | FFlowDel Prefix

fun encodeMsg :: "feed_msg \<Rightarrow> bytes" where
  "encodeMsg FHello = frameHello"
| "encodeMsg FEOR = frameEOR"
| "encodeMsg (FAnchor a) = frameAnchor opAdd (an_Prefix a) (anchorAttrBytes a)"
| "encodeMsg (FAnchorDel p) = frameAnchor opDel p []"
| "encodeMsg (FFlow p ec) = frameFlow opAdd p ec"
| "encodeMsg (FFlowDel p) = frameFlow opDel p []"

fun msg_ok :: "feed_msg \<Rightarrow> bool" where
  "msg_ok (FAnchor a) = Prefix_IsValid (an_Prefix a)"
| "msg_ok (FAnchorDel p) = Prefix_IsValid p"
| "msg_ok (FFlow p ec) = (Prefix_IsValid p \<and> length ec < 256)"
| "msg_ok (FFlowDel p) = Prefix_IsValid p"
| "msg_ok _ = True"

text \<open>What the receiver reads: the prefix with its family and purpose, and for an anchor the first 63 communities
  and the first 21 large communities (the most a length byte allows).\<close>

fun carries :: "feed_msg \<Rightarrow> bytes \<Rightarrow> bool" where
  "carries FHello f = (decodeFrame f = Some MHello)"
| "carries FEOR f = (decodeFrame f = Some MEOR)"
| "carries (FAnchor a) f =
     (\<exists>as. decodeFrame f = Some (MAdd (netOf False (an_Prefix a)) (an_Prefix a) ((attrBlackhole, []) # as)) \<and>
        decodeCommunities (attrsOf attrCommunity as) = take 63 (an_Communities a) \<and>
        decodeLargeCommunities (attrsOf attrLargeCommunity as) = take 21 (an_LargeCommunities a))"
| "carries (FAnchorDel p) f = (decodeFrame f = Some (MDel (netOf False p) p))"
| "carries (FFlow p ec) f = (decodeFrame f = Some (MAdd (netOf True p) p [(attrExtComm, ec)]))"
| "carries (FFlowDel p) f = (decodeFrame f = Some (MDel (netOf True p) p))"

lemma small_anchor: "Prefix_IsValid p \<Longrightarrow> length attrs \<le> 600 \<Longrightarrow> smallBody (routeKey f p @ attrs)"
  using routeKey_length [of p f] by (simp add: smallBody_def)

lemma encodeMsg_frame: "msg_ok m \<Longrightarrow> \<exists>op b. encodeMsg m = frame op b \<and> smallBody b"
proof (cases m)
  case (FAnchor a)
  moreover assume "msg_ok m"
  ultimately show ?thesis
    using small_anchor [of "an_Prefix a" "[attrBlackhole, 0] @ anchorAttrBytes a" False] anchorAttrBytes_length [of a]
    by (auto simp: frameAnchor_key)
next
  case (FFlow p ec)
  moreover assume "msg_ok m"
  ultimately show ?thesis
    using small_anchor [of p "[attrExtComm, of_nat (length ec)] @ ec" True] by (auto simp: frameFlow_key)
next
  case (FAnchorDel p)
  moreover assume "msg_ok m"
  ultimately show ?thesis
    using small_anchor [of p "[]" False] by (auto simp: frameAnchor_key wire_consts)
next
  case (FFlowDel p)
  moreover assume "msg_ok m"
  ultimately show ?thesis
    using small_anchor [of p "[]" True] by (auto simp: frameFlow_key wire_consts)
qed (auto simp: frameHello_def frameEOR_def smallBody_def intro!: exI [of _ "[] :: bytes"])

lemma ops_distinct [simp]:
  "opAdd \<noteq> opDel" "opAdd \<noteq> opEOR" "opAdd \<noteq> opHello" "opDel \<noteq> opEOR" "opDel \<noteq> opHello" "opEOR \<noteq> opHello"
  "opDel \<noteq> opAdd" "opEOR \<noteq> opAdd" "opHello \<noteq> opAdd" "opEOR \<noteq> opDel" "opHello \<noteq> opDel" "opHello \<noteq> opEOR"
  by (simp_all add: wire_consts)

lemma decodeFrame_anchorAdd:
  assumes "Prefix_IsValid p" and "length attrs \<le> 598"
  shows "decodeFrame (frameAnchor opAdd p attrs) = map_option (\<lambda>as. MAdd (netOf False p) p ((attrBlackhole, []) # as)) (tlvs attrs)"
proof -
  have "smallBody (routeKey False p @ [attrBlackhole, 0] @ attrs)" using assms by (intro small_anchor) auto
  then have "decodeFrame (frameAnchor opAdd p attrs) = decodeRoute opAdd (routeKey False p @ [attrBlackhole, 0] @ attrs)"
    by (simp add: frameAnchor_key decodeFrame_frame)
  then show ?thesis by (simp add: decodeRoute_key [OF assms(1)] option.map_comp o_def)
qed

lemma decodeFrame_flowAdd:
  assumes "Prefix_IsValid p" and "length ec < 256"
  shows "decodeFrame (frameFlow opAdd p ec) = Some (MAdd (netOf True p) p [(attrExtComm, ec)])"
proof -
  have "smallBody (routeKey True p @ [attrExtComm, of_nat (length ec)] @ ec)" using assms by (intro small_anchor) auto
  then have "decodeFrame (frameFlow opAdd p ec) = decodeRoute opAdd (routeKey True p @ [attrExtComm, of_nat (length ec)] @ ec)"
    by (simp add: frameFlow_key decodeFrame_frame)
  then show ?thesis using tlvs_cons [OF assms(2), of attrExtComm "[]"] by (simp add: decodeRoute_key [OF assms(1)])
qed

lemma encodeMsg_carries: "msg_ok m \<Longrightarrow> carries m (encodeMsg m)"
proof (cases m)
  case (FAnchor a)
  moreover assume "msg_ok m"
  ultimately show ?thesis
    using anchorAttrBytes_length [of a]
    by (simp add: decodeFrame_anchorAdd tlvs_anchor anchorTLVs_communities anchorTLVs_largeCommunities)
next
  case (FAnchorDel p)
  moreover assume "msg_ok m"
  ultimately show ?thesis
    using small_anchor [of p "[]" False] decodeRoute_key [of p opDel False "[]"]
    by (simp add: frameAnchor_key decodeFrame_frame)
next
  case (FFlowDel p)
  moreover assume "msg_ok m"
  ultimately show ?thesis
    using small_anchor [of p "[]" True] decodeRoute_key [of p opDel True "[]"]
    by (simp add: frameFlow_key decodeFrame_frame)
qed (simp_all add: decodeFrame_flowAdd frameHello_def frameEOR_def decodeFrame_frame smallBody_def)

text \<open>C7: the wire format is unambiguous. Write any sequence of messages with valid prefixes as one byte stream: cutting
  the stream by the length fields gives back exactly the frames written, and decoding each by the
  documented layout gives back the message (an anchor's communities cut to what a length byte can hold).\<close>

theorem wire_stream_roundtrip:
  assumes "\<forall>m \<in> set ms. msg_ok m"
  shows "splitFrames (concat (map encodeMsg ms)) = map encodeMsg ms \<and> list_all2 carries ms (splitFrames (concat (map encodeMsg ms)))"
proof -
  have "splitFrames (concat (map encodeMsg ms)) = map encodeMsg ms"
    using assms encodeMsg_frame by (intro splitFrames_concat) auto
  then show ?thesis using assms encodeMsg_carries by (simp add: list_all2_conv_all_nth)
qed

theorem wire_stream_roundtrip_witness:
  "list_all2 carries
     [FHello, FAnchor \<lparr>an_Prefix = Prefix (IPv4 0xAC100807) 32, an_Communities = [\<lparr>com_ASN = 65000, com_Value = 666\<rparr>], an_LargeCommunities = []\<rparr>,
      FFlowDel (Prefix (IPv6 3) 128), FEOR]
     (splitFrames (concat (map encodeMsg
       [FHello, FAnchor \<lparr>an_Prefix = Prefix (IPv4 0xAC100807) 32, an_Communities = [\<lparr>com_ASN = 65000, com_Value = 666\<rparr>], an_LargeCommunities = []\<rparr>,
        FFlowDel (Prefix (IPv6 3) 128), FEOR])))"
  by (rule wire_stream_roundtrip [THEN conjunct2]) simp

end
