(* ===== verification/Bird_Render.thy ===== *)
theory Bird_Render
  imports Go_Strings Bird_Wire
begin

text \<open>
  The include files of the legacy BIRD path, as text: \<open>internal/anchors/render.go\<close>,
  \<open>internal/flowspec/render.go\<close> and \<open>renderCanary\<close> of \<open>cmd/edge-agent/main.go\<close>, with the textual form of
  addresses and prefixes of \<open>net/netip\<close>. A file's content is a \<open>string\<close>, one character per byte.

  \<open>sort.Slice\<close> promises a sorted permutation and no stability. \<open>sortSlice\<close> is one such sort;
  \<open>sortSlice_unique\<close> shows that every other gives the same list for the orders the renderers use, so that
  nothing depends on the choice.
\<close>

subsection \<open>Sorting a slice\<close>

fun insertBy :: "('a \<Rightarrow> 'a \<Rightarrow> bool) \<Rightarrow> 'a \<Rightarrow> 'a list \<Rightarrow> 'a list" where
  "insertBy lt x [] = [x]"
| "insertBy lt x (y # ys) = (if lt y x then y # insertBy lt x ys else x # y # ys)"

definition sortSlice :: "('a \<Rightarrow> 'a \<Rightarrow> bool) \<Rightarrow> 'a list \<Rightarrow> 'a list" where
  "sortSlice lt xs = fold (insertBy lt) xs []"

text \<open>A strict order that is total on the elements at hand.\<close>

definition total_less :: "('a \<Rightarrow> 'a \<Rightarrow> bool) \<Rightarrow> 'a set \<Rightarrow> bool" where
  "total_less lt A \<longleftrightarrow> (\<forall>x y z. lt x y \<longrightarrow> lt y z \<longrightarrow> lt x z) \<and> (\<forall>x. \<not> lt x x) \<and>
     (\<forall>x\<in>A. \<forall>y\<in>A. x = y \<or> lt x y \<or> lt y x)"

lemma mset_insertBy [simp]: "mset (insertBy lt x ys) = add_mset x (mset ys)"
  by (induction ys) auto

lemma mset_sortSlice_acc: "mset (fold (insertBy lt) xs acc) = mset xs + mset acc"
  by (induction xs arbitrary: acc) auto

lemma mset_sortSlice [simp]: "mset (sortSlice lt xs) = mset xs"
  by (simp add: sortSlice_def mset_sortSlice_acc)

lemma set_sortSlice [simp]: "set (sortSlice lt xs) = set xs"
  by (metis mset_sortSlice set_mset_mset)

lemma total_lessD:
  assumes "total_less lt A"
  shows "lt x y \<Longrightarrow> lt y z \<Longrightarrow> lt x z" and "\<not> lt x x" and "lt x y \<Longrightarrow> \<not> lt y x"
    and "x \<in> A \<Longrightarrow> y \<in> A \<Longrightarrow> x = y \<or> lt x y \<or> lt y x"
  using assms unfolding total_less_def by blast+

lemma total_less_mono: "total_less lt A \<Longrightarrow> B \<subseteq> A \<Longrightarrow> total_less lt B"
  unfolding total_less_def by blast

lemma insertBy_commute_lt:
  assumes "total_less lt A" "lt x y"
  shows "insertBy lt x (insertBy lt y zs) = insertBy lt y (insertBy lt x zs)"
proof (induction zs)
  case Nil
  then show ?case using assms(2) total_lessD(3) [OF assms] by simp
next
  case (Cons z zs)
  have "lt z x \<Longrightarrow> lt z y" using total_lessD(1) [OF assms(1)] assms(2) by blast
  then show ?case using Cons assms(2) total_lessD(3) [OF assms] by simp
qed

lemma insertBy_commute:
  assumes "total_less lt {x, y}"
  shows "insertBy lt x (insertBy lt y zs) = insertBy lt y (insertBy lt x zs)"
  using total_lessD(4) [OF assms, of x y] insertBy_commute_lt [OF assms, of x y zs] insertBy_commute_lt [OF assms, of y x zs] by auto

lemma sortSlice_cong:
  assumes "mset xs = mset ys" "total_less lt (set xs)"
  shows "sortSlice lt xs = sortSlice lt ys"
proof -
  have "insertBy lt x \<circ> insertBy lt y = insertBy lt y \<circ> insertBy lt x" if "x \<in> set xs" "y \<in> set xs" for x y
    using insertBy_commute [OF total_less_mono [OF assms(2)], of x y] that by (auto simp: fun_eq_iff)
  then show ?thesis unfolding sortSlice_def using fold_multiset_equiv [OF _ assms(1)] by metis
qed

definition ordered :: "('a \<Rightarrow> 'a \<Rightarrow> bool) \<Rightarrow> 'a list \<Rightarrow> bool" where
  "ordered lt xs = sorted_wrt (\<lambda>x y. \<not> lt y x) xs"

lemma insertBy_ordered:
  assumes "total_less lt (insert x (set ys))" "ordered lt ys"
  shows "ordered lt (insertBy lt x ys)"
  using assms
proof (induction ys)
  case (Cons y ys)
  have s: "set (insertBy lt x ys) = insert x (set ys)" by (metis mset_insertBy set_mset_add_mset_insert set_mset_mset)
  have t: "total_less lt (insert x (set ys))" using total_less_mono [OF Cons.prems(1)] by auto
  have "\<not> lt y x \<Longrightarrow> x \<noteq> y \<Longrightarrow> lt x y" using total_lessD(4) [OF Cons.prems(1), of x y] by auto
  then have "\<not> lt y x \<Longrightarrow> z \<in> set ys \<Longrightarrow> \<not> lt z x" for z
    using Cons.prems(2) total_lessD(1) [OF Cons.prems(1), of z x y] by (cases "x = y") (auto simp: ordered_def)
  moreover have "lt y x \<Longrightarrow> \<not> lt x y" by (rule total_lessD(3) [OF Cons.prems(1)])
  ultimately show ?case using Cons.IH [OF t] Cons.prems(2) s by (auto simp: ordered_def)
qed (simp add: ordered_def)

lemma sortSlice_ordered: "total_less lt (set xs) \<Longrightarrow> ordered lt (sortSlice lt xs)"
proof -
  have "ordered lt (fold (insertBy lt) xs acc)" if "total_less lt (set xs \<union> set acc)" "ordered lt acc" for acc
    using that
  proof (induction xs arbitrary: acc)
    case (Cons x xs)
    have s: "set (insertBy lt x acc) = insert x (set acc)" by (metis mset_insertBy set_mset_add_mset_insert set_mset_mset)
    have "total_less lt (insert x (set acc))" using Cons.prems(1) by (auto simp: total_less_def)
    then have "ordered lt (insertBy lt x acc)" using Cons.prems(2) by (rule insertBy_ordered)
    then show ?case using Cons.IH [of "insertBy lt x acc"] Cons.prems(1) s by simp
  qed simp
  from this [of "[]"] show "total_less lt (set xs) \<Longrightarrow> ?thesis" by (simp add: sortSlice_def ordered_def)
qed

lemma ordered_unique: "mset xs = mset ys \<Longrightarrow> total_less lt (set xs) \<Longrightarrow> ordered lt xs \<Longrightarrow> ordered lt ys \<Longrightarrow> xs = ys"
proof (induction xs arbitrary: ys)
  case (Cons x xs)
  then obtain y ys' where ys: "ys = y # ys'" by (cases ys) auto
  have sets: "set ys = set (x # xs)" using Cons.prems(1) by (metis set_mset_mset)
  have "y = x"
  proof (rule ccontr)
    assume "y \<noteq> x"
    then have "y \<in> set xs" "x \<in> set ys'" using sets ys by auto
    then have "\<not> lt y x" "\<not> lt x y" using Cons.prems(3,4) ys by (auto simp: ordered_def)
    then show False using \<open>y \<noteq> x\<close> \<open>y \<in> set xs\<close> Cons.prems(2) by (auto simp: total_less_def)
  qed
  moreover have "total_less lt (set xs)" using Cons.prems(2) by (auto simp: total_less_def)
  ultimately show ?case using Cons ys by (auto simp: ordered_def)
qed simp

text \<open>Any sort gives this list.\<close>

lemma sortSlice_unique:
  "mset ys = mset xs \<Longrightarrow> total_less lt (set xs) \<Longrightarrow> ordered lt ys \<Longrightarrow> ys = sortSlice lt xs"
  by (rule ordered_unique [where lt = lt]) (auto simp: sortSlice_ordered dest: mset_eq_setD)

subsection \<open>Addresses as text\<close>

text \<open>\<open>Addr.String\<close>: dotted decimal for IPv4; for IPv6 eight hexadecimal groups, the first longest run of two or
  more zero groups written as \<open>::\<close>.\<close>

definition v4String :: "'a::len word \<Rightarrow> string" where
  "v4String w = Join (map (\<lambda>b. dec (unat b)) (be_bytes 4 w)) ''.''"

definition v6u16 :: "128 word \<Rightarrow> nat list" where
  "v6u16 w = map (\<lambda>i. unat (ucast (drop_bit (16 * (7 - i)) w) :: u16)) [0..<8]"

definition zeroRun :: "nat list \<Rightarrow> nat \<times> nat" where
  "zeroRun g =
     foldl (\<lambda>(zs, ze) i. let l = length (takeWhile (\<lambda>x. x = 0) (drop i g)) in if 2 \<le> l \<and> ze - zs < l then (i, i + l) else (zs, ze))
       (255, 255) [0..<8]"

definition v6String :: "128 word \<Rightarrow> string" where
  "v6String w =
     (let g = v6u16 w; (zs, ze) = zeroRun g; hex = map (showBase 16)
      in if zs < 8 then Join (hex (take zs g)) '':'' @ ''::'' @ Join (hex (drop ze g)) '':'' else Join (hex g) '':'')"

fun Addr_String :: "Addr \<Rightarrow> string" where
  "Addr_String AddrInvalid = ''invalid IP''"
| "Addr_String (IPv4 w) = v4String w"
| "Addr_String (IPv6 w) = (if Is4In6 (IPv6 w) then ''::ffff:'' @ v4String w else v6String w)"

definition Prefix_String :: "Prefix \<Rightarrow> string" where
  "Prefix_String p = (if Prefix_IsValid p then Addr_String (pfx_Addr p) @ ''/'' @ showInt (pfx_Bits p) else ''invalid Prefix'')"

subsection \<open>The anchors include\<close>

definition nl :: string where "nl = [CHR 0x0A]"

text \<open>The UTF-8 bytes of the characters outside ASCII in the headers.\<close>

definition utf8EmDash :: string where "utf8EmDash = [CHR 0xE2, CHR 0x80, CHR 0x94]"
definition sectionSign :: string where "sectionSign = [CHR 0xC2, CHR 0xA7]"
definition elementOf :: string where "elementOf = [CHR 0xE2, CHR 0x88, CHR 0x88]"
definition rightArrow :: string where "rightArrow = [CHR 0xE2, CHR 0x86, CHR 0x92]"

definition anchors_header :: string where
  "anchors_header =
     ''# Managed by bwpool edge-agent '' @ utf8EmDash @ '' DO NOT EDIT (rendered, T-302).'' @ nl @
     ''# Anchors are BGP advertisement carriers only (DESIGN.md '' @ sectionSign @ ''4.4): blackhole'' @ nl @
     ''# statics that MUST NOT reach the kernel/VPP FIB (excluded by krt_export,'' @ nl @
     ''# '' @ sectionSign @ ''4.2). Reloaded via: atomic rename + configure check + configure ('' @ sectionSign @ ''4.4).'' @ nl"

definition Community_Less :: "Community \<Rightarrow> Community \<Rightarrow> bool" where
  "Community_Less a b = (if com_ASN a \<noteq> com_ASN b then com_ASN a < com_ASN b else com_Value a < com_Value b)"

definition LargeCommunity_Less :: "LargeCommunity \<Rightarrow> LargeCommunity \<Rightarrow> bool" where
  "LargeCommunity_Less a b =
     (if lc_GlobalAdmin a \<noteq> lc_GlobalAdmin b then lc_GlobalAdmin a < lc_GlobalAdmin b
      else if lc_LocalData1 a \<noteq> lc_LocalData1 b then lc_LocalData1 a < lc_LocalData1 b
      else lc_LocalData2 a < lc_LocalData2 b)"

definition showWord :: "'a::len word \<Rightarrow> string" where "showWord w = dec (unat w)"

definition communityLine :: "Community \<Rightarrow> string" where
  "communityLine c = ''    bgp_community.add(('' @ showWord (com_ASN c) @ '', '' @ showWord (com_Value c) @ ''));'' @ nl"

definition largeCommunityLine :: "LargeCommunity \<Rightarrow> string" where
  "largeCommunityLine lc =
     ''    bgp_large_community.add(('' @ showWord (lc_GlobalAdmin lc) @ '', '' @ showWord (lc_LocalData1 lc) @ '', '' @
     showWord (lc_LocalData2 lc) @ ''));'' @ nl"

definition writeRoute :: "Anchor \<Rightarrow> string" where
  "writeRoute a =
     (if an_Communities a = [] \<and> an_LargeCommunities a = [] then ''  route '' @ Prefix_String (an_Prefix a) @ '' blackhole;'' @ nl
      else ''  route '' @ Prefix_String (an_Prefix a) @ '' blackhole {'' @ nl @
           concat (map communityLine (sortSlice Community_Less (an_Communities a))) @
           concat (map largeCommunityLine (sortSlice LargeCommunity_Less (an_LargeCommunities a))) @ ''  };'' @ nl)"

definition sortAnchors :: "Anchor list \<Rightarrow> Anchor list" where
  "sortAnchors xs = sortSlice (\<lambda>a b. Prefix_Less (an_Prefix a) (an_Prefix b)) xs"

definition writeProtocol :: "string \<Rightarrow> string \<Rightarrow> string \<Rightarrow> Anchor list \<Rightarrow> string" where
  "writeProtocol name channel table xs =
     ''protocol static '' @ name @ '' {'' @ nl @ ''  '' @ channel @ '' { table '' @ table @ ''; };'' @ nl @
     concat (map writeRoute xs) @ ''}'' @ nl"

fun checkAnchors :: "nat \<Rightarrow> Prefix set \<Rightarrow> Anchor list \<times> Anchor list \<Rightarrow> Anchor list \<Rightarrow> error + (Anchor list \<times> Anchor list)" where
  "checkAnchors i seen (v4, v6) [] = Inr (v4, v6)"
| "checkAnchors i seen (v4, v6) (a # as) =
     (let p = an_Prefix a
      in if \<not> Prefix_IsValid p then Inl (ErrInvalidPrefix i)
         else if Is4In6 (pfx_Addr p) then Inl (ErrMapped i)
         else if pfx_Addr p \<noteq> Masked_Addr p then Inl (ErrHostBits i)
         else if p \<in> seen then Inl ErrDuplicate
         else checkAnchors (Suc i) (insert p seen) (if Is4 (pfx_Addr p) then (v4 @ [a], v6) else (v4, v6 @ [a])) as)"

definition anchors_Render :: "Anchor list \<Rightarrow> error + string" where
  "anchors_Render xs =
     (case checkAnchors 0 {} ([], []) xs of Inl e \<Rightarrow> Inl e
      | Inr (v4, v6) \<Rightarrow>
          Inr (anchors_header @ writeProtocol ''anchors4'' ''ipv4'' ''master4'' (sortAnchors v4) @ nl @
               writeProtocol ''anchors6'' ''ipv6'' ''master6'' (sortAnchors v6)))"

subsection \<open>The FlowSpec include\<close>

definition flowspec_header :: string where
  "flowspec_header =
     ''# Managed by sbw-limiter edge-agent '' @ utf8EmDash @ '' DO NOT EDIT (rendered, B-01).'' @ nl @
     ''# Egress-homing FlowSpec (limiter '' @ sectionSign @ ''3.2): \"source '' @ elementOf @ '' home member '' @ rightArrow @ '' redirect to'' @ nl @
     ''# this edge\". Exported to all R (export filter), never to fabric (export none).'' @ nl @
     ''# Reloaded via: atomic rename + configure check + configure ('' @ sectionSign @ ''4.4).'' @ nl"

fun checkSrcs :: "contract_fns \<Rightarrow> bool \<Rightarrow> Prefix set \<Rightarrow> Prefix list \<Rightarrow> FlowRedirect list \<Rightarrow> error + Prefix list" where
  "checkSrcs c wantV6 seen srcs [] = Inr srcs"
| "checkSrcs c wantV6 seen srcs (r # rs) =
     (let p = fr_SrcPrefix r
      in if Is6 (pfx_Addr p) \<noteq> wantV6 then checkSrcs c wantV6 seen srcs rs
         else if \<not> FlowRedirect_Validate c r then Inl ErrInvalidSpec
         else if p \<in> seen then Inl ErrDuplicate
         else checkSrcs c wantV6 (insert p seen) (srcs @ [p]) rs)"

definition collectSrcs :: "contract_fns \<Rightarrow> FlowRedirect list \<Rightarrow> bool \<Rightarrow> error + Prefix list" where
  "collectSrcs c redirects wantV6 =
     (case checkSrcs c wantV6 {} [] redirects of Inl e \<Rightarrow> Inl e | Inr srcs \<Rightarrow> Inr (sortSlice Prefix_Less srcs))"

text \<open>The two halves of the extended community; \<open>None\<close> would be the panic of \<open>As4\<close>, which the caller has
  excluded.\<close>

definition redirectIP4ExtCommunity :: "Addr \<Rightarrow> (nat \<times> nat) option" where
  "redirectIP4ExtCommunity nextHop = map_option (\<lambda>ec. (be_nat (take 4 ec), be_nat (take 4 (drop 4 ec)))) (IP4 nextHop)"

definition flow4Route :: "nat \<times> nat \<Rightarrow> Prefix \<Rightarrow> string" where
  "flow4Route ec p =
     ''  route flow4 { src '' @ Prefix_String p @ ''; } {'' @ nl @
     ''    bgp_ext_community.add((generic, 0x'' @ padLeft 8 (showBase 16 (fst ec)) @ '', 0x'' @ padLeft 8 (showBase 16 (snd ec)) @ ''));'' @ nl @
     ''  };'' @ nl"

definition redirectI6ECTypeSubtype :: nat where "redirectI6ECTypeSubtype = 12"

definition flow6Route :: "Addr \<Rightarrow> Prefix \<Rightarrow> string" where
  "flow6Route nextHop6 p =
     ''  route flow6 { src '' @ Prefix_String p @ ''; } {'' @ nl @
     ''    bgp_ipv6_ext_community.add(i6ec(0x'' @ padLeft 4 (showBase 16 redirectI6ECTypeSubtype) @ '', '' @ Addr_String nextHop6 @ '', 0));'' @ nl @
     ''  };'' @ nl"

definition flowBlock :: "string \<Rightarrow> string \<Rightarrow> string \<Rightarrow> string list \<Rightarrow> string" where
  "flowBlock name channel table routes =
     ''protocol static '' @ name @ '' {'' @ nl @ ''  '' @ channel @ '' { table '' @ table @ ''; };'' @ nl @ concat routes @ ''}'' @ nl"

definition flowspec_Render :: "contract_fns \<Rightarrow> FlowRedirect list \<Rightarrow> Addr \<Rightarrow> Addr \<Rightarrow> error + string" where
  "flowspec_Render c redirects nextHop nextHop6 =
     (case collectSrcs c redirects False of Inl e \<Rightarrow> Inl e | Inr v4 \<Rightarrow>
      case collectSrcs c redirects True of Inl e \<Rightarrow> Inl e | Inr v6 \<Rightarrow>
      if v4 \<noteq> [] \<and> \<not> Is4 nextHop then Inl ErrNoNextHop
      else if v6 \<noteq> [] \<and> \<not> Is6 nextHop6 then Inl ErrNoNextHop
      else (let ec = (if v4 \<noteq> [] then (case redirectIP4ExtCommunity nextHop of Some x \<Rightarrow> x | None \<Rightarrow> (0, 0)) else (0, 0))
            in Inr (flowspec_header @ flowBlock ''flowspec4'' ''flow4'' ''flowtab4'' (map (flow4Route ec) v4) @
                    flowBlock ''flowspec6'' ''flow6'' ''flowtab6'' (map (flow6Route nextHop6) v6))))"

subsection \<open>The canary include\<close>

definition renderCanary :: "Prefix \<Rightarrow> LargeCommunity \<Rightarrow> bool \<Rightarrow> string" where
  "renderCanary pfx lc advertise =
     (let (proto, channel, table) =
            (if Is6 (pfx_Addr pfx) then (''canary6'', ''ipv6'', ''master6'') else (''canary4'', ''ipv4'', ''master4''))
      in ''# Managed by bwpool edge-agent '' @ utf8EmDash @ '' canary (soft-death '' @ sectionSign @ ''4.7). DO NOT EDIT.'' @ nl @
         ''protocol static '' @ proto @ '' {'' @ nl @ ''  '' @ channel @ '' { table '' @ table @ ''; };'' @ nl @
         (if advertise then ''  route '' @ Prefix_String pfx @ '' blackhole {'' @ nl @ largeCommunityLine lc @ ''  };'' @ nl else []) @
         ''}'' @ nl)"

text \<open>\<open>parseLC\<close>: three decimal numbers of 32 bits.\<close>

fun parseParts :: "string list \<Rightarrow> error + u32 list" where
  "parseParts [] = Inr []"
| "parseParts (p # ps) =
     (case ParseUint 32 (TrimSpace p) of None \<Rightarrow> Inl (ErrConfig p)
      | Some n \<Rightarrow> (case parseParts ps of Inl e \<Rightarrow> Inl e | Inr v \<Rightarrow> Inr (of_nat n # v)))"

definition parseLC :: "string \<Rightarrow> error + LargeCommunity" where
  "parseLC s =
     (let parts = Split s CHR '':''
      in if length parts \<noteq> 3 then Inl (ErrConfig s)
         else (case parseParts parts of
                 Inl e \<Rightarrow> Inl e
               | Inr v \<Rightarrow> Inr \<lparr>lc_GlobalAdmin = v ! 0, lc_LocalData1 = v ! 1, lc_LocalData2 = v ! 2\<rparr>))"

text \<open>Reading back a large community written with colons.\<close>

lemma parseLC_print:
  "parseLC (Join [showWord (lc_GlobalAdmin lc), showWord (lc_LocalData1 lc), showWord (lc_LocalData2 lc)] '':'') = Inr lc"
proof -
  have colon: "CHR '':'' \<notin> set (showWord (w :: u32))" for w
    using dec_digits [of "unat w"] digit_not_space unfolding showWord_def by (auto simp: list_all_iff)
  have part: "ParseUint 32 (TrimSpace (showWord (w :: u32))) = Some (unat w)" for w
    using unsigned_less [where 'a = nat, of w] by (simp add: showWord_def ParseUint_dec)
  have "Split (Join [showWord (lc_GlobalAdmin lc), showWord (lc_LocalData1 lc), showWord (lc_LocalData2 lc)] '':'') CHR '':'' =
      [showWord (lc_GlobalAdmin lc), showWord (lc_LocalData1 lc), showWord (lc_LocalData2 lc)]"
    by (rule Split_Join) (auto simp: colon)
  then show ?thesis by (simp only: parseLC_def Let_def) (simp add: part)
qed

subsection \<open>The renderers are canonical\<close>

text \<open>What the anchors include depends on: the prefixes with their communities, in no order.\<close>

definition anchorKey :: "Anchor \<Rightarrow> Prefix \<times> Community multiset \<times> LargeCommunity multiset" where
  "anchorKey a = (an_Prefix a, mset (an_Communities a), mset (an_LargeCommunities a))"

definition same_anchors :: "Anchor list \<Rightarrow> Anchor list \<Rightarrow> bool" where
  "same_anchors xs ys \<longleftrightarrow> mset (map anchorKey xs) = mset (map anchorKey ys)"

definition clean_prefix :: "Prefix \<Rightarrow> bool" where
  "clean_prefix p \<longleftrightarrow> Prefix_IsValid p \<and> \<not> Is4In6 (pfx_Addr p) \<and> pfx_Addr p = Masked_Addr p"

definition anchors_ok :: "Anchor list \<Rightarrow> bool" where
  "anchors_ok xs \<longleftrightarrow> (\<forall>a\<in>set xs. clean_prefix (an_Prefix a)) \<and> distinct (map an_Prefix xs)"

lemma checkAnchors_ok:
  "anchors_ok xs \<Longrightarrow> an_Prefix ` set xs \<inter> seen = {} \<Longrightarrow>
   checkAnchors i seen (v4, v6) xs =
     Inr (v4 @ filter (\<lambda>a. Is4 (pfx_Addr (an_Prefix a))) xs, v6 @ filter (\<lambda>a. \<not> Is4 (pfx_Addr (an_Prefix a))) xs)"
proof (induction xs arbitrary: i seen v4 v6)
  case (Cons a as)
  have "anchors_ok as" "an_Prefix ` set as \<inter> insert (an_Prefix a) seen = {}" "an_Prefix a \<notin> seen" "clean_prefix (an_Prefix a)"
    using Cons.prems by (auto simp: anchors_ok_def)
  with Cons.IH [of "insert (an_Prefix a) seen"] show ?case by (auto simp: clean_prefix_def Let_def)
qed simp

lemma checkAnchors_InrD: "checkAnchors i seen (v4, v6) xs = Inr r \<Longrightarrow> anchors_ok xs \<and> an_Prefix ` set xs \<inter> seen = {}"
proof (induction xs arbitrary: i seen v4 v6)
  case (Cons a as)
  from Cons.prems have a: "clean_prefix (an_Prefix a)" "an_Prefix a \<notin> seen"
    and r: "\<exists>u w. checkAnchors (Suc i) (insert (an_Prefix a) seen) (u, w) as = Inr r"
    by (auto simp: clean_prefix_def Let_def split: if_splits)
  from r Cons.IH have "anchors_ok as \<and> an_Prefix ` set as \<inter> insert (an_Prefix a) seen = {}" by blast
  with a show ?case by (auto simp: anchors_ok_def)
qed (simp add: anchors_ok_def)

definition anchorsText :: "Anchor list \<Rightarrow> string" where
  "anchorsText xs =
     anchors_header @ writeProtocol ''anchors4'' ''ipv4'' ''master4'' (sortAnchors (filter (\<lambda>a. Is4 (pfx_Addr (an_Prefix a))) xs)) @ nl @
     writeProtocol ''anchors6'' ''ipv6'' ''master6'' (sortAnchors (filter (\<lambda>a. \<not> Is4 (pfx_Addr (an_Prefix a))) xs))"

lemma anchors_Render_iff: "anchors_Render xs = Inr content \<longleftrightarrow> anchors_ok xs \<and> content = anchorsText xs"
  using checkAnchors_InrD [of 0 "{}" "[]" "[]" xs] checkAnchors_ok [of xs "{}" 0 "[]" "[]"]
  by (fastforce simp: anchors_Render_def anchorsText_def split: sum.splits prod.splits)

lemma total_lessI:
  "(\<And>x y z. lt x y \<Longrightarrow> lt y z \<Longrightarrow> lt x z) \<Longrightarrow> (\<And>x. \<not> lt x x) \<Longrightarrow>
   (\<And>x y. x \<in> A \<Longrightarrow> y \<in> A \<Longrightarrow> x \<noteq> y \<Longrightarrow> lt x y \<or> lt y x) \<Longrightarrow> total_less lt A"
  unfolding total_less_def by blast

lemma total_Community: "total_less Community_Less A"
proof (rule total_lessI)
  show "Community_Less x y \<or> Community_Less y x" if "x \<noteq> y" for x y :: Community
    using that by (cases x; cases y) (auto simp: Community_Less_def neq_iff)
qed (auto simp: Community_Less_def split: if_splits)

lemma total_LargeCommunity: "total_less LargeCommunity_Less A"
proof (rule total_lessI)
  show "LargeCommunity_Less x y \<or> LargeCommunity_Less y x" if "x \<noteq> y" for x y :: LargeCommunity
    using that by (cases x; cases y) (auto simp: LargeCommunity_Less_def neq_iff)
qed (auto simp: LargeCommunity_Less_def split: if_splits)

lemma total_Prefix: "total_less Prefix_Less A"
  by (rule total_lessI) (use Prefix_Less_trans Prefix_Less_total in auto)

lemma writeRoute_key: "anchorKey a = anchorKey b \<Longrightarrow> writeRoute a = writeRoute b"
  using sortSlice_cong [OF _ total_Community, of "an_Communities a" "an_Communities b"]
    sortSlice_cong [OF _ total_LargeCommunity, of "an_LargeCommunities a" "an_LargeCommunities b"]
  by (auto simp: anchorKey_def writeRoute_def)

lemma map_insertBy: "(\<And>a b. lt a b = lt' (f a) (f b)) \<Longrightarrow> map f (insertBy lt x ys) = insertBy lt' (f x) (map f ys)"
  by (induction ys) auto

lemma map_sortSlice: "(\<And>a b. lt a b = lt' (f a) (f b)) \<Longrightarrow> map f (sortSlice lt xs) = sortSlice lt' (map f xs)"
proof -
  assume h: "\<And>a b. lt a b = lt' (f a) (f b)"
  have "map f (fold (insertBy lt) xs acc) = fold (insertBy lt') (map f xs) (map f acc)" for acc
    by (induction xs arbitrary: acc) (simp_all add: map_insertBy [of lt lt' f, OF h])
  from this [of "[]"] show ?thesis by (simp add: sortSlice_def)
qed

lemma map_factor: "map f xs = map f ys \<Longrightarrow> (\<And>a b. f a = f b \<Longrightarrow> g a = g b) \<Longrightarrow> map g xs = map g ys"
proof (induction xs arbitrary: ys)
  case (Cons x xs)
  obtain y ys' where ys: "ys = y # ys'" "f x = f y" "map f xs = map f ys'" using Cons.prems(1) by (cases ys) auto
  have "map g xs = map g ys'" using Cons.IH [OF ys(3)] Cons.prems(2) by blast
  moreover have "g x = g y" using Cons.prems(2) ys(2) by blast
  ultimately show ?case by (simp add: ys(1))
qed simp

lemma sorted_routes:
  assumes "mset (map anchorKey xs) = mset (map anchorKey ys)" "distinct (map an_Prefix xs)"
  shows "map writeRoute (sortAnchors xs) = map writeRoute (sortAnchors ys)"
proof -
  let ?lt = "\<lambda>k l. Prefix_Less (fst k) (fst l)"
  have "total_less ?lt (set (map anchorKey xs))"
  proof (rule total_lessI)
    fix k l assume "k \<in> set (map anchorKey xs)" "l \<in> set (map anchorKey xs)" "k \<noteq> l"
    then obtain a b where ab: "a \<in> set xs" "b \<in> set xs" "k = anchorKey a" "l = anchorKey b" "a \<noteq> b" by auto
    then have "an_Prefix a \<noteq> an_Prefix b" using assms(2) by (auto simp: distinct_map inj_on_def)
    then show "?lt k l \<or> ?lt l k" using Prefix_Less_total ab by (simp add: anchorKey_def)
  qed (auto intro: Prefix_Less_trans)
  then have "sortSlice ?lt (map anchorKey xs) = sortSlice ?lt (map anchorKey ys)" by (rule sortSlice_cong [OF assms(1)])
  moreover have "map anchorKey (sortAnchors zs) = sortSlice ?lt (map anchorKey zs)" for zs
    unfolding sortAnchors_def by (rule map_sortSlice) (simp add: anchorKey_def)
  ultimately have "map anchorKey (sortAnchors xs) = map anchorKey (sortAnchors ys)" by simp
  then show ?thesis by (rule map_factor) (rule writeRoute_key)
qed

lemma mset_filter_key:
  assumes "mset (map f xs) = mset (map f ys)" "\<And>a. P a = Q (f a)"
  shows "mset (map f (filter P xs)) = mset (map f (filter P ys))"
proof -
  have "map f (filter P zs) = filter Q (map f zs)" for zs by (induction zs) (simp_all add: assms(2))
  then show ?thesis using assms(1) by simp
qed

lemma anchorsText_cong:
  assumes "same_anchors xs ys" "anchors_ok xs"
  shows "anchorsText xs = anchorsText ys"
proof -
  have part: "map writeRoute (sortAnchors (filter P xs)) = map writeRoute (sortAnchors (filter P ys))"
    if "\<And>a. P a = Q (anchorKey a)" for P Q
    using sorted_routes [OF mset_filter_key [of anchorKey xs ys P Q]] assms that
    by (auto simp: same_anchors_def anchors_ok_def distinct_map inj_on_def)
  show ?thesis
    unfolding anchorsText_def writeProtocol_def
    using part [of "\<lambda>a. Is4 (pfx_Addr (an_Prefix a))" "\<lambda>k. Is4 (pfx_Addr (fst k))"]
      part [of "\<lambda>a. \<not> Is4 (pfx_Addr (an_Prefix a))" "\<lambda>k. \<not> Is4 (pfx_Addr (fst k))"]
    by (simp add: anchorKey_def)
qed

lemma anchors_ok_cong: "same_anchors xs ys \<Longrightarrow> anchors_ok xs \<longleftrightarrow> anchors_ok ys"
proof -
  assume "same_anchors xs ys"
  then have "image_mset fst (mset (map anchorKey xs)) = image_mset fst (mset (map anchorKey ys))" by (simp add: same_anchors_def)
  then have "mset (map an_Prefix xs) = mset (map an_Prefix ys)" by (simp add: anchorKey_def multiset.map_comp comp_def)
  then have "distinct (map an_Prefix xs) = distinct (map an_Prefix ys)" "set (map an_Prefix xs) = set (map an_Prefix ys)"
    by (rule mset_eq_imp_distinct_iff, rule mset_eq_setD)
  moreover have "anchors_ok zs \<longleftrightarrow> (\<forall>p\<in>set (map an_Prefix zs). clean_prefix p) \<and> distinct (map an_Prefix zs)" for zs
    by (simp add: anchors_ok_def)
  ultimately show ?thesis by (simp del: set_map)
qed

text \<open>The sources of one family, and when the FlowSpec include can be rendered.\<close>

definition srcsOf :: "bool \<Rightarrow> FlowRedirect list \<Rightarrow> FlowRedirect list" where
  "srcsOf wantV6 rs = filter (\<lambda>r. Is6 (pfx_Addr (fr_SrcPrefix r)) = wantV6) rs"

definition srcs_ok :: "contract_fns \<Rightarrow> bool \<Rightarrow> FlowRedirect list \<Rightarrow> bool" where
  "srcs_ok c wantV6 rs \<longleftrightarrow> (\<forall>r\<in>set (srcsOf wantV6 rs). FlowRedirect_Validate c r) \<and> distinct (map fr_SrcPrefix (srcsOf wantV6 rs))"

lemma checkSrcs_ok:
  "srcs_ok c w rs \<Longrightarrow> fr_SrcPrefix ` set (srcsOf w rs) \<inter> seen = {} \<Longrightarrow>
   checkSrcs c w seen srcs rs = Inr (srcs @ map fr_SrcPrefix (srcsOf w rs))"
proof (induction rs arbitrary: seen srcs)
  case (Cons r rs)
  then show ?case by (auto simp: srcs_ok_def srcsOf_def Let_def)
qed (simp add: srcsOf_def)

lemma checkSrcs_InrD: "checkSrcs c w seen srcs rs = Inr out \<Longrightarrow> srcs_ok c w rs \<and> fr_SrcPrefix ` set (srcsOf w rs) \<inter> seen = {}"
proof (induction rs arbitrary: seen srcs)
  case (Cons r rs)
  show ?case
  proof (cases "Is6 (pfx_Addr (fr_SrcPrefix r)) = w")
    case True
    then have r: "FlowRedirect_Validate c r" "fr_SrcPrefix r \<notin> seen"
      and c: "checkSrcs c w (insert (fr_SrcPrefix r) seen) (srcs @ [fr_SrcPrefix r]) rs = Inr out"
      using Cons.prems by (auto simp: Let_def split: if_splits)
    from Cons.IH [OF c] r True show ?thesis by (auto simp: srcs_ok_def srcsOf_def)
  next
    case False
    then show ?thesis using Cons by (simp add: srcs_ok_def srcsOf_def)
  qed
qed (simp add: srcs_ok_def srcsOf_def)

lemma collectSrcs_iff: "collectSrcs c rs w = Inr ps \<longleftrightarrow> srcs_ok c w rs \<and> ps = sortSlice Prefix_Less (map fr_SrcPrefix (srcsOf w rs))"
  using checkSrcs_ok [of c w rs "{}" "[]"] checkSrcs_InrD [of c w "{}" "[]" rs]
  by (fastforce simp: collectSrcs_def split: sum.splits)

lemma collectSrcs_cong:
  assumes "mset rs = mset rs'" "collectSrcs c rs w = Inr ps"
  shows "collectSrcs c rs' w = Inr ps"
proof -
  have m: "mset (srcsOf w rs) = mset (srcsOf w rs')" using assms(1) by (simp add: srcsOf_def)
  then have mp: "mset (map fr_SrcPrefix (srcsOf w rs)) = mset (map fr_SrcPrefix (srcsOf w rs'))" by simp
  have "srcs_ok c w rs' = srcs_ok c w rs"
    unfolding srcs_ok_def using mset_eq_setD [OF m] mset_eq_imp_distinct_iff [OF mp] by simp
  moreover have "sortSlice Prefix_Less (map fr_SrcPrefix (srcsOf w rs)) = sortSlice Prefix_Less (map fr_SrcPrefix (srcsOf w rs'))"
    by (rule sortSlice_cong [OF mp total_Prefix])
  ultimately show ?thesis using assms(2) by (simp add: collectSrcs_iff)
qed

lemma flowspec_Render_iff:
  "flowspec_Render c rs h h6 = Inr content \<longleftrightarrow>
     (\<exists>v4 v6. collectSrcs c rs False = Inr v4 \<and> collectSrcs c rs True = Inr v6 \<and> (v4 = [] \<or> Is4 h) \<and> (v6 = [] \<or> Is6 h6) \<and>
        content = flowspec_header @
          flowBlock ''flowspec4'' ''flow4'' ''flowtab4''
            (map (flow4Route (if v4 \<noteq> [] then (case redirectIP4ExtCommunity h of Some x \<Rightarrow> x | None \<Rightarrow> (0, 0)) else (0, 0))) v4) @
          flowBlock ''flowspec6'' ''flow6'' ''flowtab6'' (map (flow6Route h6) v6))"
  by (auto simp: flowspec_Render_def Let_def split: sum.splits)

text \<open>When the FlowSpec include can be rendered: every redirect is valid, no source occurs twice, and each family
  that occurs has a next hop of that family.\<close>

definition redirects_ok :: "contract_fns \<Rightarrow> FlowRedirect list \<Rightarrow> Addr \<Rightarrow> Addr \<Rightarrow> bool" where
  "redirects_ok c rs h h6 \<longleftrightarrow>
     (\<forall>r\<in>set rs. FlowRedirect_Validate c r) \<and> distinct (map fr_SrcPrefix rs) \<and>
     ((\<exists>r\<in>set rs. \<not> Is6 (pfx_Addr (fr_SrcPrefix r))) \<longrightarrow> Is4 h) \<and> ((\<exists>r\<in>set rs. Is6 (pfx_Addr (fr_SrcPrefix r))) \<longrightarrow> Is6 h6)"

lemma srcs_ok_both:
  "srcs_ok c False rs \<and> srcs_ok c True rs \<longleftrightarrow> (\<forall>r\<in>set rs. FlowRedirect_Validate c r) \<and> distinct (map fr_SrcPrefix rs)"
proof (induction rs)
  case (Cons r rs)
  have mem: "fr_SrcPrefix r \<in> fr_SrcPrefix ` set rs \<longleftrightarrow> fr_SrcPrefix r \<in> fr_SrcPrefix ` set (srcsOf (Is6 (pfx_Addr (fr_SrcPrefix r))) rs)"
    by (auto simp: srcsOf_def image_iff)
  have "srcs_ok c w (r # rs) \<longleftrightarrow> srcs_ok c w rs \<and>
      (Is6 (pfx_Addr (fr_SrcPrefix r)) = w \<longrightarrow> FlowRedirect_Validate c r \<and> fr_SrcPrefix r \<notin> fr_SrcPrefix ` set (srcsOf w rs))" for w
    by (auto simp: srcs_ok_def srcsOf_def)
  with Cons.IH mem show ?case by (cases "Is6 (pfx_Addr (fr_SrcPrefix r))") auto
qed (simp add: srcs_ok_def srcsOf_def)

lemma sortSlice_Nil_iff: "sortSlice lt xs = [] \<longleftrightarrow> xs = []"
  by (metis mset_sortSlice mset_zero_iff)

lemma flowspec_Render_ok: "(\<exists>content. flowspec_Render c rs h h6 = Inr content) \<longleftrightarrow> redirects_ok c rs h h6"
proof -
  have none: "srcsOf w rs = [] \<longleftrightarrow> \<not> (\<exists>r\<in>set rs. Is6 (pfx_Addr (fr_SrcPrefix r)) = w)" for w
    by (auto simp: srcsOf_def filter_empty_conv)
  have "(\<exists>content. flowspec_Render c rs h h6 = Inr content) \<longleftrightarrow>
      srcs_ok c False rs \<and> srcs_ok c True rs \<and> (srcsOf False rs = [] \<or> Is4 h) \<and> (srcsOf True rs = [] \<or> Is6 h6)"
    unfolding flowspec_Render_iff collectSrcs_iff by (auto simp: sortSlice_Nil_iff)
  also have "\<dots> \<longleftrightarrow> redirects_ok c rs h h6"
    unfolding none redirects_ok_def using srcs_ok_both [of c rs] by auto
  finally show ?thesis .
qed

text \<open>C20: the include files are canonical functions of the desired sets. The anchors file is rendered exactly when every
  prefix is valid, not IPv4-mapped, without host bits and no prefix occurs twice; the FlowSpec file is rendered
  exactly when every redirect is valid by the contract's check, no source occurs twice, and each address family that
  occurs has a next hop of that family. When they are rendered, their bytes do not depend on the order of the
  anchors, of their communities or of the redirects.\<close>

theorem renders_canonical:
  "((\<exists>content. anchors_Render xs = Inr content) \<longleftrightarrow> anchors_ok xs) \<and>
   ((\<exists>content. flowspec_Render c rs h h6 = Inr content) \<longleftrightarrow> redirects_ok c rs h h6) \<and>
   (same_anchors xs ys \<longrightarrow> anchors_Render xs = Inr content \<longrightarrow> anchors_Render ys = Inr content) \<and>
   (mset rs = mset rs' \<longrightarrow> flowspec_Render c rs h h6 = Inr content \<longrightarrow> flowspec_Render c rs' h h6 = Inr content)"
proof (intro conjI impI)
  show "(\<exists>content. anchors_Render xs = Inr content) \<longleftrightarrow> anchors_ok xs" by (simp add: anchors_Render_iff)
  show "(\<exists>content. flowspec_Render c rs h h6 = Inr content) \<longleftrightarrow> redirects_ok c rs h h6" by (rule flowspec_Render_ok)
  show "anchors_Render ys = Inr content" if "same_anchors xs ys" "anchors_Render xs = Inr content"
    using that anchors_ok_cong [OF that(1)] anchorsText_cong [OF that(1)] by (simp add: anchors_Render_iff)
  show "flowspec_Render c rs' h h6 = Inr content" if "mset rs = mset rs'" "flowspec_Render c rs h h6 = Inr content"
    using that(2) collectSrcs_cong [OF that(1)] unfolding flowspec_Render_iff by blast
qed

definition ex_anchor :: "32 word \<Rightarrow> Community list \<Rightarrow> Anchor" where
  "ex_anchor a cs = \<lparr>an_Prefix = Prefix (IPv4 a) 32, an_Communities = cs, an_LargeCommunities = []\<rparr>"

definition ex_c1 :: Community where "ex_c1 = \<lparr>com_ASN = 65000, com_Value = 666\<rparr>"
definition ex_c2 :: Community where "ex_c2 = \<lparr>com_ASN = 65000, com_Value = 1\<rparr>"

lemma ex_anchors_ok: "anchors_ok [ex_anchor 9 [], ex_anchor 5 [ex_c1, ex_c2]]"
  by (simp add: anchors_ok_def clean_prefix_def ex_anchor_def)

theorem renders_canonical_witness:
  "anchors_Render [ex_anchor 5 [ex_c2, ex_c1], ex_anchor 9 []] = anchors_Render [ex_anchor 9 [], ex_anchor 5 [ex_c1, ex_c2]] \<and>
   (\<exists>content. anchors_Render [ex_anchor 9 [], ex_anchor 5 [ex_c1, ex_c2]] = Inr content)"
proof -
  obtain content where r: "anchors_Render [ex_anchor 9 [], ex_anchor 5 [ex_c1, ex_c2]] = Inr content"
    using renders_canonical [where xs = "[ex_anchor 9 [], ex_anchor 5 [ex_c1, ex_c2]]"] ex_anchors_ok by blast
  moreover have "same_anchors [ex_anchor 9 [], ex_anchor 5 [ex_c1, ex_c2]] [ex_anchor 5 [ex_c2, ex_c1], ex_anchor 9 []]"
    by (simp add: same_anchors_def anchorKey_def ex_anchor_def add_mset_commute)
  ultimately show ?thesis
    using renders_canonical [where xs = "[ex_anchor 9 [], ex_anchor 5 [ex_c1, ex_c2]]" and ys = "[ex_anchor 5 [ex_c2, ex_c1], ex_anchor 9 []]"
      and content = content] by simp
qed

end
