(* ===== verification/Netip_Parse.thy ===== *)
theory Netip_Parse
  imports Bird_Render
begin

text \<open>
  Reading addresses and prefixes: \<open>netip.ParseAddr\<close> and \<open>netip.ParsePrefix\<close>, and that they read back what
  \<open>Addr.String\<close> and \<open>Prefix.String\<close> print (\<open>ParsePrefix_String\<close>), with the compressed and the IPv4-mapped
  forms of IPv6. An IPv6 address comes with its zone, the empty string for none. Go distinguishes the errors by
  their text only; here they are \<open>None\<close>.
\<close>

subsection \<open>IPv4\<close>

text \<open>An octet: decimal digits without a leading zero, at most 255.\<close>

definition octetOk :: "string \<Rightarrow> bool" where
  "octetOk p \<longleftrightarrow> p \<noteq> [] \<and> list_all isDigit p \<and> (hd p = CHR ''0'' \<longrightarrow> length p = 1) \<and> parseDec p \<le> 255"

definition parseIPv4Fields :: "string \<Rightarrow> nat list option" where
  "parseIPv4Fields s =
     (let parts = Split s CHR ''.'' in if length parts = 4 \<and> list_all octetOk parts then Some (map parseDec parts) else None)"

definition fieldsNat :: "nat \<Rightarrow> nat list \<Rightarrow> nat" where
  "fieldsNat base fs = foldl (\<lambda>a x. a * base + x) 0 fs"

subsection \<open>IPv6\<close>

definition isHex :: "char \<Rightarrow> bool" where
  "isHex c \<longleftrightarrow> isDigit c \<or> (97 \<le> (of_char c :: nat) \<and> (of_char c :: nat) \<le> 102) \<or> (65 \<le> (of_char c :: nat) \<and> (of_char c :: nat) \<le> 70)"

definition hexVal :: "char \<Rightarrow> nat" where
  "hexVal c = (if isDigit c then of_char c - 48 else if 97 \<le> (of_char c :: nat) then of_char c - 87 else of_char c - 55)"

definition parseHex :: "string \<Rightarrow> nat" where
  "parseHex s = foldl (\<lambda>a c. a * 16 + hexVal c) 0 s"

text \<open>The loop over the groups: \<open>acc\<close> are the groups read, at most \<open>k\<close> more fit, \<open>ell\<close> is the position of the
  ellipsis; the result holds the text left over.\<close>

fun v6loop :: "nat \<Rightarrow> nat list \<Rightarrow> nat option \<Rightarrow> string \<Rightarrow> (nat list \<times> nat option \<times> string) option" where
  "v6loop 0 acc ell s = Some (acc, ell, s)"
| "v6loop (Suc k) acc ell s =
     (let ds = takeWhile isHex s; rest = dropWhile isHex s
      in if ds = [] \<or> 4 < length ds then None
         else case rest of
           [] \<Rightarrow> Some (acc @ [parseHex ds], ell, [])
         | c # t \<Rightarrow>
             if c = CHR ''.'' then
               (if ell = None \<and> length acc \<noteq> 6 \<or> 6 < length acc then None
                else case parseIPv4Fields s of
                  Some [b0, b1, b2, b3] \<Rightarrow> Some (acc @ [b0 * 256 + b1, b2 * 256 + b3], ell, [])
                | _ \<Rightarrow> None)
             else if c \<noteq> CHR '':'' then None
             else (case t of
                 [] \<Rightarrow> None
               | d # u \<Rightarrow>
                   if d \<noteq> CHR '':'' then v6loop k (acc @ [parseHex ds]) ell t
                   else if ell \<noteq> None then None
                   else if u = [] then Some (acc @ [parseHex ds], Some (Suc (length acc)), [])
                   else v6loop k (acc @ [parseHex ds]) (Some (Suc (length acc))) u))"

definition v6groups :: "string \<Rightarrow> nat list option" where
  "v6groups s =
     (let lead = HasPrefix s ''::''; s' = (if lead then drop 2 s else s)
      in if lead \<and> s' = [] then Some (replicate 8 0)
         else case v6loop 8 [] (if lead then Some 0 else None) s' of
           None \<Rightarrow> None
         | Some (acc, ell, left) \<Rightarrow>
             if left \<noteq> [] then None
             else if length acc < 8 then
               (case ell of None \<Rightarrow> None | Some e \<Rightarrow> Some (take e acc @ replicate (8 - length acc) 0 @ drop e acc))
             else if ell \<noteq> None then None else Some acc)"

definition parseIPv6 :: "string \<Rightarrow> (Addr \<times> string) option" where
  "parseIPv6 s =
     (let a = takeWhile (\<lambda>c. c \<noteq> CHR ''%'') s; z = dropWhile (\<lambda>c. c \<noteq> CHR ''%'') s
      in if length z = 1 then None
         else map_option (\<lambda>g. (IPv6 (of_nat (fieldsNat 65536 g)), drop 1 z)) (v6groups a))"

subsection \<open>ParseAddr and ParsePrefix\<close>

fun ParseAddr_scan :: "string \<Rightarrow> string \<Rightarrow> (Addr \<times> string) option" where
  "ParseAddr_scan s [] = None"
| "ParseAddr_scan s (c # cs) =
     (if c = CHR ''.'' then map_option (\<lambda>fs. (IPv4 (of_nat (fieldsNat 256 fs)), [])) (parseIPv4Fields s)
      else if c = CHR '':'' then parseIPv6 s
      else if c = CHR ''%'' then None
      else ParseAddr_scan s cs)"

definition ParseAddr :: "string \<Rightarrow> (Addr \<times> string) option" where
  "ParseAddr s = ParseAddr_scan s s"

definition ParsePrefix :: "string \<Rightarrow> Prefix option" where
  "ParsePrefix s =
     (let bitsStr = rev (takeWhile (\<lambda>c. c \<noteq> CHR ''/'') (rev s)); front = dropWhile (\<lambda>c. c \<noteq> CHR ''/'') (rev s)
      in if front = [] then None
         else case ParseAddr (rev (tl front)) of
           None \<Rightarrow> None
         | Some (ip, zone) \<Rightarrow>
             if Is6 ip \<and> zone \<noteq> [] then None
             else if 1 < length bitsStr \<and> \<not> (isDigit (hd bitsStr) \<and> hd bitsStr \<noteq> CHR ''0'') then None
             else (case Atoi bitsStr of
                     None \<Rightarrow> None
                   | Some bits \<Rightarrow> if bits < 0 \<or> (if Is6 ip then 128 else 32) < bits then None else Some (Prefix ip bits)))"

subsection \<open>IPv4 round trip\<close>

lemma dec_hd: "hd (dec n) = CHR ''0'' \<Longrightarrow> length (dec n) = 1"
proof (induction n rule: less_induct)
  case (less n)
  show ?case
  proof (cases "n < 10")
    case True
    then show ?thesis by (subst showBase.simps) simp
  next
    case False
    then have s: "dec n = dec (n div 10) @ [digitChar (n mod 10)]" by (subst showBase.simps) simp
    then have "hd (dec (n div 10)) = CHR ''0''" using less.prems by simp
    then have "length (dec (n div 10)) = 1" using less.IH [of "n div 10"] False by simp
    then obtain d where d: "dec (n div 10) = [d]" by (auto simp: length_Suc_conv)
    then have "parseDec (dec (n div 10)) = 0"
      using \<open>hd (dec (n div 10)) = CHR ''0''\<close> by (simp add: parseDec_def digitVal_def)
    with False show ?thesis by simp
  qed
qed

lemma octetOk_dec: "n \<le> 255 \<Longrightarrow> octetOk (dec n)"
  using dec_hd [of n] by (auto simp: octetOk_def)

lemma dec_no: "isDigit c = False \<Longrightarrow> c \<notin> set (dec n)"
  using dec_digits [of n] by (auto simp: list_all_iff)

lemma parseIPv4Fields_dec:
  assumes "\<forall>b \<in> set bs. b \<le> 255" and "length bs = 4"
  shows "parseIPv4Fields (Join (map dec bs) ''.'') = Some bs"
proof -
  have "Split (Join (map dec bs) [CHR ''.'']) CHR ''.'' = map dec bs"
    by (rule Split_Join) (use assms(2) in \<open>auto simp: dec_no isDigit_def\<close>)
  moreover have "map (parseDec \<circ> dec) bs = bs" by (rule map_idI) simp
  ultimately show ?thesis
    using assms by (simp add: parseIPv4Fields_def list_all_iff octetOk_dec)
qed

lemma fieldsNat_bytes: "fieldsNat 256 (map unat bs) = be_nat bs"
  by (simp add: fieldsNat_def be_nat_def foldl_map)

lemma byte_le: "unat (b :: u8) \<le> 255"
  using unsigned_less [where 'a = nat, of b] by simp

lemma parse_v4String: "parseIPv4Fields (v4String w) = Some (map unat (be_bytes 4 w))"
  unfolding v4String_def map_map [symmetric, unfolded comp_def]
  using parseIPv4Fields_dec [of "map unat (be_bytes 4 w)"] by (simp add: byte_le)

lemma v4_word: "of_nat (fieldsNat 256 (map unat (be_bytes 4 (w :: 32 word)))) = w"
  using unsigned_less [where 'a = nat, of w] by (simp only: fieldsNat_bytes be_nat_be_bytes) (simp add: word_unat_eq_iff unat_of_nat)

text \<open>The first character that is not a digit decides the family.\<close>

lemma ParseAddr_skip: "list_all isHex d \<Longrightarrow> ParseAddr_scan s (d @ c # r) = ParseAddr_scan s (c # r)"
  by (induction d) (auto simp: isHex_def isDigit_def)

lemma digit_hex: "isDigit c \<Longrightarrow> isHex c"
  by (simp add: isHex_def)

lemma dec_hex: "list_all isHex (dec n)"
  using dec_digits [of n] by (auto simp: list_all_iff digit_hex)

lemma v4String_split: "\<exists>n r. v4String w = dec n @ CHR ''.'' # r"
proof -
  obtain b0 b1 b2 b3 where "be_bytes 4 w = [b0, b1, b2, b3]"
    using be_bytes_length [of 4 w] by (auto simp: numeral_eq_Suc length_Suc_conv)
  then show ?thesis by (auto simp: v4String_def)
qed

lemma ParseAddr_v4: "ParseAddr (v4String w) = Some (IPv4 w, [])" for w :: "32 word"
proof -
  obtain n r where s: "v4String w = dec n @ CHR ''.'' # r" using v4String_split by blast
  have "ParseAddr (v4String w) = map_option (\<lambda>fs. (IPv4 (of_nat (fieldsNat 256 fs)), [])) (parseIPv4Fields (v4String w))"
    unfolding ParseAddr_def s by (simp add: ParseAddr_skip [OF dec_hex])
  then show ?thesis by (simp add: parse_v4String v4_word)
qed

subsection \<open>IPv6 round trip\<close>

abbreviation hex :: "nat \<Rightarrow> string" where "hex \<equiv> showBase 16"

lemma hexDigit: "d < 16 \<Longrightarrow> isHex (digitChar d) \<and> hexVal (digitChar d) = d"
  by (auto simp: digitChar_def isHex_def hexVal_def isDigit_def)

lemma hex_props: "list_all isHex (hex n) \<and> parseHex (hex n) = n"
proof (induction n rule: less_induct)
  case (less n)
  show ?case
  proof (cases "n < 16")
    case True
    then show ?thesis by (subst (1 2) showBase.simps) (simp add: hexDigit parseHex_def)
  next
    case False
    then show ?thesis using less.IH [of "n div 16"] hexDigit [of "n mod 16"] by (subst (1 2) showBase.simps) (simp add: parseHex_def)
  qed
qed

lemma hex_length: "n < 16 ^ k \<Longrightarrow> 0 < k \<Longrightarrow> length (hex n) \<le> k"
proof (induction k arbitrary: n)
  case (Suc k)
  show ?case
  proof (cases "n < 16")
    case False
    then have "k \<noteq> 0" using Suc.prems(1) by (cases k) auto
    moreover have "n div 16 < 16 ^ k" using Suc.prems(1) by (simp add: less_mult_imp_div_less)
    ultimately have "length (hex (n div 16)) \<le> k" using Suc.IH by simp
    then show ?thesis using False by (subst showBase.simps) simp
  qed (subst showBase.simps, simp)
qed simp

lemma not_hex: "\<not> isHex CHR '':''" "\<not> isHex CHR ''.''" "\<not> isHex CHR ''%''"
  by (simp_all add: isHex_def isDigit_def)

lemma take_hex:
  "takeWhile isHex (hex n) = hex n" "dropWhile isHex (hex n) = []"
  "\<not> isHex c \<Longrightarrow> takeWhile isHex (hex n @ c # r) = hex n" "\<not> isHex c \<Longrightarrow> dropWhile isHex (hex n @ c # r) = c # r"
  using hex_props [of n] by (simp_all add: list_all_iff takeWhile_append2 dropWhile_append2)

lemma hex_no_colon: "hex n @ r = d # u \<Longrightarrow> d \<noteq> CHR '':''"
  using hex_props [of n] not_hex(1) showBase_nonempty [of 16 n] by (cases "hex n") auto

lemma Join_hex_start:
  assumes "gs \<noteq> []"
  obtains d u where "Join (map hex gs) '':'' @ r = d # u" "d \<noteq> CHR '':''"
proof -
  obtain g gs' where gs: "gs = g # gs'" using assms by (cases gs) auto
  obtain r' where r': "Join (map hex gs) '':'' @ r = hex g @ r'" by (cases gs') (auto simp: gs)
  obtain d u where "hex g @ r' = d # u" using showBase_nonempty [of 16 g] by (cases "hex g @ r'") auto
  then show ?thesis using that hex_no_colon r' by metis
qed

text \<open>One group followed by a colon and another group; the last group; a group followed by the ellipsis.\<close>

lemma v6loop_group:
  assumes "g < 65536" and "d \<noteq> CHR '':''"
  shows "v6loop (Suc k) acc ell (hex g @ CHR '':'' # d # u) = v6loop k (acc @ [g]) ell (d # u)"
  using assms hex_length [of g 4] hex_props [of g] by (simp add: take_hex not_hex)

lemma v6loop_last: "g < 65536 \<Longrightarrow> v6loop (Suc k) acc ell (hex g) = Some (acc @ [g], ell, [])"
  using hex_length [of g 4] hex_props [of g] by (simp add: take_hex)

lemma v6loop_ellipsis:
  assumes "g < 65536"
  shows "v6loop (Suc k) acc None (hex g @ CHR '':'' # CHR '':'' # u) =
    (if u = [] then Some (acc @ [g], Some (Suc (length acc)), []) else v6loop k (acc @ [g]) (Some (Suc (length acc))) u)"
  using assms hex_length [of g 4] hex_props [of g] by (simp add: take_hex not_hex)

lemma v6loop_groups:
  assumes "gs \<noteq> []" and "\<forall>g \<in> set gs. g < 65536" and "length gs \<le> k"
  shows "v6loop k acc ell (Join (map hex gs) '':'') = Some (acc @ gs, ell, [])"
  using assms
proof (induction gs arbitrary: k acc)
  case (Cons g gs)
  then obtain k' where k: "k = Suc k'" by (cases k) auto
  show ?case
  proof (cases gs)
    case Nil
    then show ?thesis using Cons.prems v6loop_last by (simp add: k)
  next
    case (Cons g' gs')
    then obtain d u where d: "Join (map hex gs) '':'' = d # u" "d \<noteq> CHR '':''" using Join_hex_start [of gs "[]"] by auto
    have "v6loop k acc ell (Join (map hex (g # gs)) '':'') = v6loop k' (acc @ [g]) ell (Join (map hex gs) '':'')"
      using v6loop_group [of g d k' acc ell u] d Cons.prems by (simp add: Cons k)
    then show ?thesis using Cons.IH [of k' "acc @ [g]"] Cons.prems by (simp add: Cons k)
  qed
qed simp

lemma v6loop_before_ellipsis:
  assumes "gs \<noteq> []" and "\<forall>g \<in> set gs. g < 65536" and "length gs \<le> k"
  shows "v6loop k acc None (Join (map hex gs) '':'' @ CHR '':'' # CHR '':'' # u) =
    (if u = [] then Some (acc @ gs, Some (length acc + length gs), [])
     else v6loop (k - length gs) (acc @ gs) (Some (length acc + length gs)) u)"
  using assms
proof (induction gs arbitrary: k acc)
  case (Cons g gs)
  then obtain k' where k: "k = Suc k'" by (cases k) auto
  show ?case
  proof (cases gs)
    case Nil
    then show ?thesis using Cons.prems v6loop_ellipsis by (simp add: k)
  next
    case (Cons g' gs')
    let ?r = "CHR '':'' # CHR '':'' # u"
    from Cons obtain d v where d: "Join (map hex gs) '':'' @ ?r = d # v" "d \<noteq> CHR '':''" using Join_hex_start [of gs ?r] by auto
    have "v6loop k acc None (Join (map hex (g # gs)) '':'' @ ?r) = v6loop k' (acc @ [g]) None (Join (map hex gs) '':'' @ ?r)"
      using v6loop_group [of g d k' acc None v] d Cons.prems by (simp add: Cons k)
    then show ?thesis using Cons.IH [of k' "acc @ [g]"] Cons.prems by (simp add: Cons k)
  qed
qed simp

text \<open>Reading the compressed form gives the groups with the zeros put back.\<close>

lemma v6groups_compressed:
  assumes "\<forall>g \<in> set (as @ bs). g < 65536" and "length as + length bs < 8"
  shows "v6groups (Join (map hex as) '':'' @ ''::'' @ Join (map hex bs) '':'') = Some (as @ replicate (8 - (length as + length bs)) 0 @ bs)"
proof -
  let ?bs = "Join (map hex bs) '':''"
  have bs_empty: "?bs = [] \<longleftrightarrow> bs = []" using Join_hex_start [of bs "[]"] by (metis Join.simps(1) append_Nil2 list.distinct(1) list.map(1))
  show ?thesis
  proof (cases "as = []")
    case True
    show ?thesis
    proof (cases "bs = []")
      case False
      have "v6loop 8 [] (Some 0) ?bs = Some (bs, Some 0, [])" using v6loop_groups [OF False, of 8 "[]"] assms by simp
      then show ?thesis using True False bs_empty assms(2) by (simp add: v6groups_def HasPrefix_def)
    qed (simp add: True v6groups_def HasPrefix_def)
  next
    case False
    obtain d u where d: "Join (map hex as) '':'' @ ''::'' @ ?bs = d # u" "d \<noteq> CHR '':''" using Join_hex_start [OF False] by metis
    then have lead: "\<not> HasPrefix (Join (map hex as) '':'' @ ''::'' @ ?bs) ''::''" by (simp add: HasPrefix_def)
    have "v6loop 8 [] None (Join (map hex as) '':'' @ ''::'' @ ?bs) = Some (as @ bs, Some (length as), [])"
    proof (cases "bs = []")
      case True
      then show ?thesis using v6loop_before_ellipsis [OF False, of 8 "[]" "[]"] assms by simp
    next
      case nonempty: False
      have "v6loop 8 [] None (Join (map hex as) '':'' @ ''::'' @ ?bs) = v6loop (8 - length as) as (Some (length as)) ?bs"
        using v6loop_before_ellipsis [OF False, of 8 "[]" ?bs] assms bs_empty nonempty by simp
      also have "\<dots> = Some (as @ bs, Some (length as), [])" using v6loop_groups [OF nonempty] assms by simp
      finally show ?thesis .
    qed
    then show ?thesis using lead assms(2) by (simp add: v6groups_def)
  qed
qed

lemma v6groups_full:
  assumes "\<forall>g \<in> set gs. g < 65536" and "length gs = 8"
  shows "v6groups (Join (map hex gs) '':'') = Some gs"
proof -
  have ne: "gs \<noteq> []" using assms(2) by auto
  obtain d u where "Join (map hex gs) '':'' = d # u" "d \<noteq> CHR '':''" using Join_hex_start [OF ne, of "[]"] by auto
  then have "\<not> HasPrefix (Join (map hex gs) '':'') ''::''" by (simp add: HasPrefix_def)
  then show ?thesis using v6loop_groups [OF ne assms(1), of 8 "[]" None] assms(2) by (simp add: v6groups_def)
qed

subsection \<open>Groups and the address\<close>

lemma v6u16_nat: "v6u16 w = map (\<lambda>i. unat w div 2 ^ (16 * (7 - i)) mod 65536) [0..<8]"
proof -
  have "unat (ucast (drop_bit k w) :: u16) = unat w div 2 ^ k mod 65536" for k
    unfolding unsigned_ucast_eq take_bit_eq_mod unat_drop_bit_eq by (simp add: drop_bit_eq_div)
  then show ?thesis unfolding v6u16_def by (intro map_cong) simp_all
qed

lemma v6u16_props: "length (v6u16 w) = 8" "\<forall>g \<in> set (v6u16 w). g < 65536"
  by (auto simp: v6u16_nat)

lemma groups_nat:
  fixes n :: nat
  assumes "n < 2 ^ 128" and "k \<le> 8"
  shows "fieldsNat 65536 (map (\<lambda>i. n div 2 ^ (16 * (7 - i)) mod 65536) [0..<k]) = n div 2 ^ (16 * (8 - k))"
  using assms(2)
proof (induction k)
  case 0
  then show ?case using assms(1) by (simp add: fieldsNat_def)
next
  case (Suc k)
  have "16 * (8 - k) = 16 * (7 - k) + 16" using Suc.prems by simp
  then have "n div 2 ^ (16 * (8 - k)) = n div 2 ^ (16 * (7 - k)) div 65536" by (simp only: power_add div_mult2_eq) simp
  then have "n div 2 ^ (16 * (8 - k)) * 65536 + n div 2 ^ (16 * (7 - k)) mod 65536 = n div 2 ^ (16 * (7 - k))"
    by (simp only: div_mult_mod_eq)
  with Suc show ?case by (simp add: fieldsNat_def)
qed

lemma v6_word: "of_nat (fieldsNat 65536 (v6u16 w)) = w" for w :: "128 word"
proof -
  have "unat w < 2 ^ 128" using unsigned_less [where 'a = nat, of w] by simp
  then have "fieldsNat 65536 (v6u16 w) = unat w" using groups_nat [of "unat w" 8] by (simp add: v6u16_nat)
  then show ?thesis by simp
qed

text \<open>The run that is left out is a run of at least two zero groups.\<close>

definition run_ok :: "nat list \<Rightarrow> nat \<times> nat \<Rightarrow> bool" where
  "run_ok g r \<longleftrightarrow> (case r of (zs, ze) \<Rightarrow> zs = 255 \<and> ze = 255 \<or>
     zs + 2 \<le> ze \<and> ze \<le> length g \<and> take (ze - zs) (drop zs g) = replicate (ze - zs) 0)"

lemma zeroRun_ok: "run_ok g (zeroRun g)"
proof -
  have "run_ok g (foldl (\<lambda>(zs, ze) i. let l = length (takeWhile (\<lambda>x. x = 0) (drop i g)) in if 2 \<le> l \<and> ze - zs < l then (i, i + l) else (zs, ze)) r is)"
    if "run_ok g r" for r and "is" :: "nat list"
    using that
  proof (induction "is" arbitrary: r)
    case (Cons i "is")
    let ?z = "takeWhile (\<lambda>x. x = 0) (drop i g)"
    have len: "length ?z \<le> length g - i" by (metis length_drop length_takeWhile_le)
    have "take (length ?z) (drop i g) = replicate (length ?z) 0"
      by (metis (mono_tags, lifting) replicate_length_same set_takeWhileD takeWhile_eq_take)
    then have "run_ok g (case r of (zs, ze) \<Rightarrow> if 2 \<le> length ?z \<and> ze - zs < length ?z then (i, i + length ?z) else (zs, ze))"
      using Cons.prems len by (cases r) (simp add: run_ok_def; linarith)
    with Cons.IH show ?case by (auto simp: Let_def split: prod.splits)
  qed simp
  from this [of "(255, 255)"] show ?thesis by (simp add: zeroRun_def run_ok_def)
qed

lemma v6groups_String: "v6groups (v6String w) = Some (v6u16 w)"
proof -
  let ?g = "v6u16 w"
  obtain zs ze where z: "zeroRun ?g = (zs, ze)" by (cases "zeroRun ?g")
  show ?thesis
  proof (cases "zs < 8")
    case True
    with zeroRun_ok [of ?g] have r: "zs + 2 \<le> ze" "ze \<le> 8" "take (ze - zs) (drop zs ?g) = replicate (ze - zs) 0"
      by (auto simp: z run_ok_def v6u16_props)
    have "take zs ?g @ replicate (ze - zs) 0 @ drop ze ?g = ?g"
      using r(1) append_take_drop_id [of zs ?g] append_take_drop_id [of "ze - zs" "drop zs ?g"] by (simp add: r(3) [symmetric])
    moreover have "8 - (length (take zs ?g) + length (drop ze ?g)) = ze - zs" "length (take zs ?g) + length (drop ze ?g) < 8"
      using r(1,2) by (simp_all add: v6u16_props)
    ultimately show ?thesis
      using v6groups_compressed [of "take zs ?g" "drop ze ?g"] v6u16_props(2) [of w] True
      by (auto simp: v6String_def z Let_def dest: in_set_takeD in_set_dropD)
  qed (simp add: v6String_def z Let_def v6groups_full v6u16_props)
qed

text \<open>The IPv4-mapped form.\<close>

lemma v6groups_mapped:
  assumes "drop_bit 32 w = (0xffff :: 128 word)"
  shows "\<exists>g. v6groups (''::ffff:'' @ v4String w) = Some g \<and> of_nat (fieldsNat 65536 g) = w"
proof -
  obtain b0 b1 b2 b3 where bs: "be_bytes 4 w = [b0, b1, b2, b3]"
    using be_bytes_length [of 4 w] by (auto simp: numeral_eq_Suc length_Suc_conv)
  have v4: "parseIPv4Fields (v4String w) = Some [unat b0, unat b1, unat b2, unat b3]" using parse_v4String [of w] by (simp add: bs)
  obtain r where s: "v4String w = dec (unat b0) @ CHR ''.'' # r" by (simp add: v4String_def bs)
  have hexs: "takeWhile isHex (v4String w) = dec (unat b0)" "dropWhile isHex (v4String w) = CHR ''.'' # r"
    using dec_hex [of "unat b0"] by (simp_all add: s list_all_iff takeWhile_append2 dropWhile_append2 not_hex)
  have l: "length (dec (unat b0)) \<le> 3" using dec_length [of "unat b0" 3] byte_le [of b0] by simp
  have f: "takeWhile isHex (''ffff:'' @ v4String w) = ''ffff''" "dropWhile isHex (''ffff:'' @ v4String w) = CHR '':'' # v4String w"
    "parseHex ''ffff'' = 65535"
    by (simp_all add: isHex_def isDigit_def parseHex_def hexVal_def)
  obtain d u where d: "v4String w = d # u" "d \<noteq> CHR '':''"
    using s dec_digits [of "unat b0"] showBase_nonempty [of 10 "unat b0"] by (cases "dec (unat b0)") (auto dest: digit_not_space)
  have "v6loop 8 [] (Some 0) (''ffff:'' @ v4String w) = v6loop 7 [65535] (Some 0) (v4String w)"
    using v6loop.simps(2) [of 7 "[]" "Some 0" "''ffff:'' @ v4String w"] d unfolding Let_def f by simp
  also have "\<dots> = Some ([65535, unat b0 * 256 + unat b1, unat b2 * 256 + unat b3], Some 0, [])"
    using v6loop.simps(2) [of 6 "[65535]" "Some 0" "v4String w"] hexs l v4 by simp
  finally have "v6groups (''::ffff:'' @ v4String w) = Some (replicate 5 0 @ [65535, unat b0 * 256 + unat b1, unat b2 * 256 + unat b3])"
    by (simp add: v6groups_def HasPrefix_def)
  moreover have "fieldsNat 65536 (replicate 5 0 @ [65535, unat b0 * 256 + unat b1, unat b2 * 256 + unat b3]) = 65535 * 2 ^ 32 + be_nat (be_bytes 4 w)"
  proof -
    have five: "replicate 5 (0 :: nat) = [0, 0, 0, 0, 0]" by (simp add: numeral_eq_Suc)
    show ?thesis by (simp only: five) (simp add: fieldsNat_def be_nat_def bs)
  qed
  moreover have "65535 * 2 ^ 32 + be_nat (be_bytes 4 w) = unat w"
  proof -
    have "unat w div 2 ^ 32 = 65535" using arg_cong [OF assms, of unat] unfolding unat_drop_bit_eq by (simp add: drop_bit_eq_div)
    then show ?thesis using div_mult_mod_eq [of "unat w" "2 ^ 32"] by (simp add: be_nat_be_bytes)
  qed
  ultimately show ?thesis by simp
qed

subsection \<open>Addresses and prefixes round trip\<close>

lemma set_Join: "set (Join ps sep) \<subseteq> \<Union> (set ` set ps) \<union> set sep"
  by (induction ps sep rule: Join.induct) auto

lemma hex_chars: "c \<in> set (Join (map hex gs) '':'') \<Longrightarrow> isHex c \<or> c = CHR '':''"
  using set_Join [of "map hex gs" "'':''"] hex_props by (fastforce simp: list_all_iff)

lemma v6String_chars: "c \<in> set (v6String w) \<Longrightarrow> isHex c \<or> c = CHR '':''"
  by (auto simp: v6String_def Let_def dest: hex_chars split: prod.splits if_splits)

lemma v4String_chars: "c \<in> set (v4String w) \<Longrightarrow> isHex c \<or> c = CHR ''.''"
  using set_Join [of "map (\<lambda>b. dec (unat b)) (be_bytes 4 w)" "''.''"] dec_hex by (fastforce simp: v4String_def list_all_iff)

lemma Join_colon: "2 \<le> length gs \<Longrightarrow> \<exists>r. Join (map hex gs) '':'' = hex (hd gs) @ CHR '':'' # r"
  by (cases gs; cases "tl gs") auto

lemma Join_then_colon: "\<exists>d r. list_all isHex d \<and> Join (map hex gs) '':'' @ CHR '':'' # r' = d @ CHR '':'' # r"
proof (cases gs)
  case (Cons g gs')
  then show ?thesis using hex_props [of g] by (cases gs') auto
qed (auto intro: exI [of _ "[]"])

lemma v6String_colon: "\<exists>d r. list_all isHex d \<and> v6String w = d @ CHR '':'' # r"
proof -
  obtain zs ze where z: "zeroRun (v6u16 w) = (zs, ze)" by (cases "zeroRun (v6u16 w)")
  show ?thesis
  proof (cases "zs < 8")
    case True
    then show ?thesis using Join_then_colon [of "take zs (v6u16 w)" "CHR '':'' # Join (map hex (drop ze (v6u16 w))) '':''"]
      by (simp add: v6String_def z Let_def)
  next
    case False
    then show ?thesis using Join_colon [of "v6u16 w"] hex_props [of "hd (v6u16 w)"] v6u16_props(1) [of w] by (auto simp: v6String_def z Let_def)
  qed
qed

lemma ParseAddr_colon:
  assumes "s = d @ CHR '':'' # r" and "list_all isHex d" and "CHR ''%'' \<notin> set s"
  shows "ParseAddr s = map_option (\<lambda>g. (IPv6 (of_nat (fieldsNat 65536 g)), [])) (v6groups s)"
proof -
  have "takeWhile (\<lambda>c. c \<noteq> CHR ''%'') s = s" "dropWhile (\<lambda>c. c \<noteq> CHR ''%'') s = []"
    using assms(3) by (auto simp: takeWhile_eq_all_conv dropWhile_eq_Nil_conv)
  then have "parseIPv6 s = map_option (\<lambda>g. (IPv6 (of_nat (fieldsNat 65536 g)), [])) (v6groups s)" unfolding parseIPv6_def Let_def by (simp only:) simp
  then show ?thesis unfolding ParseAddr_def using ParseAddr_skip [OF assms(2), of s "CHR '':''" r] assms(1) by simp
qed

theorem ParseAddr_String: "Addr_IsValid a \<Longrightarrow> ParseAddr (Addr_String a) = Some (a, [])"
proof (cases a)
  case (IPv6 w)
  show ?thesis
  proof (cases "drop_bit 32 w = (0xffff :: 128 word)")
    case True
    have "CHR ''%'' \<notin> set (''::ffff:'' @ v4String w)" using v4String_chars [of "CHR ''%''" w] not_hex(3) by auto
    then have "ParseAddr (''::ffff:'' @ v4String w) =
        map_option (\<lambda>g. (IPv6 (of_nat (fieldsNat 65536 g)), [])) (v6groups (''::ffff:'' @ v4String w))"
      by (intro ParseAddr_colon [of _ "[]"]) auto
    with v6groups_mapped [OF True] show ?thesis using IPv6 True by auto
  next
    case False
    obtain d r where d: "list_all isHex d" "v6String w = d @ CHR '':'' # r" using v6String_colon by blast
    have "CHR ''%'' \<notin> set (v6String w)" using v6String_chars [of "CHR ''%''" w] not_hex(3) by auto
    from ParseAddr_colon [OF d(2,1) this] show ?thesis using IPv6 False by (simp add: v6groups_String v6_word)
  qed
qed (simp_all add: Addr_IsValid_def ParseAddr_v4)

lemma Addr_String_no_slash: "Addr_IsValid a \<Longrightarrow> CHR ''/'' \<notin> set (Addr_String a)"
proof -
  have "\<not> isHex CHR ''/''" by (simp add: isHex_def isDigit_def)
  then show "Addr_IsValid a \<Longrightarrow> ?thesis"
    by (cases a) (auto simp: Addr_IsValid_def dest!: v4String_chars v6String_chars)
qed

text \<open>What \<open>Prefix.String\<close> prints, \<open>ParsePrefix\<close> reads back.\<close>

theorem ParsePrefix_String:
  assumes "Prefix_IsValid p"
  shows "ParsePrefix (Prefix_String p) = Some p"
proof -
  obtain a b where p: "p = Prefix a b" by (cases p)
  with assms have a: "Addr_IsValid a" and b: "0 \<le> b" "b \<le> BitLen a" by (auto simp: Addr_IsValid_def)
  let ?b = "dec (nat b)"
  have s: "Prefix_String p = Addr_String a @ CHR ''/'' # ?b" using assms b(1) by (simp add: Prefix_String_def p showInt_def)
  have dg: "CHR ''/'' \<notin> set ?b" using dec_no [of "CHR ''/''"] by (simp add: isDigit_def)
  then have parts: "takeWhile (\<lambda>c. c \<noteq> CHR ''/'') (rev (Prefix_String p)) = rev ?b"
    "dropWhile (\<lambda>c. c \<noteq> CHR ''/'') (rev (Prefix_String p)) = CHR ''/'' # rev (Addr_String a)"
    unfolding s rev_append rev.simps append_assoc by (subst takeWhile_append2 dropWhile_append2; auto)+
  have small: "nat b < 2 ^ 63" "b \<le> (if Is6 a then 128 else 32)" using b by (cases a, auto)+
  have "Atoi ?b = Some b" using Atoi_digits [OF dec_digits, of "nat b"] small(1) b(1) by simp
  moreover have "isDigit (hd ?b)" using dec_digits [of "nat b"] showBase_nonempty [of 10 "nat b"] by (cases ?b) auto
  moreover have "1 < length ?b \<longrightarrow> hd ?b \<noteq> CHR ''0''" using dec_hd [of "nat b"] by auto
  ultimately show ?thesis using parts ParseAddr_String [OF a] small(2) b(1) by (simp add: ParsePrefix_def p Let_def)
qed

end
