(* ===== verification/Bird_Cli.thy ===== *)
theory Bird_Cli
  imports Go_Strings
begin

text \<open>
  \<open>internal/bird\<close>: the client of BIRD's control socket. The daemon behind the socket is the parameter
  \<open>ctl\<close>: connecting gives a connection number and the bytes of the banner, writing a command gives the bytes
  that arrive in answer before the deadline; either may fail, and the daemon's state \<open>'b\<close> may change. A client
  holds its connection with the bytes received and not yet consumed (\<open>bufio.Reader\<close>).

  The first half is the code: the reply reader, \<open>Dial\<close>, \<open>Do\<close>, the \<open>configure\<close> family, the two table readers
  that parse text, and the self-reconnecting wrapper. The second half relates the reader to the line protocol
  that the package comment documents, and says what a caller of the wrapper sees across a restart of BIRD.
\<close>

subsection \<open>Replies\<close>

record Line =
  ln_Code :: int
  ln_Text :: string

record Reply =
  ry_Code :: int
  ry_Lines :: "Line list"
  ry_Async :: "string list"

definition Reply_zero :: Reply where
  "Reply_zero = \<lparr>ry_Code = 0, ry_Lines = [], ry_Async = []\<rparr>"

definition Reply_Text :: "Reply \<Rightarrow> string" where
  "Reply_Text r = Join (map ln_Text (ry_Lines r)) [CHR 0x0A]"

text \<open>\<open>bufio.Reader.ReadString\<close> up to a newline: without one, what arrives ends in an error (end of file or
  the deadline).\<close>

definition ReadString :: "string \<Rightarrow> (string \<times> string) option" where
  "ReadString inp =
     (if CHR 0x0A \<in> set inp
      then Some (takeWhile (\<lambda>c. c \<noteq> CHR 0x0A) inp @ [CHR 0x0A], tl (dropWhile (\<lambda>c. c \<noteq> CHR 0x0A) inp))
      else None)"

lemma ReadString_shorter: "ReadString inp = Some (raw, rest) \<Longrightarrow> length rest < length inp"
  using length_dropWhile_le [of "\<lambda>c. c \<noteq> CHR 0x0A" inp]
  by (cases inp) (auto simp: ReadString_def split: if_splits)

function readLoop :: "Reply \<Rightarrow> int \<Rightarrow> string \<Rightarrow> (error + Reply) \<times> string" where
  "readLoop r lastCode inp =
     (case ReadString inp of None \<Rightarrow> (Inl ErrIO, [])
      | Some (raw, rest) \<Rightarrow>
          (let line = TrimRight raw [CHR 0x0D, CHR 0x0A]
           in case line of
                [] \<Rightarrow> readLoop r lastCode rest
              | c # t \<Rightarrow>
                  if c = CHR ''+'' then readLoop (r\<lparr>ry_Async := ry_Async r @ [t]\<rparr>) lastCode rest
                  else if c = CHR '' '' then
                    (if lastCode < 0 then (Inl (ErrMalformed line), rest)
                     else readLoop (r\<lparr>ry_Lines := ry_Lines r @ [\<lparr>ln_Code = lastCode, ln_Text = t\<rparr>]\<rparr>) lastCode rest)
                  else if length line < 5 then (Inl (ErrMalformed line), rest)
                  else (case Atoi (take 4 line) of None \<Rightarrow> (Inl (ErrMalformed line), rest)
                        | Some code \<Rightarrow>
                            (let r' = r\<lparr>ry_Lines := ry_Lines r @ [\<lparr>ln_Code = code, ln_Text = drop 5 line\<rparr>]\<rparr>
                             in if line ! 4 = CHR '' '' then (Inr (r'\<lparr>ry_Code := code\<rparr>), rest)
                                else if line ! 4 = CHR ''-'' then readLoop r' code rest
                                else (Inl (ErrMalformed line), rest)))))"
  by pat_completeness auto
termination
  by (relation "measure (\<lambda>(_, _, inp). length inp)") (auto dest: ReadString_shorter)

declare readLoop.simps [simp del]

definition readReply :: "string \<Rightarrow> (error + Reply) \<times> string" where
  "readReply inp = readLoop Reply_zero (- 1) inp"

subsection \<open>The client\<close>

record 'b ctl =
  ct_dial :: "'b \<Rightarrow> (nat \<times> string) option \<times> 'b"
  ct_deadline :: "nat \<Rightarrow> 'b \<Rightarrow> bool \<times> 'b"
  ct_write :: "nat \<Rightarrow> string \<Rightarrow> 'b \<Rightarrow> string option \<times> 'b"

record CtlClient =
  cc_conn :: "(nat \<times> string) option"
  cc_banner :: string

definition Dial :: "'b ctl \<Rightarrow> 'b \<Rightarrow> (error + CtlClient) \<times> 'b" where
  "Dial p b =
     (case ct_dial p b of (None, b1) \<Rightarrow> (Inl ErrIO, b1)
      | (Some (conn, inp), b1) \<Rightarrow>
          (case ct_deadline p conn b1 of (False, b2) \<Rightarrow> (Inl ErrIO, b2)
           | (True, b2) \<Rightarrow>
               (case readReply inp of (Inl e, _) \<Rightarrow> (Inl e, b2)
                | (Inr banner, rest) \<Rightarrow>
                    if ry_Code banner \<noteq> 1 then (Inl (ErrMalformed (Reply_Text banner)), b2)
                    else (Inr \<lparr>cc_conn = Some (conn, rest), cc_banner = Reply_Text banner\<rparr>, b2))))"

text \<open>\<open>Version\<close>: the word after \<open>BIRD\<close> in the banner.\<close>

definition Version :: "CtlClient \<Rightarrow> string" where
  "Version c =
     (let t = drop 5 (cc_banner c); v = takeWhile (\<lambda>x. \<not> isSpace x) t
      in if HasPrefix (cc_banner c) ''BIRD '' \<and> v \<noteq> [] \<and> HasPrefix (drop (length v) t) '' ready'' then v else [])"

definition Ctl_closeLocked :: "CtlClient \<Rightarrow> CtlClient" where
  "Ctl_closeLocked c = c\<lparr>cc_conn := None\<rparr>"

definition Ctl_Close :: "CtlClient \<Rightarrow> CtlClient" where
  "Ctl_Close c = Ctl_closeLocked c"

text \<open>\<open>Do\<close> returns the reply along with a \<open>CommandError\<close>, as the code does.\<close>

definition Do :: "'b ctl \<Rightarrow> string \<Rightarrow> CtlClient \<times> 'b \<Rightarrow> (Reply option \<times> error option) \<times> (CtlClient \<times> 'b)" where
  "Do p cmd s =
     (case s of (c, b) \<Rightarrow>
        (case cc_conn c of None \<Rightarrow> ((None, Some ErrClosed), (c, b))
         | Some (conn, unread) \<Rightarrow>
             (case ct_deadline p conn b of (False, b1) \<Rightarrow> ((None, Some ErrIO), (Ctl_closeLocked c, b1))
              | (True, b1) \<Rightarrow>
                  (case ct_write p conn (cmd @ [CHR 0x0A]) b1 of (None, b2) \<Rightarrow> ((None, Some ErrIO), (Ctl_closeLocked c, b2))
                   | (Some bs, b2) \<Rightarrow>
                       (case readReply (unread @ bs) of
                          (Inl e, _) \<Rightarrow> ((None, Some e), (Ctl_closeLocked c, b2))
                        | (Inr reply, rest) \<Rightarrow>
                            ((Some reply, if 8000 \<le> ry_Code reply then Some (ErrCommand (ry_Code reply) (Reply_Text reply)) else None),
                             (c\<lparr>cc_conn := Some (conn, rest)\<rparr>, b2)))))))"

subsection \<open>Commands\<close>

definition CodeReconfigured :: int where "CodeReconfigured = 3"
definition CodeReconfigInProgress :: int where "CodeReconfigInProgress = 4"
definition CodeReconfigQueued :: int where "CodeReconfigQueued = 5"
definition CodeReconfigConfirmed :: int where "CodeReconfigConfirmed = 18"
definition CodeNothingToDo :: int where "CodeNothingToDo = 19"
definition CodeConfigOK :: int where "CodeConfigOK = 20"

lemmas cli_codes = CodeReconfigured_def CodeReconfigInProgress_def CodeReconfigQueued_def CodeReconfigConfirmed_def
  CodeNothingToDo_def CodeConfigOK_def

record ConfigureResult =
  cf_Code :: int
  cf_Message :: string

definition ConfigureResult_zero :: ConfigureResult where
  "ConfigureResult_zero = \<lparr>cf_Code = 0, cf_Message = []\<rparr>"

definition Accepted :: "ConfigureResult \<Rightarrow> bool" where
  "Accepted r \<longleftrightarrow> cf_Code r = CodeReconfigured \<or> cf_Code r = CodeReconfigInProgress \<or> cf_Code r = CodeReconfigQueued"

type_synonym ('s, 'a) go = "'s \<Rightarrow> ('a \<times> error option) \<times> 's"

definition configure :: "'b ctl \<Rightarrow> string \<Rightarrow> (CtlClient \<times> 'b, ConfigureResult) go" where
  "configure p cmd s =
     (case Do p cmd s of
        ((Some reply, None), s') \<Rightarrow> ((\<lparr>cf_Code = ry_Code reply, cf_Message = Reply_Text reply\<rparr>, None), s')
      | ((_, err), s') \<Rightarrow> ((ConfigureResult_zero, err), s'))"

definition Configure :: "'b ctl \<Rightarrow> (CtlClient \<times> 'b, ConfigureResult) go" where
  "Configure p = configure p ''configure''"

definition ConfigureSoft :: "'b ctl \<Rightarrow> (CtlClient \<times> 'b, ConfigureResult) go" where
  "ConfigureSoft p = configure p ''configure soft''"

definition ConfigureTimeout :: "'b ctl \<Rightarrow> int \<Rightarrow> (CtlClient \<times> 'b, ConfigureResult) go" where
  "ConfigureTimeout p seconds = configure p (''configure timeout '' @ showInt seconds)"

definition ConfigureConfirm :: "'b ctl \<Rightarrow> (CtlClient \<times> 'b, ConfigureResult) go" where
  "ConfigureConfirm p = configure p ''configure confirm''"

definition ConfigureUndo :: "'b ctl \<Rightarrow> (CtlClient \<times> 'b, ConfigureResult) go" where
  "ConfigureUndo p = configure p ''configure undo''"

text \<open>\<open>quote\<close> is \<open>fmt\<close>'s \<open>%q\<close>; the agent always passes the empty path.\<close>

definition ConfigureCheck :: "(string \<Rightarrow> string) \<Rightarrow> 'b ctl \<Rightarrow> string \<Rightarrow> (CtlClient \<times> 'b, ConfigureResult) go" where
  "ConfigureCheck quote p path =
     configure p (if path \<noteq> [] then ''configure check '' @ quote path else ''configure check'')"

subsection \<open>Table readers\<close>

record TableRouteCount =
  tc_Table :: string
  tc_Routes :: u64
  tc_Networks :: u64

record RouteCount =
  rc_Tables :: "TableRouteCount list"
  rc_TotalRoutes :: u64
  rc_TotalNetworks :: u64

text \<open>The two regular expressions: a run of digits is always followed by a blank, so that the greedy match is
  the only one.\<close>

definition matchNumber :: "string \<Rightarrow> string \<Rightarrow> (string \<times> string) option" where
  "matchNumber after s =
     (let ds = takeWhile isDigit s; t = dropWhile isDigit s
      in if ds \<noteq> [] \<and> HasPrefix t after then Some (ds, drop (length after) t) else None)"

definition matchCounts :: "string \<Rightarrow> (string \<times> string \<times> string) option" where
  "matchCounts s =
     (case matchNumber '' of '' s of None \<Rightarrow> None
      | Some (_, s1) \<Rightarrow>
          (case matchNumber '' routes for '' s1 of None \<Rightarrow> None
           | Some (routes, s2) \<Rightarrow>
               (case matchNumber '' networks'' s2 of None \<Rightarrow> None
                | Some (nets, s3) \<Rightarrow> Some (routes, nets, s3))))"

definition tableCountRe :: "string \<Rightarrow> (string \<times> string \<times> string) option" where
  "tableCountRe s =
     (case matchCounts s of None \<Rightarrow> None
      | Some (routes, nets, t) \<Rightarrow>
          (let name = takeWhile (\<lambda>c. \<not> isSpace c) (drop 10 t)
           in if HasPrefix t '' in table '' \<and> name \<noteq> [] then Some (routes, nets, name) else None))"

definition totalCountRe :: "string \<Rightarrow> (string \<times> string) option" where
  "totalCountRe s =
     (if HasPrefix s ''Total: '' then map_option (\<lambda>(routes, nets, _). (routes, nets)) (matchCounts (drop 7 s)) else None)"

text \<open>\<open>ParseUint\<close> returns the largest value next to a range error, and the caller ignores the error.\<close>

definition uint64Of :: "string \<Rightarrow> u64" where
  "uint64Of s = (case ParseUint 64 s of Some n \<Rightarrow> of_nat n | None \<Rightarrow> if s \<noteq> [] \<and> list_all isDigit s then - 1 else 0)"

fun countLines :: "Line list \<Rightarrow> RouteCount \<times> bool \<Rightarrow> RouteCount \<times> bool" where
  "countLines [] acc = acc"
| "countLines (l # ls) (rc, sawTotal) =
     (case tableCountRe (ln_Text l) of
        Some (routes, nets, name) \<Rightarrow>
          countLines ls (rc\<lparr>rc_Tables := rc_Tables rc @ [\<lparr>tc_Table = name, tc_Routes = uint64Of routes, tc_Networks = uint64Of nets\<rparr>]\<rparr>, sawTotal)
      | None \<Rightarrow>
          (case totalCountRe (ln_Text l) of
             Some (routes, nets) \<Rightarrow> countLines ls (rc\<lparr>rc_TotalRoutes := uint64Of routes, rc_TotalNetworks := uint64Of nets\<rparr>, True)
           | None \<Rightarrow> countLines ls (rc, sawTotal)))"

definition RouteCount_zero :: RouteCount where
  "RouteCount_zero = \<lparr>rc_Tables = [], rc_TotalRoutes = 0, rc_TotalNetworks = 0\<rparr>"

definition ShowRouteCount :: "'b ctl \<Rightarrow> (CtlClient \<times> 'b, RouteCount) go" where
  "ShowRouteCount p s =
     (case Do p ''show route count'' s of
        ((Some reply, None), s') \<Rightarrow>
          (let (rc, sawTotal) = countLines (ry_Lines reply) (RouteCount_zero, False)
           in ((if sawTotal then rc
                else fold (\<lambda>t a. a\<lparr>rc_TotalRoutes := rc_TotalRoutes a + tc_Routes t,
                                   rc_TotalNetworks := rc_TotalNetworks a + tc_Networks t\<rparr>) (rc_Tables rc) rc, None), s'))
      | ((_, err), s') \<Rightarrow> ((RouteCount_zero, err), s'))"

record ProtocolStatus =
  pr_Name :: string
  pr_Proto :: string
  pr_Table :: string
  pr_State :: string
  pr_Since :: string
  pr_Info :: string

definition Up :: "ProtocolStatus \<Rightarrow> bool" where "Up p = (pr_State p = ''up'')"

definition codeProtocolRow :: int where "codeProtocolRow = 1002"

definition protocolRow :: "Line \<Rightarrow> ProtocolStatus list" where
  "protocolRow l =
     (if ln_Code l \<noteq> codeProtocolRow then []
      else (case Fields (ln_Text l) of
              name # proto # table # state # since # info \<Rightarrow>
                [\<lparr>pr_Name = name, pr_Proto = proto, pr_Table = table, pr_State = state, pr_Since = since, pr_Info = Join info '' ''\<rparr>]
            | _ \<Rightarrow> []))"

definition ShowProtocols :: "'b ctl \<Rightarrow> (CtlClient \<times> 'b, ProtocolStatus list) go" where
  "ShowProtocols p s =
     (case Do p ''show protocols'' s of
        ((Some reply, None), s') \<Rightarrow> ((concat (map protocolRow (ry_Lines reply)), None), s')
      | ((_, err), s') \<Rightarrow> (([], err), s'))"

definition Protocol :: "'b ctl \<Rightarrow> string \<Rightarrow> (CtlClient \<times> 'b, ProtocolStatus option) go" where
  "Protocol p name s =
     (case ShowProtocols p s of
        ((rows, None), s') \<Rightarrow> ((find (\<lambda>r. pr_Name r = name) rows, None), s')
      | ((_, err), s') \<Rightarrow> ((None, err), s'))"

subsection \<open>The self-reconnecting client\<close>

type_synonym 'b reconnecting = "CtlClient option \<times> 'b"

definition ensureLocked :: "'b ctl \<Rightarrow> 'b reconnecting \<Rightarrow> (error + CtlClient) \<times> 'b reconnecting" where
  "ensureLocked p s =
     (case s of (Some c, b) \<Rightarrow> (Inr c, (Some c, b))
      | (None, b) \<Rightarrow> (case Dial p b of (Inl e, b') \<Rightarrow> (Inl e, (None, b')) | (Inr c, b') \<Rightarrow> (Inr c, (Some c, b'))))"

definition dropLocked :: "'b reconnecting \<Rightarrow> 'b reconnecting" where
  "dropLocked s = (None, snd s)"

definition isConnFault :: "error \<Rightarrow> bool" where
  "isConnFault e = (case e of ErrCommand _ _ \<Rightarrow> False | _ \<Rightarrow> True)"

fun callLoop :: "'b ctl \<Rightarrow> (CtlClient \<times> 'b, ConfigureResult) go \<Rightarrow> nat \<Rightarrow> error option \<Rightarrow> ('b reconnecting, ConfigureResult) go" where
  "callLoop p fn 0 lastErr s = ((ConfigureResult_zero, Some (case lastErr of None \<Rightarrow> ErrClosed | Some e \<Rightarrow> e)), s)"
| "callLoop p fn (Suc attempts) lastErr s =
     (case ensureLocked p s of
        (Inl e, s1) \<Rightarrow> ((ConfigureResult_zero, Some e), s1)
      | (Inr c, s1) \<Rightarrow>
          (case fn (c, snd s1) of
             ((res, err), (c', b)) \<Rightarrow>
               (case err of
                  None \<Rightarrow> ((res, None), (Some c', b))
                | Some e \<Rightarrow> if isConnFault e then callLoop p fn attempts (Some e) (dropLocked (Some c', b))
                           else ((res, Some e), (Some c', b)))))"

definition Reconnecting_call :: "'b ctl \<Rightarrow> (CtlClient \<times> 'b, ConfigureResult) go \<Rightarrow> ('b reconnecting, ConfigureResult) go" where
  "Reconnecting_call p fn s = callLoop p fn 2 None s"

definition Reconnecting_ConfigureCheck :: "(string \<Rightarrow> string) \<Rightarrow> 'b ctl \<Rightarrow> string \<Rightarrow> ('b reconnecting, ConfigureResult) go" where
  "Reconnecting_ConfigureCheck quote p path = Reconnecting_call p (ConfigureCheck quote p path)"

definition Reconnecting_Configure :: "'b ctl \<Rightarrow> ('b reconnecting, ConfigureResult) go" where
  "Reconnecting_Configure p = Reconnecting_call p (Configure p)"

definition Reconnecting_ConfigureTimeout :: "'b ctl \<Rightarrow> int \<Rightarrow> ('b reconnecting, ConfigureResult) go" where
  "Reconnecting_ConfigureTimeout p seconds = Reconnecting_call p (ConfigureTimeout p seconds)"

definition Reconnecting_ConfigureConfirm :: "'b ctl \<Rightarrow> ('b reconnecting, ConfigureResult) go" where
  "Reconnecting_ConfigureConfirm p = Reconnecting_call p (ConfigureConfirm p)"

definition Reconnecting_Close :: "'b reconnecting \<Rightarrow> 'b reconnecting" where
  "Reconnecting_Close s = dropLocked s"

subsection \<open>The documented line protocol\<close>

datatype cli_line = Coded nat string | Cont string | AsyncMsg string

definition printCoded :: "nat \<Rightarrow> char \<Rightarrow> string \<Rightarrow> string" where
  "printCoded code sep t = padLeft 4 (dec code) @ [sep] @ t"

fun lineBody :: "cli_line \<Rightarrow> string" where
  "lineBody (Coded code t) = printCoded code CHR ''-'' t"
| "lineBody (Cont t) = CHR '' '' # t"
| "lineBody (AsyncMsg t) = CHR ''+'' # t"

definition wireLine :: "string \<Rightarrow> string" where
  "wireLine body = body @ [CHR 0x0A]"

definition printReply :: "cli_line list \<Rightarrow> nat \<Rightarrow> string \<Rightarrow> string" where
  "printReply ls code t = concat (map (wireLine \<circ> lineBody) ls) @ wireLine (printCoded code CHR '' '' t)"

text \<open>What the lines of a reply mean: a continuation line has the code of the coded line before it, and
  asynchronous messages are not part of the reply.\<close>

fun linesOf :: "int \<Rightarrow> cli_line list \<Rightarrow> Line list" where
  "linesOf lastCode [] = []"
| "linesOf lastCode (Coded code t # ls) = \<lparr>ln_Code = int code, ln_Text = t\<rparr> # linesOf (int code) ls"
| "linesOf lastCode (Cont t # ls) = \<lparr>ln_Code = lastCode, ln_Text = t\<rparr> # linesOf lastCode ls"
| "linesOf lastCode (AsyncMsg t # ls) = linesOf lastCode ls"

fun asyncsOf :: "cli_line list \<Rightarrow> string list" where
  "asyncsOf [] = []"
| "asyncsOf (AsyncMsg t # ls) = t # asyncsOf ls"
| "asyncsOf (_ # ls) = asyncsOf ls"

definition meaning :: "cli_line list \<Rightarrow> nat \<Rightarrow> string \<Rightarrow> Reply" where
  "meaning ls code t =
     \<lparr>ry_Code = int code, ry_Lines = linesOf (- 1) ls @ [\<lparr>ln_Code = int code, ln_Text = t\<rparr>], ry_Async = asyncsOf ls\<rparr>"

definition text_ok :: "string \<Rightarrow> bool" where
  "text_ok t \<longleftrightarrow> CHR 0x0A \<notin> set t \<and> (t = [] \<or> last t \<noteq> CHR 0x0D)"

fun lines_ok :: "bool \<Rightarrow> cli_line list \<Rightarrow> bool" where
  "lines_ok coded [] = True"
| "lines_ok coded (Coded code t # ls) = (code < 10000 \<and> text_ok t \<and> lines_ok True ls)"
| "lines_ok coded (Cont t # ls) = (coded \<and> text_ok t \<and> lines_ok coded ls)"
| "lines_ok coded (AsyncMsg t # ls) = (text_ok t \<and> lines_ok coded ls)"

definition reply_ok :: "cli_line list \<Rightarrow> nat \<Rightarrow> string \<Rightarrow> bool" where
  "reply_ok ls code t \<longleftrightarrow> lines_ok False ls \<and> code < 10000 \<and> text_ok t"

lemma ReadString_wire: "CHR 0x0A \<notin> set body \<Longrightarrow> ReadString (wireLine body @ rest) = Some (wireLine body, rest)"
  by (auto simp: ReadString_def wireLine_def takeWhile_append dropWhile_append)

lemma TrimRight_wire: "body \<noteq> [] \<Longrightarrow> text_ok body \<Longrightarrow> TrimRight (wireLine body) [CHR 0x0D, CHR 0x0A] = body"
  unfolding wireLine_def by (rule TrimRight_id) (auto simp: text_ok_def dest: last_in_set)

lemma text_ok_Cons: "text_ok t \<Longrightarrow> c \<noteq> CHR 0x0A \<Longrightarrow> c \<noteq> CHR 0x0D \<Longrightarrow> text_ok (c # t)"
  by (auto simp: text_ok_def)

lemma code_shape:
  assumes "code < 10000"
  shows "\<exists>a b c d. padLeft 4 (dec code) = [a, b, c, d] \<and> isDigit a \<and> isDigit b \<and> isDigit c \<and> isDigit d"
proof -
  have "length (padLeft 4 (dec code)) = 4"
    using dec_length [of code 4] assms by (intro padLeft_length) simp
  then obtain a b c d where "padLeft 4 (dec code) = [a, b, c, d]"
    by (auto simp: numeral_eq_Suc length_Suc_conv)
  then show ?thesis using padLeft_digits [OF dec_digits, of 4 code] by auto
qed

lemma readLoop_skeleton:
  assumes "body = c # t" "text_ok body"
  shows "readLoop r lc (wireLine body @ rest) =
    (if c = CHR ''+'' then readLoop (r\<lparr>ry_Async := ry_Async r @ [t]\<rparr>) lc rest
     else if c = CHR '' '' then
       (if lc < 0 then (Inl (ErrMalformed body), rest)
        else readLoop (r\<lparr>ry_Lines := ry_Lines r @ [\<lparr>ln_Code = lc, ln_Text = t\<rparr>]\<rparr>) lc rest)
     else if length body < 5 then (Inl (ErrMalformed body), rest)
     else (case Atoi (take 4 body) of None \<Rightarrow> (Inl (ErrMalformed body), rest)
           | Some code \<Rightarrow>
               (let r' = r\<lparr>ry_Lines := ry_Lines r @ [\<lparr>ln_Code = code, ln_Text = drop 5 body\<rparr>]\<rparr>
                in if body ! 4 = CHR '' '' then (Inr (r'\<lparr>ry_Code := code\<rparr>), rest)
                   else if body ! 4 = CHR ''-'' then readLoop r' code rest
                   else (Inl (ErrMalformed body), rest))))"
proof -
  have nl: "CHR 0x0A \<notin> set body" and ne: "body \<noteq> []" using assms by (auto simp: text_ok_def)
  show ?thesis
    by (subst readLoop.simps) (simp add: ReadString_wire [OF nl] TrimRight_wire [OF ne assms(2)] assms(1) [symmetric],
        simp add: assms(1))
qed

lemma readLoop_coded:
  assumes "code < 10000" "text_ok t" and sep: "sep = CHR '' '' \<or> sep = CHR ''-''"
  shows "readLoop r lc (wireLine (printCoded code sep t) @ rest) =
    (let r' = r\<lparr>ry_Lines := ry_Lines r @ [\<lparr>ln_Code = int code, ln_Text = t\<rparr>]\<rparr>
     in if sep = CHR '' '' then (Inr (r'\<lparr>ry_Code := int code\<rparr>), rest) else readLoop r' (int code) rest)"
proof -
  obtain a b c d where p: "padLeft 4 (dec code) = [a, b, c, d]"
    and dg: "isDigit a" "isDigit b" "isDigit c" "isDigit d" using code_shape [OF assms(1)] by auto
  have body: "printCoded code sep t = a # b # c # d # sep # t" by (simp add: printCoded_def p)
  have ok: "text_ok (a # b # c # d # sep # t)"
    using assms(2) sep digit_not_sign [OF dg(1)] digit_not_sign [OF dg(2)] digit_not_sign [OF dg(3)] digit_not_sign [OF dg(4)]
    by (intro text_ok_Cons) auto
  have "Atoi [a, b, c, d] = Some (int code)" using Atoi_code [OF assms(1)] by (simp add: p)
  then show ?thesis
    unfolding body using sep digit_not_sign [OF dg(1)]
    by (subst readLoop_skeleton [OF refl ok]) auto
qed

lemma readLoop_lines:
  assumes "lines_ok coded ls" "coded \<longrightarrow> 0 \<le> lc" "code < 10000" "text_ok t"
  shows "readLoop r lc (printReply ls code t @ rest) =
    (Inr (r\<lparr>ry_Code := int code, ry_Lines := ry_Lines r @ linesOf lc ls @ [\<lparr>ln_Code = int code, ln_Text = t\<rparr>],
            ry_Async := ry_Async r @ asyncsOf ls\<rparr>), rest)"
  using assms
proof (induction coded ls arbitrary: r lc rule: lines_ok.induct)
  case (1 coded)
  then show ?case by (simp add: printReply_def readLoop_coded)
next
  case (2 coded code' t' ls)
  then show ?case by (simp add: printReply_def readLoop_coded)
next
  case (3 coded t' ls)
  then have "text_ok (CHR '' '' # t')" by (simp add: text_ok_Cons)
  from readLoop_skeleton [OF refl this] 3 show ?case by (auto simp: printReply_def)
next
  case (4 coded t' ls)
  then have "text_ok (CHR ''+'' # t')" by (simp add: text_ok_Cons)
  from readLoop_skeleton [OF refl this] 4 show ?case by (simp add: printReply_def)
qed

lemma readReply_meaning: "reply_ok ls code t \<Longrightarrow> readReply (printReply ls code t @ rest) = (Inr (meaning ls code t), rest)"
  using readLoop_lines [of False ls "- 1" code t Reply_zero rest]
  by (simp add: readReply_def reply_ok_def meaning_def Reply_zero_def)

text \<open>C21: A command written to a connection on which nothing is pending yields exactly the reply that the
  daemon's lines mean under the documented protocol (continuation lines under the code of the line before them,
  asynchronous messages set apart), leaves nothing unread, and is reported as a \<open>CommandError\<close> with the
  reply's code and text exactly when the final code is 8000 or more.\<close>

theorem command_reply_exact:
  assumes "cc_conn c = Some (conn, [])" and "ct_deadline p conn b = (True, b1)"
    and "ct_write p conn (cmd @ [CHR 0x0A]) b1 = (Some (printReply ls code t), b2)" and "reply_ok ls code t"
  shows "Do p cmd (c, b) =
    ((Some (meaning ls code t),
      if 8000 \<le> code then Some (ErrCommand (int code) (Reply_Text (meaning ls code t))) else None), (c, b2))"
  using assms readReply_meaning [OF assms(4), of "[]"]
  by (cases c) (simp add: Do_def meaning_def)

text \<open>A daemon that rejects every command after a note and a continuation line, and greets nobody.\<close>

definition ex_lines :: "cli_line list" where
  "ex_lines = [AsyncMsg ''note'', Coded 1000 ''one'', Cont ''two'']"

definition ex_ctl :: "unit ctl" where
  "ex_ctl =
     \<lparr>ct_dial = (\<lambda>b. (None, b)), ct_deadline = (\<lambda>_ b. (True, b)),
      ct_write = (\<lambda>n _ b. if n = 0 then (Some (printReply ex_lines 8002 ''bad''), b) else (None, b))\<rparr>"

definition ex_client :: "nat \<Rightarrow> CtlClient" where
  "ex_client n = \<lparr>cc_conn = Some (n, []), cc_banner = []\<rparr>"

theorem command_reply_exact_witness:
  "Do ex_ctl ''configure'' (ex_client 0, ()) =
    ((Some \<lparr>ry_Code = 8002,
        ry_Lines = [\<lparr>ln_Code = 1000, ln_Text = ''one''\<rparr>, \<lparr>ln_Code = 1000, ln_Text = ''two''\<rparr>, \<lparr>ln_Code = 8002, ln_Text = ''bad''\<rparr>],
        ry_Async = [''note'']\<rparr>,
      Some (ErrCommand 8002 (''one'' @ [CHR 0x0A] @ ''two'' @ [CHR 0x0A] @ ''bad''))), (ex_client 0, ()))"
proof -
  have "reply_ok ex_lines 8002 ''bad''" by (simp add: reply_ok_def ex_lines_def text_ok_def)
  from command_reply_exact [of "ex_client 0" 0 ex_ctl "()" "()" "''configure''" ex_lines 8002 "''bad''" "()", OF _ _ _ this]
  show ?thesis by (simp add: ex_ctl_def ex_client_def meaning_def ex_lines_def Reply_Text_def)
qed

subsection \<open>The wrapper over an arbitrary daemon\<close>

text \<open>A client that is held is connected: a failed command has closed its connection and is forgotten.\<close>

definition cur_ok :: "'b reconnecting \<Rightarrow> bool" where
  "cur_ok s \<longleftrightarrow> (case fst s of None \<Rightarrow> True | Some c \<Rightarrow> cc_conn c \<noteq> None)"

lemma Dial_connected: "Dial p b = (Inr c, b') \<Longrightarrow> cc_conn c \<noteq> None"
  by (auto simp: Dial_def split: prod.splits option.splits bool.splits sum.splits if_splits)

lemma readLoop_fault: "readLoop r lc inp = (Inl e, rest) \<Longrightarrow> isConnFault e"
proof (induction "length inp" arbitrary: r lc inp rule: less_induct)
  case less
  show ?case
  proof (cases "ReadString inp")
    case None
    then show ?thesis using less.prems by (subst (asm) readLoop.simps) (auto simp: isConnFault_def)
  next
    case (Some x)
    obtain raw rest1 where x: "x = (raw, rest1)" by (cases x)
    have IH: "readLoop r' lc' rest1 = (Inl e, rest) \<Longrightarrow> isConnFault e" for r' lc'
      using less.hyps ReadString_shorter [of inp raw rest1] Some x by blast
    have m: "isConnFault (ErrMalformed l)" for l by (simp add: isConnFault_def)
    show ?thesis
      using less.prems unfolding readLoop.simps [of r lc inp] Some x Let_def
      by (auto split: list.splits if_splits option.splits intro: IH m)
  qed
qed

lemma configure_keeps:
  assumes "configure p cmd (c, b) = ((res, err), (c', b'))" and "cc_conn c \<noteq> None"
  shows "(case err of None \<Rightarrow> cc_conn c' \<noteq> None | Some e \<Rightarrow> isConnFault e \<or> cc_conn c' \<noteq> None)"
  using assms readLoop_fault
  by (auto simp: configure_def Do_def readReply_def isConnFault_def split: prod.splits option.splits bool.splits sum.splits if_splits)

lemma Dial_fault: "Dial p b = (Inl e, b') \<Longrightarrow> isConnFault e"
  using readLoop_fault
  by (auto simp: Dial_def readReply_def isConnFault_def split: prod.splits option.splits bool.splits sum.splits if_splits)

lemma callLoop_outcome:
  assumes "callLoop p (configure p cmd) n le s = ((res, err), s')" "cur_ok s" "n = 0 \<Longrightarrow> fst s = None"
    and "\<And>e. le = Some e \<Longrightarrow> isConnFault e"
  shows "cur_ok s' \<and> (case err of None \<Rightarrow> fst s' \<noteq> None | Some e \<Rightarrow> fst s' = None \<longleftrightarrow> isConnFault e)"
  using assms
proof (induction n arbitrary: le s)
  case 0
  then show ?case by (auto simp: isConnFault_def split: option.splits)
next
  case (Suc n)
  obtain cur b where s: "s = (cur, b)" by (cases s)
  show ?case
  proof -
    obtain r s1 where Pair: "ensureLocked p s = (r, s1)" by (cases "ensureLocked p s")
    show ?thesis
    proof (cases r)
      case (Inl e)
      then show ?thesis
        using Suc.prems(1) Pair by (auto simp: s ensureLocked_def cur_ok_def dest: Dial_fault split: option.splits prod.splits sum.splits)
    next
      case (Inr c)
      then have c: "cc_conn c \<noteq> None"
        using Pair Suc.prems(2) by (auto simp: s ensureLocked_def cur_ok_def dest: Dial_connected split: option.splits prod.splits sum.splits)
      obtain res1 err1 c' b' where f: "configure p cmd (c, snd s1) = ((res1, err1), (c', b'))" by (metis prod.exhaust)
      show ?thesis
      proof (cases "\<exists>e. err1 = Some e \<and> isConnFault e")
        case True
        then obtain e where e: "err1 = Some e" "isConnFault e" by blast
        then have "callLoop p (configure p cmd) n (Some e) (None, b') = ((res, err), s')"
          using Suc.prems(1) by (simp add: Pair Inr f dropLocked_def)
        from Suc.IH [OF this] e show ?thesis by (simp add: cur_ok_def)
      next
        case False
        then show ?thesis
          using Suc.prems(1) configure_keeps [OF f c]
          by (auto simp: Pair Inr f cur_ok_def split: option.splits if_splits)
      qed
    qed
  qed
qed

text \<open>C23: The self-reconnecting client never wedges on a dead connection, whatever BIRD does: after every
  command the client it holds, if any, is connected; it holds none exactly when the command ended in a connection
  fault (so that the next command dials again), and a \<open>CommandError\<close>, BIRD's rejection of the configuration,
  keeps the connection.\<close>

theorem reconnecting_never_wedges:
  assumes "cur_ok s" and "Reconnecting_call p (configure p cmd) s = ((res, err), s')"
  shows "cur_ok s' \<and> (case err of None \<Rightarrow> fst s' \<noteq> None | Some e \<Rightarrow> fst s' = None \<longleftrightarrow> isConnFault e)"
  using callLoop_outcome [of p cmd 2 None s res err s'] assms by (simp add: Reconnecting_call_def)

theorem reconnecting_never_wedges_witness:
  "Reconnecting_call ex_ctl (configure ex_ctl ''configure'') (Some (ex_client 1), ()) = ((ConfigureResult_zero, Some ErrIO), (None, ())) \<and>
   cur_ok (None, ())"
proof -
  have r: "Reconnecting_call ex_ctl (configure ex_ctl ''configure'') (Some (ex_client 1), ()) = ((ConfigureResult_zero, Some ErrIO), (None, ()))"
    by (simp add: Reconnecting_call_def numeral_2_eq_2 ensureLocked_def configure_def Do_def ex_ctl_def ex_client_def isConnFault_def
        dropLocked_def Dial_def)
  from reconnecting_never_wedges [OF _ r] r show ?thesis by (simp add: cur_ok_def ex_client_def)
qed

subsection \<open>The wrapper over a running BIRD\<close>

text \<open>What the caller of a \<open>configure\<close> command should see of an answer.\<close>

definition cli_outcome :: "cli_line list \<times> nat \<times> string \<Rightarrow> ConfigureResult \<times> error option" where
  "cli_outcome a =
     (case a of (ls, code, t) \<Rightarrow>
        (let msg = Reply_Text (meaning ls code t)
         in if 8000 \<le> code then (ConfigureResult_zero, Some (ErrCommand (int code) msg))
            else (\<lparr>cf_Code = int code, cf_Message = msg\<rparr>, None)))"

text \<open>
  The interface of the daemon as the wrapper relies on it: dialling a running BIRD succeeds and greets; a live
  connection answers every command with a reply of the documented form and stays live; a connection of a BIRD
  that is gone (restarted since) fails on the first write and does not reach the running one. \<open>answer\<close> is
  what the running BIRD says to a command and \<open>obey\<close> what it does.
\<close>

locale bird_daemon =
  fixes p :: "'b ctl"
    and live :: "'b \<Rightarrow> nat \<Rightarrow> bool"
    and opened :: "'b \<Rightarrow> 'b"
    and conn_id :: "'b \<Rightarrow> nat"
    and answer :: "string \<Rightarrow> 'b \<Rightarrow> cli_line list \<times> nat \<times> string"
    and obey :: "string \<Rightarrow> 'b \<Rightarrow> 'b"
  assumes dial: "\<exists>t. text_ok t \<and> ct_dial p b = (Some (conn_id b, printReply [] 1 t), opened b)"
    and dial_live: "live (opened b) (conn_id b)"
    and deadline: "ct_deadline p n b = (True, b)"
    and live_write: "live b n \<Longrightarrow> answer cmd b = (ls, code, t) \<Longrightarrow>
        ct_write p n (cmd @ [CHR 0x0A]) b = (Some (printReply ls code t), obey cmd b)"
    and live_stays: "live b n \<Longrightarrow> live (obey cmd b) n"
    and dead_write: "\<not> live b n \<Longrightarrow> ct_write p n bs b = (None, b)"
    and answer_ok: "answer cmd b = (ls, code, t) \<Longrightarrow> reply_ok ls code t"
    and answer_opened: "answer cmd (opened b) = answer cmd b"
begin

lemma configure_live:
  assumes "cc_conn c = Some (n, [])" "live b n"
  shows "configure p cmd (c, b) = (cli_outcome (answer cmd b), (c, obey cmd b))"
proof -
  obtain ls code t where a: "answer cmd b = (ls, code, t)" by (metis prod.exhaust)
  have m: "readReply (printReply ls code t) = (Inr (meaning ls code t), [])"
    using readReply_meaning [OF answer_ok [OF a], of "[]"] by simp
  have "Do p cmd (c, b) = ((Some (meaning ls code t),
      if 8000 \<le> code then Some (ErrCommand (int code) (Reply_Text (meaning ls code t))) else None), (c, obey cmd b))"
    using assms deadline live_write [OF assms(2) a] m by (cases c) (simp add: Do_def meaning_def)
  then show ?thesis by (simp add: configure_def cli_outcome_def a meaning_def)
qed

lemma configure_dead: "cc_conn c = Some (n, u) \<Longrightarrow> \<not> live b n \<Longrightarrow> configure p cmd (c, b) = ((ConfigureResult_zero, Some ErrIO), (Ctl_closeLocked c, b))"
  by (simp add: configure_def Do_def deadline dead_write)

lemma Dial_up: "\<exists>c. Dial p b = (Inr c, opened b) \<and> cc_conn c = Some (conn_id b, [])"
proof -
  obtain t where t: "text_ok t" "ct_dial p b = (Some (conn_id b, printReply [] 1 t), opened b)" using dial by blast
  have "readReply (printReply [] 1 t) = (Inr (meaning [] 1 t), [])"
    using readReply_meaning [of "[]" 1 t "[]"] t(1) by (simp add: reply_ok_def)
  then show ?thesis using t(2) by (simp add: Dial_def deadline meaning_def)
qed

lemma fault_outcome: "cli_outcome a = (res, Some e) \<Longrightarrow> \<not> isConnFault e"
  by (auto simp: cli_outcome_def isConnFault_def Let_def split: prod.splits if_splits)

lemma callLoop_fresh:
  "\<exists>c'. callLoop p (configure p cmd) (Suc n) le (None, b) = (cli_outcome (answer cmd b), (Some c', obey cmd (opened b))) \<and>
        cc_conn c' = Some (conn_id b, [])"
proof -
  obtain c where "Dial p b = (Inr c, opened b)" and c: "cc_conn c = Some (conn_id b, [])" using Dial_up by blast
  then show ?thesis
    using configure_live [OF c dial_live] answer_opened fault_outcome [of "answer cmd b"]
    by (cases "cli_outcome (answer cmd b)") (auto simp: ensureLocked_def split: option.splits)
qed

text \<open>A restart of BIRD is invisible to the caller of a command: the answer is the running BIRD's, whether the
  connection held is live, dead or absent, and the command reaches it once.\<close>

lemma call_transparent:
  assumes "case cur of None \<Rightarrow> True | Some c \<Rightarrow> \<exists>n. cc_conn c = Some (n, [])"
  shows "\<exists>c' n b1. Reconnecting_call p (configure p cmd) (cur, b) = (cli_outcome (answer cmd b), (Some c', obey cmd b1)) \<and>
           cc_conn c' = Some (n, []) \<and> (b1 = b \<or> b1 = opened b)"
proof (cases cur)
  case None
  then show ?thesis using callLoop_fresh [of cmd 1 None b] by (fastforce simp: Reconnecting_call_def numeral_2_eq_2)
next
  case (Some c)
  then obtain n where c: "cc_conn c = Some (n, [])" using assms by auto
  show ?thesis
  proof (cases "live b n")
    case True
    then show ?thesis
      using configure_live [OF c True] c fault_outcome [of "answer cmd b"]
      by (cases "cli_outcome (answer cmd b)") (auto simp: Some Reconnecting_call_def numeral_2_eq_2 ensureLocked_def split: option.splits)
  next
    case False
    then show ?thesis
      using configure_dead [OF c False] callLoop_fresh [of cmd 0 "Some ErrIO" b]
      by (auto simp: Some Reconnecting_call_def numeral_2_eq_2 ensureLocked_def dropLocked_def isConnFault_def)
  qed
qed

end

end
