(* ===== verification/Bird_Include.thy ===== *)
theory Bird_Include
  imports Bird_Cli Bird_Render Liveness
begin

text \<open>
  The legacy path to BIRD: \<open>internal/anchors/reload.go\<close> (the life of one include file),
  \<open>internal/agent/birdapply.go\<close> (the two includes of the desired state) and the canary of
  \<open>cmd/edge-agent/main.go\<close>. The operating system and the \<open>BirdConfigurer\<close> interface are parameters: \<open>host\<close> is
  what the code asks of the file system for one path, every call of it may fail, and the world \<open>'w\<close> they act on
  includes BIRD. The locales state what the code relies on; they are interpreted on the self-reconnecting client
  of \<open>Bird_Cli\<close> talking to a BIRD that reads two files.
\<close>

subsection \<open>The file\<close>

datatype stat_result = StatOK | StatNotExist | StatError

datatype temp_step = CreateTemp | WriteTemp | SyncTemp | ChmodTemp | CloseTemp

text \<open>\<open>ho_rename\<close> replaces the file by the temporary one, which holds the given content.\<close>

record 'w host =
  ho_stat :: "'w \<Rightarrow> stat_result"
  ho_read :: "'w \<Rightarrow> string option"
  ho_temp :: "temp_step \<Rightarrow> 'w \<Rightarrow> bool \<times> 'w"
  ho_rename :: "string \<Rightarrow> 'w \<Rightarrow> bool \<times> 'w"
  ho_syncDir :: "'w \<Rightarrow> 'w"

record 'w BirdConfigurer =
  bf_ConfigureCheck :: "string \<Rightarrow> ('w, ConfigureResult) go"
  bf_Configure :: "('w, ConfigureResult) go"
  bf_ConfigureTimeout :: "int \<Rightarrow> ('w, ConfigureResult) go"
  bf_ConfigureConfirm :: "('w, ConfigureResult) go"

fun tempSteps :: "'w host \<Rightarrow> temp_step list \<Rightarrow> 'w \<Rightarrow> error option \<times> 'w" where
  "tempSteps h [] w = (None, w)"
| "tempSteps h (st # sts) w =
     (case ho_temp h st w of (False, w') \<Rightarrow> (Some (ErrFile ''temp''), w') | (True, w') \<Rightarrow> tempSteps h sts w')"

declare tempSteps.simps(2) [simp del]

definition atomicWrite :: "'w host \<Rightarrow> string \<Rightarrow> 'w \<Rightarrow> error option \<times> 'w" where
  "atomicWrite h content w =
     (case tempSteps h [CreateTemp, WriteTemp, SyncTemp, ChmodTemp, CloseTemp] w of
        (Some e, w1) \<Rightarrow> (Some e, w1)
      | (None, w1) \<Rightarrow>
          (case ho_rename h content w1 of
             (False, w2) \<Rightarrow> (Some (ErrFile ''rename''), w2)
           | (True, w2) \<Rightarrow> (None, ho_syncDir h w2)))"

definition rollback :: "'w host \<Rightarrow> string \<Rightarrow> 'w \<Rightarrow> 'w" where
  "rollback h prev w = snd (atomicWrite h prev w)"

subsection \<open>The applier\<close>

record Applier =
  ap_confirmTimeout :: int
  ap_lastGood :: "string option"

definition NewApplier :: Applier where
  "NewApplier = \<lparr>ap_confirmTimeout = 0, ap_lastGood = None\<rparr>"

definition WithConfirmTimeout :: "int \<Rightarrow> Applier \<Rightarrow> Applier" where
  "WithConfirmTimeout seconds a = a\<lparr>ap_confirmTimeout := seconds\<rparr>"

record ApplyResult =
  ar_Skipped :: bool
  ar_Check :: ConfigureResult
  ar_Configure :: ConfigureResult

definition ApplyResult_zero :: ApplyResult where
  "ApplyResult_zero = \<lparr>ar_Skipped = False, ar_Check = ConfigureResult_zero, ar_Configure = ConfigureResult_zero\<rparr>"

definition EnsureFileBytes :: "'w host \<Rightarrow> string \<Rightarrow> 'w \<Rightarrow> error option \<times> 'w" where
  "EnsureFileBytes h content w =
     (case ho_stat h w of
        StatOK \<Rightarrow> (None, w)
      | StatError \<Rightarrow> (Some (ErrFile ''stat''), w)
      | StatNotExist \<Rightarrow> atomicWrite h content w)"

definition EnsureFile :: "'w host \<Rightarrow> 'w \<Rightarrow> error option \<times> 'w" where
  "EnsureFile h w =
     (case ho_stat h w of
        StatOK \<Rightarrow> (None, w)
      | StatError \<Rightarrow> (Some (ErrFile ''stat''), w)
      | StatNotExist \<Rightarrow> (case anchors_Render [] of Inl e \<Rightarrow> (Some e, w) | Inr content \<Rightarrow> atomicWrite h content w))"

definition reconfigure :: "'w BirdConfigurer \<Rightarrow> Applier \<Rightarrow> ('w, ConfigureResult) go" where
  "reconfigure bird a w =
     (if ap_confirmTimeout a \<le> 0 then bf_Configure bird w
      else (case bf_ConfigureTimeout bird (ap_confirmTimeout a) w of
              ((res, err), w1) \<Rightarrow>
                if err \<noteq> None \<or> \<not> Accepted res then ((res, err), w1)
                else (case bf_ConfigureConfirm bird w1 of
                        ((_, Some e), w2) \<Rightarrow> ((res, Some e), w2)
                      | ((_, None), w2) \<Rightarrow> ((res, None), w2))))"

definition ApplyBytes :: "'w host \<Rightarrow> 'w BirdConfigurer \<Rightarrow> string \<Rightarrow> (Applier \<times> 'w, ApplyResult) go" where
  "ApplyBytes h bird content s =
     (case s of (a, w) \<Rightarrow>
      (case ho_read h w of None \<Rightarrow> ((ApplyResult_zero, Some (ErrFile ''read'')), (a, w))
       | Some prev \<Rightarrow>
           if ap_lastGood a = Some content \<and> prev = content then ((ApplyResult_zero\<lparr>ar_Skipped := True\<rparr>, None), (a, w))
           else (case atomicWrite h content w of
                   (Some e, w1) \<Rightarrow> ((ApplyResult_zero, Some e), (a, w1))
                 | (None, w1) \<Rightarrow>
                     (case bf_ConfigureCheck bird [] w1 of
                        ((chk, err), w2) \<Rightarrow>
                          (let res = ApplyResult_zero\<lparr>ar_Check := chk\<rparr>
                           in if err \<noteq> None \<or> cf_Code chk \<noteq> CodeConfigOK
                              then ((res, Some ErrCheckRejected), (a, rollback h prev w2))
                              else (case reconfigure bird a w2 of
                                      ((cfg, err2), w3) \<Rightarrow>
                                        (let res2 = res\<lparr>ar_Configure := cfg\<rparr>
                                         in if err2 \<noteq> None \<or> \<not> Accepted cfg
                                            then ((res2, Some ErrConfigureFailed), (a, rollback h prev w3))
                                            else ((res2, None), (a\<lparr>ap_lastGood := Some content\<rparr>, w3)))))))))"

definition Apply :: "'w host \<Rightarrow> 'w BirdConfigurer \<Rightarrow> Anchor list \<Rightarrow> (Applier \<times> 'w, ApplyResult) go" where
  "Apply h bird anchors s =
     (case anchors_Render anchors of Inl e \<Rightarrow> ((ApplyResult_zero, Some e), s) | Inr content \<Rightarrow> ApplyBytes h bird content s)"

subsection \<open>The two includes of the desired state\<close>

record BirdApplier =
  ba_anchors :: Applier
  ba_flow :: Applier
  ba_fails :: int
  ba_lastOK :: int
  ba_wake :: bool

definition NewBirdApplier :: "Applier \<Rightarrow> Applier \<Rightarrow> BirdApplier" where
  "NewBirdApplier anchorsApplier flowApplier =
     \<lparr>ba_anchors = anchorsApplier, ba_flow = flowApplier, ba_fails = 0, ba_lastOK = 0, ba_wake = False\<rparr>"

definition BirdApplier_Status :: "BirdApplier \<Rightarrow> int \<times> int" where
  "BirdApplier_Status b = (ba_fails b, ba_lastOK b)"

definition BirdApplier_Wake :: "BirdApplier \<Rightarrow> BirdApplier" where
  "BirdApplier_Wake b = b\<lparr>ba_wake := True\<rparr>"

definition EnsureFiles :: "contract_fns \<Rightarrow> 'w host \<Rightarrow> 'w host \<Rightarrow> 'w \<Rightarrow> error option \<times> 'w" where
  "EnsureFiles c ha hf w =
     (case EnsureFile ha w of
        (Some e, w1) \<Rightarrow> (Some e, w1)
      | (None, w1) \<Rightarrow>
          (case flowspec_Render c [] AddrInvalid AddrInvalid of
             Inl e \<Rightarrow> (Some e, w1)
           | Inr content \<Rightarrow> EnsureFileBytes hf content w1))"

definition ApplyOnce :: "contract_fns \<Rightarrow> 'w host \<Rightarrow> 'w host \<Rightarrow> 'w BirdConfigurer \<Rightarrow> EdgeDesiredState \<Rightarrow>
    BirdApplier \<times> 'w \<Rightarrow> error option \<times> (BirdApplier \<times> 'w)" where
  "ApplyOnce c ha hf bird st s =
     (case s of (b, w) \<Rightarrow>
        (case Apply ha bird (es_Anchors st) (ba_anchors b, w) of
           ((_, Some e), (aa, w1)) \<Rightarrow> (Some e, (b\<lparr>ba_anchors := aa\<rparr>, w1))
         | ((_, None), (aa, w1)) \<Rightarrow>
             (case flowspec_Render c (es_FlowRedirects st) (es_RedirectNextHop st) (es_RedirectNextHopV6 st) of
                Inl e \<Rightarrow> (Some e, (b\<lparr>ba_anchors := aa\<rparr>, w1))
              | Inr flowContent \<Rightarrow>
                  (case ApplyBytes hf bird flowContent (ba_flow b, w1) of
                     ((_, err), (af, w2)) \<Rightarrow> (err, (b\<lparr>ba_anchors := aa, ba_flow := af\<rparr>, w2))))))"

text \<open>One pass of \<open>BirdApplier.Run\<close>, and the loop that runs it at the start, on the ticker and on a wake-up.\<close>

definition BirdApplier_pass :: "contract_fns \<Rightarrow> 'w host \<Rightarrow> 'w host \<Rightarrow> 'w BirdConfigurer \<Rightarrow> int \<Rightarrow> EdgeDesiredState option \<Rightarrow>
    BirdApplier \<times> 'w \<Rightarrow> BirdApplier \<times> 'w" where
  "BirdApplier_pass c ha hf bird now desired s =
     (case desired of None \<Rightarrow> s
      | Some st \<Rightarrow>
          (case ApplyOnce c ha hf bird st s of
             (Some e, (b, w)) \<Rightarrow> (b\<lparr>ba_fails := ba_fails b + 1\<rparr>, w)
           | (None, (b, w)) \<Rightarrow> (b\<lparr>ba_fails := 0, ba_lastOK := now\<rparr>, w)))"

datatype bird_event = BTick int "EdgeDesiredState option" | BWoken int "EdgeDesiredState option" | BWakeCall

fun BirdApplier_step :: "contract_fns \<Rightarrow> 'w host \<Rightarrow> 'w host \<Rightarrow> 'w BirdConfigurer \<Rightarrow> bird_event \<Rightarrow> BirdApplier \<times> 'w \<Rightarrow> BirdApplier \<times> 'w" where
  "BirdApplier_step c ha hf bird (BTick now desired) s = BirdApplier_pass c ha hf bird now desired s"
| "BirdApplier_step c ha hf bird (BWoken now desired) (b, w) =
     (if ba_wake b then BirdApplier_pass c ha hf bird now desired (b\<lparr>ba_wake := False\<rparr>, w) else (b, w))"
| "BirdApplier_step c ha hf bird BWakeCall (b, w) = (BirdApplier_Wake b, w)"

subsection \<open>The canary\<close>

record canary =
  cy_applier :: Applier
  cy_advContent :: string
  cy_wdContent :: string
  cy_lastAdvertised :: bool

text \<open>\<open>setupCanary\<close> after the configuration strings are parsed: the include is created withdrawn if it does not
  exist, and advertised once; the result is what the observer keeps.\<close>

definition setupCanary :: "'w host \<Rightarrow> 'w BirdConfigurer \<Rightarrow> Prefix \<Rightarrow> LargeCommunity \<Rightarrow> 'w \<Rightarrow> (error + canary) \<times> 'w" where
  "setupCanary h bird cpfx clc w =
     (let advContent = renderCanary cpfx clc True; wdContent = renderCanary cpfx clc False
      in case EnsureFileBytes h wdContent w of
           (Some e, w1) \<Rightarrow> (Inl e, w1)
         | (None, w1) \<Rightarrow>
             (case ApplyBytes h bird advContent (NewApplier, w1) of
                (_, (a, w2)) \<Rightarrow>
                  (Inr \<lparr>cy_applier = a, cy_advContent = advContent, cy_wdContent = wdContent, cy_lastAdvertised = True\<rparr>, w2)))"

text \<open>The observer of every pass, given the last health report.\<close>

definition canaryObserver :: "contract_fns \<Rightarrow> 'w host \<Rightarrow> 'w BirdConfigurer \<Rightarrow> HealthReport option \<Rightarrow> canary \<times> 'w \<Rightarrow> canary \<times> 'w" where
  "canaryObserver c h bird last_rep s =
     (case s of (cy, w) \<Rightarrow>
        (let advertised = (case last_rep of Some rep \<Rightarrow> \<not> SoftDead c rep | None \<Rightarrow> True);
             content = (if advertised then cy_advContent cy else cy_wdContent cy)
         in case ApplyBytes h bird content (cy_applier cy, w) of
              ((_, err), (a, w')) \<Rightarrow>
                (if err \<noteq> None then (cy\<lparr>cy_applier := a\<rparr>, w')
                 else (cy\<lparr>cy_applier := a, cy_lastAdvertised := advertised\<rparr>, w'))))"

subsection \<open>What the code relies on\<close>

text \<open>The file is as before, or the write that should have restored it has failed.\<close>

definition restored :: "'w host \<Rightarrow> 'w \<Rightarrow> 'w \<Rightarrow> bool" where
  "restored h w w' \<longleftrightarrow> ho_read h w' = ho_read h w \<or>
     (\<exists>prev w1. ho_read h w = Some prev \<and> w' = rollback h prev w1 \<and> fst (atomicWrite h prev w1) \<noteq> None)"

lemma ApplyBytes_run:
  assumes "ho_read h w = Some prev" "\<not> (ap_lastGood a = Some content \<and> prev = content)" "atomicWrite h content w = (e1, w1)"
    "bf_ConfigureCheck bird [] w1 = ((chk, err1), w2)" "reconfigure bird a w2 = ((cfg, err2), w3)"
  shows "ApplyBytes h bird content (a, w) =
        (case e1 of Some e \<Rightarrow> ((ApplyResult_zero, Some e), (a, w1))
         | None \<Rightarrow> if err1 \<noteq> None \<or> cf_Code chk \<noteq> CodeConfigOK
             then ((ApplyResult_zero\<lparr>ar_Check := chk\<rparr>, Some ErrCheckRejected), (a, rollback h prev w2))
             else if err2 \<noteq> None \<or> \<not> Accepted cfg
             then ((ApplyResult_zero\<lparr>ar_Check := chk, ar_Configure := cfg\<rparr>, Some ErrConfigureFailed), (a, rollback h prev w3))
             else ((ApplyResult_zero\<lparr>ar_Check := chk, ar_Configure := cfg\<rparr>, None), (a\<lparr>ap_lastGood := Some content\<rparr>, w3)))"
  using assms by (cases e1) (auto simp: ApplyBytes_def Let_def)

text \<open>The file system and BIRD as seen from one include: a write either replaces the whole file or leaves it, and
  BIRD never writes it. \<open>wok\<close> holds of the worlds that can occur.\<close>

locale include_file =
  fixes h :: "'w host" and bird :: "'w BirdConfigurer" and wok :: "'w \<Rightarrow> bool"
  assumes temp: "wok w \<Longrightarrow> ho_temp h st w = (ok, w') \<Longrightarrow> wok w' \<and> ho_read h w' = ho_read h w"
    and rename: "wok w \<Longrightarrow> ho_rename h content w = (ok, w') \<Longrightarrow> wok w' \<and> ho_read h w' = (if ok then Some content else ho_read h w)"
    and syncDir: "wok w \<Longrightarrow> wok (ho_syncDir h w) \<and> ho_read h (ho_syncDir h w) = ho_read h w"
    and check: "wok w \<Longrightarrow> bf_ConfigureCheck bird path w = (r, w') \<Longrightarrow> wok w' \<and> ho_read h w' = ho_read h w"
    and configure: "wok w \<Longrightarrow> bf_Configure bird w = (r, w') \<Longrightarrow> wok w' \<and> ho_read h w' = ho_read h w"
    and timeout: "wok w \<Longrightarrow> bf_ConfigureTimeout bird n w = (r, w') \<Longrightarrow> wok w' \<and> ho_read h w' = ho_read h w"
    and confirm: "wok w \<Longrightarrow> bf_ConfigureConfirm bird w = (r, w') \<Longrightarrow> wok w' \<and> ho_read h w' = ho_read h w"
begin

lemma tempSteps_keep: "tempSteps h sts w = (err, w') \<Longrightarrow> wok w \<Longrightarrow> wok w' \<and> ho_read h w' = ho_read h w"
proof (induction sts arbitrary: w)
  case (Cons st sts)
  obtain ok w1 where t: "ho_temp h st w = (ok, w1)" by (cases "ho_temp h st w")
  with Cons temp [OF Cons.prems(2) t] show ?case by (cases ok) (auto simp: tempSteps.simps(2))
qed simp

text \<open>The write is all or nothing.\<close>

lemma atomicWrite_outcome:
  assumes "atomicWrite h content w = (err, w')" "wok w"
  shows "wok w' \<and> ho_read h w' = (if err = None then Some content else ho_read h w)"
proof -
  obtain e w1 where t: "tempSteps h [CreateTemp, WriteTemp, SyncTemp, ChmodTemp, CloseTemp] w = (e, w1)" by fastforce
  have k: "wok w1" "ho_read h w1 = ho_read h w" using tempSteps_keep [OF t assms(2)] by auto
  obtain ok w2 where r: "ho_rename h content w1 = (ok, w2)" by fastforce
  show ?thesis
    using assms(1) k rename [OF k(1) r] syncDir [of w2]
    by (cases e; cases ok) (auto simp: atomicWrite_def t r)
qed

lemma atomicWrite_snd:
  "wok w \<Longrightarrow> wok (snd (atomicWrite h content w)) \<and>
   ho_read h (snd (atomicWrite h content w)) = (if fst (atomicWrite h content w) = None then Some content else ho_read h w)"
  by (rule atomicWrite_outcome [OF surjective_pairing])

lemma rollback_outcome: "wok x \<Longrightarrow> ho_read h w = Some prev \<Longrightarrow> wok (rollback h prev x) \<and> restored h w (rollback h prev x)"
  unfolding restored_def rollback_def
  by (cases "fst (atomicWrite h prev x) = None") (use atomicWrite_snd [of x prev] in auto)

lemma reconfigure_keep:
  assumes "reconfigure bird a w = (r, w')" "wok w"
  shows "wok w' \<and> ho_read h w' = ho_read h w"
proof (cases "ap_confirmTimeout a \<le> 0")
  case True
  then show ?thesis using assms configure by (simp add: reconfigure_def)
next
  case False
  obtain res err w1 where t: "bf_ConfigureTimeout bird (ap_confirmTimeout a) w = ((res, err), w1)" by (metis prod.exhaust)
  obtain x e2 w2 where c: "bf_ConfigureConfirm bird w1 = ((x, e2), w2)" by (metis prod.exhaust)
  show ?thesis
    using assms(1) False timeout [OF assms(2) t] confirm [OF _ c]
    by (auto simp: reconfigure_def t c split: if_splits option.splits)
qed

text \<open>The discipline of one apply: success means the file holds the content, a check and a reload that BIRD
  accepted (or nothing to do), and the content is remembered; failure remembers nothing, and restores the file
  unless that write fails too.\<close>

lemma ApplyBytes_outcome:
  assumes "ApplyBytes h bird content (a, w) = ((res, err), (a', w'))" and w: "wok w"
  shows "wok w'"
    and "err = None \<Longrightarrow> ho_read h w' = Some content \<and> ap_lastGood a' = Some content \<and>
      (ar_Skipped res \<and> w' = w \<and> a' = a \<or> cf_Code (ar_Check res) = CodeConfigOK \<and> Accepted (ar_Configure res))"
    and "err \<noteq> None \<Longrightarrow> a' = a \<and> restored h w w'"
proof -
  have "wok w' \<and> (err = None \<longrightarrow> ho_read h w' = Some content \<and> ap_lastGood a' = Some content \<and>
      (ar_Skipped res \<and> w' = w \<and> a' = a \<or> cf_Code (ar_Check res) = CodeConfigOK \<and> Accepted (ar_Configure res))) \<and>
    (err \<noteq> None \<longrightarrow> a' = a \<and> restored h w w')"
  proof (cases "ho_read h w")
    case None
    then show ?thesis using assms by (auto simp: ApplyBytes_def restored_def)
  next
    case (Some prev)
    obtain e1 w1 where t: "atomicWrite h content w = (e1, w1)" by fastforce
    obtain chk err1 w2 where c: "bf_ConfigureCheck bird [] w1 = ((chk, err1), w2)" by (metis prod.exhaust)
    obtain cfg err2 w3 where g: "reconfigure bird a w2 = ((cfg, err2), w3)" by (metis prod.exhaust)
    note k1 = atomicWrite_outcome [OF t w] and k2 = check [OF _ c] and k3 = reconfigure_keep [OF g]
    show ?thesis
    proof (cases "ap_lastGood a = Some content \<and> prev = content")
      case True
      then show ?thesis using assms Some by (auto simp: ApplyBytes_def)
    next
      case False
      then have run: "((res, err), (a', w')) =
        (case e1 of Some e \<Rightarrow> ((ApplyResult_zero, Some e), (a, w1))
         | None \<Rightarrow> if err1 \<noteq> None \<or> cf_Code chk \<noteq> CodeConfigOK
             then ((ApplyResult_zero\<lparr>ar_Check := chk\<rparr>, Some ErrCheckRejected), (a, rollback h prev w2))
             else if err2 \<noteq> None \<or> \<not> Accepted cfg
             then ((ApplyResult_zero\<lparr>ar_Check := chk, ar_Configure := cfg\<rparr>, Some ErrConfigureFailed), (a, rollback h prev w3))
             else ((ApplyResult_zero\<lparr>ar_Check := chk, ar_Configure := cfg\<rparr>, None), (a\<lparr>ap_lastGood := Some content\<rparr>, w3)))"
        using assms(1) ApplyBytes_run [OF Some False t c g] by simp
      show ?thesis
        using run k1 k2 k3 rollback_outcome [OF _ Some] by (cases e1) (auto simp: restored_def [of h w w1] split: if_splits)
    qed
  qed
  then show "wok w'"
    and "err = None \<Longrightarrow> ho_read h w' = Some content \<and> ap_lastGood a' = Some content \<and>
      (ar_Skipped res \<and> w' = w \<and> a' = a \<or> cf_Code (ar_Check res) = CodeConfigOK \<and> Accepted (ar_Configure res))"
    and "err \<noteq> None \<Longrightarrow> a' = a \<and> restored h w w'"
    by blast+
qed

end

text \<open>
  What the code relies on of BIRD and the disk, for the content of one include. \<open>active\<close> is the content of this
  include in the configuration BIRD runs. \<open>doubt\<close> is a history of the world: since BIRD last accepted a reload, a
  write of an include failed, or a command to BIRD ended without BIRD's answer, or BIRD restarted during one. A
  step that is \<open>undecided\<close> may have raised it, and BIRD then runs what it ran or what the file holds.
\<close>

definition undecided :: "'w host \<Rightarrow> ('w \<Rightarrow> string) \<Rightarrow> ('w \<Rightarrow> bool) \<Rightarrow> 'w \<Rightarrow> 'w \<Rightarrow> bool" where
  "undecided h active doubt w w' \<longleftrightarrow>
     active w' = active w \<and> doubt w' = doubt w \<or> doubt w' \<and> (active w' = active w \<or> ho_read h w = Some (active w'))"

text \<open>BIRD's own answer that the configuration is refused; the previous one stays active.\<close>

definition refused :: "error option \<Rightarrow> bool" where
  "refused err \<longleftrightarrow> (case err of None \<Rightarrow> False | Some e \<Rightarrow> \<not> isConnFault e)"

locale synced_include = include_file +
  fixes active :: "'w \<Rightarrow> string" and doubt :: "'w \<Rightarrow> bool"
  assumes temp_active: "wok w \<Longrightarrow> ho_temp h st w = (ok, w') \<Longrightarrow> active w' = active w \<and> doubt w' = (doubt w \<or> \<not> ok)"
    and rename_active: "wok w \<Longrightarrow> ho_rename h content w = (ok, w') \<Longrightarrow> active w' = active w \<and> doubt w' = (doubt w \<or> \<not> ok)"
    and syncDir_active: "wok w \<Longrightarrow> active (ho_syncDir h w) = active w \<and> doubt (ho_syncDir h w) = doubt w"
    and check_active: "wok w \<Longrightarrow> bf_ConfigureCheck bird path w = (r, w') \<Longrightarrow> undecided h active doubt w w'"
    and configure_active: "wok w \<Longrightarrow> bf_Configure bird w = ((res, err), w') \<Longrightarrow>
        (if err = None \<and> Accepted res then ho_read h w = Some (active w') \<and> \<not> doubt w'
         else if refused err then active w' = active w \<and> doubt w' = doubt w
         else undecided h active doubt w w')"

text \<open>The invariant: unless there is doubt, the file is what BIRD runs.\<close>

definition synced :: "'w host \<Rightarrow> ('w \<Rightarrow> string) \<Rightarrow> ('w \<Rightarrow> bool) \<Rightarrow> ('w \<Rightarrow> bool) \<Rightarrow> Applier \<times> 'w \<Rightarrow> bool" where
  "synced h active doubt wok s \<longleftrightarrow>
     wok (snd s) \<and> (\<not> doubt (snd s) \<longrightarrow> ho_read h (snd s) = Some (active (snd s))) \<and> ap_confirmTimeout (fst s) \<le> 0"

lemma refused_None [simp]: "\<not> refused None"
  by (simp add: refused_def)

context synced_include
begin

lemma tempSteps_active:
  "tempSteps h sts w = (err, w') \<Longrightarrow> wok w \<Longrightarrow> active w' = active w \<and> doubt w' = (doubt w \<or> err \<noteq> None)"
proof (induction sts arbitrary: w)
  case (Cons st sts)
  obtain ok w1 where t: "ho_temp h st w = (ok, w1)" by (cases "ho_temp h st w")
  with Cons temp [OF Cons.prems(2) t] temp_active [OF Cons.prems(2) t]
  show ?case by (cases ok) (auto simp: tempSteps.simps(2))
qed simp

lemma atomicWrite_active:
  assumes "atomicWrite h content w = (err, w')" "wok w"
  shows "active w' = active w \<and> doubt w' = (doubt w \<or> err \<noteq> None)"
proof -
  obtain e w1 where t: "tempSteps h [CreateTemp, WriteTemp, SyncTemp, ChmodTemp, CloseTemp] w = (e, w1)" by fastforce
  have k: "wok w1" "active w1 = active w" "doubt w1 = (doubt w \<or> e \<noteq> None)"
    using tempSteps_keep [OF t assms(2)] tempSteps_active [OF t assms(2)] by auto
  obtain ok w2 where r: "ho_rename h content w1 = (ok, w2)" by fastforce
  show ?thesis
    using assms(1) k rename [OF k(1) r] rename_active [OF k(1) r] syncDir_active [of w2]
    by (cases e; cases ok) (auto simp: atomicWrite_def t r)
qed

lemma rollback_active:
  assumes "wok w"
  shows "active (rollback h prev w) = active w \<and> (doubt w \<longrightarrow> doubt (rollback h prev w)) \<and>
    (\<not> doubt (rollback h prev w) \<longrightarrow> ho_read h (rollback h prev w) = Some prev)"
  using atomicWrite_active [OF surjective_pairing assms, of prev] atomicWrite_snd [OF assms, of prev]
  by (auto simp: rollback_def)

text \<open>One apply. When it reports success, the file holds the content; BIRD runs it, unless there is doubt and the
  apply was skipped. When it reports an error and there is no doubt, file and BIRD are as before.\<close>

lemma ApplyBytes_synced:
  assumes s: "synced h active doubt wok (a, w)" and run: "ApplyBytes h bird content (a, w) = ((res, err), (a', w'))"
  shows "synced h active doubt wok (a', w') \<and> (active w' = active w \<or> active w' = content) \<and>
    (if err = None then ho_read h w' = Some content \<and> (doubt w' \<longrightarrow> w' = w \<and> ap_lastGood a = Some content)
     else \<not> doubt w' \<longrightarrow> \<not> doubt w \<and> active w' = active w \<and> ho_read h w' = ho_read h w)"
proof -
  have w: "wok w" and act: "\<not> doubt w \<longrightarrow> ho_read h w = Some (active w)" and ct: "ap_confirmTimeout a \<le> 0"
    using s by (auto simp: synced_def)
  show ?thesis
  proof (cases "ho_read h w")
    case None
    then show ?thesis using run s by (auto simp: ApplyBytes_def)
  next
    case (Some prev)
    show ?thesis
    proof (cases "ap_lastGood a = Some content \<and> prev = content")
      case True
      then show ?thesis using run s Some by (auto simp: ApplyBytes_def)
    next
      case False
      obtain e1 w1 where t: "atomicWrite h content w = (e1, w1)" by fastforce
      obtain chk err1 w2 where c: "bf_ConfigureCheck bird [] w1 = ((chk, err1), w2)" by (metis prod.exhaust)
      obtain cfg err2 w3 where g: "bf_Configure bird w2 = ((cfg, err2), w3)" by (metis prod.exhaust)
      have g': "reconfigure bird a w2 = ((cfg, err2), w3)" using ct g by (simp add: reconfigure_def)
      have w1: "wok w1" "active w1 = active w" "doubt w1 = (doubt w \<or> e1 \<noteq> None)"
        and r1: "ho_read h w1 = (if e1 = None then Some content else Some prev)"
        using atomicWrite_outcome [OF t w] atomicWrite_active [OF t w] Some by auto
      have w2: "wok w2" "ho_read h w2 = ho_read h w1" "doubt w1 \<Longrightarrow> doubt w2" "\<not> doubt w2 \<Longrightarrow> active w2 = active w"
        and a2: "active w2 = active w \<or> ho_read h w1 = Some (active w2)"
        using check [OF w1(1) c] check_active [OF w1(1) c] w1(2) by (auto simp: undecided_def)
      have w3: "wok w3" "ho_read h w3 = ho_read h w1" using configure [OF w2(1) g] w2(2) by auto
      have acc: "err2 = None \<and> Accepted cfg \<Longrightarrow> ho_read h w1 = Some (active w3) \<and> \<not> doubt w3"
        and rej: "\<not> (err2 = None \<and> Accepted cfg) \<Longrightarrow> (doubt w2 \<longrightarrow> doubt w3) \<and> (\<not> doubt w3 \<longrightarrow> active w3 = active w2) \<and>
            (active w3 = active w2 \<or> ho_read h w1 = Some (active w3))"
        using configure_active [OF w2(1) g] w2(2) by (auto simp: undecided_def split: if_splits)
      note rb2 = rollback_active [OF w2(1), of prev] rollback_outcome [OF w2(1) Some]
        and rb3 = rollback_active [OF w3(1), of prev] rollback_outcome [OF w3(1) Some]
      consider (wr) e where "e1 = Some e" | (check) "e1 = None" "err1 \<noteq> None \<or> cf_Code chk \<noteq> CodeConfigOK"
        | (conf) "e1 = None" "\<not> (err1 \<noteq> None \<or> cf_Code chk \<noteq> CodeConfigOK)" "err2 \<noteq> None \<or> \<not> Accepted cfg"
        | (ok) "e1 = None" "\<not> (err1 \<noteq> None \<or> cf_Code chk \<noteq> CodeConfigOK)" "\<not> (err2 \<noteq> None \<or> \<not> Accepted cfg)" by blast
      then show ?thesis
      proof cases
        case wr
        then have "err \<noteq> None" "a' = a" "w' = w1" using run ApplyBytes_run [OF Some False t c g'] by auto
        then show ?thesis using w1 ct wr by (auto simp: synced_def)
      next
        case check
        then have o: "err \<noteq> None" "a' = a" "w' = rollback h prev w2" using run ApplyBytes_run [OF Some False t c g'] by auto
        have "active w' = active w \<or> active w' = content" using rb2 a2 r1 check(1) o(3) by auto
        moreover have "\<not> doubt w' \<longrightarrow> \<not> doubt w \<and> active w' = active w \<and> ho_read h w' = ho_read h w"
          using rb2 w1(3) w2(3,4) Some o(3) by auto
        ultimately show ?thesis using o rb2 ct act by (auto simp: synced_def)
      next
        case conf
        then have o: "err \<noteq> None" "a' = a" "w' = rollback h prev w3" using run ApplyBytes_run [OF Some False t c g'] by auto
        have "active w' = active w \<or> active w' = content" using rb3 a2 r1 conf rej o(3) by auto
        moreover have "\<not> doubt w' \<longrightarrow> \<not> doubt w \<and> active w' = active w \<and> ho_read h w' = ho_read h w"
          using rb3 w1(3) w2(3,4) rej conf(3) Some o(3) by auto
        ultimately show ?thesis using o rb3 ct act by (auto simp: synced_def)
      next
        case ok
        then have "err = None" "a' = a\<lparr>ap_lastGood := Some content\<rparr>" "w' = w3" using run ApplyBytes_run [OF Some False t c g'] by auto
        then show ?thesis using acc ok r1 w3 ct by (auto simp: synced_def)
      qed
    qed
  qed
qed

end

text \<open>Two includes of one BIRD: the file of the first is not the file of the second, and the doubt is shared. An
  accepted reload for the first loads the second file too.\<close>

locale beside = synced_include h bird wok active doubt + other: synced_include h' bird wok active' doubt
  for h h' :: "'w host" and bird wok active active' doubt +
  assumes temp_beside: "wok w \<Longrightarrow> ho_temp h st w = (ok, w') \<Longrightarrow> ho_read h' w' = ho_read h' w \<and> active' w' = active' w"
    and rename_beside: "wok w \<Longrightarrow> ho_rename h content w = (ok, w') \<Longrightarrow> ho_read h' w' = ho_read h' w \<and> active' w' = active' w"
    and syncDir_beside: "wok w \<Longrightarrow> ho_read h' (ho_syncDir h w) = ho_read h' w \<and> active' (ho_syncDir h w) = active' w"
begin

abbreviation same_beside :: "'w \<Rightarrow> 'w \<Rightarrow> bool" where
  "same_beside w w' \<equiv> ho_read h' w' = ho_read h' w \<and> active' w' = active' w"

lemma tempSteps_beside: "wok w \<Longrightarrow> same_beside w (snd (tempSteps h sts w))"
proof (induction sts arbitrary: w)
  case (Cons st sts)
  obtain ok w1 where t: "ho_temp h st w = (ok, w1)" by (cases "ho_temp h st w")
  with Cons temp [OF Cons.prems t] temp_beside [OF Cons.prems t] show ?case by (cases ok) (simp_all add: tempSteps.simps(2))
qed simp

lemma atomicWrite_beside:
  assumes "wok w"
  shows "same_beside w (snd (atomicWrite h content w))"
proof -
  let ?sts = "[CreateTemp, WriteTemp, SyncTemp, ChmodTemp, CloseTemp]"
  obtain e w1 where t: "tempSteps h ?sts w = (e, w1)" by fastforce
  have w1: "wok w1" "same_beside w w1" using tempSteps_keep [OF t assms] tempSteps_beside [OF assms, of ?sts] by (auto simp: t)
  obtain ok w2 where r: "ho_rename h content w1 = (ok, w2)" by fastforce
  have "wok w2" "same_beside w w2" using rename [OF w1(1) r] rename_beside [OF w1(1) r] w1(2) by auto
  then show ?thesis using syncDir_beside w1(2) by (cases e; cases ok) (auto simp: atomicWrite_def t r)
qed

lemma rollback_beside: "wok w \<Longrightarrow> same_beside w (rollback h prev w)"
  unfolding rollback_def by (rule atomicWrite_beside)

text \<open>The invariant of the second include, on worlds.\<close>

abbreviation insync' :: "'w \<Rightarrow> bool" where
  "insync' w \<equiv> \<not> doubt w \<longrightarrow> ho_read h' w = Some (active' w)"

lemma ApplyBytes_beside:
  assumes s: "synced h active doubt wok (a, w)" and o: "synced h' active' doubt wok (a2, w)"
    and run: "ApplyBytes h bird content (a, w) = ((res, err), (a', w'))"
  shows "synced h' active' doubt wok (a2, w') \<and> ho_read h' w' = ho_read h' w"
proof -
  have w: "wok w" and ct: "ap_confirmTimeout a \<le> 0" and o2: "insync' w" "ap_confirmTimeout a2 \<le> 0"
    using s o by (auto simp: synced_def)
  have "insync' w' \<and> ho_read h' w' = ho_read h' w"
  proof (cases "ho_read h w")
    case None
    then show ?thesis using run o2 by (auto simp: ApplyBytes_def)
  next
    case (Some prev)
    show ?thesis
    proof (cases "ap_lastGood a = Some content \<and> prev = content")
      case True
      then show ?thesis using run o2 Some by (auto simp: ApplyBytes_def)
    next
      case False
      obtain e1 w1 where t: "atomicWrite h content w = (e1, w1)" by fastforce
      obtain chk err1 w2 where c: "bf_ConfigureCheck bird [] w1 = ((chk, err1), w2)" by (metis prod.exhaust)
      obtain cfg err2 w3 where g: "bf_Configure bird w2 = ((cfg, err2), w3)" by (metis prod.exhaust)
      have g': "reconfigure bird a w2 = ((cfg, err2), w3)" using ct g by (simp add: reconfigure_def)
      have w1: "wok w1" "same_beside w w1" "doubt w \<longrightarrow> doubt w1"
        using atomicWrite_outcome [OF t w] atomicWrite_active [OF t w] atomicWrite_beside [OF w, of content] by (auto simp: t)
      have w2: "wok w2" "ho_read h' w2 = ho_read h' w" "insync' w2"
        using other.check [OF w1(1) c] other.check_active [OF w1(1) c] w1 o2(1) by (auto simp: undecided_def)
      have w3: "wok w3" "ho_read h' w3 = ho_read h' w" "insync' w3"
        using other.configure [OF w2(1) g] other.configure_active [OF w2(1) g] w2 by (auto simp: undecided_def split: if_splits)
      have "insync' (rollback h prev x) \<and> ho_read h' (rollback h prev x) = ho_read h' w"
        if "wok x" "insync' x" "ho_read h' x = ho_read h' w" for x
        using rollback_beside [OF that(1), of prev] rollback_active [OF that(1), of prev] that(2,3) by auto
      then show ?thesis
        using run ApplyBytes_run [OF Some False t c g'] w1 o2(1) w2 w3 by (cases e1) (auto split: if_splits)
    qed
  qed
  moreover have "wok w'" using ApplyBytes_synced [OF s run] by (simp add: synced_def)
  ultimately show ?thesis using o2(2) by (auto simp: synced_def)
qed

end

definition both_synced :: "'w host \<Rightarrow> 'w host \<Rightarrow> ('w \<Rightarrow> string) \<Rightarrow> ('w \<Rightarrow> string) \<Rightarrow> ('w \<Rightarrow> bool) \<Rightarrow> ('w \<Rightarrow> bool) \<Rightarrow> BirdApplier \<times> 'w \<Rightarrow> bool" where
  "both_synced ha hf actA actF doubt wok s \<longleftrightarrow>
     synced ha actA doubt wok (ba_anchors (fst s), snd s) \<and> synced hf actF doubt wok (ba_flow (fst s), snd s) \<and> 0 \<le> ba_fails (fst s)"

text \<open>What one pass has achieved: the two files hold the renderings, and BIRD runs them, unless there is doubt and
  the pass has not asked BIRD because both contents were remembered as good.\<close>

definition includes_applied :: "contract_fns \<Rightarrow> 'w host \<Rightarrow> 'w host \<Rightarrow> ('w \<Rightarrow> string) \<Rightarrow> ('w \<Rightarrow> string) \<Rightarrow> ('w \<Rightarrow> bool) \<Rightarrow>
    EdgeDesiredState \<Rightarrow> BirdApplier \<times> 'w \<Rightarrow> 'w \<Rightarrow> bool" where
  "includes_applied c ha hf actA actF doubt st s w' \<longleftrightarrow>
     (\<exists>xa xf. anchors_Render (es_Anchors st) = Inr xa \<and>
        flowspec_Render c (es_FlowRedirects st) (es_RedirectNextHop st) (es_RedirectNextHopV6 st) = Inr xf \<and>
        ho_read ha w' = Some xa \<and> ho_read hf w' = Some xf \<and>
        (if doubt w' then w' = snd s \<and> ap_lastGood (ba_anchors (fst s)) = Some xa \<and> ap_lastGood (ba_flow (fst s)) = Some xf
         else actA w' = xa \<and> actF w' = xf))"

text \<open>What a failing pass leaves when there is no doubt: the FlowSpec file as it was, and the anchors file as it was
  or with the new rendering.\<close>

definition includes_kept :: "'w host \<Rightarrow> 'w host \<Rightarrow> ('w \<Rightarrow> bool) \<Rightarrow> EdgeDesiredState \<Rightarrow> 'w \<Rightarrow> 'w \<Rightarrow> bool" where
  "includes_kept ha hf doubt st w w' \<longleftrightarrow>
     (\<not> doubt w' \<longrightarrow> ho_read hf w' = ho_read hf w \<and>
        (ho_read ha w' = ho_read ha w \<or> (\<exists>xa. anchors_Render (es_Anchors st) = Inr xa \<and> ho_read ha w' = Some xa)))"

locale two_includes = A: beside ha hf bird wok actA actF doubt + F: beside hf ha bird wok actF actA doubt
  for ha hf :: "'w host" and bird wok actA actF doubt
begin

lemma ApplyOnce_synced:
  assumes sA: "synced ha actA doubt wok (ba_anchors b, w)" and sF: "synced hf actF doubt wok (ba_flow b, w)"
    and run: "ApplyOnce c ha hf bird st (b, w) = (err, (b', w'))"
  shows "synced ha actA doubt wok (ba_anchors b', w') \<and> synced hf actF doubt wok (ba_flow b', w') \<and>
    (if err = None then includes_applied c ha hf actA actF doubt st (b, w) w' else includes_kept ha hf doubt st w w') \<and>
    ba_fails b' = ba_fails b \<and> ba_lastOK b' = ba_lastOK b \<and> ba_wake b' = ba_wake b"
proof (cases "anchors_Render (es_Anchors st)")
  case (Inl e)
  then show ?thesis using run sA sF by (auto simp: ApplyOnce_def Apply_def includes_kept_def)
next
  case (Inr xa)
  obtain res e1 aa w1 where r1: "ApplyBytes ha bird xa (ba_anchors b, w) = ((res, e1), (aa, w1))" by (metis prod.exhaust)
  note a1 = A.ApplyBytes_synced [OF sA r1] and f1 = A.ApplyBytes_beside [OF sA sF r1]
  show ?thesis
  proof (cases "e1 = None")
    case False
    then show ?thesis using run a1 f1 by (auto simp: ApplyOnce_def Apply_def Inr r1 includes_kept_def)
  next
    case True
    show ?thesis
    proof (cases "flowspec_Render c (es_FlowRedirects st) (es_RedirectNextHop st) (es_RedirectNextHopV6 st)")
      case (Inl e)
      then show ?thesis using run a1 f1 True Inr by (auto simp: ApplyOnce_def Apply_def r1 includes_kept_def)
    next
      case xf: (Inr xf)
      obtain res2 e2 af w2 where r2: "ApplyBytes hf bird xf (ba_flow b, w1) = ((res2, e2), (af, w2))" by (metis prod.exhaust)
      have s1: "synced ha actA doubt wok (aa, w1)" "synced hf actF doubt wok (ba_flow b, w1)" using a1 f1 by auto
      note a2 = A.other.ApplyBytes_synced [OF s1(2) r2] and f2 = F.ApplyBytes_beside [OF s1(2) s1(1) r2]
      have out: "err = e2" "b' = b\<lparr>ba_anchors := aa, ba_flow := af\<rparr>" "w' = w2"
        using run True by (auto simp: ApplyOnce_def Apply_def Inr xf r1 r2)
      show ?thesis
      proof (cases "e2 = None")
        case e2: True
        have "actA w2 = xa \<and> actF w2 = xf" if "\<not> doubt w2"
          using that a1 f2 a2 e2 True by (auto simp: synced_def)
        moreover have "w2 = w \<and> ap_lastGood (ba_anchors b) = Some xa \<and> ap_lastGood (ba_flow b) = Some xf" if "doubt w2"
          using that a1 a2 e2 True by auto
        ultimately have "includes_applied c ha hf actA actF doubt st (b, w) w2"
          using a1 f2 a2 e2 True Inr xf by (auto simp: includes_applied_def)
        then show ?thesis using out e2 a2 f2 by simp
      next
        case False
        then have "includes_kept ha hf doubt st w w2"
          using a1 f1 a2 f2 True Inr by (auto simp: includes_kept_def)
        then show ?thesis using out False a2 f2 by auto
      qed
    qed
  qed
qed

lemma pass_synced:
  assumes s: "both_synced ha hf actA actF doubt wok s" and run: "BirdApplier_pass c ha hf bird now (Some st) s = (b', w')"
  shows "both_synced ha hf actA actF doubt wok (b', w') \<and>
    (if ba_fails b' = 0 then ba_lastOK b' = now \<and> includes_applied c ha hf actA actF doubt st s w'
     else ba_fails b' = ba_fails (fst s) + 1 \<and> ba_lastOK b' = ba_lastOK (fst s) \<and> includes_kept ha hf doubt st (snd s) w')"
proof -
  obtain b w where bw: "s = (b, w)" by (cases s)
  obtain err b1 w1 where r: "ApplyOnce c ha hf bird st (b, w) = (err, (b1, w1))" by (metis prod.exhaust)
  have "synced ha actA doubt wok (ba_anchors b, w)" "synced hf actF doubt wok (ba_flow b, w)" using s by (auto simp: both_synced_def bw)
  from ApplyOnce_synced [OF this r] show ?thesis
    using s run by (cases err) (auto simp: BirdApplier_pass_def bw r both_synced_def)
qed

lemma step_synced: "both_synced ha hf actA actF doubt wok s \<Longrightarrow> both_synced ha hf actA actF doubt wok (BirdApplier_step c ha hf bird ev s)"
proof -
  have p: "both_synced ha hf actA actF doubt wok s \<Longrightarrow> both_synced ha hf actA actF doubt wok (BirdApplier_pass c ha hf bird now d s)" for now d s
    using pass_synced [of s c now "the d" "fst (BirdApplier_pass c ha hf bird now d s)" "snd (BirdApplier_pass c ha hf bird now d s)"]
    by (cases d) (simp_all add: BirdApplier_pass_def)
  assume "both_synced ha hf actA actF doubt wok s"
  with p show ?thesis by (cases s; cases ev) (auto simp: both_synced_def BirdApplier_Wake_def)
qed

lemma run_synced: "both_synced ha hf actA actF doubt wok s \<Longrightarrow> both_synced ha hf actA actF doubt wok (fold (BirdApplier_step c ha hf bird) evs s)"
  by (induction evs arbitrary: s) (simp_all add: step_synced)

end

subsection \<open>The self-reconnecting client over a BIRD with two includes\<close>

definition Reconnecting_configurer :: "(string \<Rightarrow> string) \<Rightarrow> 'b ctl \<Rightarrow> 'b reconnecting BirdConfigurer" where
  "Reconnecting_configurer quote p =
     \<lparr>bf_ConfigureCheck = Reconnecting_ConfigureCheck quote p, bf_Configure = Reconnecting_Configure p,
      bf_ConfigureTimeout = Reconnecting_ConfigureTimeout p, bf_ConfigureConfirm = Reconnecting_ConfigureConfirm p\<rparr>"

text \<open>A BIRD that accepts a configuration unless one of the two files starts with an exclamation mark. Its
  connections are numbered from \<open>rb_since\<close>, the number it had when it last started: older ones are dead.\<close>

record rbird =
  rb_since :: nat
  rb_count :: nat
  rb_anchors :: string
  rb_flow :: string
  rb_actA :: string
  rb_actF :: string

definition rb_restart :: "rbird \<Rightarrow> rbird" where
  "rb_restart b = b\<lparr>rb_since := rb_since b + rb_count b + 1, rb_actA := rb_anchors b, rb_actF := rb_flow b\<rparr>"

definition rb_valid :: "rbird \<Rightarrow> bool" where
  "rb_valid b \<longleftrightarrow> take 1 (rb_anchors b) \<noteq> ''!'' \<and> take 1 (rb_flow b) \<noteq> ''!''"

definition rb_live :: "rbird \<Rightarrow> nat \<Rightarrow> bool" where "rb_live b n \<longleftrightarrow> rb_since b \<le> n"
definition rb_opened :: "rbird \<Rightarrow> rbird" where "rb_opened b = b\<lparr>rb_count := rb_count b + 1\<rparr>"
definition rb_conn :: "rbird \<Rightarrow> nat" where "rb_conn b = rb_since b + rb_count b"

definition rb_answer :: "string \<Rightarrow> rbird \<Rightarrow> cli_line list \<times> nat \<times> string" where
  "rb_answer cmd b =
     (if cmd = ''configure check'' then (if rb_valid b then ([], 20, ''Configuration OK'') else ([], 8002, ''syntax error''))
      else if cmd = ''configure'' then
        (if rb_valid b then ([Coded 2 ''Reading configuration''], 3, ''Reconfigured'') else ([], 8002, ''syntax error''))
      else ([], 9001, ''syntax error''))"

definition rb_obey :: "string \<Rightarrow> rbird \<Rightarrow> rbird" where
  "rb_obey cmd b = (if cmd = ''configure'' \<and> rb_valid b then b\<lparr>rb_actA := rb_anchors b, rb_actF := rb_flow b\<rparr> else b)"

definition rb_ctl :: "rbird ctl" where
  "rb_ctl =
     \<lparr>ct_dial = (\<lambda>b. (Some (rb_conn b, printReply [] 1 ''BIRD 3.3.1 ready.''), rb_opened b)),
      ct_deadline = (\<lambda>_ b. (True, b)),
      ct_write = (\<lambda>n bs b. if rb_live b n
         then (case rb_answer (butlast bs) b of (ls, code, t) \<Rightarrow> (Some (printReply ls code t), rb_obey (butlast bs) b)) else (None, b))\<rparr>"

interpretation rd: bird_daemon rb_ctl rb_live rb_opened rb_conn rb_answer rb_obey
proof
  show "\<exists>t. text_ok t \<and> ct_dial rb_ctl b = (Some (rb_conn b, printReply [] 1 t), rb_opened b)" for b
    by (intro exI [of _ "''BIRD 3.3.1 ready.''"]) (simp add: rb_ctl_def text_ok_def)
  show "reply_ok ls code t" if "rb_answer cmd b = (ls, code, t)" for cmd b ls code t
    using that by (auto simp: rb_answer_def reply_ok_def text_ok_def split: if_splits)
qed (auto simp: rb_ctl_def rb_live_def rb_opened_def rb_conn_def rb_answer_def rb_obey_def rb_valid_def)

type_synonym rworld = "rbird reconnecting"

definition rw_ok :: "rworld \<Rightarrow> bool" where
  "rw_ok w \<longleftrightarrow> (case fst w of None \<Rightarrow> True | Some c \<Rightarrow> \<exists>n. cc_conn c = Some (n, []))"

definition rw_host :: "(rbird \<Rightarrow> string) \<Rightarrow> (string \<Rightarrow> rbird \<Rightarrow> rbird) \<Rightarrow> rworld host" where
  "rw_host get put =
     \<lparr>ho_stat = (\<lambda>_. StatOK), ho_read = (\<lambda>w. Some (get (snd w))), ho_temp = (\<lambda>_ w. (True, w)),
      ho_rename = (\<lambda>content w. (True, (fst w, put content (snd w)))), ho_syncDir = (\<lambda>w. w)\<rparr>"

definition rw_anchors :: "rworld host" where "rw_anchors = rw_host rb_anchors (\<lambda>x b. b\<lparr>rb_anchors := x\<rparr>)"
definition rw_flow :: "rworld host" where "rw_flow = rw_host rb_flow (\<lambda>x b. b\<lparr>rb_flow := x\<rparr>)"

definition rw_bird :: "rworld BirdConfigurer" where
  "rw_bird = Reconnecting_configurer (\<lambda>s. [CHR 0x22] @ s @ [CHR 0x22]) rb_ctl"

lemmas rw_defs = rw_host_def rw_anchors_def rw_flow_def

lemma rw_call:
  assumes "rw_ok w"
  shows "\<exists>c' b1. Reconnecting_call rb_ctl (Bird_Cli.configure rb_ctl cmd) w = (cli_outcome (rb_answer cmd (snd w)), (Some c', rb_obey cmd b1)) \<and>
    (\<exists>n. cc_conn c' = Some (n, [])) \<and> (b1 = snd w \<or> b1 = rb_opened (snd w))"
  using rd.call_transparent [of "fst w" cmd "snd w"] assms by (auto simp: rw_ok_def)

lemma rw_call_keeps:
  assumes "rw_ok w" "Reconnecting_call rb_ctl (Bird_Cli.configure rb_ctl cmd) w = (r, w')"
  shows "rw_ok w' \<and> rb_anchors (snd w') = rb_anchors (snd w) \<and> rb_flow (snd w') = rb_flow (snd w) \<and>
    (cmd \<noteq> ''configure'' \<longrightarrow> rb_actA (snd w') = rb_actA (snd w) \<and> rb_actF (snd w') = rb_actF (snd w))"
  using rw_call [OF assms(1), of cmd] assms(2) by (auto simp: rw_ok_def rb_obey_def rb_opened_def)

lemma rw_configure:
  assumes "rw_ok w" "Reconnecting_call rb_ctl (Configure rb_ctl) w = ((res, err), w')"
  shows "(rb_actA (snd w'), rb_actF (snd w')) =
    (if err = None \<and> Accepted res then (rb_anchors (snd w), rb_flow (snd w)) else (rb_actA (snd w), rb_actF (snd w)))"
  using rw_call [OF assms(1), of "''configure''"] assms(2)
  by (auto simp: Configure_def rb_obey_def rb_opened_def rb_valid_def cli_outcome_def rb_answer_def Accepted_def cli_codes)

lemmas rw_commands = rw_bird_def Reconnecting_configurer_def Reconnecting_ConfigureCheck_def Reconnecting_Configure_def
  Reconnecting_ConfigureTimeout_def Reconnecting_ConfigureConfirm_def ConfigureCheck_def ConfigureTimeout_def ConfigureConfirm_def

definition rw_frame :: "rworld \<Rightarrow> rworld \<Rightarrow> bool" where
  "rw_frame w w' \<longleftrightarrow> rw_ok w' \<and> rb_anchors (snd w') = rb_anchors (snd w) \<and> rb_flow (snd w') = rb_flow (snd w)"

lemma rw_bird_frame:
  assumes "rw_ok w"
  shows "bf_ConfigureCheck rw_bird path w = (r, w') \<Longrightarrow> rw_frame w w' \<and> rb_actA (snd w') = rb_actA (snd w) \<and> rb_actF (snd w') = rb_actF (snd w)"
    and "bf_Configure rw_bird w = (r, w') \<Longrightarrow> rw_frame w w'"
    and "bf_ConfigureTimeout rw_bird n w = (r, w') \<Longrightarrow> rw_frame w w'"
    and "bf_ConfigureConfirm rw_bird w = (r, w') \<Longrightarrow> rw_frame w w'"
proof -
  show "rw_frame w w' \<and> rb_actA (snd w') = rb_actA (snd w) \<and> rb_actF (snd w') = rb_actF (snd w)"
    if "bf_ConfigureCheck rw_bird path w = (r, w')"
    using rw_call_keeps [OF assms, of _ r w'] that unfolding rw_frame_def by (fastforce simp: rw_commands)
  show "bf_Configure rw_bird w = (r, w') \<Longrightarrow> rw_frame w w'"
    using rw_call_keeps [OF assms, of _ r w'] unfolding rw_frame_def by (fastforce simp: rw_commands Configure_def)
  show "bf_ConfigureTimeout rw_bird n w = (r, w') \<Longrightarrow> rw_frame w w'"
    using rw_call_keeps [OF assms, of _ r w'] unfolding rw_frame_def by (fastforce simp: rw_commands)
  show "bf_ConfigureConfirm rw_bird w = (r, w') \<Longrightarrow> rw_frame w w'"
    using rw_call_keeps [OF assms, of _ r w'] unfolding rw_frame_def by (fastforce simp: rw_commands)
qed

lemma rw_bird_configure:
  "rw_ok w \<Longrightarrow> bf_Configure rw_bird w = ((res, err), w') \<Longrightarrow>
   (rb_actA (snd w'), rb_actF (snd w')) =
     (if err = None \<and> Accepted res then (rb_anchors (snd w), rb_flow (snd w)) else (rb_actA (snd w), rb_actF (snd w)))"
  using rw_configure by (simp add: rw_commands)

text \<open>One file of this world; \<open>rw_part\<close> says that \<open>put\<close> writes it and nothing else that matters here.\<close>

definition rw_part :: "(rbird \<Rightarrow> string) \<Rightarrow> (string \<Rightarrow> rbird \<Rightarrow> rbird) \<Rightarrow> (rbird \<Rightarrow> string) \<Rightarrow> bool" where
  "rw_part get put act \<longleftrightarrow> (\<forall>x b. get (put x b) = x \<and> act (put x b) = act b) \<and>
     (get = rb_anchors \<and> act = rb_actA \<or> get = rb_flow \<and> act = rb_actF)"

lemma rw_synced_include: "rw_part get put act \<Longrightarrow> synced_include (rw_host get put) rw_bird rw_ok (\<lambda>w. act (snd w)) (\<lambda>_. False)"
proof unfold_locales
  fix w path r w' assume p: "rw_part get put act" and w: "rw_ok w" and r: "bf_ConfigureCheck rw_bird path w = (r, w')"
  show "rw_ok w' \<and> ho_read (rw_host get put) w' = ho_read (rw_host get put) w"
    using p rw_bird_frame(1) [OF w r] by (auto simp: rw_host_def rw_frame_def rw_part_def)
next
  fix w r w' assume p: "rw_part get put act" and w: "rw_ok w" and r: "bf_Configure rw_bird w = (r, w')"
  show "rw_ok w' \<and> ho_read (rw_host get put) w' = ho_read (rw_host get put) w"
    using p rw_bird_frame(2) [OF w r] by (auto simp: rw_host_def rw_frame_def rw_part_def)
next
  fix w n r w' assume p: "rw_part get put act" and w: "rw_ok w" and r: "bf_ConfigureTimeout rw_bird n w = (r, w')"
  show "rw_ok w' \<and> ho_read (rw_host get put) w' = ho_read (rw_host get put) w"
    using p rw_bird_frame(3) [OF w r] by (auto simp: rw_host_def rw_frame_def rw_part_def)
next
  fix w r w' assume p: "rw_part get put act" and w: "rw_ok w" and r: "bf_ConfigureConfirm rw_bird w = (r, w')"
  show "rw_ok w' \<and> ho_read (rw_host get put) w' = ho_read (rw_host get put) w"
    using p rw_bird_frame(4) [OF w r] by (auto simp: rw_host_def rw_frame_def rw_part_def)
next
  fix w path r w' assume p: "rw_part get put act" and w: "rw_ok w" and r: "bf_ConfigureCheck rw_bird path w = (r, w')"
  show "undecided (rw_host get put) (\<lambda>w. act (snd w)) (\<lambda>_. False) w w'"
    using p rw_bird_frame(1) [OF w r] by (auto simp: rw_part_def undecided_def)
next
  fix w res err w' assume p: "rw_part get put act" and w: "rw_ok w" and r: "bf_Configure rw_bird w = ((res, err), w')"
  show "if err = None \<and> Accepted res then ho_read (rw_host get put) w = Some (act (snd w')) \<and> \<not> False
      else if refused err then act (snd w') = act (snd w) \<and> False = False
      else undecided (rw_host get put) (\<lambda>w. act (snd w)) (\<lambda>_. False) w w'"
    using p rw_bird_configure [OF w r] by (auto simp: rw_host_def rw_part_def undecided_def split: if_splits)
qed (auto simp: rw_host_def rw_ok_def rw_part_def)

interpretation rw: two_includes rw_anchors rw_flow rw_bird rw_ok "\<lambda>w. rb_actA (snd w)" "\<lambda>w. rb_actF (snd w)" "\<lambda>_. False"
proof -
  have "synced_include rw_anchors rw_bird rw_ok (\<lambda>w. rb_actA (snd w)) (\<lambda>_. False)"
    "synced_include rw_flow rw_bird rw_ok (\<lambda>w. rb_actF (snd w)) (\<lambda>_. False)"
    unfolding rw_anchors_def rw_flow_def by (rule rw_synced_include, simp add: rw_part_def)+
  then show "two_includes rw_anchors rw_flow rw_bird rw_ok (\<lambda>w. rb_actA (snd w)) (\<lambda>w. rb_actF (snd w)) (\<lambda>_. False)"
    by (intro two_includes.intro beside.intro beside_axioms.intro) (auto simp: rw_defs)
qed

subsection \<open>The include path\<close>

text \<open>C18: the legacy path, with the plain reload the agent uses (no confirm timeout). Every write of the disk may fail,
  and every command to BIRD may fail; of BIRD it is assumed that an accepted \<open>configure\<close> loads the files, that the
  previous configuration stays active when BIRD itself refuses one (a \<open>CommandError\<close>), and that a command whose answer
  is lost, or during which BIRD restarts, leaves BIRD with what it ran or with the files. Nothing else writes the files.
  \<open>doubt\<close> says that such a loss, or a failed write, happened since the last accepted reload. Start with files that BIRD
  runs, or in doubt. Then, after every sequence of timer passes and wake-ups: unless there is doubt, the two files are
  what BIRD runs; a pass that counts as applied leaves the two files with the renderings of the desired state it was
  given, and BIRD running exactly them, and ends every doubt, except that a pass may skip both includes because it
  remembers their contents as good, which keeps a doubt there was (\<open>lost_reload_is_skipped\<close> shows such a run); and
  after a pass that counts as failed, unless there is doubt, the FlowSpec file is as before, and the anchors file is
  as before or has the new rendering.\<close>

theorem include_path_converges:
  assumes "two_includes ha hf bird wok actA actF doubt" and "both_synced ha hf actA actF doubt wok s0"
    and "BirdApplier_pass c ha hf bird now (Some st) (fold (BirdApplier_step c ha hf bird) evs s0) = (b, w)"
  shows "both_synced ha hf actA actF doubt wok (b, w) \<and>
    (if ba_fails b = 0
     then ba_lastOK b = now \<and> includes_applied c ha hf actA actF doubt st (fold (BirdApplier_step c ha hf bird) evs s0) w
     else includes_kept ha hf doubt st (snd (fold (BirdApplier_step c ha hf bird) evs s0)) w)"
  using two_includes.pass_synced [OF assms(1) two_includes.run_synced [OF assms(1,2)] assms(3)] by (auto split: if_splits)

text \<open>In this world an apply of a valid configuration succeeds.\<close>

lemma rw_ApplyBytes_ok:
  assumes part: "rw_part get put act" and w: "rw_ok w" and ct: "ap_confirmTimeout a \<le> 0" and v: "rb_valid (put content (snd w))"
  shows "snd (fst (ApplyBytes (rw_host get put) rw_bird content (a, w))) = None"
proof (cases "ap_lastGood a = Some content \<and> get (snd w) = content")
  case True
  then show ?thesis by (simp add: ApplyBytes_def rw_host_def)
next
  case False
  let ?w1 = "(fst w, put content (snd w))"
  have t: "atomicWrite (rw_host get put) content w = (None, ?w1)"
    by (simp add: atomicWrite_def tempSteps.simps(2) rw_host_def)
  have w1: "rw_ok ?w1" using w by (simp add: rw_ok_def)
  obtain w2 where c: "bf_ConfigureCheck rw_bird [] ?w1 = ((\<lparr>cf_Code = 20, cf_Message = ''Configuration OK''\<rparr>, None), w2)"
    using rw_call [OF w1, of "''configure check''"] v
    by (auto simp: rw_commands rb_answer_def cli_outcome_def meaning_def Reply_Text_def)
  have w2: "rw_ok w2" "rb_valid (snd w2)" using rw_bird_frame(1) [OF w1 c] v by (auto simp: rw_frame_def rb_valid_def)
  obtain msg w3 where g: "bf_Configure rw_bird w2 = ((\<lparr>cf_Code = 3, cf_Message = msg\<rparr>, None), w3)"
    using rw_call [OF w2(1), of "''configure''"] w2(2)
    by (auto simp: rw_commands Configure_def rb_answer_def cli_outcome_def meaning_def)
  have r: "reconfigure rw_bird a w2 = ((\<lparr>cf_Code = 3, cf_Message = msg\<rparr>, None), w3)" using ct g by (simp add: reconfigure_def)
  show ?thesis
    using ApplyBytes_run [OF _ False t c r] by (simp add: rw_host_def Accepted_def cli_codes)
qed

definition ex_inc_state :: EdgeDesiredState where
  "ex_inc_state = EdgeDesiredState_zero\<lparr>es_Anchors := [ex_anchor 9 [], ex_anchor 5 [ex_c1, ex_c2]]\<rparr>"

text \<open>BIRD has restarted since the client connected.\<close>

definition ex_world :: rworld where
  "ex_world = (Some \<lparr>cc_conn = Some (0, []), cc_banner = ''BIRD 3.3.1 ready.''\<rparr>,
     \<lparr>rb_since = 1, rb_count = 0, rb_anchors = [], rb_flow = [], rb_actA = [], rb_actF = []\<rparr>)"

definition ex_bird0 :: "BirdApplier \<times> rworld" where
  "ex_bird0 = (NewBirdApplier NewApplier NewApplier, ex_world)"

lemma ex_bird0_synced: "both_synced rw_anchors rw_flow (\<lambda>w. rb_actA (snd w)) (\<lambda>w. rb_actF (snd w)) (\<lambda>_. False) rw_ok ex_bird0"
  by (simp add: both_synced_def synced_def ex_bird0_def NewBirdApplier_def NewApplier_def ex_world_def rw_defs rw_ok_def)

lemma rw_ApplyOnce_ok:
  assumes s: "both_synced rw_anchors rw_flow (\<lambda>w. rb_actA (snd w)) (\<lambda>w. rb_actF (snd w)) (\<lambda>_. False) rw_ok (b, w)"
    and A: "anchors_Render (es_Anchors st) = Inr ca" "take 1 ca \<noteq> ''!''"
    and F: "flowspec_Render c (es_FlowRedirects st) (es_RedirectNextHop st) (es_RedirectNextHopV6 st) = Inr cf" "take 1 cf \<noteq> ''!''"
    and v: "take 1 (rb_flow (snd w)) \<noteq> ''!''"
  shows "fst (ApplyOnce c rw_anchors rw_flow rw_bird st (b, w)) = None"
proof -
  have sA: "synced rw_anchors (\<lambda>w. rb_actA (snd w)) (\<lambda>_. False) rw_ok (ba_anchors b, w)" and sF: "synced rw_flow (\<lambda>w. rb_actF (snd w)) (\<lambda>_. False) rw_ok (ba_flow b, w)"
    using s by (auto simp: both_synced_def)
  obtain res e1 aa w1 where r1: "ApplyBytes rw_anchors rw_bird ca (ba_anchors b, w) = ((res, e1), (aa, w1))" by (metis prod.exhaust)
  have "snd (fst (ApplyBytes rw_anchors rw_bird ca (ba_anchors b, w))) = None"
    unfolding rw_anchors_def using sA A(2) v by (intro rw_ApplyBytes_ok [of _ _ rb_actA]) (auto simp: rw_part_def synced_def rb_valid_def)
  then have e1: "e1 = None" by (simp add: r1)
  have a1: "synced rw_anchors (\<lambda>w. rb_actA (snd w)) (\<lambda>_. False) rw_ok (aa, w1)" "rb_actA (snd w1) = ca"
    using rw.A.ApplyBytes_synced [OF sA r1] e1 by (auto simp: synced_def rw_defs)
  have f1: "synced rw_flow (\<lambda>w. rb_actF (snd w)) (\<lambda>_. False) rw_ok (ba_flow b, w1)" using rw.A.ApplyBytes_beside [OF sA sF r1] by auto
  have "snd (fst (ApplyBytes rw_flow rw_bird cf (ba_flow b, w1))) = None"
    unfolding rw_flow_def using f1 a1 F(2) A(2)
    by (intro rw_ApplyBytes_ok [of _ _ rb_actF]) (auto simp: rw_part_def synced_def rb_valid_def rw_defs)
  moreover obtain res2 e2 af w2 where "ApplyBytes rw_flow rw_bird cf (ba_flow b, w1) = ((res2, e2), (af, w2))" by (metis prod.exhaust)
  ultimately show ?thesis by (simp add: ApplyOnce_def Apply_def A(1) F(1) r1 e1)
qed

definition ex_inc_contract :: contract_fns where
  "ex_inc_contract =
     \<lparr>ParsePolicerName = (\<lambda>_. None), PoolSetHash = (\<lambda>_. 0), PolicerSpec_Validate = (\<lambda>_. True), MaskKind_String = (\<lambda>_. []),
      FlowRedirect_Validate = (\<lambda>_. True), AssembleChunks = (\<lambda>_. EdgeDesiredState_zero),
      SoftDead = (\<lambda>r. hr_State r = HealthDataPlaneDown), SchemaVersion = 1\<rparr>"

lemma ex_renders:
  "\<exists>ca. anchors_Render (es_Anchors ex_inc_state) = Inr ca \<and> take 1 ca \<noteq> ''!''"
  "\<exists>cf. flowspec_Render c (es_FlowRedirects ex_inc_state) (es_RedirectNextHop ex_inc_state) (es_RedirectNextHopV6 ex_inc_state) = Inr cf \<and> take 1 cf \<noteq> ''!''"
proof -
  show "\<exists>ca. anchors_Render (es_Anchors ex_inc_state) = Inr ca \<and> take 1 ca \<noteq> ''!''"
    using ex_anchors_ok by (simp add: anchors_Render_iff ex_inc_state_def anchorsText_def anchors_header_def)
  show "\<exists>cf. flowspec_Render c (es_FlowRedirects ex_inc_state) (es_RedirectNextHop ex_inc_state) (es_RedirectNextHopV6 ex_inc_state) = Inr cf \<and> take 1 cf \<noteq> ''!''"
    by (simp add: flowspec_Render_iff collectSrcs_def ex_inc_state_def EdgeDesiredState_zero_def sortSlice_def flowspec_header_def)
qed

theorem include_path_converges_witness:
  "\<exists>b w. BirdApplier_pass ex_inc_contract rw_anchors rw_flow rw_bird 7 (Some ex_inc_state)
      (fold (BirdApplier_step ex_inc_contract rw_anchors rw_flow rw_bird) [BTick 1 None, BWakeCall] ex_bird0) = (b, w) \<and>
    ba_fails b = 0 \<and> anchors_Render (es_Anchors ex_inc_state) = Inr (rb_actA (snd w))"
proof -
  let ?s = "fold (BirdApplier_step ex_inc_contract rw_anchors rw_flow rw_bird) [BTick 1 None, BWakeCall] ex_bird0"
  obtain b0 w0 where s: "?s = (b0, w0)" by (metis prod.exhaust)
  have flow: "rb_flow (snd w0) = []" using s by (auto simp: BirdApplier_pass_def ex_bird0_def ex_world_def)
  have syn: "both_synced rw_anchors rw_flow (\<lambda>w. rb_actA (snd w)) (\<lambda>w. rb_actF (snd w)) (\<lambda>_. False) rw_ok (b0, w0)"
    using rw.run_synced [OF ex_bird0_synced] s by metis
  obtain ca cf where "anchors_Render (es_Anchors ex_inc_state) = Inr ca" "take 1 ca \<noteq> ''!''"
    "flowspec_Render ex_inc_contract (es_FlowRedirects ex_inc_state) (es_RedirectNextHop ex_inc_state) (es_RedirectNextHopV6 ex_inc_state) = Inr cf" "take 1 cf \<noteq> ''!''"
    using ex_renders by blast
  from rw_ApplyOnce_ok [OF syn this] have "fst (ApplyOnce ex_inc_contract rw_anchors rw_flow rw_bird ex_inc_state (b0, w0)) = None"
    by (simp add: flow)
  then obtain b1 w where p: "BirdApplier_pass ex_inc_contract rw_anchors rw_flow rw_bird 7 (Some ex_inc_state) ?s = (b1\<lparr>ba_fails := 0, ba_lastOK := 7\<rparr>, w)"
    unfolding s by (cases "ApplyOnce ex_inc_contract rw_anchors rw_flow rw_bird ex_inc_state (b0, w0)") (auto simp: BirdApplier_pass_def)
  from include_path_converges [OF rw.two_includes_axioms ex_bird0_synced p] p show ?thesis by (auto simp: includes_applied_def)
qed

text \<open>The canary follows the health of the data plane: an observer's pass applies the canary include that originates
  the route exactly when the last health report is not soft-dead (or none exists yet).\<close>

definition canary_applied :: "'w host \<Rightarrow> ('w \<Rightarrow> string) \<Rightarrow> ('w \<Rightarrow> bool) \<Rightarrow> string \<Rightarrow> error option \<Rightarrow> Applier \<times> 'w \<Rightarrow> 'w \<Rightarrow> bool" where
  "canary_applied h active doubt content err s w' \<longleftrightarrow>
     (active w' = active (snd s) \<or> active w' = content) \<and>
     (if err = None then ho_read h w' = Some content \<and>
        (if doubt w' then w' = snd s \<and> ap_lastGood (fst s) = Some content else active w' = content)
      else \<not> doubt w' \<longrightarrow> active w' = active (snd s) \<and> ho_read h w' = ho_read h (snd s))"

lemma canary_tracks_health:
  assumes "synced_include h bird wok active doubt" and "synced h active doubt wok (cy_applier cy, w)"
    and "cy_advContent cy = renderCanary pfx lc True" and "cy_wdContent cy = renderCanary pfx lc False"
    and "canaryObserver c h bird (Last hc) (cy, w) = (cy', w')"
    and "advertised = (\<forall>rep. Last hc = Some rep \<longrightarrow> \<not> SoftDead c rep)"
  defines "err \<equiv> snd (fst (ApplyBytes h bird (renderCanary pfx lc advertised) (cy_applier cy, w)))"
  shows "synced h active doubt wok (cy_applier cy', w') \<and>
    canary_applied h active doubt (renderCanary pfx lc advertised) err (cy_applier cy, w) w' \<and>
    cy_lastAdvertised cy' = (if err = None then advertised else cy_lastAdvertised cy)"
proof -
  have adv: "(case Last hc of Some rep \<Rightarrow> \<not> SoftDead c rep | None \<Rightarrow> True) = advertised" using assms(6) by (auto split: option.splits)
  have content: "(if advertised then cy_advContent cy else cy_wdContent cy) = renderCanary pfx lc advertised" using assms(3,4) by simp
  obtain res e a x where r: "ApplyBytes h bird (renderCanary pfx lc advertised) (cy_applier cy, w) = ((res, e), (a, x))"
    by (metis prod.exhaust)
  note S = synced_include.ApplyBytes_synced [OF assms(1,2) r]
  then have "canary_applied h active doubt (renderCanary pfx lc advertised) e (cy_applier cy, w) x"
    by (auto simp: canary_applied_def synced_def)
  with S show ?thesis
    using assms(5) by (auto simp: canaryObserver_def Let_def adv content r err_def split: if_splits)
qed

definition ex_dead_report :: HealthReport where
  "ex_dead_report =
     \<lparr>hr_EdgeID = ''edge'', hr_GenerationApplied = 0, hr_AppliedVersion = 0, hr_ObservedAtUnixMs = 0, hr_VPPConnected = False,
      hr_PolicersDesired = 0, hr_SessionsDesired = 0, hr_PolicersActual = 0, hr_SessionsActual = 0, hr_RepairActions = 0,
      hr_DeltasDropped = 0, hr_State = HealthDataPlaneDown, hr_Reason = [], hr_Phase = PhaseDead, hr_FaultKind = FaultVPPGone,
      hr_BirdFeedFails = 0, hr_BirdFeedLastOKUnixMs = 0\<rparr>"

definition ex_canary :: canary where
  "ex_canary =
     (let pfx = Prefix (IPv4 9) 32; lc = \<lparr>lc_GlobalAdmin = 65000, lc_LocalData1 = 1, lc_LocalData2 = 2\<rparr>
      in \<lparr>cy_applier = NewApplier, cy_advContent = renderCanary pfx lc True, cy_wdContent = renderCanary pfx lc False,
          cy_lastAdvertised = True\<rparr>)"

lemma renderCanary_start: "take 1 (renderCanary pfx lc adv) \<noteq> ''!''"
  by (simp add: renderCanary_def Let_def split: prod.splits)

subsection \<open>When BIRD's answer is lost\<close>

text \<open>The applier takes a reload whose answer does not arrive for a failed one: it restores the file and still
  remembers the earlier content. If the desired state then returns to that content, the apply is skipped and BIRD
  is not asked, whatever it runs by then.\<close>

lemma failed_then_skipped:
  assumes "include_file h bird wok" "wok w" "ho_read h w = Some old" "ap_lastGood a = Some old"
    and "ApplyBytes h bird new (a, w) = ((res, Some e), (a', w'))" and "\<And>x. fst (atomicWrite h old x) = None"
  shows "ApplyBytes h bird old (a', w') = ((ApplyResult_zero\<lparr>ar_Skipped := True\<rparr>, None), (a', w'))"
proof -
  have "a' = a \<and> restored h w w'" using include_file.ApplyBytes_outcome(3) [OF assms(1,5,2)] by simp
  then show ?thesis using assms(3,4,6) by (auto simp: restored_def ApplyBytes_def)
qed

text \<open>Such a run. This BIRD accepts every configuration; the answers to its next \<open>fb_lost\<close> reloads do not arrive. It
  meets everything \<open>synced_include\<close> asks, with a doubt that is not constant.\<close>

record flaky_bird =
  fb_file :: string
  fb_active :: string
  fb_doubt :: bool
  fb_lost :: nat

definition fb_host :: "flaky_bird host" where
  "fb_host =
     \<lparr>ho_stat = (\<lambda>_. StatOK), ho_read = (\<lambda>w. Some (fb_file w)), ho_temp = (\<lambda>_ w. (True, w)),
      ho_rename = (\<lambda>content w. (True, w\<lparr>fb_file := content\<rparr>)), ho_syncDir = (\<lambda>w. w)\<rparr>"

definition fb_reload :: "(flaky_bird, ConfigureResult) go" where
  "fb_reload w =
     (if 0 < fb_lost w
      then ((ConfigureResult_zero, Some ErrIO), w\<lparr>fb_active := fb_file w, fb_doubt := True, fb_lost := fb_lost w - 1\<rparr>)
      else ((\<lparr>cf_Code = 3, cf_Message = ''Reconfigured''\<rparr>, None), w\<lparr>fb_active := fb_file w, fb_doubt := False\<rparr>))"

definition fb_bird :: "flaky_bird BirdConfigurer" where
  "fb_bird =
     \<lparr>bf_ConfigureCheck = (\<lambda>_ w. ((\<lparr>cf_Code = 20, cf_Message = ''Configuration OK''\<rparr>, None), w)),
      bf_Configure = fb_reload, bf_ConfigureTimeout = (\<lambda>_. fb_reload),
      bf_ConfigureConfirm = (\<lambda>w. ((\<lparr>cf_Code = 18, cf_Message = ''Reconfiguration confirmed''\<rparr>, None), w))\<rparr>"

interpretation fb: synced_include fb_host fb_bird "\<lambda>_. True" fb_active fb_doubt
  by unfold_locales
    (auto simp: fb_host_def fb_bird_def fb_reload_def undecided_def refused_def isConnFault_def Accepted_def cli_codes ConfigureResult_zero_def
      split: if_splits)

definition ex_flaky :: "Applier \<times> flaky_bird" where
  "ex_flaky = (NewApplier\<lparr>ap_lastGood := Some ''old''\<rparr>, \<lparr>fb_file = ''old'', fb_active = ''old'', fb_doubt = False, fb_lost = 1\<rparr>)"

lemma lost_reload_is_skipped:
  "\<exists>res s. synced fb_host fb_active fb_doubt (\<lambda>_. True) ex_flaky \<and>
    ApplyBytes fb_host fb_bird ''new'' ex_flaky = ((res, Some ErrConfigureFailed), s) \<and>
    ApplyBytes fb_host fb_bird ''old'' s = ((ApplyResult_zero\<lparr>ar_Skipped := True\<rparr>, None), s) \<and>
    fb_active (snd s) = ''new'' \<and> fb_doubt (snd s)"
  by (simp add: ex_flaky_def synced_def ApplyBytes_def atomicWrite_def rollback_def reconfigure_def fb_host_def fb_bird_def fb_reload_def
      tempSteps.simps(2) NewApplier_def Accepted_def cli_codes Let_def ConfigureResult_zero_def)

end
