(* ===== verification/Bird_Client.thy ===== *)
theory Bird_Client
  imports Bird_Wire
begin

text \<open>
  \<open>internal/birdfeed/client.go\<close>: the socket client of BIRD's \<open>api\<close> protocol, and the \<open>sink\<close> interface of
  \<open>feed.go\<close> it implements. The locale \<open>feed_sink\<close> states what the feed relies on; its interpretation shows
  that the client provides it, with \<open>bufio.Writer\<close> and its 64 KiB buffer written out. The outside world
  (\<open>net\<close>) decides which dials and which system writes fail, how many bytes a failing write still accepted,
  and before which operations the watcher goroutine has seen the peer close.
\<close>

subsection \<open>The interface\<close>

record 's sink =
  snk_connected :: "'s \<Rightarrow> bool"
  snk_connect :: "'s \<Rightarrow> error option \<times> 's"
  snk_write :: "bytes \<Rightarrow> 's \<Rightarrow> 's"
  snk_flush :: "'s \<Rightarrow> error option \<times> 's"
  snk_close :: "'s \<Rightarrow> 's"

text \<open>\<open>written\<close> is what was written on the current connection and \<open>delivered\<close> what the socket has accepted of it;
  \<open>drop\<close> is the peer closing the connection.\<close>

locale feed_sink =
  fixes k :: "'s sink" and written :: "'s \<Rightarrow> bytes" and delivered :: "'s \<Rightarrow> bytes" and peerClose :: "'s \<Rightarrow> 's"
  assumes connect_ok: "snk_connect k s = (None, s') \<Longrightarrow> snk_connected k s' \<and> written s' = []"
    and connect_err: "\<not> snk_connected k s \<Longrightarrow> snk_connect k s = (Some e, s') \<Longrightarrow> \<not> snk_connected k s'"
    and write_law: "snk_connected k (snk_write k f s) \<Longrightarrow> snk_connected k s \<and> written (snk_write k f s) = written s @ f"
    and flush_ok: "snk_flush k s = (None, s') \<Longrightarrow>
          snk_connected k s \<and> snk_connected k s' \<and> written s' = written s \<and> delivered s' = written s"
    and close_law: "\<not> snk_connected k (snk_close k s)"
    and peerClose_law: "\<not> snk_connected k (peerClose s)"

subsection \<open>The client\<close>

record net =
  nt_dial :: "nat \<Rightarrow> error option"
  nt_write :: "nat \<Rightarrow> nat option"
  nt_peer :: "nat \<Rightarrow> bool"

text \<open>The connection is identified by the number of its dial. The last three fields count system writes, operations
  of the feed and calls of \<open>onDown\<close>.\<close>

record Client =
  bc_conn :: "nat option"
  bc_buf :: bytes
  bc_err :: bool
  bc_sent :: bytes
  bc_dials :: nat
  bc_sys :: nat
  bc_ops :: nat
  bc_downs :: nat

definition NewClient :: Client where
  "NewClient = \<lparr>bc_conn = None, bc_buf = [], bc_err = False, bc_sent = [], bc_dials = 0, bc_sys = 0, bc_ops = 0, bc_downs = 0\<rparr>"

text \<open>\<open>bufio.Writer\<close>: a write error sticks.\<close>

definition bufSize :: nat where "bufSize = 65536"

definition sysWrite :: "net \<Rightarrow> bytes \<Rightarrow> Client \<Rightarrow> nat option \<times> Client" where
  "sysWrite net bs c =
     (case nt_write net (bc_sys c) of
        None \<Rightarrow> (None, c\<lparr>bc_sent := bc_sent c @ bs, bc_sys := Suc (bc_sys c)\<rparr>)
      | Some m \<Rightarrow> (Some m, c\<lparr>bc_sent := bc_sent c @ take m bs, bc_sys := Suc (bc_sys c)\<rparr>))"

definition bufFlush :: "net \<Rightarrow> Client \<Rightarrow> bool \<times> Client" where
  "bufFlush net c =
     (if bc_err c then (False, c)
      else if bc_buf c = [] then (True, c)
      else (case sysWrite net (bc_buf c) c of
              (None, c') \<Rightarrow> (True, c'\<lparr>bc_buf := []\<rparr>)
            | (Some m, c') \<Rightarrow> (False, c'\<lparr>bc_buf := drop m (bc_buf c), bc_err := True\<rparr>)))"

definition bufFill :: "net \<Rightarrow> bytes \<Rightarrow> Client \<Rightarrow> bytes \<times> Client" where
  "bufFill net p c =
     (if bc_buf c = [] then
        (case sysWrite net p c of
           (None, c') \<Rightarrow> ([], c')
         | (Some m, c') \<Rightarrow> (drop m p, c'\<lparr>bc_err := True\<rparr>))
      else (let n = bufSize - length (bc_buf c)
            in (drop n p, snd (bufFlush net (c\<lparr>bc_buf := bc_buf c @ take n p\<rparr>)))))"

lemma bufFill_decreases:
  assumes "bufSize - length (bc_buf c) < length p" and "\<not> bc_err c" and "bufFill net p c = (p', c')"
  shows "length p' < length p \<or> length p' = length p \<and> (bc_err c' \<or> length (bc_buf c') < length (bc_buf c))"
proof (cases "bc_buf c = []")
  case True
  then show ?thesis
    using assms by (auto simp: bufFill_def sysWrite_def bufSize_def split: option.splits)
next
  case False
  let ?n = "bufSize - length (bc_buf c)"
  have p': "p' = drop ?n p" and c': "c' = snd (bufFlush net (c\<lparr>bc_buf := bc_buf c @ take ?n p\<rparr>))"
    using False assms(3) by (auto simp: bufFill_def Let_def)
  show ?thesis
  proof (cases "?n = 0")
    case True
    with False assms(2) show ?thesis
      by (auto simp: p' c' bufFlush_def sysWrite_def split: option.splits prod.splits)
  qed (use assms(1) p' in auto)
qed

function bufWrite :: "net \<Rightarrow> bytes \<Rightarrow> Client \<Rightarrow> bool \<times> Client" where
  "bufWrite net p c =
     (if bufSize - length (bc_buf c) < length p \<and> \<not> bc_err c
      then (case bufFill net p c of (p', c') \<Rightarrow> bufWrite net p' c')
      else if bc_err c then (False, c)
      else (True, c\<lparr>bc_buf := bc_buf c @ p\<rparr>))"
  by auto
termination
proof (relation "measures [\<lambda>(net, p, c). length p, \<lambda>(net, p, c). if bc_err c then 0 else Suc (length (bc_buf c))]")
  fix net p c p' c'
  assume "bufSize - length (bc_buf c) < length p \<and> \<not> bc_err c" and "(p', c') = bufFill net p c"
  then have "length p' < length p \<or> length p' = length p \<and> (bc_err c' \<or> length (bc_buf c') < length (bc_buf c))" and "\<not> bc_err c"
    using bufFill_decreases [of c p net p' c'] by simp_all
  then show "((net, p', c'), net, p, c) \<in>
      measures [\<lambda>(net, p, c). length p, \<lambda>(net, p, c). if bc_err c then 0 else Suc (length (bc_buf c))]"
    by auto
qed simp

declare bufWrite.simps [simp del]

definition closeLocked :: "Client \<Rightarrow> Client" where
  "closeLocked c = c\<lparr>bc_conn := None, bc_buf := [], bc_err := False\<rparr>"

definition Client_connected :: "Client \<Rightarrow> bool" where
  "Client_connected c = (bc_conn c \<noteq> None)"

definition Client_connect :: "net \<Rightarrow> Client \<Rightarrow> error option \<times> Client" where
  "Client_connect net c =
     (case nt_dial net (bc_dials c) of
        Some e \<Rightarrow> (Some e, c\<lparr>bc_dials := Suc (bc_dials c)\<rparr>)
      | None \<Rightarrow> (None, c\<lparr>bc_conn := Some (bc_dials c), bc_buf := [], bc_err := False, bc_sent := [], bc_dials := Suc (bc_dials c)\<rparr>))"

text \<open>The end of the watcher of one connection: tear down and call \<open>onDown\<close> only if that connection is still the
  current one. The result says whether \<open>onDown\<close> was called.\<close>

definition watch :: "nat \<Rightarrow> Client \<Rightarrow> bool \<times> Client" where
  "watch conn c =
     (if bc_conn c = Some conn then (True, (closeLocked c)\<lparr>bc_downs := Suc (bc_downs c)\<rparr>) else (False, c))"

definition Client_write :: "net \<Rightarrow> bytes \<Rightarrow> Client \<Rightarrow> Client" where
  "Client_write net f c =
     (if bc_conn c = None then c
      else (case bufWrite net f c of (True, c') \<Rightarrow> c' | (False, c') \<Rightarrow> closeLocked c'))"

definition Client_flush :: "net \<Rightarrow> Client \<Rightarrow> error option \<times> Client" where
  "Client_flush net c =
     (if bc_conn c = None then (Some ErrClosed, c)
      else (case bufFlush net c of (True, c') \<Rightarrow> (None, c') | (False, c') \<Rightarrow> (Some ErrIO, closeLocked c')))"

definition Client_close :: "Client \<Rightarrow> Client" where
  "Client_close c = closeLocked c"

definition peerClose :: "Client \<Rightarrow> Client" where
  "peerClose c = (case bc_conn c of None \<Rightarrow> c | Some conn \<Rightarrow> snd (watch conn c))"

text \<open>The watcher may run before any operation of the feed.\<close>

definition watched :: "net \<Rightarrow> Client \<Rightarrow> Client" where
  "watched net c = (let c' = c\<lparr>bc_ops := Suc (bc_ops c)\<rparr> in if nt_peer net (bc_ops c) then peerClose c' else c')"

definition client_sink :: "net \<Rightarrow> Client sink" where
  "client_sink net =
     \<lparr>snk_connected = Client_connected, snk_connect = Client_connect net,
      snk_write = (\<lambda>f c. Client_write net f (watched net c)), snk_flush = (\<lambda>c. Client_flush net (watched net c)),
      snk_close = Client_close\<rparr>"

subsection \<open>The client keeps the contract\<close>

definition bc_written :: "Client \<Rightarrow> bytes" where
  "bc_written c = bc_sent c @ bc_buf c"

lemma bufFlush_ok:
  "bufFlush net c = (True, c') \<Longrightarrow> bc_written c' = bc_written c \<and> bc_sent c' = bc_written c \<and> bc_conn c' = bc_conn c \<and> \<not> bc_err c'"
  by (auto simp: bufFlush_def sysWrite_def bc_written_def split: if_splits option.splits)

lemma bufFlush_conn: "bc_conn (snd (bufFlush net c)) = bc_conn c"
  by (auto simp: bufFlush_def sysWrite_def split: option.splits prod.splits)

lemma bufFill_keeps:
  assumes "bufFill net p c = (p', c')" and "\<not> bc_err c'" and "bufSize - length (bc_buf c) < length p"
  shows "bc_written c' @ p' = bc_written c @ p \<and> bc_conn c' = bc_conn c"
proof (cases "bc_buf c = []")
  case False
  let ?c = "c\<lparr>bc_buf := bc_buf c @ take (bufSize - length (bc_buf c)) p\<rparr>"
  have c': "c' = snd (bufFlush net ?c)" and p': "p' = drop (bufSize - length (bc_buf c)) p"
    using False assms(1) by (auto simp: bufFill_def Let_def)
  have "bc_err ?c \<or> bc_buf ?c \<noteq> []" using False by simp
  then have "fst (bufFlush net ?c)"
    using assms(2) c' by (auto simp: bufFlush_def sysWrite_def split: option.splits if_splits)
  then have "bufFlush net ?c = (True, c')" using c' by (cases "bufFlush net ?c") auto
  then show ?thesis using bufFlush_ok [of net ?c c'] p' by (auto simp: bc_written_def)
qed (use assms in \<open>auto simp: bufFill_def sysWrite_def bc_written_def split: option.splits\<close>)

lemma bufWrite_err: "bc_err c \<Longrightarrow> bufWrite net p c = (False, c)"
  by (subst bufWrite.simps) simp

lemma bufWrite_ok:
  "bufWrite net p c = (True, c') \<Longrightarrow> bc_written c' = bc_written c @ p \<and> bc_conn c' = bc_conn c"
proof (induction net p c rule: bufWrite.induct)
  case (1 net p c)
  show ?case
  proof (cases "bufSize - length (bc_buf c) < length p \<and> \<not> bc_err c")
    case True
    obtain p1 c1 where f: "bufFill net p c = (p1, c1)" by (cases "bufFill net p c")
    with True 1(2) have w: "bufWrite net p1 c1 = (True, c')" by (subst (asm) bufWrite.simps) simp
    then have "\<not> bc_err c1" using bufWrite_err by (cases "bc_err c1") auto
    then show ?thesis using bufFill_keeps [OF f] True 1(1) [OF True f [symmetric] w] by simp
  next
    case False
    then show ?thesis
      using 1(2) by (subst (asm) (1) bufWrite.simps) (auto simp: bc_written_def split: if_splits)
  qed
qed

lemma watched_alive:
  "bc_conn (watched net c) \<noteq> None \<Longrightarrow> bc_conn (watched net c) = bc_conn c \<and> bc_written (watched net c) = bc_written c \<and>
     bc_sent (watched net c) = bc_sent c"
  by (auto simp: watched_def peerClose_def watch_def closeLocked_def bc_written_def Let_def split: if_splits option.splits)

interpretation client: feed_sink "client_sink net" bc_written bc_sent peerClose
proof unfold_locales
  fix s s' e f
  show "snk_connect (client_sink net) s = (None, s') \<Longrightarrow> snk_connected (client_sink net) s' \<and> bc_written s' = []"
    by (auto simp: client_sink_def Client_connect_def Client_connected_def bc_written_def split: option.splits)
  show "\<not> snk_connected (client_sink net) s \<Longrightarrow> snk_connect (client_sink net) s = (Some e, s') \<Longrightarrow> \<not> snk_connected (client_sink net) s'"
    by (auto simp: client_sink_def Client_connect_def Client_connected_def split: option.splits)
  show "\<not> snk_connected (client_sink net) (snk_close (client_sink net) s)"
    by (simp add: client_sink_def Client_close_def closeLocked_def Client_connected_def)
  show "\<not> snk_connected (client_sink net) (peerClose s)"
    by (auto simp: client_sink_def peerClose_def watch_def closeLocked_def Client_connected_def split: option.splits)
  assume "snk_connected (client_sink net) (snk_write (client_sink net) f s)"
  then have c: "Client_connected (Client_write net f (watched net s))" by (simp add: client_sink_def)
  then have conn: "bc_conn (watched net s) \<noteq> None"
    by (auto simp: Client_connected_def Client_write_def split: if_splits)
  with c obtain c' where "bufWrite net f (watched net s) = (True, c')" and "Client_write net f (watched net s) = c'"
    by (cases "bufWrite net f (watched net s)")
      (auto simp: Client_write_def Client_connected_def closeLocked_def split: bool.splits if_splits)
  then show "snk_connected (client_sink net) s \<and> bc_written (snk_write (client_sink net) f s) = bc_written s @ f"
    using bufWrite_ok [of net f "watched net s" c'] conn watched_alive [OF conn] by (simp add: client_sink_def Client_connected_def)
next
  fix s s'
  assume "snk_flush (client_sink net) s = (None, s')"
  then have fl: "Client_flush net (watched net s) = (None, s')" by (simp add: client_sink_def)
  then have conn: "bc_conn (watched net s) \<noteq> None" by (auto simp: Client_flush_def split: if_splits)
  with fl have "bufFlush net (watched net s) = (True, s')"
    by (auto simp: Client_flush_def split: prod.splits bool.splits)
  from bufFlush_ok [OF this] conn watched_alive [OF conn]
  show "snk_connected (client_sink net) s \<and> snk_connected (client_sink net) s' \<and> bc_written s' = bc_written s \<and> bc_sent s' = bc_written s"
    by (simp add: client_sink_def Client_connected_def)
qed

end
