(* ===== verification/Bird_Feed.thy ===== *)
theory Bird_Feed
  imports Bird_Client
begin

text \<open>
  \<open>internal/birdfeed/feed.go\<close>: the incremental feed of anchors and FlowSpec redirects to BIRD. One pass
  (\<open>feed_apply\<close>) connects if needed, computes the desired sets, writes either a full resync or the difference
  to the last committed snapshot, and commits after a clean flush. BIRD itself is not part of the repository:
  the locale \<open>api_proto\<close> states what the comments of \<open>feed.go\<close> and \<open>encode.go\<close> say of its \<open>api\<close>
  protocol. Times are in milliseconds; sleeps are not observable and are the delay of the trace.
\<close>

subsection \<open>State\<close>

record Feed =
  fd_anchors :: "(Prefix, bytes) gomap"
  fd_flows :: "(Prefix, unit) gomap"
  fd_nextHop :: Addr
  fd_nextHop6 :: Addr
  fd_resync :: bool
  fd_maxOps :: int
  fd_lastConnect :: "int option"
  fd_connectStreak :: int
  fd_fails :: int
  fd_lastOK :: int
  fd_wake :: bool
  fd_timers :: "int list"

definition NewFeed :: "int \<Rightarrow> Feed" where
  "NewFeed maxOps =
     \<lparr>fd_anchors = [], fd_flows = [], fd_nextHop = AddrInvalid, fd_nextHop6 = AddrInvalid, fd_resync = True, fd_maxOps = maxOps,
      fd_lastConnect = None, fd_connectStreak = 0, fd_fails = 0, fd_lastOK = 0, fd_wake = False, fd_timers = []\<rparr>"

definition Feed_Wake :: "Feed \<Rightarrow> Feed" where
  "Feed_Wake f = f\<lparr>fd_wake := True\<rparr>"

text \<open>What a pass takes from outside: the orders of its four map iterations and the clock.\<close>

record feed_env =
  fe_ordA :: "Prefix list \<Rightarrow> Prefix list"
  fe_ordOldA :: "Prefix list \<Rightarrow> Prefix list"
  fe_ordF :: "Prefix list \<Rightarrow> Prefix list"
  fe_ordOldF :: "Prefix list \<Rightarrow> Prefix list"
  fe_now :: int

definition feed_env_ok :: "feed_env \<Rightarrow> bool" where
  "feed_env_ok env \<longleftrightarrow> range_order (fe_ordA env) \<and> range_order (fe_ordOldA env) \<and> range_order (fe_ordF env) \<and> range_order (fe_ordOldF env)"

subsection \<open>Paced writing\<close>

definition writePaced :: "'s sink \<Rightarrow> int \<Rightarrow> bytes \<Rightarrow> (int \<times> 's, unit) act" where
  "writePaced k maxOps frm = (\<lambda>(n, s).
     let s1 = snk_write k frm s
     in if maxOps \<le> 0 then (Inr (), (n, s1))
        else if maxOps \<le> n + 1
        then (case snk_flush k s1 of (Some e, s2) \<Rightarrow> (Inl e, (n + 1, s2)) | (None, s2) \<Rightarrow> (Inr (), (0, s2)))
        else (Inr (), (n + 1, s1)))"

text \<open>\<open>wr\<close> is the paced \<open>write\<close> the callers pass in.\<close>

definition fullResync ::
    "feed_env \<Rightarrow> (Prefix, bytes) gomap \<Rightarrow> (Prefix, unit) gomap \<Rightarrow> (Prefix \<Rightarrow> bytes) \<Rightarrow> (bytes \<Rightarrow> ('t, unit) act) \<Rightarrow> ('t, unit) act" where
  "fullResync env desA desF ecFor wr =
     andThen (wr frameHello) (\<lambda>_.
     andThen (forEach (fe_ordA env (gm_keys desA))
       (\<lambda>p _. case gm_get desA p of Some attrs \<Rightarrow> wr (frameAnchor opAdd p attrs) | None \<Rightarrow> ret ()) ()) (\<lambda>_.
     andThen (forEach (fe_ordF env (gm_keys desF)) (\<lambda>p _. wr (frameFlow opAdd p (ecFor p))) ()) (\<lambda>_.
     wr frameEOR)))"

definition incremental ::
    "feed_env \<Rightarrow> Feed \<Rightarrow> (Prefix, bytes) gomap \<Rightarrow> (Prefix, unit) gomap \<Rightarrow> (Prefix \<Rightarrow> bytes) \<Rightarrow> (bytes \<Rightarrow> ('t, unit) act) \<Rightarrow> ('t, unit) act" where
  "incremental env f desA desF ecFor wr =
     andThen (forEach (fe_ordA env (gm_keys desA))
       (\<lambda>p _. case gm_get desA p of
          Some attrs \<Rightarrow> if gm_get (fd_anchors f) p \<noteq> Some attrs then wr (frameAnchor opAdd p attrs) else ret ()
        | None \<Rightarrow> ret ()) ()) (\<lambda>_.
     andThen (forEach (fe_ordOldA env (gm_keys (fd_anchors f)))
       (\<lambda>p _. if gm_get desA p = None then wr (frameAnchor opDel p []) else ret ()) ()) (\<lambda>_.
     andThen (forEach (fe_ordF env (gm_keys desF))
       (\<lambda>p _. if gm_get (fd_flows f) p = None then wr (frameFlow opAdd p (ecFor p)) else ret ()) ()) (\<lambda>_.
     forEach (fe_ordOldF env (gm_keys (fd_flows f)))
       (\<lambda>p _. if gm_get desF p = None then wr (frameFlow opDel p (ecFor p)) else ret ()) ())))"

subsection \<open>A pass\<close>

definition reconnectBackoffWindow :: int where "reconnectBackoffWindow = 5000"
definition reconnectBackoffStep :: int where "reconnectBackoffStep = 250"
definition reconnectBackoffMax :: int where "reconnectBackoffMax = 2000"

text \<open>\<open>backoffReconnect\<close>, with the delay it sleeps.\<close>

definition backoffReconnect :: "int \<Rightarrow> Feed \<Rightarrow> int \<times> Feed" where
  "backoffReconnect now f =
     (if fd_maxOps f \<le> 0 then (0, f)
      else if (case fd_lastConnect f of None \<Rightarrow> False | Some t \<Rightarrow> now - t < reconnectBackoffWindow)
      then (let streak = fd_connectStreak f + 1; d0 = streak * reconnectBackoffStep;
                d = (if d0 > reconnectBackoffMax then reconnectBackoffMax else d0)
            in (d, f\<lparr>fd_connectStreak := streak, fd_lastConnect := Some (now + d)\<rparr>))
      else (0, f\<lparr>fd_connectStreak := 0, fd_lastConnect := Some now\<rparr>))"

definition ensureConnected :: "'s sink \<Rightarrow> int \<Rightarrow> (Feed \<times> 's, unit) act" where
  "ensureConnected k now = (\<lambda>(f, s).
     if snk_connected k s then (Inr (), (f, s))
     else (case snk_connect k s of
             (Some e, s') \<Rightarrow> (Inl e, (f, s'))
           | (None, s') \<Rightarrow> (Inr (), (snd (backoffReconnect now (f\<lparr>fd_resync := True\<rparr>)), s'))))"

definition desAnchors :: "EdgeDesiredState \<Rightarrow> (Prefix, bytes) gomap" where
  "desAnchors st = gm_collect an_Prefix anchorAttrBytes (es_Anchors st)"

definition desFlows :: "EdgeDesiredState \<Rightarrow> (Prefix, unit) gomap" where
  "desFlows st = gm_collect fr_SrcPrefix (\<lambda>_. ()) (es_FlowRedirects st)"

definition haveV4 :: "EdgeDesiredState \<Rightarrow> bool" where
  "haveV4 st = list_ex (\<lambda>r. \<not> Is6 (pfx_Addr (fr_SrcPrefix r))) (es_FlowRedirects st)"

definition haveV6 :: "EdgeDesiredState \<Rightarrow> bool" where
  "haveV6 st = list_ex (\<lambda>r. Is6 (pfx_Addr (fr_SrcPrefix r))) (es_FlowRedirects st)"

definition nextHopsOk :: "EdgeDesiredState \<Rightarrow> bool" where
  "nextHopsOk st \<longleftrightarrow> (haveV4 st \<longrightarrow> Is4 (es_RedirectNextHop st)) \<and> (haveV6 st \<longrightarrow> Is6 (es_RedirectNextHopV6 st))"

definition ecFor :: "EdgeDesiredState \<Rightarrow> Prefix \<Rightarrow> bytes" where
  "ecFor st p =
     (if Is6 (pfx_Addr p) then (if haveV6 st then I6 (es_RedirectNextHopV6 st) else replicate 20 0)
      else (if haveV4 st then (case IP4 (es_RedirectNextHop st) of Some ec \<Rightarrow> ec | None \<Rightarrow> replicate 8 0) else replicate 8 0))"

definition feed_apply :: "'s sink \<Rightarrow> feed_env \<Rightarrow> EdgeDesiredState \<Rightarrow> Feed \<times> 's \<Rightarrow> error option \<times> (Feed \<times> 's)" where
  "feed_apply k env st fs =
     (case ensureConnected k (fe_now env) fs of
        (Inl e, fs') \<Rightarrow> (Some e, fs')
      | (Inr _, (f, s)) \<Rightarrow>
          if \<not> nextHopsOk st then (Some ErrNoNextHop, (f, s))
          else (let desA = desAnchors st; desF = desFlows st;
                    full = (fd_resync f \<or> es_RedirectNextHop st \<noteq> fd_nextHop f \<or> es_RedirectNextHopV6 st \<noteq> fd_nextHop6 f);
                    wr = writePaced k (fd_maxOps f);
                    stream = (if full then fullResync env desA desF (ecFor st) wr else incremental env f desA desF (ecFor st) wr)
                in case stream (0, s) of
                     (Inl e, (_, s1)) \<Rightarrow> (Some e, (f\<lparr>fd_resync := True\<rparr>, snk_close k s1))
                   | (Inr _, (_, s1)) \<Rightarrow>
                       (case snk_flush k s1 of
                          (Some e, s2) \<Rightarrow> (Some e, (f\<lparr>fd_resync := True\<rparr>, snk_close k s2))
                        | (None, s2) \<Rightarrow>
                            (None, (f\<lparr>fd_resync := (if full then False else fd_resync f), fd_anchors := desA, fd_flows := desF,
                               fd_nextHop := es_RedirectNextHop st, fd_nextHop6 := es_RedirectNextHopV6 st\<rparr>, s2)))))"

definition pass :: "'s sink \<Rightarrow> feed_env \<Rightarrow> EdgeDesiredState option \<Rightarrow> Feed \<times> 's \<Rightarrow> Feed \<times> 's" where
  "pass k env provided fs =
     (case provided of
        None \<Rightarrow> fs
      | Some st \<Rightarrow>
          (case feed_apply k env st fs of
             (Some e, (f, s)) \<Rightarrow> (f\<lparr>fd_fails := fd_fails f + 1, fd_timers := fd_timers f @ [fe_now env + 2000]\<rparr>, s)
           | (None, (f, s)) \<Rightarrow> (f\<lparr>fd_fails := 0, fd_lastOK := fe_now env\<rparr>, s)))"

definition Feed_Status :: "Feed \<Rightarrow> int \<times> int" where
  "Feed_Status f = (fd_fails f, fd_lastOK f)"

text \<open>The events of \<open>Run\<close> and of the client's watcher: a pass (on the ticker, or on a pending wake, which it takes),
  a retry timer firing, a wake from outside, and the peer closing the connection.\<close>

datatype feed_event =
    FTick feed_env "EdgeDesiredState option"
  | FWake feed_env "EdgeDesiredState option"
  | FTimer
  | FWakeCall
  | FPeerClose

fun feed_step :: "'s sink \<Rightarrow> ('s \<Rightarrow> 's) \<Rightarrow> feed_event \<Rightarrow> Feed \<times> 's \<Rightarrow> Feed \<times> 's" where
  "feed_step k pc (FTick env st) fs = pass k env st fs"
| "feed_step k pc (FWake env st) (f, s) = (if fd_wake f then pass k env st (f\<lparr>fd_wake := False\<rparr>, s) else (f, s))"
| "feed_step k pc FTimer (f, s) = (case fd_timers f of [] \<Rightarrow> (f, s) | _ # ts \<Rightarrow> (Feed_Wake (f\<lparr>fd_timers := ts\<rparr>), s))"
| "feed_step k pc FWakeCall (f, s) = (Feed_Wake f, s)"
| "feed_step k pc FPeerClose (f, s) = (if snk_connected k s then (Feed_Wake f, pc s) else (f, s))"

definition feed_run :: "'s sink \<Rightarrow> ('s \<Rightarrow> 's) \<Rightarrow> feed_event list \<Rightarrow> Feed \<times> 's \<Rightarrow> Feed \<times> 's" where
  "feed_run k pc es fs = fold (feed_step k pc) es fs"

subsection \<open>What the feed relies on of BIRD\<close>

definition wireKey :: "bytes \<Rightarrow> bool" where
  "wireKey key \<longleftrightarrow> (\<exists>fl p. Prefix_IsValid p \<and> key = routeKey fl p)"

text \<open>\<open>routes\<close> is the table by wire key, \<open>stale\<close> the keys a refresh has not confirmed yet. \<open>ADD\<close> is an idempotent upsert,
  \<open>DEL\<close> is keyed by prefix alone, \<open>HELLO\<close> marks everything stale and \<open>EOR\<close> prunes what is still stale.\<close>

locale api_proto =
  fixes recv :: "bytes \<Rightarrow> 'b \<Rightarrow> 'b" and routes :: "'b \<Rightarrow> bytes \<Rightarrow> bytes option" and stale :: "'b \<Rightarrow> bytes set"
  assumes recv_hello: "routes (recv frameHello b) = routes b" "stale (recv frameHello b) = dom (routes b)"
    and recv_add: "wireKey key \<Longrightarrow> smallBody (key @ attrs) \<Longrightarrow> routes (recv (frame opAdd (key @ attrs)) b) = (routes b)(key \<mapsto> attrs)"
      "wireKey key \<Longrightarrow> smallBody (key @ attrs) \<Longrightarrow> stale (recv (frame opAdd (key @ attrs)) b) = stale b - {key}"
    and recv_del: "wireKey key \<Longrightarrow> routes (recv (frame opDel key) b) = (routes b)(key := None)"
    and recv_eor: "routes (recv frameEOR b) = routes b |` (- stale b)"

subsection \<open>The frames of a pass\<close>

definition writeAll :: "(bytes \<Rightarrow> ('t, unit) act) \<Rightarrow> bytes list \<Rightarrow> ('t, unit) act" where
  "writeAll wr fs = forEach fs (\<lambda>f _. wr f) ()"

lemma writeAll_simps [simp]:
  "writeAll wr [] = ret ()" "writeAll wr (f # fs) = andThen (wr f) (\<lambda>_. writeAll wr fs)"
  "writeAll wr (fs @ gs) = andThen (writeAll wr fs) (\<lambda>_. writeAll wr gs)"
  by (simp_all add: writeAll_def forEach_append)

lemma andThen_ret_right [simp]: "andThen m ret = m"
  by (rule ext) (auto simp: andThen_def ret_def split: prod.splits sum.splits)

lemma unit_fun_eq: "f = g \<longleftrightarrow> f () = g ()" for f g :: "unit \<Rightarrow> 'x"
  by auto

lemma andThen_assoc: "andThen (andThen m f) g = andThen m (\<lambda>x. andThen (f x) g)"
  by (rule ext) (auto simp: andThen_def split: prod.splits sum.splits)

lemma forEach_write: "forEach xs (\<lambda>x _. wr (g x)) () = writeAll wr (map g xs)"
proof (induction xs)
  case (Cons x xs)
  then have "forEach xs (\<lambda>x _. wr (g x)) = (\<lambda>_. writeAll wr (map g xs))" by (simp add: unit_fun_eq)
  then show ?case by simp
qed simp

lemma forEach_write_if: "forEach xs (\<lambda>x _. if P x then wr (g x) else ret ()) () = writeAll wr (map g (filter P xs))"
proof (induction xs)
  case (Cons x xs)
  then have "forEach xs (\<lambda>x _. if P x then wr (g x) else ret ()) = (\<lambda>_. writeAll wr (map g (filter P xs)))"
    by (simp add: unit_fun_eq)
  then show ?case by simp
qed simp

definition anchorAdds :: "(Prefix, bytes) gomap \<Rightarrow> Prefix list \<Rightarrow> (bytes \<times> bytes option) list" where
  "anchorAdds desA ps = map (\<lambda>p. (routeKey False p, Some ([attrBlackhole, 0] @ the (gm_get desA p)))) ps"

definition flowAdds :: "(Prefix \<Rightarrow> bytes) \<Rightarrow> Prefix list \<Rightarrow> (bytes \<times> bytes option) list" where
  "flowAdds ec ps = map (\<lambda>p. (routeKey True p, Some ([attrExtComm, of_nat (length (ec p))] @ ec p))) ps"

definition routeDels :: "bool \<Rightarrow> Prefix list \<Rightarrow> (bytes \<times> bytes option) list" where
  "routeDels fl ps = map (\<lambda>p. (routeKey fl p, None)) ps"

fun editFrame :: "bytes \<times> bytes option \<Rightarrow> bytes" where
  "editFrame (key, Some attrs) = frame opAdd (key @ attrs)"
| "editFrame (key, None) = frame opDel key"

definition resyncEdits :: "feed_env \<Rightarrow> (Prefix, bytes) gomap \<Rightarrow> (Prefix, unit) gomap \<Rightarrow> (Prefix \<Rightarrow> bytes) \<Rightarrow> (bytes \<times> bytes option) list" where
  "resyncEdits env desA desF ec =
     anchorAdds desA (filter (\<lambda>p. gm_get desA p \<noteq> None) (fe_ordA env (gm_keys desA))) @ flowAdds ec (fe_ordF env (gm_keys desF))"

definition deltaEdits :: "feed_env \<Rightarrow> Feed \<Rightarrow> (Prefix, bytes) gomap \<Rightarrow> (Prefix, unit) gomap \<Rightarrow> (Prefix \<Rightarrow> bytes) \<Rightarrow> (bytes \<times> bytes option) list" where
  "deltaEdits env f desA desF ec =
     anchorAdds desA (filter (\<lambda>p. gm_get desA p \<noteq> None \<and> gm_get (fd_anchors f) p \<noteq> gm_get desA p) (fe_ordA env (gm_keys desA))) @
     routeDels False (filter (\<lambda>p. gm_get desA p = None) (fe_ordOldA env (gm_keys (fd_anchors f)))) @
     flowAdds ec (filter (\<lambda>p. gm_get (fd_flows f) p = None) (fe_ordF env (gm_keys desF))) @
     routeDels True (filter (\<lambda>p. gm_get desF p = None) (fe_ordOldF env (gm_keys (fd_flows f))))"

lemma editFrames:
  "map editFrame (anchorAdds desA ps) = map (\<lambda>p. frameAnchor opAdd p (the (gm_get desA p))) ps"
  "map editFrame (flowAdds ec ps) = map (\<lambda>p. frameFlow opAdd p (ec p)) ps"
  "map editFrame (routeDels False ps) = map (\<lambda>p. frameAnchor opDel p []) ps"
  "map editFrame (routeDels True ps) = map (\<lambda>p. frameFlow opDel p (ec p)) ps"
  by (simp_all add: anchorAdds_def flowAdds_def routeDels_def frameAnchor_key frameFlow_key)

lemma fullResync_frames:
  "fullResync env desA desF ec wr = writeAll wr ([frameHello] @ map editFrame (resyncEdits env desA desF ec) @ [frameEOR])"
proof -
  have body: "(\<lambda>p _. case gm_get desA p of Some attrs \<Rightarrow> wr (frameAnchor opAdd p attrs) | None \<Rightarrow> ret ()) =
      (\<lambda>p _. if gm_get desA p \<noteq> None then wr (frameAnchor opAdd p (the (gm_get desA p))) else ret ())"
    by (auto simp: fun_eq_iff split: option.splits)
  show ?thesis
    unfolding fullResync_def body forEach_write_if [of _ _ wr] forEach_write [of _ wr]
    by (simp add: resyncEdits_def editFrames andThen_assoc)
qed

lemma incremental_frames:
  "incremental env f desA desF ec wr = writeAll wr (map editFrame (deltaEdits env f desA desF ec))"
proof -
  have body: "(\<lambda>p _. case gm_get desA p of
        Some attrs \<Rightarrow> if gm_get (fd_anchors f) p \<noteq> Some attrs then wr (frameAnchor opAdd p attrs) else ret () | None \<Rightarrow> ret ()) =
      (\<lambda>p _. if gm_get desA p \<noteq> None \<and> gm_get (fd_anchors f) p \<noteq> gm_get desA p
         then wr (frameAnchor opAdd p (the (gm_get desA p))) else ret ())"
    by (auto simp: fun_eq_iff split: option.splits)
  show ?thesis
    unfolding incremental_def body forEach_write_if [of _ _ wr]
    by (simp add: deltaEdits_def editFrames(1-3) editFrames(4) [of _ ec] andThen_assoc)
qed

context feed_sink
begin

lemma writePaced_written:
  "writePaced k mo frm (n, s) = (Inr (), (n', s')) \<Longrightarrow> snk_connected k s' \<Longrightarrow> snk_connected k s \<and> written s' = written s @ frm"
proof (cases "mo \<le> 0 \<or> n + 1 < mo")
  case True
  assume "writePaced k mo frm (n, s) = (Inr (), (n', s'))" and "snk_connected k s'"
  with True have "s' = snk_write k frm s" by (auto simp: writePaced_def Let_def split: if_splits)
  with \<open>snk_connected k s'\<close> show ?thesis using write_law by blast
next
  case False
  assume "writePaced k mo frm (n, s) = (Inr (), (n', s'))"
  with False have "snk_flush k (snk_write k frm s) = (None, s')"
    by (auto simp: writePaced_def Let_def split: if_splits prod.splits option.splits)
  from flush_ok [OF this] show ?thesis using write_law by auto
qed

lemma writeAll_written:
  "writeAll (writePaced k mo) fs (n, s) = (Inr (), (n', s')) \<Longrightarrow> snk_connected k s' \<Longrightarrow>
     (fs \<noteq> [] \<longrightarrow> snk_connected k s) \<and> written s' = written s @ concat fs"
proof (induction fs arbitrary: n s)
  case (Cons f fs)
  from Cons.prems(1) obtain n1 s1 where w: "writePaced k mo f (n, s) = (Inr (), (n1, s1))"
    and r: "writeAll (writePaced k mo) fs (n1, s1) = (Inr (), (n', s'))"
    by (auto elim!: andThen_InrE)
  from Cons.IH [OF r Cons.prems(2)] have "snk_connected k s1 \<and> written s' = written s1 @ concat fs"
    using r Cons.prems(2) by (cases fs) (auto simp: ret_def)
  with writePaced_written [OF w] show ?case by simp
qed (simp add: ret_def)

end

subsection \<open>The table the feed wants\<close>

definition feed_table :: "(Prefix, bytes) gomap \<Rightarrow> (Prefix, unit) gomap \<Rightarrow> (Prefix \<Rightarrow> bytes) \<Rightarrow> bytes \<Rightarrow> bytes option" where
  "feed_table A F ec =
     map_of (map (\<lambda>(p, a). (routeKey False p, [attrBlackhole, 0] @ a)) A @
             map (\<lambda>(p, _). (routeKey True p, [attrExtComm, of_nat (length (ec p))] @ ec p)) F)"

definition bird_table :: "EdgeDesiredState \<Rightarrow> bytes \<Rightarrow> bytes option" where
  "bird_table st = feed_table (desAnchors st) (desFlows st) (ecFor st)"

definition valid_keys :: "(Prefix, 'v) gomap \<Rightarrow> bool" where
  "valid_keys m \<longleftrightarrow> (\<forall>p \<in> set (gm_keys m). Prefix_IsValid p)"

lemma map_of_routes:
  assumes "valid_keys m" and "Prefix_IsValid q"
  shows "map_of (map (\<lambda>(p, a). (routeKey fl p, h p a)) m) (routeKey fl' q) =
    (if fl = fl' then map_option (h q) (gm_get m q) else None)"
  using assms(1)
proof (induction m)
  case (Cons x m)
  obtain p a where x: "x = (p, a)" by (cases x)
  with Cons.prems have "Prefix_IsValid p" "valid_keys m" by (auto simp: valid_keys_def)
  then show ?case
    using Cons.IH routeKey_inject [of q p fl' fl] assms(2) by (auto simp: x)
qed simp

lemma map_of_keyed:
  assumes "\<forall>p \<in> set ps. Prefix_IsValid p" and "Prefix_IsValid q"
  shows "map_of (map (\<lambda>p. (routeKey fl p, h p)) ps) (routeKey fl' q) = (if fl = fl' \<and> q \<in> set ps then Some (h q) else None)"
  using assms(1)
proof (induction ps)
  case (Cons p ps)
  then show ?case using routeKey_inject [of q p fl' fl] assms(2) by auto
qed simp

lemma table_anchor:
  "valid_keys A \<Longrightarrow> valid_keys F \<Longrightarrow> Prefix_IsValid q \<Longrightarrow>
     feed_table A F ec (routeKey False q) = map_option (\<lambda>a. [attrBlackhole, 0] @ a) (gm_get A q)"
  using map_of_routes [of A q False "\<lambda>_ a. [attrBlackhole, 0] @ a" False]
    map_of_routes [of F q True "\<lambda>p _. [attrExtComm, of_nat (length (ec p))] @ ec p" False]
  by (simp add: feed_table_def map_add_def split: option.splits)

lemma table_flow:
  "valid_keys A \<Longrightarrow> valid_keys F \<Longrightarrow> Prefix_IsValid q \<Longrightarrow>
     feed_table A F ec (routeKey True q) = map_option (\<lambda>_. [attrExtComm, of_nat (length (ec q))] @ ec q) (gm_get F q)"
  using map_of_routes [of A q False "\<lambda>_ a. [attrBlackhole, 0] @ a" True]
    map_of_routes [of F q True "\<lambda>p _. [attrExtComm, of_nat (length (ec p))] @ ec p" True]
  by (simp add: feed_table_def map_add_def split: option.splits)

lemma table_other:
  assumes "valid_keys A" and "valid_keys F" and "\<not> wireKey key"
  shows "feed_table A F ec key = None"
proof -
  have "key \<noteq> routeKey fl p" if "p \<in> set (gm_keys A) \<union> set (gm_keys F)" for fl p
    using that assms by (auto simp: wireKey_def valid_keys_def)
  then show ?thesis by (force simp: feed_table_def map_of_eq_None_iff)
qed

text \<open>Two tables are equal when they agree on the anchors and flows of valid prefixes.\<close>

lemma routes_eqI:
  assumes "\<And>p fl. Prefix_IsValid p \<Longrightarrow> r (routeKey fl p) = r' (routeKey fl p)"
    and "\<And>key. \<not> wireKey key \<Longrightarrow> r key = r' key"
  shows "r = (r' :: bytes \<Rightarrow> bytes option)"
proof
  fix key show "r key = r' key"
    using assms by (cases "wireKey key") (auto simp: wireKey_def)
qed

definition runEdits :: "(bytes \<times> bytes option) list \<Rightarrow> (bytes \<Rightarrow> bytes option) \<Rightarrow> bytes \<Rightarrow> bytes option" where
  "runEdits es r key = (case map_of (rev es) key of Some vo \<Rightarrow> vo | None \<Rightarrow> r key)"

lemma runEdits_cons: "runEdits es (r(key := vo)) = runEdits ((key, vo) # es) r"
  by (auto simp: runEdits_def fun_eq_iff map_add_def split: option.splits)

lemma runEdits_other: "key \<notin> fst ` set es \<Longrightarrow> runEdits es r key = r key"
  by (simp add: runEdits_def map_of_eq_None_iff [THEN iffD2])

subsection \<open>BIRD follows the feed\<close>

fun edit_ok :: "bytes \<times> bytes option \<Rightarrow> bool" where
  "edit_ok (key, Some attrs) = (wireKey key \<and> smallBody (key @ attrs))"
| "edit_ok (key, None) = (wireKey key \<and> smallBody key)"

definition framed :: "bytes list \<Rightarrow> bool" where
  "framed fs \<longleftrightarrow> (\<forall>f \<in> set fs. \<exists>op b. f = frame op b \<and> smallBody b)"

lemma framed_append [simp]: "framed (fs @ gs) \<longleftrightarrow> framed fs \<and> framed gs"
  by (auto simp: framed_def)

lemma framed_split: "framed fs \<Longrightarrow> splitFrames (concat fs) = fs"
  by (auto simp: framed_def intro!: splitFrames_concat)

lemma framed_hello [simp]: "framed [frameHello]" "framed [frameEOR]"
  by (auto simp: framed_def frameHello_def frameEOR_def smallBody_def intro!: exI [of _ "[] :: bytes"])

lemma framed_edits: "\<forall>e \<in> set es. edit_ok e \<Longrightarrow> framed (map editFrame es)"
proof (unfold framed_def, intro ballI)
  fix f assume "\<forall>e \<in> set es. edit_ok e" and "f \<in> set (map editFrame es)"
  then obtain key vo where "edit_ok (key, vo)" "f = editFrame (key, vo)" by auto
  then show "\<exists>op b. f = frame op b \<and> smallBody b" by (cases vo) auto
qed

context api_proto
begin

lemma routes_edits:
  "\<forall>e \<in> set es. edit_ok e \<Longrightarrow> routes (fold recv (map editFrame es) b) = runEdits es (routes b)"
proof (induction es arbitrary: b)
  case Nil
  then show ?case by (simp add: runEdits_def fun_eq_iff)
next
  case (Cons e es)
  obtain key vo where e: "e = (key, vo)" by (cases e)
  with Cons.prems have "routes (recv (editFrame e) b) = (routes b)(key := vo)"
    by (cases vo) (simp_all add: recv_add recv_del)
  with Cons show ?case by (simp add: e runEdits_cons)
qed

lemma stale_adds:
  "\<forall>e \<in> set es. edit_ok e \<and> snd e \<noteq> None \<Longrightarrow> stale (fold recv (map editFrame es) b) = stale b - fst ` set es"
proof (induction es arbitrary: b)
  case (Cons e es)
  obtain key v where e: "e = (key, Some v)" using Cons.prems by (cases e) auto
  with Cons.prems have "stale (recv (editFrame e) b) = stale b - {key}" by (simp add: recv_add)
  with Cons show ?case by (auto simp: e)
qed simp

text \<open>A resync replaces the table, whatever it was.\<close>

lemma resync_routes:
  assumes "\<forall>e \<in> set es. edit_ok e \<and> snd e \<noteq> None"
  shows "routes (fold recv ([frameHello] @ map editFrame es @ [frameEOR]) b) = runEdits es Map.empty"
proof -
  let ?b = "fold recv (map editFrame es) (recv frameHello b)"
  have "routes ?b = runEdits es (routes b)" and "stale ?b = dom (routes b) - fst ` set es"
    using assms routes_edits [of es "recv frameHello b"] stale_adds [of es "recv frameHello b"] by (auto simp: recv_hello)
  moreover have "runEdits es (routes b) key = runEdits es Map.empty key" if "key \<in> fst ` set es" for key
  proof -
    have "map_of (rev es) key \<noteq> None" using that by (simp add: map_of_eq_None_iff)
    then show ?thesis by (auto simp: runEdits_def)
  qed
  ultimately have "(routes ?b |` (- stale ?b)) key = runEdits es Map.empty key" for key
    by (cases "key \<in> fst ` set es") (auto simp: restrict_map_def runEdits_other)
  then show ?thesis by (simp add: recv_eor fun_eq_iff)
qed

end

subsection \<open>The edits of a pass\<close>

lemma anchorAttr_small: "gm_get (desAnchors st) p = Some attrs \<Longrightarrow> length attrs \<le> 508"
  using anchorAttrBytes_length by (auto simp: desAnchors_def dest!: gm_collect_SomeD)

lemma ecFor_small: "length (ecFor st p) \<le> 20"
  by (auto simp: ecFor_def I6_def IP4_def dest: As4_length split: option.splits)

definition feedable :: "EdgeDesiredState \<Rightarrow> bool" where
  "feedable st \<longleftrightarrow> (\<forall>a \<in> set (es_Anchors st). Prefix_IsValid (an_Prefix a)) \<and> (\<forall>r \<in> set (es_FlowRedirects st). Prefix_IsValid (fr_SrcPrefix r))"

lemma valid_des: "feedable st \<Longrightarrow> valid_keys (desAnchors st)" "feedable st \<Longrightarrow> valid_keys (desFlows st)"
  using gm_keys_dom [of "desAnchors st"] gm_keys_dom [of "desFlows st"]
  by (auto simp: valid_keys_def feedable_def desAnchors_def desFlows_def gm_collect_dom)

lemma adds_ok:
  assumes "\<forall>p \<in> set ps. Prefix_IsValid p \<and> gm_get (desAnchors st) p \<noteq> None"
  shows "\<forall>e \<in> set (anchorAdds (desAnchors st) ps). edit_ok e \<and> snd e \<noteq> None"
proof (unfold anchorAdds_def, clarsimp)
  fix p assume "p \<in> set ps"
  with assms have "Prefix_IsValid p" "length (the (gm_get (desAnchors st) p)) \<le> 508" using anchorAttr_small by force+
  then show "wireKey (routeKey False p) \<and> smallBody (routeKey False p @ attrBlackhole # 0 # the (gm_get (desAnchors st) p))"
    using small_anchor [of p "attrBlackhole # 0 # the (gm_get (desAnchors st) p)" False] by (auto simp: wireKey_def)
qed

lemma flowAdds_ok:
  assumes "\<forall>p \<in> set ps. Prefix_IsValid p"
  shows "\<forall>e \<in> set (flowAdds (ecFor st) ps). edit_ok e \<and> snd e \<noteq> None"
proof (unfold flowAdds_def, clarsimp)
  fix p assume "p \<in> set ps"
  with assms have "Prefix_IsValid p" by simp
  then show "wireKey (routeKey True p) \<and> smallBody (routeKey True p @ attrExtComm # of_nat (length (ecFor st p)) # ecFor st p)"
    using small_anchor [of p "attrExtComm # of_nat (length (ecFor st p)) # ecFor st p" True] ecFor_small [of st p]
    by (auto simp: wireKey_def)
qed

lemma dels_ok: "\<forall>p \<in> set ps. Prefix_IsValid p \<Longrightarrow> \<forall>e \<in> set (routeDels fl ps). edit_ok e"
  using small_anchor [of _ "[]" fl] by (auto simp: routeDels_def wireKey_def)

lemma runEdits_append: "runEdits (es @ fs) r = runEdits fs (runEdits es r)"
  by (auto simp: runEdits_def fun_eq_iff map_add_def split: option.splits)

lemma runEdits_anchorAdds:
  "\<forall>p \<in> set ps. Prefix_IsValid p \<Longrightarrow> Prefix_IsValid q \<Longrightarrow>
     runEdits (anchorAdds A ps) r (routeKey fl q) =
       (if \<not> fl \<and> q \<in> set ps then Some ([attrBlackhole, 0] @ the (gm_get A q)) else r (routeKey fl q))"
  using map_of_keyed [of "rev ps" q False "\<lambda>p. Some ([attrBlackhole, 0] @ the (gm_get A p))" fl]
  by (simp add: runEdits_def anchorAdds_def rev_map)

lemma runEdits_flowAdds:
  "\<forall>p \<in> set ps. Prefix_IsValid p \<Longrightarrow> Prefix_IsValid q \<Longrightarrow>
     runEdits (flowAdds ec ps) r (routeKey fl q) =
       (if fl \<and> q \<in> set ps then Some ([attrExtComm, of_nat (length (ec q))] @ ec q) else r (routeKey fl q))"
  using map_of_keyed [of "rev ps" q True "\<lambda>p. Some ([attrExtComm, of_nat (length (ec p))] @ ec p)" fl]
  by (simp add: runEdits_def flowAdds_def rev_map)

lemma runEdits_routeDels:
  "\<forall>p \<in> set ps. Prefix_IsValid p \<Longrightarrow> Prefix_IsValid q \<Longrightarrow>
     runEdits (routeDels fl' ps) r (routeKey fl q) = (if fl = fl' \<and> q \<in> set ps then None else r (routeKey fl q))"
  using map_of_keyed [of "rev ps" q fl' "\<lambda>p. None :: bytes option" fl]
  by (cases fl; cases fl') (simp_all add: runEdits_def routeDels_def rev_map)

lemmas runEdits_rules = runEdits_append runEdits_anchorAdds runEdits_flowAdds runEdits_routeDels

lemma edit_keys:
  "\<forall>p \<in> set ps. Prefix_IsValid p \<Longrightarrow> \<forall>key \<in> fst ` set (anchorAdds A ps). wireKey key"
  "\<forall>p \<in> set ps. Prefix_IsValid p \<Longrightarrow> \<forall>key \<in> fst ` set (flowAdds ec ps). wireKey key"
  "\<forall>p \<in> set ps. Prefix_IsValid p \<Longrightarrow> \<forall>key \<in> fst ` set (routeDels fl ps). wireKey key"
  by (auto simp: anchorAdds_def flowAdds_def routeDels_def wireKey_def)

lemma runEdits_unwired: "\<forall>e \<in> set es. edit_ok e \<Longrightarrow> \<not> wireKey key \<Longrightarrow> runEdits es r key = r key"
proof (rule runEdits_other, rule notI)
  assume "\<forall>e \<in> set es. edit_ok e" and "\<not> wireKey key" and "key \<in> fst ` set es"
  then obtain vo where "edit_ok (key, vo)" by auto
  with \<open>\<not> wireKey key\<close> show False by (cases vo) auto
qed

lemma ordered_keys: "range_order ord \<Longrightarrow> set (ord (gm_keys m)) = dom (gm_get m)"
  by (metis range_order.ord_set gm_keys_dom)

lemma ordered_valid: "range_order ord \<Longrightarrow> valid_keys m \<Longrightarrow> \<forall>p \<in> set (ord (gm_keys m)). Prefix_IsValid p"
  by (simp add: range_order.ord_set valid_keys_def)

lemma resyncEdits_ok:
  assumes "feed_env_ok env" and "feedable st"
  shows "\<forall>e \<in> set (resyncEdits env (desAnchors st) (desFlows st) (ecFor st)). edit_ok e \<and> snd e \<noteq> None"
  using adds_ok [of "filter (\<lambda>p. gm_get (desAnchors st) p \<noteq> None) (fe_ordA env (gm_keys (desAnchors st)))" st]
    flowAdds_ok [of "fe_ordF env (gm_keys (desFlows st))" st] ordered_valid [of "fe_ordA env" "desAnchors st"]
    ordered_valid [of "fe_ordF env" "desFlows st"] valid_des [OF assms(2)] assms(1)
  by (auto simp: resyncEdits_def feed_env_ok_def)

lemma deltaEdits_ok:
  assumes "feed_env_ok env" and "feedable st" and "valid_keys (fd_anchors f)" and "valid_keys (fd_flows f)"
  shows "\<forall>e \<in> set (deltaEdits env f (desAnchors st) (desFlows st) (ecFor st)). edit_ok e"
proof -
  have o: "range_order (fe_ordA env)" "range_order (fe_ordOldA env)" "range_order (fe_ordF env)" "range_order (fe_ordOldF env)"
    using assms(1) by (auto simp: feed_env_ok_def)
  note v = ordered_valid [OF o(1) valid_des(1) [OF assms(2)]] ordered_valid [OF o(2) assms(3)]
    ordered_valid [OF o(3) valid_des(2) [OF assms(2)]] ordered_valid [OF o(4) assms(4)]
  let ?A = "filter (\<lambda>p. gm_get (desAnchors st) p \<noteq> None \<and> gm_get (fd_anchors f) p \<noteq> gm_get (desAnchors st) p)
      (fe_ordA env (gm_keys (desAnchors st)))"
  have "\<forall>p \<in> set ?A. Prefix_IsValid p \<and> gm_get (desAnchors st) p \<noteq> None" using v(1) by auto
  from adds_ok [OF this] show ?thesis
    using v flowAdds_ok [of "filter (\<lambda>p. gm_get (fd_flows f) p = None) (fe_ordF env (gm_keys (desFlows st)))" st]
      dels_ok [of "filter (\<lambda>p. gm_get (desAnchors st) p = None) (fe_ordOldA env (gm_keys (fd_anchors f)))" False]
      dels_ok [of "filter (\<lambda>p. gm_get (desFlows st) p = None) (fe_ordOldF env (gm_keys (fd_flows f)))" True]
    unfolding deltaEdits_def set_append by auto
qed

lemma resyncEdits_table:
  assumes "feed_env_ok env" and "feedable st"
  shows "runEdits (resyncEdits env (desAnchors st) (desFlows st) (ecFor st)) Map.empty = bird_table st"
proof (rule routes_eqI)
  note va = valid_des(1) [OF assms(2)] and vf = valid_des(2) [OF assms(2)]
  have o: "range_order (fe_ordA env)" "range_order (fe_ordF env)" using assms(1) by (auto simp: feed_env_ok_def)
  fix p fl assume p: "Prefix_IsValid p"
  show "runEdits (resyncEdits env (desAnchors st) (desFlows st) (ecFor st)) Map.empty (routeKey fl p) = bird_table st (routeKey fl p)"
    using ordered_valid [OF o(1) va] ordered_valid [OF o(2) vf] p
    by (cases fl) (auto simp: resyncEdits_def runEdits_rules ordered_keys [OF o(1)] ordered_keys [OF o(2)] bird_table_def table_anchor [OF va vf p] table_flow [OF va vf p]
        split: option.splits)
next
  fix key assume "\<not> wireKey key"
  then show "runEdits (resyncEdits env (desAnchors st) (desFlows st) (ecFor st)) Map.empty key = bird_table st key"
    using resyncEdits_ok [OF assms] table_other [OF valid_des [OF assms(2)]] by (simp add: runEdits_unwired bird_table_def)
qed

lemma deltaEdits_table:
  assumes "feed_env_ok env" and "feedable st" and old: "valid_keys (fd_anchors f)" "valid_keys (fd_flows f)"
    and "\<And>p. gm_get (desFlows st) p \<noteq> None \<Longrightarrow> ecFor st p = ec p"
  shows "runEdits (deltaEdits env f (desAnchors st) (desFlows st) (ecFor st)) (feed_table (fd_anchors f) (fd_flows f) ec) = bird_table st"
proof (rule routes_eqI)
  note va = valid_des(1) [OF assms(2)] and vf = valid_des(2) [OF assms(2)]
  have o: "range_order (fe_ordA env)" "range_order (fe_ordOldA env)" "range_order (fe_ordF env)" "range_order (fe_ordOldF env)"
    using assms(1) by (auto simp: feed_env_ok_def)
  note v = ordered_valid [OF o(1) va] ordered_valid [OF o(2) old(1)] ordered_valid [OF o(3) vf] ordered_valid [OF o(4) old(2)]
  note ks = ordered_keys [OF o(1)] ordered_keys [OF o(2)] ordered_keys [OF o(3)] ordered_keys [OF o(4)]
  fix p fl assume p: "Prefix_IsValid p"
  show "runEdits (deltaEdits env f (desAnchors st) (desFlows st) (ecFor st)) (feed_table (fd_anchors f) (fd_flows f) ec) (routeKey fl p) =
      bird_table st (routeKey fl p)"
  proof (cases fl)
    case True
    then show ?thesis
      using v p assms(5) [of p]
      by (cases "gm_get (desFlows st) p"; cases "gm_get (fd_flows f) p") (auto simp: deltaEdits_def runEdits_rules ks bird_table_def table_flow [OF va vf p] table_flow [OF old p] split: option.splits)
  next
    case False
    then show ?thesis
      using v p
      by (auto simp: deltaEdits_def runEdits_rules ks bird_table_def table_anchor [OF va vf p] table_anchor [OF old p] split: option.splits)
  qed
next
  fix key assume "\<not> wireKey key"
  then show "runEdits (deltaEdits env f (desAnchors st) (desFlows st) (ecFor st)) (feed_table (fd_anchors f) (fd_flows f) ec) key = bird_table st key"
    using deltaEdits_ok [OF assms(1,2) old] table_other [OF valid_des [OF assms(2)]] table_other [OF old]
    by (simp add: runEdits_unwired bird_table_def)
qed

subsection \<open>The invariant of the feed\<close>

definition ecOf :: "Addr \<Rightarrow> Addr \<Rightarrow> Prefix \<Rightarrow> bytes" where
  "ecOf nh nh6 p = (if Is6 (pfx_Addr p) then I6 nh6 else (case IP4 nh of Some ec \<Rightarrow> ec | None \<Rightarrow> replicate 8 0))"

lemma ecFor_eq: "gm_get (desFlows st) p \<noteq> None \<Longrightarrow> ecFor st p = ecOf (es_RedirectNextHop st) (es_RedirectNextHopV6 st) p"
proof -
  assume "gm_get (desFlows st) p \<noteq> None"
  then have "p \<in> fr_SrcPrefix ` set (es_FlowRedirects st)"
    using gm_collect_dom [of fr_SrcPrefix "\<lambda>_. ()" "es_FlowRedirects st"] by (auto simp: desFlows_def dom_def)
  then show ?thesis by (auto simp: ecFor_def ecOf_def haveV4_def haveV6_def list_ex_iff)
qed

lemma feed_table_cong: "(\<And>p. gm_get F p \<noteq> None \<Longrightarrow> ec p = ec' p) \<Longrightarrow> feed_table A F ec = feed_table A F ec'"
proof -
  assume eq: "\<And>p. gm_get F p \<noteq> None \<Longrightarrow> ec p = ec' p"
  have same: "ec p = ec' p" if "(p, u) \<in> set F" for p u
    using that by (intro eq) (auto dest: weak_map_of_SomeI)
  have "map (\<lambda>(p, _). (routeKey True p, [attrExtComm, of_nat (length (ec p))] @ ec p)) F =
      map (\<lambda>(p, _). (routeKey True p, [attrExtComm, of_nat (length (ec' p))] @ ec' p)) F"
    by (rule map_cong [OF refl]) (auto simp: same)
  then show ?thesis by (simp only: feed_table_def)
qed

definition fed_table :: "Feed \<Rightarrow> bytes \<Rightarrow> bytes option" where
  "fed_table f = feed_table (fd_anchors f) (fd_flows f) (ecOf (fd_nextHop f) (fd_nextHop6 f))"

fun event_ok :: "feed_event \<Rightarrow> bool" where
  "event_ok (FTick env st) = (feed_env_ok env \<and> (\<forall>x. st = Some x \<longrightarrow> feedable x))"
| "event_ok (FWake env st) = (feed_env_ok env \<and> (\<forall>x. st = Some x \<longrightarrow> feedable x))"
| "event_ok _ = True"

locale bird_feed = feed_sink k written delivered peerClose + api_proto recv routes stale
  for k :: "'s sink" and written delivered peerClose
    and recv :: "bytes \<Rightarrow> 'b \<Rightarrow> 'b" and routes stale
begin

definition feed_inv :: "Feed \<times> 's \<Rightarrow> bool" where
  "feed_inv fs \<longleftrightarrow>
     valid_keys (fd_anchors (fst fs)) \<and> valid_keys (fd_flows (fst fs)) \<and>
     (snk_connected k (snd fs) \<longrightarrow>
        (\<exists>sent. framed sent \<and> written (snd fs) = concat sent \<and>
           (\<not> fd_resync (fst fs) \<longrightarrow> (\<forall>b. routes (fold recv sent b) = fed_table (fst fs)))))"

lemma feed_inv_down: "valid_keys (fd_anchors f) \<Longrightarrow> valid_keys (fd_flows f) \<Longrightarrow> \<not> snk_connected k s \<Longrightarrow> feed_inv (f, s)"
  by (simp add: feed_inv_def)

lemma backoff_keeps:
  "backoffReconnect now f = (d, f') \<Longrightarrow> fd_anchors f' = fd_anchors f \<and> fd_flows f' = fd_flows f \<and> fd_nextHop f' = fd_nextHop f \<and>
     fd_nextHop6 f' = fd_nextHop6 f \<and> fd_resync f' = fd_resync f \<and> fd_maxOps f' = fd_maxOps f"
  by (auto simp: backoffReconnect_def Let_def split: if_splits)

lemma ensureConnected_inv:
  assumes "feed_inv fs" and "ensureConnected k now fs = (res, fs')"
  shows "feed_inv fs'"
proof (cases "snk_connected k (snd fs)")
  case False
  obtain f s where fs: "fs = (f, s)" by (cases fs)
  obtain r s1 where c: "snk_connect k s = (r, s1)" by (cases "snk_connect k s")
  show ?thesis
  proof (cases r)
    case None
    have fs': "fs' = (snd (backoffReconnect now (f\<lparr>fd_resync := True\<rparr>)), s1)"
      using assms(2) False c None by (auto simp: ensureConnected_def fs)
    obtain d f' where b: "backoffReconnect now (f\<lparr>fd_resync := True\<rparr>) = (d, f')" by (cases "backoffReconnect now (f\<lparr>fd_resync := True\<rparr>)")
    have "written s1 = concat []" using connect_ok [of s s1] c None by simp
    moreover have "framed []" by (simp add: framed_def)
    ultimately show ?thesis using backoff_keeps [OF b] assms(1) unfolding feed_inv_def fs fs' b by force
  next
    case (Some e)
    then have "fs' = (f, s1)" using assms(2) False c by (auto simp: ensureConnected_def fs)
    then show ?thesis using connect_err [of s e s1] assms(1) False c Some by (auto simp: feed_inv_def fs)
  qed
qed (use assms in \<open>auto simp: ensureConnected_def split: prod.splits\<close>)

lemma stream_sent:
  assumes "feed_inv (f, s)" and "framed fs" and "writeAll (writePaced k mo) fs (0, s) = (Inr (), (n, s1))" and "snk_flush k s1 = (None, s2)"
  shows "\<exists>sent. framed (sent @ fs) \<and> written s2 = concat (sent @ fs) \<and> delivered s2 = concat (sent @ fs) \<and> snk_connected k s2 \<and>
    (\<not> fd_resync f \<longrightarrow> (\<forall>b. routes (fold recv sent b) = fed_table f))"
proof -
  note fl = flush_ok [OF assms(4)]
  have "snk_connected k s \<and> written s1 = written s @ concat fs"
    using writeAll_written [OF assms(3)] fl assms(3) by (cases fs) (auto simp: ret_def)
  moreover obtain sent where "framed sent" "written s = concat sent" "\<not> fd_resync f \<longrightarrow> (\<forall>b. routes (fold recv sent b) = fed_table f)"
    using assms(1) calculation by (auto simp: feed_inv_def)
  ultimately show ?thesis using fl assms(2) by (intro exI [of _ sent]) auto
qed

lemma bird_table_fed:
  "fd_anchors f = desAnchors st \<Longrightarrow> fd_flows f = desFlows st \<Longrightarrow> fd_nextHop f = es_RedirectNextHop st \<Longrightarrow>
     fd_nextHop6 f = es_RedirectNextHopV6 st \<Longrightarrow> fed_table f = bird_table st"
  unfolding fed_table_def bird_table_def by (simp, rule feed_table_cong) (simp add: ecFor_eq)

text \<open>Either stream brings any table BIRD may have had to the desired one.\<close>

lemma stream_table:
  assumes "feed_env_ok env" and "feedable st" and "valid_keys (fd_anchors f)" and "valid_keys (fd_flows f)"
    and "\<not> fd_resync f \<longrightarrow> (\<forall>b. routes (fold recv sent b) = fed_table f)"
    and "full = (fd_resync f \<or> es_RedirectNextHop st \<noteq> fd_nextHop f \<or> es_RedirectNextHopV6 st \<noteq> fd_nextHop6 f)"
    and "fs = (if full then [frameHello] @ map editFrame (resyncEdits env (desAnchors st) (desFlows st) (ecFor st)) @ [frameEOR]
      else map editFrame (deltaEdits env f (desAnchors st) (desFlows st) (ecFor st)))"
  shows "framed fs \<and> routes (fold recv (sent @ fs) b) = bird_table st"
proof (cases full)
  case True
  note ok = resyncEdits_ok [OF assms(1,2)]
  have fs: "fs = [frameHello] @ map editFrame (resyncEdits env (desAnchors st) (desFlows st) (ecFor st)) @ [frameEOR]"
    using True assms(7) by simp
  have "framed fs" unfolding fs using ok by (simp only: framed_append framed_hello) (auto intro!: framed_edits)
  moreover have "routes (fold recv fs (fold recv sent b)) = bird_table st"
    unfolding fs using resync_routes [OF ok] resyncEdits_table [OF assms(1,2)] by metis
  ultimately show ?thesis by simp
next
  case False
  note ok = deltaEdits_ok [OF assms(1-4)]
  have fs: "fs = map editFrame (deltaEdits env f (desAnchors st) (desFlows st) (ecFor st))" using False assms(7) by simp
  have same: "fd_nextHop f = es_RedirectNextHop st" "fd_nextHop6 f = es_RedirectNextHopV6 st" "routes (fold recv sent b) = fed_table f"
    using False assms(5,6) by auto
  have "runEdits (deltaEdits env f (desAnchors st) (desFlows st) (ecFor st)) (fed_table f) = bird_table st"
    unfolding fed_table_def using same by (intro deltaEdits_table assms(1-4)) (simp add: ecFor_eq)
  then have "routes (fold recv fs (fold recv sent b)) = bird_table st"
    unfolding fs using routes_edits [OF ok] same(3) by simp
  then show ?thesis using framed_edits [OF ok] by (simp add: fs)
qed

lemma apply_inv:
  assumes "feed_inv fs" and "feed_env_ok env" and "feedable st" and "feed_apply k env st fs = (res, fs')"
  shows "feed_inv fs' \<and> (res = None \<longrightarrow> (\<forall>b. routes (fold recv (splitFrames (delivered (snd fs'))) b) = bird_table st))"
proof -
  obtain r f s where e: "ensureConnected k (fe_now env) fs = (r, (f, s))" by (cases "ensureConnected k (fe_now env) fs") auto
  note inv = ensureConnected_inv [OF assms(1) e]
  then have vk: "valid_keys (fd_anchors f)" "valid_keys (fd_flows f)" by (auto simp: feed_inv_def)
  define full where "full = (fd_resync f \<or> es_RedirectNextHop st \<noteq> fd_nextHop f \<or> es_RedirectNextHopV6 st \<noteq> fd_nextHop6 f)"
  define gs where "gs = (if full then [frameHello] @ map editFrame (resyncEdits env (desAnchors st) (desFlows st) (ecFor st)) @ [frameEOR]
      else map editFrame (deltaEdits env f (desAnchors st) (desFlows st) (ecFor st)))"
  obtain w n s1 where w: "writeAll (writePaced k (fd_maxOps f)) gs (0, s) = (w, (n, s1))"
    by (cases "writeAll (writePaced k (fd_maxOps f)) gs (0, s)") auto
  obtain fl s2 where fl: "snk_flush k s1 = (fl, s2)" by (cases "snk_flush k s1")
  have down: "feed_inv (f\<lparr>fd_resync := True\<rparr>, snk_close k s')" for s' using vk close_law by (simp add: feed_inv_def)
  have step: "feed_apply k env st fs =
      (if \<exists>x. r = Inl x then (Some (projl r), (f, s))
       else if \<not> nextHopsOk st then (Some ErrNoNextHop, (f, s))
       else (case w of
          Inl x \<Rightarrow> (Some x, (f\<lparr>fd_resync := True\<rparr>, snk_close k s1))
        | Inr _ \<Rightarrow> (case fl of
            Some x \<Rightarrow> (Some x, (f\<lparr>fd_resync := True\<rparr>, snk_close k s2))
          | None \<Rightarrow> (None, (f\<lparr>fd_resync := (if full then False else fd_resync f), fd_anchors := desAnchors st, fd_flows := desFlows st,
               fd_nextHop := es_RedirectNextHop st, fd_nextHop6 := es_RedirectNextHopV6 st\<rparr>, s2)))))"
    using e w fl unfolding gs_def full_def
    by (auto simp: feed_apply_def fullResync_frames incremental_frames Let_def split: sum.splits if_splits option.splits)
  show ?thesis
  proof (cases "(\<exists>x. r = Inl x) \<or> \<not> nextHopsOk st \<or> (\<exists>x. w = Inl x) \<or> fl \<noteq> None")
    case True
    then show ?thesis using assms(4) inv down by (auto simp: step split: if_splits sum.splits option.splits)
  next
    case False
    then have ok: "r = Inr ()" "w = Inr ()" "fl = None" "nextHopsOk st" by (cases r; cases w; auto)+
    define f' where "f' = f\<lparr>fd_resync := (if full then False else fd_resync f), fd_anchors := desAnchors st, fd_flows := desFlows st,
               fd_nextHop := es_RedirectNextHop st, fd_nextHop6 := es_RedirectNextHopV6 st\<rparr>"
    have fs': "res = None" "fs' = (f', s2)" using assms(4) ok by (auto simp: step f'_def)
    note tab = stream_table [OF assms(2,3) vk _ full_def gs_def]
    have "framed gs" using tab [of "[]"] inv resyncEdits_ok [OF assms(2,3)] deltaEdits_ok [OF assms(2,3) vk]
      unfolding gs_def by (cases full) (simp_all only: if_True if_False framed_append framed_hello, auto intro!: framed_edits)
    from stream_sent [OF inv this, of "fd_maxOps f" n s1 s2] w fl ok obtain sent
      where sent: "framed (sent @ gs)" "written s2 = concat (sent @ gs)" "delivered s2 = concat (sent @ gs)" "snk_connected k s2"
        and old: "\<not> fd_resync f \<longrightarrow> (\<forall>b. routes (fold recv sent b) = fed_table f)" by auto
    have new: "routes (fold recv (sent @ gs) b) = bird_table st" for b using tab [OF old] by blast
    have "fed_table f' = bird_table st" by (rule bird_table_fed) (simp_all add: f'_def)
    moreover have "valid_keys (fd_anchors f')" "valid_keys (fd_flows f')" using valid_des [OF assms(3)] by (simp_all add: f'_def)
    ultimately have "feed_inv (f', s2)" using sent new unfolding feed_inv_def fst_conv snd_conv
      by (intro conjI impI exI [of _ "sent @ gs"] allI; simp only:)
    moreover have "splitFrames (delivered s2) = sent @ gs" using framed_split [OF sent(1)] sent(3) by simp
    ultimately show ?thesis using new by (simp add: fs')
  qed
qed

lemma pass_inv: "feed_inv fs \<Longrightarrow> feed_env_ok env \<Longrightarrow> (\<And>st. provided = Some st \<Longrightarrow> feedable st) \<Longrightarrow> feed_inv (pass k env provided fs)"
proof (cases provided)
  case (Some st)
  assume "feed_inv fs" and "feed_env_ok env" and "\<And>st. provided = Some st \<Longrightarrow> feedable st"
  with Some apply_inv [of fs env st] show ?thesis
    by (cases "feed_apply k env st fs") (auto simp: pass_def feed_inv_def fed_table_def split: option.splits)
qed (simp add: pass_def)

lemma step_inv: "feed_inv fs \<Longrightarrow> event_ok ev \<Longrightarrow> feed_inv (feed_step k peerClose ev fs)"
proof (cases ev)
  case (FWake env st)
  assume "feed_inv fs" and "event_ok ev"
  moreover have "feed_inv (f\<lparr>fd_wake := False\<rparr>, s) = feed_inv (f, s)" for f s by (simp add: feed_inv_def fed_table_def)
  ultimately show ?thesis using FWake pass_inv by (cases fs) auto
next
  case FPeerClose
  assume "feed_inv fs"
  then show ?thesis using FPeerClose peerClose_law by (cases fs) (auto simp: feed_inv_def Feed_Wake_def)
next
  case (FTick env st)
  assume "feed_inv fs" and "event_ok ev"
  then show ?thesis using FTick pass_inv by simp
next
  case FTimer
  assume "feed_inv fs"
  then show ?thesis using FTimer by (cases fs) (auto simp: feed_inv_def fed_table_def Feed_Wake_def split: list.splits)
next
  case FWakeCall
  assume "feed_inv fs"
  then show ?thesis using FWakeCall by (cases fs) (simp add: feed_inv_def fed_table_def Feed_Wake_def)
qed

lemma run_inv: "feed_inv fs \<Longrightarrow> \<forall>ev \<in> set es. event_ok ev \<Longrightarrow> feed_inv (feed_run k peerClose es fs)"
proof (induction es arbitrary: fs)
  case (Cons ev es)
  then have "feed_inv (feed_step k peerClose ev fs)" using step_inv by simp
  from Cons.IH [OF this] Cons.prems(2) show ?case by (simp add: feed_run_def)
qed (simp add: feed_run_def)

lemma new_inv: "\<not> snk_connected k s \<Longrightarrow> feed_inv (NewFeed mo, s)"
  by (simp add: feed_inv_def NewFeed_def valid_keys_def)

end

lemma feed_apply_table:
  assumes "api_proto recv routes stale" and "\<forall>ev \<in> set es. event_ok ev"
    and "feed_env_ok env" and "feedable st"
    and "feed_apply (client_sink net) env st (feed_run (client_sink net) peerClose es (NewFeed mo, NewClient)) = (None, (f, c))"
  shows "routes (fold recv (splitFrames (bc_sent c)) b) = bird_table st"
proof -
  have bf: "bird_feed (client_sink net) bc_written bc_sent peerClose recv routes stale"
    by (rule bird_feed.intro [OF client.feed_sink_axioms assms(1)])
  have "\<not> snk_connected (client_sink net) NewClient" by (simp add: client_sink_def Client_connected_def NewClient_def)
  from bird_feed.run_inv [OF bf bird_feed.new_inv [OF bf this] assms(2)]
  show ?thesis using bird_feed.apply_inv [OF bf _ assms(3-5)] by simp
qed

text \<open>C4: the feed drives BIRD to the desired routes. Take any history of passes, retries, wake-ups, socket failures
  (failed dials, failed and partial writes, the peer closing at any operation) since the agent's start, with
  any pacing, and any contents of BIRD's table when it accepted the current connection. If the pass for a
  desired state reports success, then the bytes accepted by the socket have brought BIRD's table to exactly
  the desired anchors with their communities and the desired FlowSpec redirects with their next hop:
  nothing is missing, outdated or left over, whether the pass was a resync or a difference.\<close>

theorem feed_converges:
  assumes "api_proto recv routes stale" and "\<forall>ev \<in> set es. event_ok ev"
    and "feed_env_ok env" and "feedable st"
    and "feed_apply (client_sink net) env st (feed_run (client_sink net) peerClose es (NewFeed mo, NewClient)) = (None, (f, c))"
  shows "routes (fold recv (splitFrames (bc_sent c)) b) = bird_table st"
  using assms by (rule feed_apply_table)

subsection \<open>A reference receiver\<close>

text \<open>A table by wire key with a list of stale keys; the key is cut off the body by the length of its family.\<close>

definition refKey :: "bytes \<Rightarrow> bytes" where
  "refKey body = take (2 + keyLen (hd body)) body"

definition ref_recv :: "bytes \<Rightarrow> (bytes, bytes) gomap \<times> bytes list \<Rightarrow> (bytes, bytes) gomap \<times> bytes list" where
  "ref_recv frm t =
     (case t of (tab, old) \<Rightarrow>
        (let op = frm ! 1; body = drop 8 frm; key = refKey body
         in if op = opHello then (tab, gm_keys tab)
            else if op = opEOR then (filter (\<lambda>(q, _). q \<notin> set old) tab, [])
            else if op = opAdd then (gm_put key (drop (length key) body) tab, filter (\<lambda>q. q \<noteq> key) old)
            else if op = opDel then (gm_del key tab, filter (\<lambda>q. q \<noteq> key) old)
            else (tab, old)))"

definition ref_routes :: "(bytes, bytes) gomap \<times> bytes list \<Rightarrow> bytes \<Rightarrow> bytes option" where
  "ref_routes t = gm_get (fst t)"

definition ref_stale :: "(bytes, bytes) gomap \<times> bytes list \<Rightarrow> bytes set" where
  "ref_stale t = set (snd t)"

lemma refKey_cut: "wireKey key \<Longrightarrow> refKey (key @ rest) = key"
proof -
  assume "wireKey key"
  then obtain fl p where p: "Prefix_IsValid p" and key: "key = routeKey fl p" by (auto simp: wireKey_def)
  then have "length (addrBytes (pfx_Addr p)) = keyLen (netOf fl p)"
    by (cases p; cases "pfx_Addr p") (auto simp: addrBytes_def keyLen_def netOf_def wire_consts)
  then show ?thesis by (simp add: refKey_def key routeKey_def)
qed

lemma map_of_filter_keys: "map_of (filter (\<lambda>(q, _). q \<notin> S) m) = map_of m |` (- S)"
  by (induction m) (auto simp: restrict_map_def fun_eq_iff)

interpretation ref_proto: api_proto ref_recv ref_routes ref_stale
proof unfold_locales
  fix b :: "(bytes, bytes) gomap \<times> bytes list" and key attrs
  obtain tab old where b: "b = (tab, old)" by (cases b)
  show "ref_routes (ref_recv frameHello b) = ref_routes b" "ref_stale (ref_recv frameHello b) = dom (ref_routes b)"
    using gm_keys_dom [of tab] by (simp_all add: b ref_recv_def ref_routes_def ref_stale_def frameHello_def Let_def)
  show "ref_routes (ref_recv frameEOR b) = ref_routes b |` (- ref_stale b)"
    by (simp add: b ref_recv_def ref_routes_def ref_stale_def frameEOR_def map_of_filter_keys Let_def)
  assume "wireKey key"
  then show "ref_routes (ref_recv (frame opDel key) b) = (ref_routes b)(key := None)"
    using refKey_cut [of key "[]"] by (simp add: b ref_recv_def ref_routes_def gm_simps Let_def)
  show "ref_routes (ref_recv (frame opAdd (key @ attrs)) b) = (ref_routes b)(key \<mapsto> attrs)"
    "ref_stale (ref_recv (frame opAdd (key @ attrs)) b) = ref_stale b - {key}"
    using refKey_cut [OF \<open>wireKey key\<close>, of attrs] by (auto simp: b ref_recv_def ref_routes_def ref_stale_def gm_simps Let_def)
qed

interpretation ref_feed: bird_feed "client_sink net" bc_written bc_sent peerClose ref_recv ref_routes ref_stale
  by unfold_locales

text \<open>An instance: the first pass finds no socket, the second one connects and resyncs.\<close>

definition ex_net :: net where
  "ex_net = \<lparr>nt_dial = (\<lambda>i. if i = 0 then Some ErrIO else None), nt_write = (\<lambda>_. None), nt_peer = (\<lambda>_. False)\<rparr>"

definition ex_env :: feed_env where
  "ex_env = \<lparr>fe_ordA = rev, fe_ordOldA = rev, fe_ordF = rev, fe_ordOldF = rev, fe_now = 1000\<rparr>"

definition ex_feed_state :: EdgeDesiredState where
  "ex_feed_state = EdgeDesiredState_zero\<lparr>
     es_Anchors := [\<lparr>an_Prefix = Prefix (IPv4 7) 32, an_Communities = [\<lparr>com_ASN = 65000, com_Value = 666\<rparr>], an_LargeCommunities = []\<rparr>],
     es_FlowRedirects := [\<lparr>fr_SrcPrefix = Prefix (IPv4 9) 32\<rparr>], es_RedirectNextHop := IPv4 5\<rparr>"

lemma ex_env_ok: "feed_env_ok ex_env"
  by (simp add: feed_env_ok_def ex_env_def range_rev.range_order_axioms)

lemma ex_feedable: "feedable ex_feed_state"
  by (simp add: feedable_def ex_feed_state_def EdgeDesiredState_zero_def)

subsection \<open>On a working socket a pass succeeds\<close>

definition healthy_from :: "net \<Rightarrow> Client \<Rightarrow> bool" where
  "healthy_from net c \<longleftrightarrow> (\<forall>i \<ge> bc_sys c. nt_write net i = None) \<and> (\<forall>i \<ge> bc_ops c. \<not> nt_peer net i) \<and>
     (\<forall>i \<ge> bc_dials c. nt_dial net i = None) \<and> \<not> bc_err c"

lemma sysWrite_healthy:
  assumes "healthy_from net c"
  shows "sysWrite net bs c = (None, c\<lparr>bc_sent := bc_sent c @ bs, bc_sys := Suc (bc_sys c)\<rparr>)"
  using assms by (simp add: sysWrite_def healthy_from_def)

lemma bufFlush_healthy:
  "healthy_from net c \<Longrightarrow> fst (bufFlush net c) \<and> healthy_from net (snd (bufFlush net c)) \<and> bc_conn (snd (bufFlush net c)) = bc_conn c"
  by (auto simp: bufFlush_def sysWrite_healthy healthy_from_def)

lemma bufFill_healthy:
  assumes "healthy_from net c"
  shows "healthy_from net (snd (bufFill net p c)) \<and> bc_conn (snd (bufFill net p c)) = bc_conn c"
proof (cases "bc_buf c = []")
  case True
  with assms show ?thesis by (auto simp: bufFill_def sysWrite_healthy healthy_from_def)
next
  case False
  let ?c = "c\<lparr>bc_buf := bc_buf c @ take (bufSize - length (bc_buf c)) p\<rparr>"
  have "healthy_from net ?c" using assms by (simp add: healthy_from_def)
  from bufFlush_healthy [OF this] False show ?thesis by (simp add: bufFill_def Let_def)
qed

lemma bufWrite_healthy:
  "healthy_from net c \<Longrightarrow> fst (bufWrite net p c) \<and> healthy_from net (snd (bufWrite net p c)) \<and> bc_conn (snd (bufWrite net p c)) = bc_conn c"
proof (induction net p c rule: bufWrite.induct)
  case (1 net p c)
  have ne: "\<not> bc_err c" using "1.prems" by (simp add: healthy_from_def)
  obtain p' c' where f: "bufFill net p c = (p', c')" by (cases "bufFill net p c")
  show ?case
  proof (cases "bufSize - length (bc_buf c) < length p")
    case True
    then have "bufWrite net p c = bufWrite net p' c'" using ne f by (subst bufWrite.simps) simp
    then show ?thesis using "1.IH" [of p' c'] True ne f bufFill_healthy [OF "1.prems", of p] by simp
  next
    case False
    then have "bufWrite net p c = (True, c\<lparr>bc_buf := bc_buf c @ p\<rparr>)" using ne by (subst bufWrite.simps) simp
    then show ?thesis using "1.prems" by (simp add: healthy_from_def)
  qed
qed

lemma watched_healthy: "healthy_from net c \<Longrightarrow> healthy_from net (watched net c) \<and> bc_conn (watched net c) = bc_conn c"
  by (simp add: watched_def healthy_from_def)

definition live :: "net \<Rightarrow> Client \<Rightarrow> bool" where
  "live net c \<longleftrightarrow> healthy_from net c \<and> bc_conn c \<noteq> None"

lemma live_write: "live net c \<Longrightarrow> live net (snk_write (client_sink net) frm c)"
  using bufWrite_healthy [of net "watched net c" frm] watched_healthy [of net c]
  by (cases "bufWrite net frm (watched net c)") (auto simp: live_def client_sink_def Client_write_def)

lemma live_flush: "live net c \<Longrightarrow> \<exists>c'. snk_flush (client_sink net) c = (None, c') \<and> live net c'"
  using bufFlush_healthy [of net "watched net c"] watched_healthy [of net c]
  by (cases "bufFlush net (watched net c)") (auto simp: live_def client_sink_def Client_flush_def)

lemma live_paced: "live net c \<Longrightarrow> \<exists>n' c'. writePaced (client_sink net) mo frm (n, c) = (Inr (), (n', c')) \<and> live net c'"
  using live_write [of net c frm] live_flush [of net "snk_write (client_sink net) frm c"]
  by (auto simp: writePaced_def Let_def)

lemma live_writeAll: "live net c \<Longrightarrow> \<exists>n' c'. writeAll (writePaced (client_sink net) mo) fs (n, c) = (Inr (), (n', c')) \<and> live net c'"
proof (induction fs arbitrary: n c)
  case Nil
  then show ?case by (simp add: ret_def)
next
  case (Cons f fs)
  obtain n1 c1 where "writePaced (client_sink net) mo f (n, c) = (Inr (), (n1, c1))" "live net c1"
    using live_paced [OF Cons.prems] by blast
  with Cons.IH [of c1 n1] show ?case by (auto simp: andThen_def)
qed

lemma healthy_apply:
  assumes "healthy_from net c" and "nextHopsOk st" and "feed_env_ok env'"
  shows "\<exists>f1 c1. feed_apply (client_sink net) env st (f, c) = (None, (f1, c1)) \<and>
    (\<exists>c2. feed_apply (client_sink net) env' st (f1, c1) = (None, (f1, c2)) \<and> bc_sent c2 = bc_sent c1)"
proof -
  obtain f0 c0 where e: "ensureConnected (client_sink net) (fe_now env) (f, c) = (Inr (), (f0, c0))" and l0: "live net c0"
    using assms(1)
    by (cases "bc_conn c")
      (auto simp: ensureConnected_def client_sink_def Client_connected_def Client_connect_def live_def healthy_from_def)
  define full where "full = (fd_resync f0 \<or> es_RedirectNextHop st \<noteq> fd_nextHop f0 \<or> es_RedirectNextHopV6 st \<noteq> fd_nextHop6 f0)"
  define gs where "gs = (if full then [frameHello] @ map editFrame (resyncEdits env (desAnchors st) (desFlows st) (ecFor st)) @ [frameEOR]
      else map editFrame (deltaEdits env f0 (desAnchors st) (desFlows st) (ecFor st)))"
  obtain n1 c1' where w: "writeAll (writePaced (client_sink net) (fd_maxOps f0)) gs (0, c0) = (Inr (), (n1, c1'))" and l1: "live net c1'"
    using live_writeAll [OF l0] by blast
  obtain c1 where fl: "snk_flush (client_sink net) c1' = (None, c1)" and l: "live net c1" using live_flush [OF l1] by blast
  define f1 where "f1 = f0\<lparr>fd_resync := (if full then False else fd_resync f0), fd_anchors := desAnchors st, fd_flows := desFlows st,
               fd_nextHop := es_RedirectNextHop st, fd_nextHop6 := es_RedirectNextHopV6 st\<rparr>"
  have "feed_apply (client_sink net) env st (f, c) = (None, (f1, c1))"
    using e w fl assms(2) unfolding gs_def full_def f1_def
    by (auto simp: feed_apply_def fullResync_frames incremental_frames Let_def split: if_splits)
  moreover have "\<exists>c2. feed_apply (client_sink net) env' st (f1, c1) = (None, (f1, c2)) \<and> bc_sent c2 = bc_sent c1"
  proof -
    obtain c2 where fl2: "snk_flush (client_sink net) c1 = (None, c2)" using live_flush [OF l] by blast
    have "\<not> fd_resync f1" by (auto simp: f1_def full_def)
    moreover have "deltaEdits env' f1 (desAnchors st) (desFlows st) (ecFor st) = []"
    proof -
      have "set (fe_ordOldA env' (gm_keys (fd_anchors f1))) = dom (gm_get (desAnchors st))"
        "set (fe_ordF env' (gm_keys (desFlows st))) = dom (gm_get (desFlows st))"
        "set (fe_ordOldF env' (gm_keys (fd_flows f1))) = dom (gm_get (desFlows st))"
        using assms(3) ordered_keys by (auto simp: feed_env_ok_def f1_def)
      then show ?thesis
        by (simp add: deltaEdits_def anchorAdds_def flowAdds_def routeDels_def) (auto simp: f1_def filter_empty_conv)
    qed
    ultimately have "feed_apply (client_sink net) env' st (f1, c1) = (None, (f1, c2))"
      using l fl2 assms(2)
      by (simp add: feed_apply_def ensureConnected_def client_sink_def Client_connected_def live_def incremental_frames f1_def ret_def Let_def)
    moreover have "bc_sent c2 = bc_sent c1" using client.flush_ok [OF fl2] client.flush_ok [OF fl] by simp
    ultimately show ?thesis by blast
  qed
  ultimately show ?thesis by blast
qed

text \<open>A state that redirects a family without a next hop of it is refused before anything is written.\<close>

lemma refused_apply:
  assumes "healthy_from net c" and "\<not> nextHopsOk st"
  shows "\<exists>f1 c1. feed_apply (client_sink net) env st (f, c) = (Some ErrNoNextHop, (f1, c1)) \<and> live net c1 \<and>
    bc_sent c1 = (if bc_conn c = None then [] else bc_sent c) \<and> fd_anchors f1 = fd_anchors f \<and> fd_flows f1 = fd_flows f"
proof -
  obtain f0 c0 where e: "ensureConnected (client_sink net) (fe_now env) (f, c) = (Inr (), (f0, c0))" and l0: "live net c0"
    and "bc_sent c0 = (if bc_conn c = None then [] else bc_sent c)" "fd_anchors f0 = fd_anchors f" "fd_flows f0 = fd_flows f"
    using assms(1)
    by (cases "bc_conn c")
      (auto simp: ensureConnected_def client_sink_def Client_connected_def Client_connect_def live_def healthy_from_def
        backoffReconnect_def Let_def)
  with assms(2) show ?thesis by (simp add: feed_apply_def)
qed

text \<open>C10: progress of the feed. From any state of feed and client without a write error left in the client's
  buffer, if from now on the socket works (dials and writes succeed and the peer stays): a pass for a
  state whose redirects have a next hop of each family they use succeeds, whatever the pacing and however
  large the state, and the pass after it for the same state sends nothing at all; a pass for a state that
  redirects a family without such a next hop fails with \<open>ErrNoNextHop\<close>, writes nothing and keeps the
  committed snapshot and the connection.\<close>

theorem healthy_feed_progress:
  assumes "healthy_from net c" and "feed_env_ok env'"
  shows "if nextHopsOk st
    then \<exists>f1 c1. feed_apply (client_sink net) env st (f, c) = (None, (f1, c1)) \<and>
      (\<exists>c2. feed_apply (client_sink net) env' st (f1, c1) = (None, (f1, c2)) \<and> bc_sent c2 = bc_sent c1)
    else \<exists>f1 c1. feed_apply (client_sink net) env st (f, c) = (Some ErrNoNextHop, (f1, c1)) \<and> live net c1 \<and>
      bc_sent c1 = (if bc_conn c = None then [] else bc_sent c) \<and> fd_anchors f1 = fd_anchors f \<and> fd_flows f1 = fd_flows f"
  using healthy_apply [OF assms(1) _ assms(2)] refused_apply [OF assms(1)] by (cases "nextHopsOk st") simp_all

theorem feed_converges_witness:
  "\<exists>f c. feed_apply (client_sink ex_net) ex_env ex_feed_state
        (feed_run (client_sink ex_net) peerClose [FTick ex_env (Some ex_feed_state)] (NewFeed 2, NewClient)) = (None, (f, c)) \<and>
     ref_routes (fold ref_recv (splitFrames (bc_sent c)) ([([1, 32, 0, 0, 0, 1], [])], [])) = bird_table ex_feed_state"
proof -
  let ?fs = "feed_run (client_sink ex_net) peerClose [FTick ex_env (Some ex_feed_state)] (NewFeed 2, NewClient)"
  have "healthy_from ex_net (snd ?fs)"
    by (simp add: healthy_from_def feed_run_def pass_def feed_apply_def ensureConnected_def client_sink_def Client_connected_def
        Client_connect_def NewClient_def ex_net_def)
  moreover have "nextHopsOk ex_feed_state"
    by (simp add: nextHopsOk_def haveV6_def ex_feed_state_def EdgeDesiredState_zero_def)
  ultimately obtain f c where r: "feed_apply (client_sink ex_net) ex_env ex_feed_state ?fs = (None, (f, c))"
    using healthy_apply [of ex_net "snd ?fs" ex_feed_state ex_env ex_env "fst ?fs"] ex_env_ok by auto
  have "\<forall>ev \<in> set [FTick ex_env (Some ex_feed_state)]. event_ok ev" using ex_env_ok ex_feedable by simp
  from feed_converges [OF ref_proto.api_proto_axioms this ex_env_ok ex_feedable r] r show ?thesis by blast
qed

theorem healthy_feed_progress_witness:
  "\<exists>f1 c1. feed_apply (client_sink (ex_net\<lparr>nt_dial := \<lambda>_. None\<rparr>)) ex_env ex_feed_state (NewFeed 2, NewClient) = (None, (f1, c1)) \<and>
     (\<exists>c2. feed_apply (client_sink (ex_net\<lparr>nt_dial := \<lambda>_. None\<rparr>)) ex_env ex_feed_state (f1, c1) = (None, (f1, c2)) \<and> bc_sent c2 = bc_sent c1)"
proof -
  have "healthy_from (ex_net\<lparr>nt_dial := \<lambda>_. None\<rparr>) NewClient" by (simp add: healthy_from_def ex_net_def NewClient_def)
  moreover have "nextHopsOk ex_feed_state" by (simp add: nextHopsOk_def haveV6_def ex_feed_state_def EdgeDesiredState_zero_def)
  ultimately show ?thesis
    using healthy_feed_progress [of "ex_net\<lparr>nt_dial := \<lambda>_. None\<rparr>" NewClient ex_env ex_feed_state ex_env "NewFeed 2"] ex_env_ok by simp
qed

subsection \<open>Retries\<close>

definition retry_obs :: "Feed \<times> 's \<Rightarrow> int \<times> int list \<times> bool" where
  "retry_obs fs = (fd_fails (fst fs), fd_timers (fst fs), fd_wake (fst fs))"

lemma apply_retry_obs: "retry_obs (snd (feed_apply k env st fs)) = retry_obs fs"
proof -
  obtain r f s where e: "ensureConnected k (fe_now env) fs = (r, (f, s))" by (cases "ensureConnected k (fe_now env) fs") auto
  have "retry_obs (f, s) = retry_obs fs"
    using e by (cases fs) (auto simp: ensureConnected_def backoffReconnect_def retry_obs_def Let_def split: if_splits prod.splits option.splits)
  then show ?thesis
    using e by (auto simp: feed_apply_def retry_obs_def Let_def split: sum.splits prod.splits option.splits if_splits)
qed

definition retry_pending :: "Feed \<Rightarrow> bool" where
  "retry_pending f \<longleftrightarrow> 0 \<le> fd_fails f \<and> (0 < fd_fails f \<longrightarrow> fd_timers f \<noteq> [] \<or> fd_wake f)"

lemma retry_nonneg: "retry_pending f \<Longrightarrow> 0 \<le> fd_fails f"
  by (simp add: retry_pending_def)

lemma pass_retry: "0 \<le> fd_fails (fst fs) \<Longrightarrow> retry_pending (fst (pass k env (Some st) fs))"
  using apply_retry_obs [of k env st fs]
  by (cases "feed_apply k env st fs") (auto simp: pass_def retry_obs_def retry_pending_def split: option.splits prod.splits)

text \<open>The provider's passes in a history: the desired store never forgets a state, so that after a pass that
  got one no pass gets none. The passes of \<open>Run\<close> before the first push get none.\<close>

fun provider_keeps :: "bool \<Rightarrow> feed_event list \<Rightarrow> bool" where
  "provider_keeps held [] = True"
| "provider_keeps held (FTick env st # es) = ((held \<longrightarrow> st \<noteq> None) \<and> provider_keeps (held \<or> st \<noteq> None) es)"
| "provider_keeps held (FWake env st # es) = ((held \<longrightarrow> st \<noteq> None) \<and> provider_keeps (held \<or> st \<noteq> None) es)"
| "provider_keeps held (_ # es) = provider_keeps held es"

definition retry_inv :: "bool \<Rightarrow> Feed \<Rightarrow> bool" where
  "retry_inv held f \<longleftrightarrow> retry_pending f \<and> (held \<or> fd_fails f = 0)"

lemma feed_step_retry:
  assumes "retry_inv held (fst fs)" and "provider_keeps held (ev # es)"
  shows "\<exists>held'. retry_inv held' (fst (feed_step (client_sink net) peerClose ev fs)) \<and> provider_keeps held' es"
proof -
  obtain f s where fs: "fs = (f, s)" by (cases fs)
  have some: "retry_pending (fst (pass (client_sink net) env (Some st) (g, s)))" if "fd_fails g = fd_fails f" for env st g
    using pass_retry [of "(g, s)"] retry_nonneg assms(1) that by (simp add: retry_inv_def fs)
  show ?thesis
  proof (cases ev)
    case (FTick env st)
    with assms some [of f env] show ?thesis by (cases st) (auto simp: fs retry_inv_def pass_def)
  next
    case (FWake env st)
    with assms some [of "f\<lparr>fd_wake := False\<rparr>" env] show ?thesis
      by (cases st) (auto simp: fs retry_inv_def retry_pending_def pass_def)
  qed (use assms in \<open>auto simp: fs retry_inv_def retry_pending_def Feed_Wake_def split: list.splits\<close>)
qed

text \<open>C11: a failing feed keeps retrying. Take any history of the feed in which the provider does not lose a state
  it had (the passes before the first pushed state get none, as in \<open>Run\<close>, whose first pass runs at once):
  whenever the last pass that had a state failed (the failure count is positive, which also keeps the
  reported phase at Reconciling), a retry is pending: a timer is armed or a wake-up is already waiting.\<close>

theorem failing_feed_retries:
  assumes "provider_keeps False es"
    and "feed_run (client_sink net) peerClose es (NewFeed mo, NewClient) = (f, c)"
  shows "0 \<le> fst (Feed_Status f) \<and> (0 < fst (Feed_Status f) \<longrightarrow> fd_timers f \<noteq> [] \<or> fd_wake f)"
proof -
  have "retry_pending (fst (feed_run (client_sink net) peerClose es fs))"
    if "retry_inv held (fst fs)" "provider_keeps held es" for held fs
    using that
  proof (induction es arbitrary: held fs)
    case (Cons ev es)
    from feed_step_retry [OF Cons.prems, of net] obtain held' where
      "retry_inv held' (fst (feed_step (client_sink net) peerClose ev fs))" "provider_keeps held' es" by blast
    from Cons.IH [OF this] show ?case by (simp add: feed_run_def)
  qed (simp add: feed_run_def retry_inv_def)
  from this [of False "(NewFeed mo, NewClient)"] assms show ?thesis
    by (simp add: retry_inv_def retry_pending_def NewFeed_def Feed_Status_def)
qed

theorem failing_feed_retries_witness:
  "\<exists>f c. feed_run (client_sink ex_net) peerClose [FTick ex_env None, FWakeCall, FWake ex_env (Some ex_feed_state)] (NewFeed 2, NewClient) = (f, c) \<and>
     0 < fst (Feed_Status f) \<and> (fd_timers f \<noteq> [] \<or> fd_wake f)"
proof -
  let ?es = "[FTick ex_env None, FWakeCall, FWake ex_env (Some ex_feed_state)]"
  obtain f c where r: "feed_run (client_sink ex_net) peerClose ?es (NewFeed 2, NewClient) = (f, c)"
    by (metis prod.exhaust)
  then have "fst (Feed_Status f) = 1"
    by (auto simp: feed_run_def pass_def feed_apply_def ensureConnected_def client_sink_def Client_connected_def
        Client_connect_def NewClient_def ex_net_def NewFeed_def Feed_Status_def Feed_Wake_def)
  with failing_feed_retries [OF _ r] r show ?thesis by auto
qed

end
