(* ===== verification/Config.thy ===== *)
theory Config
  imports Go_Strings
begin

text \<open>
  \<open>internal/agent/config.go\<close>: the defaults, the environment overrides in their order, and validation. The contract
  module's package \<open>config\<close>, which reads a JSON file and single variables, is the parameter \<open>config_env\<close>: each reader
  takes the current value and returns a value with, possibly, an error. Durations are integers in nanoseconds.
\<close>

record Config =
  cg_LogLevel :: string
  cg_LogFormat :: string
  cg_EdgeID :: string
  cg_CapacityBps :: u64
  cg_BIRDSocketPath :: string
  cg_VPPAPISocket :: string
  cg_VPPHealthTimeout :: int
  cg_VPPReplyTimeout :: int
  cg_ControllerEndpoint :: string
  cg_ControllerEndpoints :: "string list"
  cg_ReconcileInterval :: int
  cg_ReportInterval :: int
  cg_MetricsListenAddr :: string
  cg_BirdAnchorsInclude :: string
  cg_BirdFlowspecInclude :: string
  cg_BirdFeedMode :: string
  cg_BirdAPISocket :: string
  cg_BirdFeedMaxOpsPerPass :: int
  cg_BirdFeedPace :: int
  cg_PolicerInterfaces :: "string list"
  cg_CanaryInclude :: string
  cg_CanaryPrefix :: string
  cg_CanaryLC :: string
  cg_ForwardingProbeTarget :: string
  cg_ForwardingProbeInterval :: int
  cg_ForwardingProbeFails :: int
  cg_ForwardingProbeTimeout :: int
  cg_ForwardingProbePlugin :: bool
  cg_ForwardingProbeStatName :: string
  cg_ForwardingProbeTable :: int
  cg_MeteringEnable :: bool
  cg_MeteringInterval :: int
  cg_VPPStatsSocket :: string
  cg_KafkaBrokers :: "string list"
  cg_KafkaTopic :: string
  cg_KafkaSASLUser :: string
  cg_KafkaSASLPass :: string
  cg_KafkaSASLMech :: string
  cg_KafkaTLSCAFile :: string
  cg_KafkaTLSInsecure :: bool
  cg_KafkaPlaintext :: bool

definition second :: int where "second = 1000000000"
definition millisecond :: int where "millisecond = 1000000"

text \<open>\<open>logx.FormatJSON\<close> of the contract module is the argument \<open>fmtJSON\<close>.\<close>

definition DefaultConfig :: "string \<Rightarrow> Config" where
  "DefaultConfig fmtJSON =
     \<lparr>cg_LogLevel = ''info'',
      cg_LogFormat = fmtJSON,
      cg_EdgeID = [],
      cg_CapacityBps = 0,
      cg_BIRDSocketPath = ''/run/bird.ctl'',
      cg_VPPAPISocket = ''/run/vpp/api.sock'',
      cg_VPPHealthTimeout = 30 * second,
      cg_VPPReplyTimeout = 5 * second,
      cg_ControllerEndpoint = [],
      cg_ControllerEndpoints = [],
      cg_ReconcileInterval = 60 * second,
      cg_ReportInterval = 15 * second,
      cg_MetricsListenAddr = '':9102'',
      cg_BirdAnchorsInclude = [],
      cg_BirdFlowspecInclude = [],
      cg_BirdFeedMode = [],
      cg_BirdAPISocket = ''/run/bird/api.sock'',
      cg_BirdFeedMaxOpsPerPass = 1000,
      cg_BirdFeedPace = 10 * millisecond,
      cg_PolicerInterfaces = [],
      cg_CanaryInclude = [],
      cg_CanaryPrefix = [],
      cg_CanaryLC = [],
      cg_ForwardingProbeTarget = [],
      cg_ForwardingProbeInterval = 3 * second,
      cg_ForwardingProbeFails = 3,
      cg_ForwardingProbeTimeout = 2 * second,
      cg_ForwardingProbePlugin = False,
      cg_ForwardingProbeStatName = ''fwd'',
      cg_ForwardingProbeTable = 0,
      cg_MeteringEnable = False,
      cg_MeteringInterval = 30 * second,
      cg_VPPStatsSocket = ''/run/vpp/stats.sock'',
      cg_KafkaBrokers = [],
      cg_KafkaTopic = ''sbw.metering'',
      cg_KafkaSASLUser = [],
      cg_KafkaSASLPass = [],
      cg_KafkaSASLMech = ''SCRAM-SHA-256'',
      cg_KafkaTLSCAFile = [],
      cg_KafkaTLSInsecure = False,
      cg_KafkaPlaintext = False\<rparr>"

record config_env =
  ce_LoadFile :: "string \<Rightarrow> Config \<Rightarrow> error option \<times> Config"
  ce_String :: "string \<Rightarrow> string \<Rightarrow> string"
  ce_Strings :: "string \<Rightarrow> string list \<Rightarrow> string list"
  ce_DurationEnv :: "string \<Rightarrow> int \<Rightarrow> int \<times> error option"
  ce_Uint64 :: "string \<Rightarrow> u64 \<Rightarrow> u64 \<times> error option"
  ce_Int :: "string \<Rightarrow> int \<Rightarrow> int \<times> error option"
  ce_Bool :: "string \<Rightarrow> bool \<Rightarrow> bool \<times> error option"

text \<open>The three forms of an override: one that cannot fail; one that assigns only a value read without error; and
  one that assigns the value returned, then checks the error.\<close>

type_synonym config_step = "Config \<Rightarrow> error option \<times> Config"

definition plainEnv :: "('a \<Rightarrow> 'a) \<Rightarrow> (Config \<Rightarrow> 'a) \<Rightarrow> ('a \<Rightarrow> Config \<Rightarrow> Config) \<Rightarrow> config_step" where
  "plainEnv read get put c = (None, put (read (get c)) c)"

definition strictEnv :: "('a \<Rightarrow> 'a \<times> error option) \<Rightarrow> (Config \<Rightarrow> 'a) \<Rightarrow> ('a \<Rightarrow> Config \<Rightarrow> Config) \<Rightarrow> config_step" where
  "strictEnv read get put c = (case read (get c) of (v, Some err) \<Rightarrow> (Some err, c) | (v, None) \<Rightarrow> (None, put v c))"

definition looseEnv :: "('a \<Rightarrow> 'a \<times> error option) \<Rightarrow> (Config \<Rightarrow> 'a) \<Rightarrow> ('a \<Rightarrow> Config \<Rightarrow> Config) \<Rightarrow> config_step" where
  "looseEnv read get put c = (case read (get c) of (v, err) \<Rightarrow> (err, put v c))"

definition splitCSV :: "string \<Rightarrow> string list" where
  "splitCSV s = filter (\<lambda>p. p \<noteq> []) (map TrimSpace (Split s CHR '',''))"

definition policerInterfacesEnv :: "config_env \<Rightarrow> config_step" where
  "policerInterfacesEnv e c =
     (let v = ce_String e ''POLICER_INTERFACES'' [] in (None, if v \<noteq> [] then c\<lparr>cg_PolicerInterfaces := splitCSV v\<rparr> else c))"

fun runSteps :: "config_step list \<Rightarrow> config_step" where
  "runSteps [] c = (None, c)"
| "runSteps (s # ss) c = (case s c of (Some err, c') \<Rightarrow> (Some err, c') | (None, c') \<Rightarrow> runSteps ss c')"

definition envSteps :: "config_env \<Rightarrow> config_step list" where
  "envSteps e =
     [plainEnv (ce_String e ''LOG_LEVEL'') cg_LogLevel (\<lambda>v c. c\<lparr>cg_LogLevel := v\<rparr>),
      plainEnv (ce_String e ''LOG_FORMAT'') cg_LogFormat (\<lambda>v c. c\<lparr>cg_LogFormat := v\<rparr>),
      plainEnv (ce_String e ''EDGE_ID'') cg_EdgeID (\<lambda>v c. c\<lparr>cg_EdgeID := v\<rparr>),
      plainEnv (ce_String e ''BIRD_SOCKET'') cg_BIRDSocketPath (\<lambda>v c. c\<lparr>cg_BIRDSocketPath := v\<rparr>),
      plainEnv (ce_String e ''VPP_API_SOCKET'') cg_VPPAPISocket (\<lambda>v c. c\<lparr>cg_VPPAPISocket := v\<rparr>),
      strictEnv (ce_DurationEnv e ''VPP_HEALTH_TIMEOUT'') cg_VPPHealthTimeout (\<lambda>v c. c\<lparr>cg_VPPHealthTimeout := v\<rparr>),
      strictEnv (ce_DurationEnv e ''VPP_REPLY_TIMEOUT'') cg_VPPReplyTimeout (\<lambda>v c. c\<lparr>cg_VPPReplyTimeout := v\<rparr>),
      plainEnv (ce_String e ''CONTROLLER_ENDPOINT'') cg_ControllerEndpoint (\<lambda>v c. c\<lparr>cg_ControllerEndpoint := v\<rparr>),
      plainEnv (ce_Strings e ''CONTROLLER_ENDPOINTS'') cg_ControllerEndpoints (\<lambda>v c. c\<lparr>cg_ControllerEndpoints := v\<rparr>),
      strictEnv (ce_Uint64 e ''CAPACITY_BPS'') cg_CapacityBps (\<lambda>v c. c\<lparr>cg_CapacityBps := v\<rparr>),
      strictEnv (ce_DurationEnv e ''RECONCILE_INTERVAL'') cg_ReconcileInterval (\<lambda>v c. c\<lparr>cg_ReconcileInterval := v\<rparr>),
      strictEnv (ce_DurationEnv e ''REPORT_INTERVAL'') cg_ReportInterval (\<lambda>v c. c\<lparr>cg_ReportInterval := v\<rparr>),
      plainEnv (ce_String e ''METRICS_LISTEN_ADDR'') cg_MetricsListenAddr (\<lambda>v c. c\<lparr>cg_MetricsListenAddr := v\<rparr>),
      plainEnv (ce_String e ''BIRD_ANCHORS_INCLUDE'') cg_BirdAnchorsInclude (\<lambda>v c. c\<lparr>cg_BirdAnchorsInclude := v\<rparr>),
      plainEnv (ce_String e ''BIRD_FLOWSPEC_INCLUDE'') cg_BirdFlowspecInclude (\<lambda>v c. c\<lparr>cg_BirdFlowspecInclude := v\<rparr>),
      plainEnv (ce_String e ''BIRD_FEED'') cg_BirdFeedMode (\<lambda>v c. c\<lparr>cg_BirdFeedMode := v\<rparr>),
      plainEnv (ce_String e ''BIRD_API_SOCKET'') cg_BirdAPISocket (\<lambda>v c. c\<lparr>cg_BirdAPISocket := v\<rparr>),
      looseEnv (ce_Int e ''BIRD_FEED_MAX_OPS_PER_PASS'') cg_BirdFeedMaxOpsPerPass (\<lambda>v c. c\<lparr>cg_BirdFeedMaxOpsPerPass := v\<rparr>),
      looseEnv (ce_DurationEnv e ''BIRD_FEED_PACE'') cg_BirdFeedPace (\<lambda>v c. c\<lparr>cg_BirdFeedPace := v\<rparr>),
      policerInterfacesEnv e,
      plainEnv (ce_String e ''CANARY_INCLUDE'') cg_CanaryInclude (\<lambda>v c. c\<lparr>cg_CanaryInclude := v\<rparr>),
      plainEnv (ce_String e ''CANARY_PREFIX'') cg_CanaryPrefix (\<lambda>v c. c\<lparr>cg_CanaryPrefix := v\<rparr>),
      plainEnv (ce_String e ''CANARY_LC'') cg_CanaryLC (\<lambda>v c. c\<lparr>cg_CanaryLC := v\<rparr>),
      strictEnv (ce_Bool e ''METERING_ENABLE'') cg_MeteringEnable (\<lambda>v c. c\<lparr>cg_MeteringEnable := v\<rparr>),
      strictEnv (ce_DurationEnv e ''METERING_INTERVAL'') cg_MeteringInterval (\<lambda>v c. c\<lparr>cg_MeteringInterval := v\<rparr>),
      plainEnv (ce_String e ''VPP_STATS_SOCKET'') cg_VPPStatsSocket (\<lambda>v c. c\<lparr>cg_VPPStatsSocket := v\<rparr>),
      plainEnv (ce_Strings e ''METERING_KAFKA_BROKERS'') cg_KafkaBrokers (\<lambda>v c. c\<lparr>cg_KafkaBrokers := v\<rparr>),
      plainEnv (ce_String e ''METERING_KAFKA_TOPIC'') cg_KafkaTopic (\<lambda>v c. c\<lparr>cg_KafkaTopic := v\<rparr>),
      plainEnv (ce_String e ''METERING_SASL_USER'') cg_KafkaSASLUser (\<lambda>v c. c\<lparr>cg_KafkaSASLUser := v\<rparr>),
      plainEnv (ce_String e ''METERING_SASL_PASS'') cg_KafkaSASLPass (\<lambda>v c. c\<lparr>cg_KafkaSASLPass := v\<rparr>),
      plainEnv (ce_String e ''METERING_SASL_MECHANISM'') cg_KafkaSASLMech (\<lambda>v c. c\<lparr>cg_KafkaSASLMech := v\<rparr>),
      plainEnv (ce_String e ''METERING_TLS_CA'') cg_KafkaTLSCAFile (\<lambda>v c. c\<lparr>cg_KafkaTLSCAFile := v\<rparr>),
      strictEnv (ce_Bool e ''METERING_TLS_INSECURE'') cg_KafkaTLSInsecure (\<lambda>v c. c\<lparr>cg_KafkaTLSInsecure := v\<rparr>),
      strictEnv (ce_Bool e ''METERING_PLAINTEXT'') cg_KafkaPlaintext (\<lambda>v c. c\<lparr>cg_KafkaPlaintext := v\<rparr>),
      plainEnv (ce_String e ''FORWARDING_PROBE_TARGET'') cg_ForwardingProbeTarget (\<lambda>v c. c\<lparr>cg_ForwardingProbeTarget := v\<rparr>),
      looseEnv (ce_DurationEnv e ''FORWARDING_PROBE_INTERVAL'') cg_ForwardingProbeInterval (\<lambda>v c. c\<lparr>cg_ForwardingProbeInterval := v\<rparr>),
      looseEnv (ce_Int e ''FORWARDING_PROBE_FAILS'') cg_ForwardingProbeFails (\<lambda>v c. c\<lparr>cg_ForwardingProbeFails := v\<rparr>),
      looseEnv (ce_DurationEnv e ''FORWARDING_PROBE_TIMEOUT'') cg_ForwardingProbeTimeout (\<lambda>v c. c\<lparr>cg_ForwardingProbeTimeout := v\<rparr>),
      looseEnv (ce_Bool e ''FORWARDING_PROBE_PLUGIN'') cg_ForwardingProbePlugin (\<lambda>v c. c\<lparr>cg_ForwardingProbePlugin := v\<rparr>),
      plainEnv (ce_String e ''FORWARDING_PROBE_STAT_NAME'') cg_ForwardingProbeStatName (\<lambda>v c. c\<lparr>cg_ForwardingProbeStatName := v\<rparr>),
      looseEnv (ce_Int e ''FORWARDING_PROBE_TABLE'') cg_ForwardingProbeTable (\<lambda>v c. c\<lparr>cg_ForwardingProbeTable := v\<rparr>)]"

definition applyEnv :: "config_env \<Rightarrow> config_step" where
  "applyEnv e c = runSteps (envSteps e) c"

definition Validate :: "Config \<Rightarrow> error option" where
  "Validate c =
     (if cg_EdgeID c = [] then Some (ErrConfig ''edge_id'')
      else if cg_ReconcileInterval c \<le> 0 then Some (ErrConfig ''reconcile_interval'')
      else None)"

definition LoadConfig :: "string \<Rightarrow> config_env \<Rightarrow> string \<Rightarrow> Config \<times> error option" where
  "LoadConfig fmtJSON e path =
     (case ce_LoadFile e path (DefaultConfig fmtJSON) of
        (Some err, c) \<Rightarrow> (c, Some err)
      | (None, c) \<Rightarrow>
          (case applyEnv e c of
             (Some err, c') \<Rightarrow> (c', Some err)
           | (None, c') \<Rightarrow> (case Validate c' of Some err \<Rightarrow> (c', Some err) | None \<Rightarrow> (c', None))))"

definition Bootstrap :: "Config \<Rightarrow> string list" where
  "Bootstrap c =
     (if cg_ControllerEndpoints c \<noteq> [] then cg_ControllerEndpoints c
      else if cg_ControllerEndpoint c \<noteq> [] then [cg_ControllerEndpoint c]
      else [])"

subsection \<open>What a loaded configuration is\<close>

text \<open>A configuration returned without an error passed validation.\<close>

lemma LoadConfig_valid: "LoadConfig fmtJSON e path = (c, None) \<Longrightarrow> cg_EdgeID c \<noteq> [] \<and> 0 < cg_ReconcileInterval c"
  by (auto simp: LoadConfig_def Validate_def split: prod.splits option.splits if_splits)

text \<open>Variables that are not set change nothing: a reader that then returns the current value leaves the
  configuration as the file and the defaults made it.\<close>

definition absent :: "config_env \<Rightarrow> bool" where
  "absent e \<longleftrightarrow> (\<forall>k v. ce_String e k v = v) \<and> (\<forall>k v. ce_Strings e k v = v) \<and> (\<forall>k v. ce_DurationEnv e k v = (v, None)) \<and>
     (\<forall>k v. ce_Uint64 e k v = (v, None)) \<and> (\<forall>k v. ce_Int e k v = (v, None)) \<and> (\<forall>k v. ce_Bool e k v = (v, None))"

lemma runSteps_keep: "\<forall>s\<in>set ss. s c = (None, c) \<Longrightarrow> runSteps ss c = (None, c)"
  by (induction ss) auto

lemma applyEnv_absent: "absent e \<Longrightarrow> applyEnv e c = (None, c)"
  unfolding applyEnv_def absent_def
  by (rule runSteps_keep)
    (auto simp: envSteps_def plainEnv_def strictEnv_def looseEnv_def policerInterfacesEnv_def)

text \<open>The list of interfaces survives being written with commas.\<close>

lemma splitCSV_Join:
  assumes "ps \<noteq> []" "\<forall>p\<in>set ps. CHR '','' \<notin> set p \<and> p \<noteq> [] \<and> TrimSpace p = p"
  shows "splitCSV (Join ps '','') = ps"
proof -
  have "map TrimSpace ps = ps" "filter (\<lambda>p. p \<noteq> []) ps = ps" using assms(2) by (auto simp: map_idI filter_id_conv)
  then show ?thesis using assms by (simp add: splitCSV_def Split_Join)
qed

end
