(* ===== verification/Agent_Main.thy ===== *)
theory Agent_Main
  imports Agent_Loop Fault_Uplink Metrics Kafka_Sink Vpp_Ping Netip_Parse Bird_Include Bird_Feed Config
begin

text \<open>
  The wiring of \<open>cmd/edge-agent/main.go\<close> that is not the reconcile loop itself: the observers of a pass and their
  order, the phase ticker, the chaos hook, the choice of the BIRD materializer, the canary's, the heartbeat's, the
  probe's and the metering's setup, and the order in which \<open>main\<close> gives up. Durations are in nanoseconds.
\<close>

subsection \<open>Observers\<close>

text \<open>An observer gets the pass's outcome and may panic (the first component); \<open>notify\<close> recovers and goes on.\<close>

type_synonym 's observer = "EdgeDesiredState \<Rightarrow> Result \<Rightarrow> error option \<Rightarrow> 's \<Rightarrow> bool \<times> 's"

definition AddObserver :: "'s observer \<Rightarrow> 's observer list \<Rightarrow> 's observer list" where
  "AddObserver fn obs = obs @ [fn]"

definition notify :: "'s observer list \<Rightarrow> EdgeDesiredState \<Rightarrow> Result \<Rightarrow> error option \<Rightarrow> 's \<Rightarrow> 's" where
  "notify obs desired res err s = foldl (\<lambda>s fn. snd (fn desired res err s)) s obs"

text \<open>What the observers share: the health checker, the metrics, the desired store (read only) and the canary.\<close>

record 'w observed =
  ob_health :: HealthChecker
  ob_met :: "Metrics option"
  ob_store :: DesiredStore
  ob_canary :: "(canary \<times> 'w) option"

definition healthObserver :: "(error \<Rightarrow> string) \<Rightarrow> observe_env \<Rightarrow> 'w observed observer" where
  "healthObserver errText env desired res err s = (False, s\<lparr>ob_health := Observe errText env desired res err (ob_health s)\<rparr>)"

definition metricsObserver :: "(real \<Rightarrow> real) \<Rightarrow> (HealthState \<Rightarrow> int) \<Rightarrow> int \<Rightarrow> 'w observed observer" where
  "metricsObserver rnd stateCode now desired res err s =
     (let m1 = RecordReconcile err (ob_met s);
          st = Status now (ob_store s);
          status = RecordDesiredStatus rnd (sts_Frozen st) (sts_Generation st)
      in case Last (ob_health s) of
           None \<Rightarrow> (False, s\<lparr>ob_met := status m1\<rparr>)
         | Some rep \<Rightarrow>
             (case RecordHealth rnd stateCode rep m1 of
                None \<Rightarrow> (True, s\<lparr>ob_met := m1\<rparr>)
              | Some m2 \<Rightarrow> (False, s\<lparr>ob_met := status m2\<rparr>)))"

definition canaryObserve :: "contract_fns \<Rightarrow> 'w host \<Rightarrow> 'w BirdConfigurer \<Rightarrow> 'w observed observer" where
  "canaryObserve c h bird desired res err s =
     (False, s\<lparr>ob_canary := map_option (canaryObserver c h bird (Last (ob_health s))) (ob_canary s)\<rparr>)"

text \<open>The order of registration: health, metrics, and the canary when it is set up.\<close>

definition mainObservers :: "contract_fns \<Rightarrow> (error \<Rightarrow> string) \<Rightarrow> observe_env \<Rightarrow> (real \<Rightarrow> real) \<Rightarrow> (HealthState \<Rightarrow> int) \<Rightarrow> int \<Rightarrow>
    'w host \<Rightarrow> 'w BirdConfigurer \<Rightarrow> bool \<Rightarrow> 'w observed observer list" where
  "mainObservers c errText env rnd stateCode now h bird haveCanary =
     (let obs = AddObserver (metricsObserver rnd stateCode now) (AddObserver (healthObserver errText env) [])
      in if haveCanary then AddObserver (canaryObserve c h bird) obs else obs)"

subsection \<open>The chaos hook\<close>

text \<open>One \<open>SIGUSR1\<close>: the flag is toggled, the checker told, the reconciler woken.\<close>

definition chaosSignal :: "bool \<times> HealthChecker \<times> Reconciler \<Rightarrow> bool \<times> HealthChecker \<times> Reconciler" where
  "chaosSignal s = (case s of (forced, h, r) \<Rightarrow> (\<not> forced, SetForcedDataPlaneDown (\<not> forced) h, Wake r))"

subsection \<open>The phase ticker and the status sources\<close>

datatype materializer = NoMaterializer | MatFeed Feed | MatApplier BirdApplier

definition birdFeedStatus :: "materializer \<Rightarrow> (int \<times> int) option" where
  "birdFeedStatus m = (case m of NoMaterializer \<Rightarrow> None | MatFeed f \<Rightarrow> Some (Feed_Status f) | MatApplier b \<Rightarrow> Some (BirdApplier_Status b))"

definition reportBirdFeed :: "(int \<times> int) option \<Rightarrow> int \<times> int" where
  "reportBirdFeed st = (case st of None \<Rightarrow> (0, 0) | Some x \<Rightarrow> x)"

definition birdBusy :: "(int \<times> int) option \<Rightarrow> bool" where
  "birdBusy st = (case st of None \<Rightarrow> False | Some (fails, _) \<Rightarrow> 0 < fails)"

definition wakeMaterializer :: "materializer \<Rightarrow> materializer" where
  "wakeMaterializer m = (case m of NoMaterializer \<Rightarrow> m | MatFeed f \<Rightarrow> MatFeed (Feed_Wake f) | MatApplier b \<Rightarrow> MatApplier (BirdApplier_Wake b))"

definition phaseTick :: "(real \<Rightarrow> real) \<Rightarrow> phase_sample \<Rightarrow> (int \<times> int) option \<Rightarrow> PhaseTracker \<times> Metrics option \<Rightarrow> PhaseTracker \<times> Metrics option" where
  "phaseTick rnd s st x =
     (case x of (tr, met) \<Rightarrow>
        (case Tick s tr of (ph, tr') \<Rightarrow>
           (let met1 = RecordPhase ph met
            in (tr', case st of None \<Rightarrow> met1 | Some (fails, ok) \<Rightarrow> RecordBirdFeed rnd fails ok met1))))"

definition desiredCounts :: "DesiredStore \<Rightarrow> int \<times> int \<times> bool" where
  "desiredCounts s =
     (case Desired s of None \<Rightarrow> (0, 0, False) | Some st \<Rightarrow> (int (length (es_Policers st)), int (length (es_ClassifySessions st)), True))"

text \<open>The capacity in a report; \<open>budget\<close> is \<open>ClassifySessionBudget()\<close>.\<close>

definition capacityReport :: "Config \<Rightarrow> u64 \<Rightarrow> CapacityReport" where
  "capacityReport cfg budget = \<lparr>cr_NICCapacityBps = cg_CapacityBps cfg, cr_SessionBudget = budget\<rparr>"

text \<open>\<open>SendReport\<close> of the controller client: \<open>marshal\<close> is \<open>json.Marshal\<close>, \<open>rpc\<close> the unary call.\<close>

definition SendReport :: "(EdgeReport \<Rightarrow> error + bytes) \<Rightarrow> (EdgeID \<Rightarrow> u64 \<Rightarrow> bytes \<Rightarrow> 's \<Rightarrow> error option \<times> 's) \<Rightarrow> EdgeID \<Rightarrow> EdgeReport \<Rightarrow> 's \<Rightarrow> error option \<times> 's" where
  "SendReport marshal rpc edge r s =
     (case marshal r of Inl e \<Rightarrow> (Some e, s) | Inr payload \<Rightarrow> rpc edge (er_Generation r) payload s)"

subsection \<open>Setting up BIRD and the canary\<close>

definition setupBirdMaterializers :: "contract_fns \<Rightarrow> 'w host \<Rightarrow> 'w host \<Rightarrow> Config \<Rightarrow> 'w \<Rightarrow> (error + materializer) \<times> 'w" where
  "setupBirdMaterializers c ha hf cfg w =
     (if cg_BirdFeedMode cfg = ''api'' then (Inr (MatFeed (NewFeed (cg_BirdFeedMaxOpsPerPass cfg))), w)
      else if cg_BirdAnchorsInclude cfg \<noteq> [] \<and> cg_BirdFlowspecInclude cfg \<noteq> [] then
        (case EnsureFiles c ha hf w of
           (Some e, w') \<Rightarrow> (Inl e, w')
         | (None, w') \<Rightarrow> (Inr (MatApplier (NewBirdApplier NewApplier NewApplier)), w'))
      else (Inr NoMaterializer, w))"

definition setupCanaryFrom :: "'w host \<Rightarrow> 'w BirdConfigurer \<Rightarrow> Config \<Rightarrow> 'w \<Rightarrow> (error + canary option) \<times> 'w" where
  "setupCanaryFrom h bird cfg w =
     (if cg_CanaryInclude cfg = [] \<or> cg_CanaryPrefix cfg = [] \<or> cg_CanaryLC cfg = [] then (Inr None, w)
      else (case ParsePrefix (cg_CanaryPrefix cfg) of
              None \<Rightarrow> (Inl (ErrConfig (cg_CanaryPrefix cfg)), w)
            | Some cpfx \<Rightarrow>
                (case parseLC (cg_CanaryLC cfg) of
                   Inl e \<Rightarrow> (Inl e, w)
                 | Inr clc \<Rightarrow> (case setupCanary h bird cpfx clc w of (Inl e, w') \<Rightarrow> (Inl e, w') | (Inr cy, w') \<Rightarrow> (Inr (Some cy), w')))))"

subsection \<open>Setting up the sensors and the metering\<close>

text \<open>The heartbeat's stats reader can be swapped; the readers closed so far are kept in order.\<close>

record 'r live_reader =
  lr_current :: 'r
  lr_closed :: "'r list"

text \<open>\<open>OnStaleReconnect\<close>: a new reader is opened first; if that fails, the old one stays.\<close>

definition staleHook :: "error + 'r \<Rightarrow> 'r live_reader \<Rightarrow> 'r live_reader" where
  "staleHook opened lr =
     (case opened of Inl e \<Rightarrow> lr | Inr nr \<Rightarrow> lr\<lparr>lr_current := nr, lr_closed := lr_closed lr @ [lr_current lr]\<rparr>)"

definition setupVppLiveness :: "error + 'r \<Rightarrow> (VppLiveness \<times> 'r live_reader) option" where
  "setupVppLiveness opened =
     (case opened of
        Inl e \<Rightarrow> None
      | Inr r \<Rightarrow> Some (NewVppLiveness (3 * second) (Some (8 * second)), \<lparr>lr_current = r, lr_closed = []\<rparr>))"

text \<open>One poll: the heartbeat is read from the current reader, checked, and the reader rebuilt when the check asks for it.\<close>

definition livePoll :: "('r \<Rightarrow> error + u64) \<Rightarrow> int \<Rightarrow> bool \<Rightarrow> error + 'r \<Rightarrow> VppLiveness \<times> 'r live_reader \<Rightarrow> bool option \<times> VppLiveness \<times> 'r live_reader" where
  "livePoll readBeat now busy opened x =
     (case x of (p, lr) \<Rightarrow>
        (let got = readBeat (lr_current lr);
             s = \<lparr>bs_read = got, bs_disconnected = (case got of Inl e \<Rightarrow> IsStatsDisconnected e | Inr _ \<Rightarrow> False), bs_now = now, bs_busy = Some busy\<rparr>
         in case check s p of (co, p') \<Rightarrow> (co_transition co, p', if co_reconnect co then staleHook opened lr else lr)))"

text \<open>The probe's target as a prefix: a bare address gets its host length, anything else stays as it is.\<close>

definition probePrefix :: "string \<Rightarrow> string" where
  "probePrefix target =
     (if CHR ''/'' \<notin> set target
      then (case ParseAddr target of None \<Rightarrow> target | Some (a, _) \<Rightarrow> if Is4 a then target @ ''/32'' else target @ ''/128'')
      else target)"

definition registerCmd :: "Config \<Rightarrow> string" where
  "registerCmd cfg =
     ''probe fib add '' @ probePrefix (cg_ForwardingProbeTarget cfg) @ '' table '' @ showInt (cg_ForwardingProbeTable cfg) @
     '' name '' @ cg_ForwardingProbeStatName cfg"

definition probeGauge :: "Config \<Rightarrow> string" where
  "probeGauge cfg = ''/probe/fib/'' @ cg_ForwardingProbeStatName cfg @ ''/reachable''"

text \<open>The two sources of a round. With the plugin, an unreadable gauge registers the target again; \<open>cli\<close> runs a command.\<close>

definition pluginRound :: "Config \<Rightarrow> (string \<Rightarrow> 'v \<Rightarrow> error + u64) \<Rightarrow> (string \<Rightarrow> 'v \<Rightarrow> (error + string) \<times> 'v) \<Rightarrow> 'v \<Rightarrow> (error + int) \<times> 'v" where
  "pluginRound cfg readGauge cli v =
     (case readGauge (probeGauge cfg) v of
        Inl e \<Rightarrow> (Inl e, snd (cli (registerCmd cfg) v))
      | Inr g \<Rightarrow> (Inr (sint g), v))"

definition pingRound :: "('f \<Rightarrow> string) \<Rightarrow> 'f \<Rightarrow> 'v cli \<Rightarrow> (error + 'v channel) \<Rightarrow> Conn \<Rightarrow> Config \<Rightarrow> 'v \<Rightarrow> (error + int) \<times> 'v" where
  "pingRound f2 tenth cli fresh c cfg v =
     (case Ping f2 cli fresh c (cg_ForwardingProbeTarget cfg) 3 tenth (cg_ForwardingProbeTimeout cfg) v of
        (Inl e, v') \<Rightarrow> (Inl e, v') | (Inr (sent, recv), v') \<Rightarrow> (Inr recv, v'))"

text \<open>\<open>setupForwardingProbe\<close>: no probe without a target, or when the plugin's stats reader cannot be opened.\<close>

definition setupForwardingProbe :: "Config \<Rightarrow> error option \<Rightarrow> u64 \<Rightarrow> (string \<Rightarrow> 'v \<Rightarrow> (error + string) \<times> 'v) \<Rightarrow> 'v \<Rightarrow> ForwardingProbe option \<times> 'v" where
  "setupForwardingProbe cfg statsErr gen cli v =
     (let probe = BindDataplaneGeneration gen (NewForwardingProbe (cg_ForwardingProbeFails cfg))
      in if cg_ForwardingProbeTarget cfg = [] then (None, v)
         else if cg_ForwardingProbePlugin cfg
         then (if statsErr \<noteq> None then (None, v) else (Some probe, snd (cli (registerCmd cfg) v)))
         else (Some probe, v))"

definition kafkaConfigOf :: "Config \<Rightarrow> kafka_config" where
  "kafkaConfigOf cfg =
     \<lparr>kc_Brokers = cg_KafkaBrokers cfg, kc_Topic = cg_KafkaTopic cfg, kc_Username = cg_KafkaSASLUser cfg, kc_Password = cg_KafkaSASLPass cfg,
      kc_Mechanism = cg_KafkaSASLMech cfg, kc_TLSCAFile = cg_KafkaTLSCAFile cfg, kc_TLSInsecureSkipVerify = cg_KafkaTLSInsecure cfg,
      kc_Plaintext = cg_KafkaPlaintext cfg\<rparr>"

text \<open>\<open>startMetering\<close>: the reader and sink of the loop that is started, if any, and the readers closed again.\<close>

definition startMetering :: "error + 'r \<Rightarrow> (kafka_config \<Rightarrow> error + 'client Sink) \<Rightarrow> Config \<Rightarrow> ('r \<times> 'client Sink) option \<times> 'r list" where
  "startMetering opened newSink cfg =
     (if \<not> cg_MeteringEnable cfg \<or> cg_KafkaBrokers cfg = [] then (None, [])
      else (case opened of
              Inl e \<Rightarrow> (None, [])
            | Inr r \<Rightarrow> (case newSink (kafkaConfigOf cfg) of Inl e \<Rightarrow> (None, [r]) | Inr s \<Rightarrow> (Some (r, s), []))))"

subsection \<open>Starting up\<close>

text \<open>The order in which \<open>main\<close> can exit: the configuration, the VPP connection, the BIRD includes, the canary, the
  endpoint, the controller client. The failures of the probe, the heartbeat, the metrics server and the metering are not
  among them.\<close>

definition vppDialOptions :: "Config \<Rightarrow> conn_option list" where
  "vppDialOptions cfg =
     [WithReconnect (2 ^ 30) second, WithHealthCheck (cg_VPPHealthTimeout cfg), WithReplyTimeout (cg_VPPReplyTimeout cfg)]"

definition startup :: "error option \<Rightarrow> Config \<Rightarrow> error option \<Rightarrow> (Config \<Rightarrow> 'w \<Rightarrow> (error + materializer) \<times> 'w) \<Rightarrow> (Config \<Rightarrow> 'w \<Rightarrow> (error + canary option) \<times> 'w) \<Rightarrow>
    (string \<Rightarrow> error option) \<Rightarrow> 'w \<Rightarrow> (error + (materializer \<times> canary option \<times> string)) \<times> 'w" where
  "startup cfgErr cfg vppErr bird canarySetup dial w =
     (case cfgErr of Some e \<Rightarrow> (Inl e, w) | None \<Rightarrow>
      case vppErr of Some e \<Rightarrow> (Inl e, w) | None \<Rightarrow>
      case bird cfg w of (Inl e, w1) \<Rightarrow> (Inl e, w1) | (Inr m, w1) \<Rightarrow>
      case canarySetup cfg w1 of (Inl e, w2) \<Rightarrow> (Inl e, w2) | (Inr cy, w2) \<Rightarrow>
      case Bootstrap cfg of [] \<Rightarrow> (Inl (ErrConfig ''no controller/server endpoint configured''), w2)
      | ep # _ \<Rightarrow> (case dial ep of Some e \<Rightarrow> (Inl e, w2) | None \<Rightarrow> (Inr (m, cy, ep), w2)))"

subsection \<open>A pass drives the canary\<close>

lemma chaos_iter:
  assumes "\<not> hc_forced h"
  shows "\<exists>r'. (chaosSignal ^^ n) (False, h, r) = (odd n, h\<lparr>hc_forced := odd n\<rparr>, r') \<and> (0 < n \<longrightarrow> rc_wake r')"
proof (induction n)
  case 0
  have "h\<lparr>hc_forced := False\<rparr> = h" using assms by simp
  then show ?case by simp
next
  case (Suc n)
  then show ?case by (auto simp: chaosSignal_def SetForcedDataPlaneDown_def Wake_def)
qed

lemma Observe_state:
  "\<exists>rep. Last (Observe errText env desired res err h) = Some rep \<and>
    hr_State rep = (if hc_forced h then HealthDataPlaneDown else hr_State (Classify errText (hc_edgeID h) desired (oe_healthy env) res err (oe_now env)))"
  by (auto simp: Observe_def Last_def Let_def split: option.splits)

lemma metricsObserver_frame:
  "ob_health (snd (metricsObserver rnd sc now desired res err s)) = ob_health s" "ob_canary (snd (metricsObserver rnd sc now desired res err s)) = ob_canary s"
  by (simp_all add: metricsObserver_def Let_def split: option.splits)

text \<open>The generation gauge after a pass is the one the store holds, not the one the pass applied.\<close>

lemma generation_gauge_is_held:
  assumes "ob_met s = Some m" and "dst_haveState (ob_store s)" and "0 < es_Generation (dst_state (ob_store s))"
    and "metricsObserver rnd sc now desired res err s = (False, s')"
  shows "\<exists>m'. ob_met s' = Some m' \<and> mt_generation m' = rnd (of_int (uint (es_Generation (dst_state (ob_store s)))))"
  using assms by (auto simp: metricsObserver_def Status_def RecordDesiredStatus_def RecordReconcile_def RecordHealth_def Let_def
      split: option.splits if_splits)

text \<open>All observers run, in order, whatever the metrics do: the canary looks at the report of this very pass.\<close>

lemma notify_main:
  assumes "s' = notify (mainObservers c errText env rnd sc now h bird True) desired res err s"
  shows "ob_health s' = Observe errText env desired res err (ob_health s)"
    and "ob_canary s' = map_option (canaryObserver c h bird (Last (ob_health s'))) (ob_canary s)"
  unfolding assms
  by (simp_all add: notify_def mainObservers_def AddObserver_def healthObserver_def canaryObserve_def metricsObserver_frame)

text \<open>C19: soft death, from the signal to BGP. After any number of chaos signals (an odd number forces the data plane down),
  one pass, whatever its outcome and whatever happens to the metrics, leaves a health report of this pass: data plane down
  when forced, the classification of the pass otherwise. Every signal wakes the reconciler. In the same pass the
  include that has the canary route exactly when the report is not soft-dead is applied (\<open>canary_applied\<close>). Of the disk
  and of BIRD it is assumed what C18 assumes, and \<open>doubt\<close> means what it means there. If the apply succeeds, the file
  holds that include and BIRD runs it, unless there is a doubt from before and the apply was skipped because the same
  content is remembered as good. If it fails without leaving doubt, file and BIRD are as before; if it fails and leaves
  doubt, BIRD runs what it ran or that include.\<close>

theorem pass_drives_canary:
  fixes s s' :: "'w observed"
  assumes "synced_include h bird wok active doubt" and "ob_canary s = Some (cy, w)" and "synced h active doubt wok (cy_applier cy, w)"
    and "cy_advContent cy = renderCanary pfx lc True" and "cy_wdContent cy = renderCanary pfx lc False"
    and "\<not> hc_forced h0" and "(chaosSignal ^^ n) (False, h0, r0) = (forced, ob_health s, r)"
    and "s' = notify (mainObservers c errText env rnd sc now h bird True) desired res err s"
  shows "\<exists>rep cy' w'. Last (ob_health s') = Some rep \<and> ob_canary s' = Some (cy', w') \<and> (0 < n \<longrightarrow> rc_wake r) \<and>
    hr_State rep = (if odd n then HealthDataPlaneDown else hr_State (Classify errText (hc_edgeID h0) desired (oe_healthy env) res err (oe_now env))) \<and>
    synced h active doubt wok (cy_applier cy', w') \<and>
    canary_applied h active doubt (renderCanary pfx lc (\<not> SoftDead c rep))
      (snd (fst (ApplyBytes h bird (renderCanary pfx lc (\<not> SoftDead c rep)) (cy_applier cy, w)))) (cy_applier cy, w) w'"
proof -
  have hs: "ob_health s = h0\<lparr>hc_forced := odd n\<rparr>" and wake: "0 < n \<longrightarrow> rc_wake r"
    using chaos_iter [OF assms(6), of n r0] assms(7) by auto
  have h': "ob_health s' = Observe errText env desired res err (ob_health s)"
    and c': "ob_canary s' = Some (canaryObserver c h bird (Last (ob_health s')) (cy, w))"
    using notify_main [OF assms(8)] assms(2) by simp_all
  obtain rep where rep: "Last (ob_health s') = Some rep"
    "hr_State rep = (if odd n then HealthDataPlaneDown else hr_State (Classify errText (hc_edgeID h0) desired (oe_healthy env) res err (oe_now env)))"
    using Observe_state [of errText env desired res err "ob_health s"] by (auto simp: h' hs)
  obtain cy' w' where o: "canaryObserver c h bird (Last (ob_health s')) (cy, w) = (cy', w')" by fastforce
  have "(\<not> SoftDead c rep) = (\<forall>x. Last (ob_health s') = Some x \<longrightarrow> \<not> SoftDead c x)" using rep(1) by simp
  from canary_tracks_health [OF assms(1,3-5) o this] rep c' o wake show ?thesis by auto
qed

definition ex_observed :: "rworld observed" where
  "ex_observed = \<lparr>ob_health = NewHealthChecker ''edge'' None\<lparr>hc_forced := True\<rparr>, ob_met = Metrics_New, ob_store = NewDesiredStore,
     ob_canary = Some (ex_canary, ex_world)\<rparr>"

definition ex_observe_env :: observe_env where
  "ex_observe_env = \<lparr>oe_healthy = True, oe_dropped = None, oe_now = 0, oe_phase = \<lparr>sm_up = True, sm_birdBusy = None, sm_applyBusy = None\<rparr>\<rparr>"

theorem pass_drives_canary_witness:
  "\<exists>rep cy' w'. (let s' = notify (mainObservers ex_inc_contract (\<lambda>_. []) ex_observe_env (\<lambda>x. x) (\<lambda>_. 2) 0 rw_flow rw_bird True)
        EdgeDesiredState_zero Result_zero None ex_observed
      in Last (ob_health s') = Some rep \<and> ob_canary s' = Some (cy', w')) \<and>
    hr_State rep = HealthDataPlaneDown \<and> rb_actF (snd w') = cy_wdContent ex_canary"
proof -
  let ?pfx = "Prefix (IPv4 9) 32" and ?lc = "\<lparr>lc_GlobalAdmin = 65000, lc_LocalData1 = 1, lc_LocalData2 = 2\<rparr>"
  let ?h0 = "NewHealthChecker ''edge'' None" and ?r0 = "Reconcile.New 0 0"
  define s' where "s' = notify (mainObservers ex_inc_contract (\<lambda>_. []) ex_observe_env (\<lambda>x. x) (\<lambda>_. 2) 0 rw_flow rw_bird True)
        EdgeDesiredState_zero Result_zero None ex_observed"
  have si: "synced_include rw_flow rw_bird rw_ok (\<lambda>w. rb_actF (snd w)) (\<lambda>_. False)"
    unfolding rw_flow_def by (rule rw_synced_include) (simp add: rw_part_def)
  have syn: "synced rw_flow (\<lambda>w. rb_actF (snd w)) (\<lambda>_. False) rw_ok (cy_applier ex_canary, ex_world)"
    by (simp add: synced_def ex_canary_def Let_def NewApplier_def ex_world_def rw_defs rw_ok_def)
  have cs: "cy_advContent ex_canary = renderCanary ?pfx ?lc True" "cy_wdContent ex_canary = renderCanary ?pfx ?lc False"
    by (simp_all add: ex_canary_def Let_def)
  have oc: "ob_canary ex_observed = Some (ex_canary, ex_world)" by (simp add: ex_observed_def)
  have sig: "(chaosSignal ^^ 1) (False, ?h0, ?r0) = (True, ob_health ex_observed, Wake ?r0)"
    by (simp add: chaosSignal_def SetForcedDataPlaneDown_def ex_observed_def)
  have applies: "snd (fst (ApplyBytes rw_flow rw_bird (renderCanary ?pfx ?lc False) (cy_applier ex_canary, ex_world))) = None"
    unfolding rw_flow_def using syn renderCanary_start [of ?pfx ?lc False]
    by (intro rw_ApplyBytes_ok [of _ _ rb_actF]) (auto simp: rw_part_def synced_def rb_valid_def ex_world_def)
  have "\<not> hc_forced ?h0" by (simp add: NewHealthChecker_def)
  from pass_drives_canary [OF si oc syn cs this sig s'_def] obtain rep cy' w' where
    r: "Last (ob_health s') = Some rep" "ob_canary s' = Some (cy', w')" "hr_State rep = HealthDataPlaneDown"
    and a: "canary_applied rw_flow (\<lambda>w. rb_actF (snd w)) (\<lambda>_. False) (renderCanary ?pfx ?lc (\<not> SoftDead ex_inc_contract rep))
      (snd (fst (ApplyBytes rw_flow rw_bird (renderCanary ?pfx ?lc (\<not> SoftDead ex_inc_contract rep)) (cy_applier ex_canary, ex_world))))
      (cy_applier ex_canary, ex_world) w'"
    by auto
  have "SoftDead ex_inc_contract rep" using r(3) by (simp add: ex_inc_contract_def)
  with a applies cs(2) have "rb_actF (snd w') = cy_wdContent ex_canary" by (simp add: canary_applied_def)
  with r show ?thesis unfolding s'_def Let_def by blast
qed

subsection \<open>The sensors' setup\<close>

text \<open>No stats reader leaks: over any polls, the readers opened successfully are those closed so far and the current one,
  and a failed reconnect keeps the reader it has.\<close>

lemma livePoll_readers:
  assumes "livePoll readBeat now busy opened (p, lr) = (tr, p', lr')"
  shows "lr_closed lr' @ [lr_current lr'] = lr_closed lr @ [lr_current lr] \<or>
    (\<exists>nr. opened = Inr nr \<and> lr_closed lr' @ [lr_current lr'] = lr_closed lr @ [lr_current lr, nr])"
  using assms by (auto simp: livePoll_def staleHook_def Let_def split: prod.splits if_splits sum.splits)

text \<open>The probe's target is always given to VPP as a prefix of the target: a printed address gets its host length.\<close>

lemma probePrefix_addr:
  assumes "Addr_IsValid a"
  shows "ParsePrefix (probePrefix (Addr_String a)) = Some (Prefix a (BitLen a))"
proof -
  have ns: "CHR ''/'' \<notin> set (Addr_String a)" by (rule Addr_String_no_slash [OF assms])
  have digits: "showInt 32 = ''32''" "showInt 128 = ''128''" by (simp_all add: showInt_def showBase.simps digitChar_def char_of_eq_iff take_bit_eq_mod)
  have "probePrefix (Addr_String a) = Prefix_String (Prefix a (BitLen a))"
    using assms ns ParseAddr_String [OF assms] by (cases a) (simp_all add: probePrefix_def Prefix_String_def Addr_IsValid_def digits)
  moreover have "Prefix_IsValid (Prefix a (BitLen a))" using assms by (cases a) (simp_all add: Addr_IsValid_def)
  ultimately show ?thesis by (simp add: ParsePrefix_String)
qed

text \<open>An unreadable gauge never counts against the path: the round only registers the target again, and the probe's
  verdict is what it was unless VPP restarted.\<close>

lemma pluginRound_unreadable:
  assumes "readGauge (probeGauge cfg) v = Inl e" and "rs_gen s = Some (fp_lastGen p)"
  shows "pluginRound cfg readGauge cli v = (Inl e, snd (cli (registerCmd cfg) v)) \<and>
    probe_round (s\<lparr>rs_ping := fst (pluginRound cfg readGauge cli v)\<rparr>) p = p"
  using assms by (simp add: pluginRound_def probe_round_def disarm_def)

text \<open>The metering keeps no reader it does not use: either the loop runs with it, or it is closed, or none was opened.\<close>

lemma startMetering_readers:
  "startMetering opened newSink cfg = (run, cl) \<Longrightarrow>
     (\<forall>r. opened = Inr r \<and> cg_MeteringEnable cfg \<and> cg_KafkaBrokers cfg \<noteq> [] \<longrightarrow> (\<exists>s. run = Some (r, s) \<and> cl = []) \<or> run = None \<and> cl = [r])"
  by (auto simp: startMetering_def split: if_splits sum.splits)

text \<open>A started agent has a valid configuration, and talks to the first of its endpoints.\<close>

lemma startup_ok:
  assumes "startup cfgErr cfg vppErr bird canarySetup dial w = (Inr (m, cy, ep), w')"
  shows "cfgErr = None \<and> vppErr = None \<and> dial ep = None \<and> (\<exists>rest. Bootstrap cfg = ep # rest)"
  using assms by (auto simp: startup_def split: option.splits sum.splits prod.splits list.splits)

text \<open>The options \<open>main\<close> passes keep the check of every required message on.\<close>

lemma vppDialOptions_check: "cc_compatMsgs (conn_config_of g (vppDialOptions cfg)) = RequiredMessages"
  by (simp add: conn_config_of_def vppDialOptions_def option_keeps_messages)

end
