(* ===== verification/Bird_Routes.thy ===== *)
theory Bird_Routes
  imports Netip_Parse Bird_Cli
begin

text \<open>
  \<open>ShowRouteExported\<close> of \<open>internal/bird/commands.go\<close>: which prefixes BIRD exports to a protocol. A line that consists
  of white space other than blanks and tabs would make the code index an empty slice: that panic is \<open>None\<close>.
\<close>

definition indented :: "string \<Rightarrow> bool" where
  "indented t \<longleftrightarrow> t = [] \<or> hd t = CHR '' '' \<or> hd t = CHR 0x09"

fun exportedLines :: "Line list \<Rightarrow> Prefix list \<Rightarrow> Prefix list option" where
  "exportedLines [] out = Some out"
| "exportedLines (l # ls) out =
     (if indented (ln_Text l) then exportedLines ls out
      else (case Fields (ln_Text l) of
              [] \<Rightarrow> None
            | first # _ \<Rightarrow>
                (case ParsePrefix first of
                   None \<Rightarrow> exportedLines ls out
                 | Some p \<Rightarrow> exportedLines ls (if p \<in> set out then out else out @ [p]))))"

definition ShowRouteExported :: "'b ctl \<Rightarrow> string \<Rightarrow> CtlClient \<times> 'b \<Rightarrow> (Prefix list \<times> error option) option \<times> (CtlClient \<times> 'b)" where
  "ShowRouteExported p proto s =
     (case Do p (''show route exported '' @ proto) s of
        ((Some reply, None), s') \<Rightarrow> (map_option (\<lambda>out. (out, None)) (exportedLines (ry_Lines reply) []), s')
      | ((_, err), s') \<Rightarrow> (Some ([], err), s'))"

subsection \<open>Exactly the exported prefixes\<close>

text \<open>BIRD prints the network at the start of a route's first line, indents the lines that follow, and heads each table with
  a line whose first word is not a prefix.\<close>

definition route_line :: "Prefix \<Rightarrow> string \<Rightarrow> string" where
  "route_line p rest = Prefix_String p @ CHR '' '' # rest"

definition other_line :: "string \<Rightarrow> bool" where
  "other_line t \<longleftrightarrow> indented t \<or> (\<exists>w ws. Fields t = w # ws \<and> ParsePrefix w = None)"

definition firsts :: "'a list \<Rightarrow> 'a list" where
  "firsts xs = foldl (\<lambda>out x. if x \<in> set out then out else out @ [x]) [] xs"

lemma firsts_props: "set (firsts xs) = set xs \<and> distinct (firsts xs)"
  by (induction xs rule: rev_induct) (auto simp: firsts_def)

lemma Prefix_String_nonspace: "Prefix_IsValid p \<Longrightarrow> c \<in> set (Prefix_String p) \<Longrightarrow> \<not> isSpace c"
proof -
  assume v: "Prefix_IsValid p" and c: "c \<in> set (Prefix_String p)"
  obtain a b where p: "p = Prefix a b" by (cases p)
  have ff: "isHex CHR ''f''" by (simp add: isHex_def)
  have h: "isHex c \<Longrightarrow> \<not> isSpace c" by (auto simp: isHex_def isDigit_def isSpace_def)
  have "c \<in> set (Addr_String a) \<or> c = CHR ''/'' \<or> isDigit c"
    using v c dec_digits [of "nat b"] by (auto simp: Prefix_String_def p showInt_def list_all_iff)
  moreover have "c \<in> set (Addr_String a) \<Longrightarrow> isHex c \<or> c = CHR '':'' \<or> c = CHR ''.''"
    using ff v by (cases a) (auto simp: p dest!: v4String_chars v6String_chars split: if_splits)
  ultimately show "\<not> isSpace c" using h digit_not_space by (auto simp: isSpace_def)
qed

lemma Fields_route:
  assumes "Prefix_IsValid p"
  shows "\<exists>ws. Fields (route_line p rest) = Prefix_String p # ws" and "\<not> indented (route_line p rest)"
proof -
  have ns: "\<forall>c \<in> set (Prefix_String p). \<not> isSpace c" using Prefix_String_nonspace [OF assms] by blast
  have ne: "Prefix_String p \<noteq> []" by (simp add: Prefix_String_def)
  then obtain d u where d: "Prefix_String p = d # u" by (cases "Prefix_String p") auto
  have "isSpace CHR '' ''" by (simp add: isSpace_def)
  then have "takeWhile (\<lambda>c. \<not> isSpace c) (route_line p rest) = Prefix_String p"
    using ns by (simp add: route_line_def takeWhile_append2)
  moreover have "dropWhile isSpace (route_line p rest) = route_line p rest" using ns d by (simp add: route_line_def)
  ultimately show "\<exists>ws. Fields (route_line p rest) = Prefix_String p # ws"
    using ne by (subst Fields.simps) (simp add: route_line_def Let_def)
  have "\<not> isSpace d" using ns by (simp add: d)
  moreover have "isSpace CHR '' ''" "isSpace CHR 0x09" by (simp_all add: isSpace_def)
  ultimately have "d \<noteq> CHR '' ''" "d \<noteq> CHR 0x09" by metis+
  then show "\<not> indented (route_line p rest)" by (simp add: indented_def route_line_def d)
qed

text \<open>An output: per line, the route it starts (if any) and the text after it.\<close>

definition line_text :: "Prefix option \<times> string \<Rightarrow> string" where
  "line_text x = (case x of (Some p, rest) \<Rightarrow> route_line p rest | (None, t) \<Rightarrow> t)"

definition printable :: "Prefix option \<times> string \<Rightarrow> bool" where
  "printable x \<longleftrightarrow> (case x of (Some p, rest) \<Rightarrow> Prefix_IsValid p | (None, t) \<Rightarrow> other_line t)"

definition routes_of :: "(Prefix option \<times> string) list \<Rightarrow> Prefix list" where
  "routes_of xs = map the (filter (\<lambda>x. x \<noteq> None) (map fst xs))"

lemma exportedLines_run:
  assumes "map ln_Text ls = map line_text xs" and "list_all printable xs"
  shows "exportedLines ls out = Some (foldl (\<lambda>out x. if x \<in> set out then out else out @ [x]) out (routes_of xs))"
  using assms
proof (induction xs arbitrary: ls out)
  case (Cons x xs)
  then obtain l ls' where ls: "ls = l # ls'" "ln_Text l = line_text x" "map ln_Text ls' = map line_text xs" by (cases ls) auto
  note IH = Cons.IH [OF ls(3)]
  obtain po t where x: "x = (po, t)" by (cases x)
  show ?case
  proof (cases po)
    case None
    then have "other_line t" using Cons.prems(2) by (simp add: printable_def x)
    then show ?thesis using IH Cons.prems(2) None by (auto simp: ls x line_text_def other_line_def routes_of_def)
  next
    case (Some p)
    then have v: "Prefix_IsValid p" using Cons.prems(2) by (simp add: printable_def x)
    obtain ws where "Fields (route_line p t) = Prefix_String p # ws" using Fields_route(1) [OF v] by blast
    then show ?thesis
      using IH Cons.prems(2) Some Fields_route(2) [OF v] ParsePrefix_String [OF v] by (simp add: ls x line_text_def routes_of_def)
  qed
qed (simp add: routes_of_def)

text \<open>C22: the exported prefixes are read exactly. When BIRD answers with any number of route lines (each starting with the
  printed form of a valid prefix, IPv4 or IPv6 in any of its printed forms, followed by anything), mixed with
  indented lines and table headings, \<open>ShowRouteExported\<close> does not panic and returns every prefix that starts a line, once,
  in the order of first appearance, and no other.\<close>

theorem exported_prefixes_exact:
  assumes "Do p (''show route exported '' @ proto) s = ((Some reply, None), s')"
    and "map ln_Text (ry_Lines reply) = map line_text xs" and "list_all printable xs"
  shows "ShowRouteExported p proto s = (Some (firsts (routes_of xs), None), s') \<and>
    distinct (firsts (routes_of xs)) \<and> set (firsts (routes_of xs)) = {q. \<exists>rest. (Some q, rest) \<in> set xs}"
proof -
  have "set (routes_of xs) = {q. \<exists>rest. (Some q, rest) \<in> set xs}" by (force simp: routes_of_def)
  then show ?thesis
    using exportedLines_run [OF assms(2,3), of "[]"] firsts_props [of "routes_of xs"]
    unfolding ShowRouteExported_def assms(1) by (simp add: firsts_def)
qed

text \<open>A BIRD that exports a route with two paths, printed with a table heading and an indented line.\<close>

definition ex_exported :: "(Prefix option \<times> string) list" where
  "ex_exported = [(None, ''Table master4:''), (Some (Prefix (IPv4 0x0A000000) 8), ''unicast''), (None, '' via eth0''),
     (Some (Prefix (IPv4 0x0A000000) 8), ''unicast''), (None, [])]"

definition ex_routes_ctl :: "unit ctl" where
  "ex_routes_ctl =
     \<lparr>ct_dial = (\<lambda>b. (None, b)), ct_deadline = (\<lambda>_ b. (True, b)),
      ct_write = (\<lambda>n _ b. (Some (printReply (map (Coded 1007 \<circ> line_text) (butlast ex_exported)) 0 []), b))\<rparr>"

theorem exported_prefixes_exact_witness:
  "fst (ShowRouteExported ex_routes_ctl ''up1'' (ex_client 0, ())) = Some ([Prefix (IPv4 0x0A000000) 8], None)"
proof -
  let ?p = "Prefix (IPv4 0x0A000000) 8"
  have v: "Prefix_IsValid ?p" by simp
  have "CHR 0x0A \<notin> set (Prefix_String ?p)" using Prefix_String_nonspace [OF v, of "CHR 0x0A"] by (auto simp: isSpace_def)
  then have ok: "reply_ok (map (Coded 1007 \<circ> line_text) (butlast ex_exported)) 0 []"
    by (simp add: reply_ok_def text_ok_def ex_exported_def line_text_def route_line_def)
  define reply where "reply = meaning (map (Coded 1007 \<circ> line_text) (butlast ex_exported)) 0 []"
  have d: "Do ex_routes_ctl (''show route exported '' @ ''up1'') (ex_client 0, ()) = ((Some reply, None), (ex_client 0, ()))"
    using readReply_meaning [OF ok, of "[]"] by (simp add: Do_def ex_client_def ex_routes_ctl_def reply_def) (simp add: meaning_def)
  have t: "map ln_Text (ry_Lines reply) = map line_text ex_exported"
    by (simp add: reply_def meaning_def ex_exported_def line_text_def)
  have "Fields ''Table master4:'' = [''Table'', ''master4:'']" by code_simp
  then have "other_line ''Table master4:''" by (simp add: other_line_def ParsePrefix_def)
  then have "list_all printable ex_exported" by (simp add: printable_def ex_exported_def) (simp add: other_line_def indented_def)
  from exported_prefixes_exact [OF d t this] show ?thesis by (simp add: ex_exported_def routes_of_def firsts_def)
qed

end
