(* ===== verification/Grpc_Client.thy ===== *)
theory Grpc_Client
  imports Agent_Loop
begin

text \<open>
  \<open>internal/grpcclient/client.go\<close>: the downlink from the controller. The callbacks wired by the options are
  functions on the state \<open>'x\<close> of the application (\<open>None\<close> when an option is absent); \<open>agent_handlers\<close> is the
  wiring of \<open>main\<close>. The payload decoders stand for \<open>json.Unmarshal\<close> into the contract's types, and the
  gRPC calls for the responses carried by \<open>conn_attempt\<close>.
\<close>

subsection \<open>Reassembly of chunked snapshots\<close>

record chunkAssembler =
  ca_epoch :: u64
  ca_active :: bool
  ca_bySeq :: "(u32, EdgeDesiredStateChunk) gomap"

definition reset :: chunkAssembler where
  "reset = \<lparr>ca_epoch = 0, ca_active = False, ca_bySeq = []\<rparr>"

text \<open>The loop that collects the fragments \<open>i, \<dots>, lastSeq\<close>. The counter is a \<open>uint32\<close>, so the loop may not
  return when \<open>lastSeq\<close> is the largest one: \<open>None\<close>. \<open>Inl i\<close> is the early exit at a missing fragment.\<close>

partial_function (option) gatherChunks ::
    "(u32, EdgeDesiredStateChunk) gomap \<Rightarrow> u32 \<Rightarrow> u32 \<Rightarrow> EdgeDesiredStateChunk list \<Rightarrow> (u32 + EdgeDesiredStateChunk list) option" where
  [code]: "gatherChunks m lastSeq i ordered =
     (if i \<le> lastSeq
      then (case gm_get m i of
              None \<Rightarrow> Some (Inl i)
            | Some frag \<Rightarrow> gatherChunks m lastSeq (i + 1) (ordered @ [frag]))
      else Some (Inr ordered))"

text \<open>\<open>acceptChunk\<close>, with the state it hands to \<open>onDesired\<close>, if any.\<close>

definition supersede :: "EdgeDesiredStateChunk \<Rightarrow> chunkAssembler \<Rightarrow> chunkAssembler option" where
  "supersede ch a =
     (if \<not> ca_active a \<or> ca_epoch a < ch_Epoch ch then Some \<lparr>ca_epoch = ch_Epoch ch, ca_active = True, ca_bySeq = []\<rparr>
      else if ch_Epoch ch < ca_epoch a then None
      else Some a)"

definition acceptChunk ::
    "contract_fns \<Rightarrow> EdgeDesiredStateChunk \<Rightarrow> chunkAssembler \<Rightarrow> (EdgeDesiredState option \<times> chunkAssembler) option" where
  "acceptChunk c ch a0 =
     (case supersede ch a0 of
        None \<Rightarrow> Some (None, a0)
      | Some a1 \<Rightarrow>
          (let a = a1\<lparr>ca_bySeq := gm_put (ch_Seq ch) ch (ca_bySeq a1)\<rparr>
           in if \<not> ch_Last ch then Some (None, a)
              else (case gatherChunks (ca_bySeq a) (ch_Seq ch) 0 [] of
                      None \<Rightarrow> None
                    | Some (Inl missing) \<Rightarrow> Some (None, reset)
                    | Some (Inr ordered) \<Rightarrow>
                        (let st = AssembleChunks c ordered
                         in if es_SchemaVersion st \<noteq> SchemaVersion c then Some (None, reset)
                            else Some (Some st, reset)))))"

subsection \<open>Dispatch\<close>

datatype directive_kind = DESIRED_STATE | DESIRED_STATE_CHUNK | DESIRED_DELTA | OtherKind

record Directive =
  dr_Kind :: directive_kind
  dr_Payload :: bytes

record unmarshal =
  um_state :: "bytes \<Rightarrow> EdgeDesiredState option"
  um_chunk :: "bytes \<Rightarrow> EdgeDesiredStateChunk option"
  um_delta :: "bytes \<Rightarrow> EdgeDesiredDelta option"

record 'x handlers =
  h_onDesired :: "(EdgeDesiredState \<Rightarrow> 'x \<Rightarrow> 'x) option"
  h_onDelta :: "(EdgeDesiredDelta \<Rightarrow> 'x \<Rightarrow> 'x) option"
  h_onConnUp :: "('x \<Rightarrow> 'x) option"
  h_onConnDown :: "('x \<Rightarrow> 'x) option"

definition call :: "('a \<Rightarrow> 'x \<Rightarrow> 'x) option \<Rightarrow> 'a \<Rightarrow> 'x \<Rightarrow> 'x" where
  "call h a x = (case h of None \<Rightarrow> x | Some f \<Rightarrow> f a x)"

definition dispatch ::
    "contract_fns \<Rightarrow> unmarshal \<Rightarrow> 'x handlers \<Rightarrow> Directive \<Rightarrow> chunkAssembler \<times> 'x \<Rightarrow> (chunkAssembler \<times> 'x) option" where
  "dispatch c um h d s =
     (case s of (a, x) \<Rightarrow>
       (case dr_Kind d of
          DESIRED_STATE \<Rightarrow>
            Some (a, (case um_state um (dr_Payload d) of
                        None \<Rightarrow> x
                      | Some st \<Rightarrow> if es_SchemaVersion st \<noteq> SchemaVersion c then x else call (h_onDesired h) st x))
        | DESIRED_STATE_CHUNK \<Rightarrow>
            (case um_chunk um (dr_Payload d) of
               None \<Rightarrow> Some (a, x)
             | Some ch \<Rightarrow>
                 map_option (\<lambda>(out, a'). (a', case out of None \<Rightarrow> x | Some st \<Rightarrow> call (h_onDesired h) st x)) (acceptChunk c ch a))
        | DESIRED_DELTA \<Rightarrow>
            Some (a, (case um_delta um (dr_Payload d) of
                        None \<Rightarrow> x
                      | Some delta \<Rightarrow> if ed_SchemaVersion delta \<noteq> SchemaVersion c then x else call (h_onDelta h) delta x))
        | OtherKind \<Rightarrow> Some (a, x)))"

subsection \<open>Registration and the connection loop\<close>

record RegisterResponse =
  rr_Accepted :: bool
  rr_SchemaVersion :: int

definition Register :: "error + RegisterResponse \<Rightarrow> error option" where
  "Register resp =
     (case resp of
        Inl e \<Rightarrow> Some e
      | Inr r \<Rightarrow> if \<not> rr_Accepted r then Some (ErrRejected (rr_SchemaVersion r)) else None)"

definition connState :: "'x handlers \<Rightarrow> bool \<Rightarrow> 'x \<Rightarrow> 'x" where
  "connState h up x =
     (if up \<and> h_onConnUp h \<noteq> None then call (map_option (\<lambda>f _. f) (h_onConnUp h)) () x
      else if \<not> up \<and> h_onConnDown h \<noteq> None then call (map_option (\<lambda>f _. f) (h_onConnDown h)) () x
      else x)"

fun dispatchAll ::
    "contract_fns \<Rightarrow> unmarshal \<Rightarrow> 'x handlers \<Rightarrow> Directive list \<Rightarrow> chunkAssembler \<times> 'x \<Rightarrow> (chunkAssembler \<times> 'x) option" where
  "dispatchAll c um h [] s = Some s"
| "dispatchAll c um h (d # ds) s = (case dispatch c um h d s of None \<Rightarrow> None | Some s' \<Rightarrow> dispatchAll c um h ds s')"

text \<open>\<open>subscribeOnce\<close>: the call to \<open>Subscribe\<close> fails, or the stream delivers directives until \<open>Recv\<close> fails. It
  always returns an error.\<close>

definition subscribeOnce ::
    "contract_fns \<Rightarrow> unmarshal \<Rightarrow> 'x handlers \<Rightarrow> error + Directive list \<Rightarrow> chunkAssembler \<times> 'x \<Rightarrow> (chunkAssembler \<times> 'x) option" where
  "subscribeOnce c um h stream s =
     (case stream of
        Inl e \<Rightarrow> Some s
      | Inr ds \<Rightarrow> dispatchAll c um h ds (reset, snd s))"

text \<open>One iteration of \<open>RunDirect\<close>: the response to \<open>Register\<close>, the subscription, and whether the context is
  already cancelled when the respective call returns.\<close>

record conn_attempt =
  at_register :: "error + RegisterResponse"
  at_cancelled :: bool
  at_stream :: "error + Directive list"

definition attempt ::
    "contract_fns \<Rightarrow> unmarshal \<Rightarrow> 'x handlers \<Rightarrow> conn_attempt \<Rightarrow> chunkAssembler \<times> 'x \<Rightarrow> (chunkAssembler \<times> 'x) option" where
  "attempt c um h t s =
     (case Register (at_register t) of
        Some e \<Rightarrow> Some (if at_cancelled t then s else (fst s, connState h False (snd s)))
      | None \<Rightarrow>
          map_option (\<lambda>s'. if at_cancelled t then s' else (fst s', connState h False (snd s')))
            (subscribeOnce c um h (at_stream t) (fst s, connState h True (snd s))))"

fun RunDirect ::
    "contract_fns \<Rightarrow> unmarshal \<Rightarrow> 'x handlers \<Rightarrow> conn_attempt list \<Rightarrow> chunkAssembler \<times> 'x \<Rightarrow> (chunkAssembler \<times> 'x) option" where
  "RunDirect c um h [] s = Some s"
| "RunDirect c um h (t # ts) s =
     (case attempt c um h t s of
        None \<Rightarrow> None
      | Some s' \<Rightarrow> if at_cancelled t then Some s' else RunDirect c um h ts s')"

text \<open>The wiring of \<open>main\<close>: pushes go to \<open>onDesired\<close>, deltas to the reconcile queue, and the connection state
  to the store. \<open>now\<close> is the clock read by the store.\<close>

definition agent_handlers :: "int \<Rightarrow> 'v agent handlers" where
  "agent_handlers now =
     \<lparr>h_onDesired = Some (onDesired now), h_onDelta = Some (\<lambda>d. onRecon (SubmitDelta d)),
      h_onConnUp = Some (\<lambda>a. a\<lparr>ag_store := ControllerUp (ag_store a)\<rparr>),
      h_onConnDown = Some (\<lambda>a. a\<lparr>ag_store := ControllerDown (ag_store a)\<rparr>)\<rparr>"

subsection \<open>The collecting loop\<close>

lemma gatherChunks_step:
  fixes lastSeq i :: u32
  assumes "lastSeq \<noteq> - 1" and "i \<le> lastSeq"
  shows "unat (i + 1) = Suc (unat i)"
proof -
  have "unat lastSeq \<noteq> unat (- 1 :: u32)" using assms(1) word_unat_eq_iff by blast
  moreover have "unat (- 1 :: u32) = 2 ^ 32 - 1" by (simp add: unsigned_minus_1_eq_mask mask_eq_exp_minus_1)
  moreover have "unat lastSeq < 2 ^ 32" using unsigned_less [of lastSeq] by simp
  moreover have "unat i \<le> unat lastSeq" using assms(2) by (simp add: word_le_nat_alt)
  ultimately have "Suc (unat i) < 2 ^ 32" by linarith
  then show ?thesis by (simp add: unat_word_ariths)
qed

text \<open>For every last sequence number but the largest the loop returns: the fragments in order, or the first
  missing number.\<close>

lemma gatherChunks_returns:
  assumes "lastSeq \<noteq> - 1" and "unat i \<le> Suc (unat lastSeq)"
  shows "gatherChunks m lastSeq i acc = Some (
     case find (\<lambda>j. gm_get m (of_nat j) = None) [unat i ..< Suc (unat lastSeq)] of
       Some j \<Rightarrow> Inl (of_nat j)
     | None \<Rightarrow> Inr (acc @ map (\<lambda>j. the (gm_get m (of_nat j))) [unat i ..< Suc (unat lastSeq)]))"
  using assms(2)
proof (induction "Suc (unat lastSeq) - unat i" arbitrary: i acc)
  case 0
  then have "\<not> i \<le> lastSeq" by (simp add: word_le_nat_alt)
  with 0 show ?case by (simp add: gatherChunks.simps [of m lastSeq i])
next
  case (Suc n)
  then have le: "i \<le> lastSeq" by (simp add: word_le_nat_alt)
  note next_i = gatherChunks_step [OF assms(1) le]
  have upt: "[unat i ..< Suc (unat lastSeq)] = unat i # [unat (i + 1) ..< Suc (unat lastSeq)]"
    using le by (simp add: upt_rec [of "unat i"] next_i word_le_nat_alt del: upt_Suc)
  show ?case
  proof (cases "gm_get m i")
    case None
    then show ?thesis using le by (simp add: gatherChunks.simps [of m lastSeq i] upt del: upt_Suc)
  next
    case (Some frag)
    have "gatherChunks m lastSeq i acc = gatherChunks m lastSeq (i + 1) (acc @ [frag])"
      using le Some by (simp add: gatherChunks.simps [of m lastSeq i])
    moreover have "n = Suc (unat lastSeq) - unat (i + 1)" and "unat (i + 1) \<le> Suc (unat lastSeq)"
      using Suc.hyps(2) le by (simp_all add: next_i word_le_nat_alt)
    ultimately show ?thesis
      using Suc.hyps(1) [of "i + 1" "acc @ [frag]"] Some
      by (simp add: upt del: upt_Suc split: option.splits)
  qed
qed

lemma gatherChunks_Inr:
  assumes "lastSeq \<noteq> - 1" and "gatherChunks m lastSeq 0 [] = Some (Inr fs)"
  shows "length fs = Suc (unat lastSeq) \<and> (\<forall>i < length fs. gm_get m (of_nat i) = Some (fs ! i))"
proof -
  have "find (\<lambda>j. gm_get m (of_nat j) = None) [0 ..< Suc (unat lastSeq)] = None"
    and fs: "fs = map (\<lambda>j. the (gm_get m (of_nat j))) [0 ..< Suc (unat lastSeq)]"
    using assms gatherChunks_returns [OF assms(1), of 0 m "[]"] by (simp_all del: upt_Suc split: option.splits)
  then have "\<forall>j < Suc (unat lastSeq). gm_get m (of_nat j) \<noteq> None"
    by (auto simp: find_None_iff simp del: upt_Suc)
  moreover have "length fs = Suc (unat lastSeq)" by (simp add: fs)
  moreover have "fs ! i = the (gm_get m (of_nat i))" if "i < Suc (unat lastSeq)" for i
    using that unfolding fs by (simp del: upt_Suc)
  ultimately show ?thesis by auto
qed

lemma gatherChunks_complete:
  assumes "lastSeq \<noteq> - 1" and "length fs = Suc (unat lastSeq)"
    and "\<And>i. i < length fs \<Longrightarrow> gm_get m (of_nat i) = Some (fs ! i)"
  shows "gatherChunks m lastSeq 0 [] = Some (Inr fs)"
proof -
  have "find (\<lambda>j. gm_get m (of_nat j) = None) [0 ..< length fs] = None"
    using assms(3) by (auto simp: find_None_iff)
  moreover have "map (\<lambda>j. the (gm_get m (of_nat j))) [0 ..< length fs] = fs"
    using assms(3) by (auto intro!: nth_equalityI)
  ultimately show ?thesis
    using gatherChunks_returns [OF assms(1), of 0 m "[]"] assms(2) by (simp del: upt_Suc)
qed

subsection \<open>What the assembler holds\<close>

fun acceptAll ::
    "contract_fns \<Rightarrow> EdgeDesiredStateChunk list \<Rightarrow> chunkAssembler \<Rightarrow> (EdgeDesiredState option list \<times> chunkAssembler) option" where
  "acceptAll c [] a = Some ([], a)"
| "acceptAll c (ch # cs) a =
     (case acceptChunk c ch a of
        None \<Rightarrow> None
      | Some (out, a') \<Rightarrow> map_option (\<lambda>(outs, b). (out # outs, b)) (acceptAll c cs a'))"

text \<open>Every buffered fragment was received on this stream, belongs to the epoch being assembled and sits under
  its own sequence number.\<close>

definition asm_inv :: "EdgeDesiredStateChunk set \<Rightarrow> chunkAssembler \<Rightarrow> bool" where
  "asm_inv H a \<longleftrightarrow>
     (\<forall>q ch. gm_get (ca_bySeq a) q = Some ch \<longrightarrow> ch \<in> H \<and> ca_active a \<and> ch_Epoch ch = ca_epoch a \<and> ch_Seq ch = q)"

lemma asm_invD:
  "asm_inv H a \<Longrightarrow> gm_get (ca_bySeq a) q = Some ch \<Longrightarrow>
     ch \<in> H \<and> ca_active a \<and> ch_Epoch ch = ca_epoch a \<and> ch_Seq ch = q"
  by (simp add: asm_inv_def)

lemma asm_inv_reset [simp]: "asm_inv H reset"
  by (simp add: asm_inv_def reset_def)

lemma asm_inv_mono: "asm_inv H a \<Longrightarrow> H \<subseteq> H' \<Longrightarrow> asm_inv H' a"
  by (auto simp: asm_inv_def)

lemma supersede_inv:
  assumes "asm_inv H a" and "supersede ch a = Some a1"
  shows "asm_inv H a1 \<and> ca_active a1 \<and> ca_epoch a1 = ch_Epoch ch"
proof (cases "\<not> ca_active a \<or> ca_epoch a < ch_Epoch ch")
  case False
  then show ?thesis using assms by (auto simp: supersede_def split: if_splits)
qed (use assms in \<open>auto simp: supersede_def asm_inv_def\<close>)

lemma put_inv:
  assumes "asm_inv H a" and "ca_active a" and "ca_epoch a = ch_Epoch ch"
  shows "asm_inv (insert ch H) (a\<lparr>ca_bySeq := gm_put (ch_Seq ch) ch (ca_bySeq a)\<rparr>)"
  using assms by (auto simp: asm_inv_def gm_simps)

lemma acceptChunk_inv:
  assumes "asm_inv H a" and "acceptChunk c ch a = Some (out, a')"
  shows "asm_inv (insert ch H) a'"
proof (cases "supersede ch a")
  case None
  then show ?thesis using assms asm_inv_mono [of H a "insert ch H"] by (auto simp: acceptChunk_def)
next
  case (Some a1)
  then have "asm_inv (insert ch H) (a1\<lparr>ca_bySeq := gm_put (ch_Seq ch) ch (ca_bySeq a1)\<rparr>)"
    using assms(1) supersede_inv put_inv by blast
  then show ?thesis
    using assms(2) Some by (auto simp: acceptChunk_def Let_def split: if_splits option.splits sum.splits)
qed

lemma acceptAll_inv:
  "asm_inv H a \<Longrightarrow> acceptAll c cs a = Some (outs, a') \<Longrightarrow> asm_inv (set cs \<union> H) a'"
proof (induction cs arbitrary: a H outs)
  case (Cons ch cs)
  from Cons.prems(2) obtain out b outs' where b: "acceptChunk c ch a = Some (out, b)" "acceptAll c cs b = Some (outs', a')"
    by (auto split: option.splits)
  from Cons.IH [OF acceptChunk_inv [OF Cons.prems(1) b(1)] b(2)] show ?case by simp
qed simp

text \<open>C6: a partial snapshot is never applied. Whatever chunks a stream has delivered, in any order and from any
  number of abandoned snapshots, a state handed on for application was assembled from the fragments
  \<open>0, \<dots>, n\<close> of a single epoch, each received on this stream and each in its place, the last of them being
  the chunk marked last that completed it; and the buffer is empty afterwards. (The marked chunk's number
  is not the largest \<open>uint32\<close>.)\<close>

theorem never_partial_snapshot:
  assumes "acceptAll c cs reset = Some (outs, a)" and "acceptChunk c ch a = Some (Some st, a')" and "ch_Seq ch \<noteq> - 1"
  shows "\<exists>frags. st = AssembleChunks c frags \<and> length frags = Suc (unat (ch_Seq ch)) \<and> last frags = ch \<and>
    (\<forall>i < length frags. ch_Seq (frags ! i) = of_nat i \<and> ch_Epoch (frags ! i) = ch_Epoch ch \<and> frags ! i \<in> set (cs @ [ch])) \<and>
    ch_Last ch \<and> es_SchemaVersion st = SchemaVersion c \<and> a' = reset"
proof -
  have inv: "asm_inv (set cs) a" using acceptAll_inv [OF asm_inv_reset assms(1), of "{}"] by simp
  obtain a1 where a1: "supersede ch a = Some a1"
    using assms(2) by (cases "supersede ch a") (auto simp: acceptChunk_def)
  let ?m = "gm_put (ch_Seq ch) ch (ca_bySeq a1)"
  have m: "asm_inv (insert ch (set cs)) (a1\<lparr>ca_bySeq := ?m\<rparr>)" and ep: "ca_epoch a1 = ch_Epoch ch"
    using supersede_inv [OF inv a1] by (auto intro!: put_inv)
  obtain frags where g: "gatherChunks ?m (ch_Seq ch) 0 [] = Some (Inr frags)"
    and rest: "st = AssembleChunks c frags" "ch_Last ch" "es_SchemaVersion st = SchemaVersion c" "a' = reset"
    using assms(2) a1 by (auto simp: acceptChunk_def Let_def split: if_splits option.splits sum.splits)
  from gatherChunks_Inr [OF assms(3) g] have len: "length frags = Suc (unat (ch_Seq ch))"
    and at: "\<And>i. i < length frags \<Longrightarrow> gm_get ?m (of_nat i) = Some (frags ! i)" by auto
  have "last frags = ch"
    using at [of "unat (ch_Seq ch)"] len by (simp add: last_conv_nth gm_simps flip: length_0_conv)
  moreover have "\<forall>i < length frags. ch_Seq (frags ! i) = of_nat i \<and> ch_Epoch (frags ! i) = ch_Epoch ch \<and>
      frags ! i \<in> set (cs @ [ch])"
  proof (intro allI impI)
    fix i assume "i < length frags"
    from asm_invD [OF m, of "of_nat i" "frags ! i"] at [OF this]
    have "frags ! i \<in> insert ch (set cs) \<and> ch_Epoch (frags ! i) = ca_epoch a1 \<and> ch_Seq (frags ! i) = of_nat i" by simp
    then show "ch_Seq (frags ! i) = of_nat i \<and> ch_Epoch (frags ! i) = ch_Epoch ch \<and> frags ! i \<in> set (cs @ [ch])"
      using ep by auto
  qed
  ultimately show ?thesis using rest len by blast
qed

subsection \<open>A chunked snapshot is a snapshot\<close>

definition chunk_directive :: "unmarshal \<Rightarrow> Directive \<Rightarrow> EdgeDesiredStateChunk \<Rightarrow> bool" where
  "chunk_directive um d ch \<longleftrightarrow> dr_Kind d = DESIRED_STATE_CHUNK \<and> um_chunk um (dr_Payload d) = Some ch"

definition handOn :: "'x handlers \<Rightarrow> EdgeDesiredState option \<Rightarrow> 'x \<Rightarrow> 'x" where
  "handOn h out x = (case out of None \<Rightarrow> x | Some st \<Rightarrow> call (h_onDesired h) st x)"

lemma dispatch_chunk:
  "chunk_directive um d ch \<Longrightarrow> dispatch c um h d (a, x) = map_option (\<lambda>(out, a'). (a', handOn h out x)) (acceptChunk c ch a)"
  by (simp add: chunk_directive_def dispatch_def handOn_def)

lemma dispatchAll_chunks:
  assumes "list_all2 (chunk_directive um) ds cs"
  shows "dispatchAll c um h ds (a, x) = map_option (\<lambda>(outs, a'). (a', fold (handOn h) outs x)) (acceptAll c cs a)"
  using assms
proof (induction ds cs arbitrary: a x rule: list_all2_induct)
  case (Cons d ds ch cs)
  show ?case
  proof (cases "acceptChunk c ch a")
    case (Some r)
    obtain out b where "r = (out, b)" by (cases r)
    then show ?thesis
      using Some Cons.IH [of b "handOn h out x"] by (cases "acceptAll c cs b") (auto simp: dispatch_chunk [OF Cons.hyps(1)])
  qed (simp add: dispatch_chunk [OF Cons.hyps(1)])
qed simp

lemma acceptAll_snoc:
  "acceptAll c cs a = Some (outs, b) \<Longrightarrow> acceptChunk c ch b = Some (out, b') \<Longrightarrow>
     acceptAll c (cs @ [ch]) a = Some (outs @ [out], b')"
proof (induction cs arbitrary: a outs)
  case (Cons d cs)
  from Cons.prems(1) obtain o1 a1 outs' where "acceptChunk c d a = Some (o1, a1)" "acceptAll c cs a1 = Some (outs', b)" "outs = o1 # outs'"
    by (auto split: option.splits)
  with Cons.IH [of a1 outs'] Cons.prems(2) show ?case by simp
qed simp

lemma handOn_None [simp]: "(handOn h None ^^ n) x = x"
  by (induction n) (simp_all add: handOn_def)

definition snapshot_chunks :: "u64 \<Rightarrow> EdgeDesiredStateChunk list \<Rightarrow> bool" where
  "snapshot_chunks e frags \<longleftrightarrow> frags \<noteq> [] \<and> length frags < 2 ^ 32 \<and>
     (\<forall>i < length frags. ch_Seq (frags ! i) = of_nat i \<and> ch_Epoch (frags ! i) = e \<and> (ch_Last (frags ! i) \<longleftrightarrow> Suc i = length frags))"

definition freshAsm :: "u64 \<Rightarrow> chunkAssembler" where
  "freshAsm e = \<lparr>ca_epoch = e, ca_active = True, ca_bySeq = []\<rparr>"

definition holdsFrags :: "u64 \<Rightarrow> EdgeDesiredStateChunk set \<Rightarrow> chunkAssembler \<Rightarrow> bool" where
  "holdsFrags e D a \<longleftrightarrow> ca_active a \<and> ca_epoch a = e \<and> (\<forall>ch \<in> D. gm_get (ca_bySeq a) (ch_Seq ch) = Some ch)"

lemma snapshot_seq_inject:
  assumes "snapshot_chunks e frags" and "f \<in> set frags" and "g \<in> set frags" and "ch_Seq f = ch_Seq g"
  shows "f = g"
proof -
  obtain i j where ij: "i < length frags" "f = frags ! i" "j < length frags" "g = frags ! j"
    using assms(2,3) by (auto simp: in_set_conv_nth)
  then have "(of_nat i :: u32) = of_nat j" and "i < 2 ^ 32" and "j < 2 ^ 32"
    using assms(1,4) by (auto simp: snapshot_chunks_def)
  then have "unat (of_nat i :: u32) = unat (of_nat j :: u32)" by simp
  then show ?thesis using \<open>i < 2 ^ 32\<close> \<open>j < 2 ^ 32\<close> ij by (simp add: unat_of_nat)
qed

lemma supersede_first:
  "\<not> ca_active a \<or> ca_epoch a < ch_Epoch ch \<Longrightarrow> supersede ch a = supersede ch (freshAsm (ch_Epoch ch))"
  by (auto simp: supersede_def freshAsm_def)

lemma acceptAll_first:
  assumes "cs \<noteq> []" and "ch_Epoch (hd cs) = e" and "\<not> ca_active a \<or> ca_epoch a < e"
  shows "acceptAll c cs a = acceptAll c cs (freshAsm e)"
proof -
  obtain ch rest where cs: "cs = ch # rest" using assms(1) by (cases cs) auto
  have eq: "supersede ch a = supersede ch (freshAsm e)" using assms(2,3) cs supersede_first by auto
  moreover have "supersede ch (freshAsm e) \<noteq> None" using assms(2) cs by (simp add: supersede_def freshAsm_def)
  ultimately have "acceptChunk c ch a = acceptChunk c ch (freshAsm e)"
    by (auto simp: acceptChunk_def)
  then show ?thesis by (simp add: cs)
qed

lemma acceptChunk_holds:
  assumes "snapshot_chunks e frags" and "D \<subseteq> set frags" and "holdsFrags e D a"
    and "ch \<in> set (butlast frags) \<or> ch_Epoch ch < e"
  shows "\<exists>a'. acceptChunk c ch a = Some (None, a') \<and> holdsFrags e (D \<union> ({ch} \<inter> set frags)) a'"
proof (cases "ch_Epoch ch < e")
  case True
  then have "ch \<notin> set frags" using assms(1) by (auto simp: snapshot_chunks_def in_set_conv_nth)
  with True show ?thesis using assms(3) by (auto simp: acceptChunk_def supersede_def holdsFrags_def)
next
  case False
  with assms(4) obtain i where i: "i < length (butlast frags)" "ch = butlast frags ! i" by (metis in_set_conv_nth)
  then have "ch = frags ! i" "i < length frags" "Suc i \<noteq> length frags" by (auto simp: nth_butlast)
  with assms(1) have ch: "ch_Epoch ch = e" "\<not> ch_Last ch" "ch \<in> set frags" by (auto simp: snapshot_chunks_def)
  have "gm_get (gm_put (ch_Seq ch) ch (ca_bySeq a)) (ch_Seq g) = Some g" if "g \<in> insert ch D" for g
    using that assms(2,3) ch snapshot_seq_inject [OF assms(1), of g ch] by (auto simp: gm_simps holdsFrags_def)
  then show ?thesis
    using assms(3) ch by (auto simp: acceptChunk_def supersede_def holdsFrags_def Let_def)
qed

lemma acceptAll_holds:
  assumes "snapshot_chunks e frags" and "set cs \<subseteq> set (butlast frags) \<union> {ch. ch_Epoch ch < e}"
    and "D \<subseteq> set frags" and "holdsFrags e D a"
  shows "\<exists>a'. acceptAll c cs a = Some (replicate (length cs) None, a') \<and> holdsFrags e (D \<union> (set cs \<inter> set frags)) a'"
  using assms(2-)
proof (induction cs arbitrary: a D)
  case (Cons ch cs)
  then have "ch \<in> set (butlast frags) \<or> ch_Epoch ch < e" by auto
  with Cons.prems obtain b where b: "acceptChunk c ch a = Some (None, b)" "holdsFrags e (D \<union> ({ch} \<inter> set frags)) b"
    using acceptChunk_holds [OF assms(1), of D a ch c] by blast
  have D': "D \<union> ({ch} \<inter> set frags) \<subseteq> set frags" and cs: "set cs \<subseteq> set (butlast frags) \<union> {ch. ch_Epoch ch < e}"
    using Cons.prems by auto
  from Cons.IH [OF cs D' b(2)] show ?case
    using b(1) by (auto simp: Un_assoc simp flip: Int_Un_distrib2)
qed simp

lemma acceptChunk_last:
  assumes "snapshot_chunks e frags" and "holdsFrags e (set (butlast frags)) a"
    and "es_SchemaVersion (AssembleChunks c frags) = SchemaVersion c"
  shows "acceptChunk c (last frags) a = Some (Some (AssembleChunks c frags), reset)"
proof -
  let ?ch = "last frags"
  have ne: "frags \<noteq> []" and len: "length frags < 2 ^ 32" using assms(1) by (auto simp: snapshot_chunks_def)
  then have l: "?ch = frags ! (length frags - 1)" "Suc (length frags - 1) = length frags" by (simp_all add: last_conv_nth)
  then have ch: "ch_Seq ?ch = of_nat (length frags - 1)" "ch_Epoch ?ch = e" "ch_Last ?ch"
    using assms(1) ne unfolding snapshot_chunks_def by (metis diff_less length_greater_0_conv zero_less_one)+
  have n: "unat (ch_Seq ?ch) = length frags - 1" using ch(1) len by (simp add: unat_of_nat)
  let ?m = "gm_put (ch_Seq ?ch) ?ch (ca_bySeq a)"
  have all: "set frags = insert ?ch (set (butlast frags))"
    using ne by (metis append_butlast_last_id list.set(1) list.simps(15) rotate1.simps(2) set_rotate1)
  have "gm_get ?m (of_nat i) = Some (frags ! i)" if "i < length frags" for i
  proof -
    have "frags ! i \<in> set frags" and "ch_Seq (frags ! i) = of_nat i"
      using that assms(1) by (auto simp: snapshot_chunks_def)
    moreover have "gm_get ?m (ch_Seq g) = Some g" if "g \<in> set frags" for g
      using that all assms(2) snapshot_seq_inject [OF assms(1), of g ?ch] by (auto simp: gm_simps holdsFrags_def)
    ultimately show ?thesis by metis
  qed
  moreover have "ch_Seq ?ch \<noteq> - 1"
  proof
    assume "ch_Seq ?ch = - 1"
    then have "unat (ch_Seq ?ch) = 2 ^ 32 - 1" by (simp add: unsigned_minus_1_eq_mask mask_eq_exp_minus_1)
    then show False using n len ne by (cases frags) auto
  qed
  ultimately have "gatherChunks ?m (ch_Seq ?ch) 0 [] = Some (Inr frags)"
    using gatherChunks_complete [of "ch_Seq ?ch" frags ?m] n ne by simp
  then show ?thesis
    using ch assms(2,3) by (simp add: acceptChunk_def supersede_def holdsFrags_def)
qed

text \<open>Chunks of older epochs that arrive before the snapshot, none of them the last of its own, hand on nothing
  and leave an older epoch, or none, in the assembler.\<close>

lemma acceptChunk_older:
  assumes "ch_Epoch ch < e" and "\<not> ch_Last ch" and "\<not> ca_active a \<or> ca_epoch a < e"
  shows "\<exists>a'. acceptChunk c ch a = Some (None, a') \<and> (\<not> ca_active a' \<or> ca_epoch a' < e)"
  using assms by (auto simp: acceptChunk_def supersede_def Let_def)

lemma acceptAll_older:
  assumes "\<forall>ch \<in> set cs. ch_Epoch ch < e \<and> \<not> ch_Last ch" and "\<not> ca_active a \<or> ca_epoch a < e"
  shows "\<exists>a'. acceptAll c cs a = Some (replicate (length cs) None, a') \<and> (\<not> ca_active a' \<or> ca_epoch a' < e)"
  using assms
proof (induction cs arbitrary: a)
  case (Cons ch cs)
  then obtain b where "acceptChunk c ch a = Some (None, b)" "\<not> ca_active b \<or> ca_epoch b < e"
    using acceptChunk_older [of ch e a c] by auto
  with Cons.IH [of b] Cons.prems(1) show ?case by auto
qed simp

lemma acceptAll_append:
  "acceptAll c cs a = Some (os, b) \<Longrightarrow> acceptAll c (cs @ ds) a = map_option (\<lambda>(ps, b'). (os @ ps, b')) (acceptAll c ds b)"
proof (induction cs arbitrary: a os)
  case Nil
  then show ?case by (cases "acceptAll c ds b") auto
next
  case (Cons ch cs)
  then obtain o1 a1 os' where "acceptChunk c ch a = Some (o1, a1)" "acceptAll c cs a1 = Some (os', b)" "os = o1 # os'"
    by (auto split: option.splits)
  with Cons.IH [of a1 os'] show ?case by (cases "acceptAll c ds b") auto
qed

text \<open>C5: a chunked snapshot has the effect of a plain one. Take the fragments of a snapshot of epoch \<open>e\<close>,
  delivered with the last one at the end (as the controller sends it; when it comes earlier the
  assembler discards the snapshot, and nothing partial is applied: \<open>never_partial_snapshot\<close>), the others
  before it in any order and each any positive number of times, and mixed with stragglers of older
  epochs, where those that come before the snapshot's first fragment are not the last of their own
  snapshot (such a one may complete an older snapshot, which is then handed on too). The assembler may
  hold an abandoned older snapshot. Then exactly one state is handed on, at the end, and, when the
  assembled state has the contract's schema version, the application ends in the same state as
  after one \<open>DESIRED_STATE\<close> directive carrying the assembled state.\<close>

theorem chunked_snapshot_equals_plain:
  assumes "snapshot_chunks e frags" and "\<not> ca_active a \<or> ca_epoch a < e"
    and "set cs \<subseteq> set (butlast frags) \<union> {ch. ch_Epoch ch < e}" and "set (butlast frags) \<subseteq> set cs"
    and "\<forall>ch \<in> set (takeWhile (\<lambda>ch. ch \<notin> set frags) cs). \<not> ch_Last ch"
    and "list_all2 (chunk_directive um) ds (cs @ [last frags])"
    and "dr_Kind d = DESIRED_STATE" and "um_state um (dr_Payload d) = Some (AssembleChunks c frags)"
    and "es_SchemaVersion (AssembleChunks c frags) = SchemaVersion c"
  shows "\<exists>x'. dispatchAll c um h ds (a, x) = Some (reset, x') \<and> dispatch c um h d (a, x) = Some (a, x')"
proof -
  let ?n = "\<lambda>ch. ch \<notin> set frags" and ?st = "AssembleChunks c frags"
  let ?p = "takeWhile ?n cs" and ?q = "dropWhile ?n cs"
  have frags: "frags \<noteq> []" using assms(1) by (simp add: snapshot_chunks_def)
  have "\<forall>ch \<in> set ?p. ch_Epoch ch < e \<and> \<not> ch_Last ch"
    using assms(3,5) by (auto dest: set_takeWhileD in_set_butlastD)
  from acceptAll_older [OF this assms(2)] obtain a1
    where p: "acceptAll c ?p a = Some (replicate (length ?p) None, a1)" "\<not> ca_active a1 \<or> ca_epoch a1 < e" by blast
  have "hd (q @ [last frags]) \<in> set frags" if "q \<noteq> [] \<Longrightarrow> hd q \<in> set frags" for q
    using that frags by (cases q) simp_all
  from this [of ?q] have "hd (?q @ [last frags]) \<in> set frags" using hd_dropWhile [of ?n cs] by blast
  then have "ch_Epoch (hd (?q @ [last frags])) = e" using assms(1) by (auto simp: snapshot_chunks_def in_set_conv_nth)
  then have first: "acceptAll c (?q @ [last frags]) a1 = acceptAll c (?q @ [last frags]) (freshAsm e)"
    using p(2) by (intro acceptAll_first) auto
  have q: "set ?q \<subseteq> set (butlast frags) \<union> {ch. ch_Epoch ch < e}" using assms(3) by (auto dest: set_dropWhileD)
  have "holdsFrags e {} (freshAsm e)" by (simp add: holdsFrags_def freshAsm_def)
  from acceptAll_holds [OF assms(1) q _ this, of c] obtain b
    where b: "acceptAll c ?q (freshAsm e) = Some (replicate (length ?q) None, b)"
      and hold: "holdsFrags e (set ?q \<inter> set frags) b" by auto
  have "set (butlast frags) \<subseteq> set ?q \<inter> set frags"
  proof
    fix f assume f: "f \<in> set (butlast frags)"
    then have "f \<in> set frags" by (rule in_set_butlastD)
    moreover have "f \<in> set ?p \<union> set ?q" using f assms(4) by (simp flip: set_append) blast
    ultimately show "f \<in> set ?q \<inter> set frags" by (blast dest: set_takeWhileD)
  qed
  with hold have "holdsFrags e (set (butlast frags)) b" by (auto simp: holdsFrags_def)
  note fin = acceptChunk_last [OF assms(1) this assms(9)]
  have "acceptAll c (?p @ (?q @ [last frags])) a =
      Some (replicate (length ?p) None @ (replicate (length ?q) None @ [Some ?st]), reset)"
    unfolding acceptAll_append [OF p(1)] first using acceptAll_snoc [OF b fin] by simp
  then have "acceptAll c (cs @ [last frags]) a = Some (replicate (length cs) None @ [Some ?st], reset)"
    by (simp add: replicate_add [symmetric] flip: append_assoc length_append)
  then have "dispatchAll c um h ds (a, x) = Some (reset, call (h_onDesired h) ?st x)"
    by (simp add: dispatchAll_chunks [OF assms(6)] handOn_def)
  moreover have "dispatch c um h d (a, x) = Some (a, call (h_onDesired h) ?st x)"
    using assms(7-9) by (simp add: dispatch_def)
  ultimately show ?thesis by blast
qed

text \<open>An instance: a snapshot of epoch 2 in two chunks, overtaken by a straggler of epoch 1.\<close>

definition ex_asm :: contract_fns where
  "ex_asm = ex_contract\<lparr>AssembleChunks := \<lambda>cs. (ch_Fragment (hd cs))\<lparr>es_Policers := concat (map (\<lambda>ch. es_Policers (ch_Fragment ch)) cs)\<rparr>\<rparr>"

definition ex_chunk :: "u64 \<Rightarrow> u32 \<Rightarrow> bool \<Rightarrow> EdgeDesiredStateChunk" where
  "ex_chunk e i l = \<lparr>ch_Epoch = e, ch_Seq = i, ch_Last = l, ch_Fragment = EdgeDesiredState_zero\<lparr>es_SchemaVersion := 1, es_Generation := e\<rparr>\<rparr>"

definition ex_unmarshal :: unmarshal where
  "ex_unmarshal = \<lparr>um_state = \<lambda>b. Some (AssembleChunks ex_asm [ex_chunk 2 0 False, ex_chunk 2 1 True]),
     um_chunk = (\<lambda>b. Some (if b = [0] then ex_chunk 2 0 False else if b = [1] then ex_chunk 2 1 True else ex_chunk 1 0 False)),
     um_delta = \<lambda>b. None\<rparr>"

definition ex_dir :: "directive_kind \<Rightarrow> u8 \<Rightarrow> Directive" where
  "ex_dir k b = \<lparr>dr_Kind = k, dr_Payload = [b]\<rparr>"

lemmas ex_asm_defs = ex_asm_def ex_contract_def ex_chunk_def ex_unmarshal_def ex_dir_def EdgeDesiredState_zero_def

lemma ex_asm_gather:
  "gatherChunks [(0, ex_chunk 2 0 False), (1, ex_chunk 2 1 True)] 1 0 [] = Some (Inr [ex_chunk 2 0 False, ex_chunk 2 1 True])"
  by (simp add: gatherChunks.simps word_le_nat_alt)

lemma ex_asm_run:
  "acceptAll ex_asm [ex_chunk 2 0 False, ex_chunk 1 0 False] reset =
     Some ([None, None], \<lparr>ca_epoch = 2, ca_active = True, ca_bySeq = [(0, ex_chunk 2 0 False)]\<rparr>)"
  by (simp add: acceptChunk_def supersede_def reset_def ex_chunk_def)

lemma ex_asm_last:
  "acceptChunk ex_asm (ex_chunk 2 1 True) \<lparr>ca_epoch = 2, ca_active = True, ca_bySeq = [(0, ex_chunk 2 0 False)]\<rparr> =
     Some (Some (AssembleChunks ex_asm [ex_chunk 2 0 False, ex_chunk 2 1 True]), reset)"
proof -
  have "AList.update (ch_Seq (ex_chunk 2 1 True)) (ex_chunk 2 1 True) [(0, ex_chunk 2 0 False)] =
      [(0, ex_chunk 2 0 False), (1, ex_chunk 2 1 True)]" and "ch_Seq (ex_chunk 2 1 True) = 1" "ch_Last (ex_chunk 2 1 True)"
      "ch_Epoch (ex_chunk 2 1 True) = 2"
    by (simp_all add: ex_chunk_def)
  then show ?thesis
    by (simp add: acceptChunk_def supersede_def ex_asm_gather) (simp add: ex_asm_defs)
qed

theorem never_partial_snapshot_witness:
  "\<exists>frags. AssembleChunks ex_asm [ex_chunk 2 0 False, ex_chunk 2 1 True] = AssembleChunks ex_asm frags \<and> length frags = 2 \<and>
     last frags = ex_chunk 2 1 True \<and> hd frags \<in> {ex_chunk 2 0 False, ex_chunk 1 0 False, ex_chunk 2 1 True} \<and> ch_Epoch (hd frags) = 2"
proof -
  have "ch_Seq (ex_chunk 2 1 True) \<noteq> - 1" by (simp add: ex_chunk_def)
  from never_partial_snapshot [OF ex_asm_run ex_asm_last this] obtain frags where f:
    "AssembleChunks ex_asm [ex_chunk 2 0 False, ex_chunk 2 1 True] = AssembleChunks ex_asm frags"
    "length frags = Suc (unat (ch_Seq (ex_chunk 2 1 True)))" "last frags = ex_chunk 2 1 True"
    and at: "\<forall>i < length frags. ch_Seq (frags ! i) = of_nat i \<and> ch_Epoch (frags ! i) = ch_Epoch (ex_chunk 2 1 True) \<and>
      frags ! i \<in> set ([ex_chunk 2 0 False, ex_chunk 1 0 False] @ [ex_chunk 2 1 True])" by blast
  have "length frags = 2" using f(2) by (simp add: ex_chunk_def)
  moreover have "hd frags = frags ! 0" using calculation by (intro hd_conv_nth) auto
  moreover have "frags ! 0 \<in> {ex_chunk 2 0 False, ex_chunk 1 0 False, ex_chunk 2 1 True}" "ch_Epoch (frags ! 0) = 2"
    using at [rule_format, of 0] calculation by (simp_all add: ex_chunk_def)
  ultimately show ?thesis using f(1,3) by auto
qed

theorem chunked_snapshot_equals_plain_witness:
  "\<exists>x'. dispatchAll ex_asm ex_unmarshal (agent_handlers 7) (map (ex_dir DESIRED_STATE_CHUNK) [2, 0, 2, 0, 1]) (reset, agent_init 0 0 [] () False) =
      Some (reset, x') \<and>
     dispatch ex_asm ex_unmarshal (agent_handlers 7) (ex_dir DESIRED_STATE 0) (reset, agent_init 0 0 [] () False) = Some (reset, x')"
proof (rule chunked_snapshot_equals_plain [where e = 2 and frags = "[ex_chunk 2 0 False, ex_chunk 2 1 True]"
      and cs = "[ex_chunk 1 0 False, ex_chunk 2 0 False, ex_chunk 1 0 False, ex_chunk 2 0 False]"])
  show "snapshot_chunks 2 [ex_chunk 2 0 False, ex_chunk 2 1 True]"
    by (auto simp: snapshot_chunks_def ex_chunk_def less_Suc_eq)
qed (auto simp: chunk_directive_def ex_unmarshal_def ex_dir_def reset_def, auto simp: ex_asm_defs)

subsection \<open>Losing the controller\<close>

text \<open>Callbacks that keep a preorder between application states keep it over whole connections.\<close>

locale handlers_keep =
  fixes h :: "'x handlers" and R :: "'x \<Rightarrow> 'x \<Rightarrow> bool"
  assumes R_refl: "R x x" and R_trans: "R x y \<Longrightarrow> R y z \<Longrightarrow> R x z"
    and keep_desired: "R x (call (h_onDesired h) st x)"
    and keep_delta: "R x (call (h_onDelta h) d x)"
    and keep_conn: "R x (connState h up x)"
begin

lemma dispatch_keeps: "dispatch c um h d (a, x) = Some (a', x') \<Longrightarrow> R x x'"
  by (auto simp: dispatch_def R_refl keep_desired keep_delta split: directive_kind.splits option.splits if_splits)

lemma dispatchAll_keeps: "dispatchAll c um h ds s = Some s' \<Longrightarrow> R (snd s) (snd s')"
proof (induction ds arbitrary: s)
  case (Cons d ds)
  then obtain s1 where s1: "dispatch c um h d s = Some s1" "dispatchAll c um h ds s1 = Some s'"
    by (auto split: option.splits)
  then have "R (snd s) (snd s1)" using dispatch_keeps [of c um d "fst s" "snd s" "fst s1" "snd s1"] by simp
  with Cons.IH [OF s1(2)] show ?case by (rule R_trans [rotated])
qed (simp add: R_refl)

lemma attempt_keeps: "attempt c um h t s = Some s' \<Longrightarrow> R (snd s) (snd s')"
proof (cases "Register (at_register t)")
  case None
  assume "attempt c um h t s = Some s'"
  with None obtain s1 where s1: "subscribeOnce c um h (at_stream t) (fst s, connState h True (snd s)) = Some s1"
    and s': "s' = (if at_cancelled t then s1 else (fst s1, connState h False (snd s1)))"
    by (auto simp: attempt_def)
  have "R (connState h True (snd s)) (snd s1)"
    using s1 by (auto simp: subscribeOnce_def R_refl dest: dispatchAll_keeps split: sum.splits)
  then have "R (snd s) (snd s1)" using keep_conn R_trans by blast
  moreover have "R (snd s1) (snd s')" using keep_conn R_refl by (simp add: s')
  ultimately show ?thesis by (rule R_trans)
qed (auto simp: attempt_def R_refl keep_conn)

lemma RunDirect_keeps: "RunDirect c um h ts s = Some s' \<Longrightarrow> R (snd s) (snd s')"
proof (induction ts arbitrary: s)
  case (Cons t ts)
  then obtain s1 where s1: "attempt c um h t s = Some s1" "s' = s1 \<or> RunDirect c um h ts s1 = Some s'"
    by (auto split: option.splits if_splits)
  from s1(2) show ?case
    using attempt_keeps [OF s1(1)] Cons.IH [of s1] R_trans by blast
qed (simp add: R_refl)

end

text \<open>What the transport goroutine never does to the agent: touch VPP, the tracked policers, the applied generation or
  the reorder buffer, or forget the held state.\<close>

definition hands_off :: "'v agent \<Rightarrow> 'v agent \<Rightarrow> bool" where
  "hands_off a b \<longleftrightarrow> ag_vpp b = ag_vpp a \<and> ag_pending b = ag_pending a \<and> rc_polIdx (ag_recon b) = rc_polIdx (ag_recon a) \<and>
     appliedGen b = appliedGen a \<and> (Desired (ag_store a) \<noteq> None \<longrightarrow> Desired (ag_store b) \<noteq> None)"

interpretation agent_transport: handlers_keep "agent_handlers now" hands_off
proof unfold_locales
  fix a b d :: "'a agent" and st
  show "hands_off a a" by (simp add: hands_off_def)
  show "hands_off a b \<Longrightarrow> hands_off b d \<Longrightarrow> hands_off a d" by (simp add: hands_off_def)
  show "hands_off a (call (h_onDesired (agent_handlers now)) st a)"
    by (auto simp: hands_off_def call_def agent_handlers_def onDesired_def Desired_def Accept_def Wake_def appliedGen_def
        LastAppliedGeneration_def split: prod.splits bool.splits if_splits)
qed (auto simp: hands_off_def call_def connState_def agent_handlers_def onRecon_def SubmitDelta_def appliedGen_def
    LastAppliedGeneration_def Desired_def ControllerUp_def ControllerDown_def split: option.splits)

lemma attempt_down:
  "attempt c um (agent_handlers now) t s = Some s' \<Longrightarrow> \<not> at_cancelled t \<Longrightarrow> \<not> dst_healthy (ag_store (snd s'))"
  by (auto simp: attempt_def connState_def call_def agent_handlers_def ControllerDown_def split: option.splits)

text \<open>C12: losing the controller is fail-static. Whatever attempts to register and subscribe the transport makes, with
  whatever directives delivered in between, at every moment between two attempts the store is marked as
  out of contact, so that a held state is reported frozen; a held state is never forgotten; and the
  transport itself has not touched VPP, the tracked policers, the applied generation or the reorder
  buffer.\<close>

theorem lost_controller_fail_static:
  assumes "RunDirect c um (agent_handlers now) ts (asm, a) = Some (asm', a')"
    and "ts \<noteq> []" and "\<forall>t \<in> set ts. \<not> at_cancelled t"
  shows "\<not> dst_healthy (ag_store a') \<and> (sts_Frozen (Status t (ag_store a')) \<longleftrightarrow> Desired (ag_store a') \<noteq> None) \<and> hands_off a a'"
proof -
  have "RunDirect c um (agent_handlers now) ts s = Some s' \<Longrightarrow> ts \<noteq> [] \<Longrightarrow> \<forall>t \<in> set ts. \<not> at_cancelled t \<Longrightarrow>
      \<not> dst_healthy (ag_store (snd s'))" for s s' :: "chunkAssembler \<times> 'a agent"
  proof (induction ts arbitrary: s)
    case (Cons t ts)
    then obtain s1 where "attempt c um (agent_handlers now) t s = Some s1" "RunDirect c um (agent_handlers now) ts s1 = Some s'"
      by (auto split: option.splits)
    with Cons show ?case using attempt_down [of c um now t s s1] by (cases ts) auto
  qed simp
  from this [OF assms] have "\<not> dst_healthy (ag_store a')" by simp
  then show ?thesis
    using agent_transport.RunDirect_keeps [OF assms(1)] by (auto simp: Status_def Desired_def)
qed

theorem lost_controller_fail_static_witness:
  "\<exists>asm' a'. RunDirect ex_asm ex_unmarshal (agent_handlers 7)
      [\<lparr>at_register = Inr \<lparr>rr_Accepted = True, rr_SchemaVersion = 1\<rparr>, at_cancelled = False, at_stream = Inr [ex_dir DESIRED_STATE 0]\<rparr>,
       \<lparr>at_register = Inl ErrIO, at_cancelled = False, at_stream = Inl ErrIO\<rparr>] (reset, agent_init 0 0 [] () False) = Some (asm', a') \<and>
     Desired (ag_store a') \<noteq> None \<and> sts_Frozen (Status 9 (ag_store a')) \<and> ag_vpp a' = ()"
proof -
  let ?ts = "[\<lparr>at_register = Inr \<lparr>rr_Accepted = True, rr_SchemaVersion = 1\<rparr>, at_cancelled = False, at_stream = Inr [ex_dir DESIRED_STATE 0]\<rparr>,
       \<lparr>at_register = Inl ErrIO, at_cancelled = False, at_stream = Inl ErrIO\<rparr>]"
  obtain asm' a' where r: "RunDirect ex_asm ex_unmarshal (agent_handlers 7) ?ts (reset, agent_init 0 0 [] () False) = Some (asm', a')"
    and d: "Desired (ag_store a') \<noteq> None"
    by (simp add: attempt_def Register_def subscribeOnce_def dispatch_def ex_asm_defs agent_handlers_def call_def connState_def
        onDesired_def agent_init_def NewDesiredStore_def Accept_def ControllerUp_def ControllerDown_def Desired_def birdWake_def)
  from lost_controller_fail_static [OF r, of 9] d show ?thesis using r by (auto simp: hands_off_def)
qed

end
