(* ===== verification/Sizing.thy ===== *)
theory Sizing
  imports Go_Strings
begin

text \<open>
  \<open>internal/agent/classifysizing.go\<close>: how large the classify tables are made, and the session budget the agent
  reports. The environment variables and the files of the kernel are the parameters \<open>getenv\<close> and \<open>readFile\<close>
  (\<open>None\<close> when a file cannot be read). The one floating-point computation, a percentage of the memory budget, is
  the parameter \<open>share\<close> (\<open>uint64(float64(budget)*memPct/100.0)\<close>), and what is proved holds for every such
  function; \<open>parseFloat\<close> is \<open>strconv.ParseFloat\<close> and \<open>notPositive\<close> the comparison with zero.
\<close>

record 'f floats =
  fl_share :: "u64 \<Rightarrow> 'f \<Rightarrow> u64"
  fl_parseFloat :: "string \<Rightarrow> 'f option"
  fl_notPositive :: "'f \<Rightarrow> bool"
  fl_zero :: 'f
  fl_default :: 'f

definition classifyPerEntryBytes :: u64 where "classifyPerEntryBytes = 128"
definition classifyHeadroomNum :: u64 where "classifyHeadroomNum = 3"
definition classifyHeadroomDen :: u64 where "classifyHeadroomDen = 2"
definition classifyMinMembers :: u64 where "classifyMinMembers = 3000"
definition classifyMinBuckets :: u64 where "classifyMinBuckets = 4096"
definition classifyMaxBuckets :: u64 where "classifyMaxBuckets = 2097152"
definition classifyMinMem :: u64 where "classifyMinMem = 16777216"
definition classifyMaxMem :: u64 where "classifyMaxMem = 0xE0000000"

lemmas sizing_consts = classifyPerEntryBytes_def classifyHeadroomNum_def classifyHeadroomDen_def classifyMinMembers_def
  classifyMinBuckets_def classifyMaxBuckets_def classifyMinMem_def classifyMaxMem_def

subsection \<open>The sizes\<close>

text \<open>The loop of \<open>nextPow2\<close>; it does not end when the shift wraps to zero first.\<close>

partial_function (option) pow2Loop :: "u64 \<Rightarrow> u64 \<Rightarrow> u64 option" where
  "pow2Loop n p = (if p < n then pow2Loop n (push_bit 1 p) else Some p)"

declare pow2Loop.simps [code]

definition nextPow2 :: "u64 \<Rightarrow> u64 option" where
  "nextPow2 n = (if n = 0 then Some 1 else pow2Loop n 1)"

definition classifyCapacity :: "'f floats \<Rightarrow> u32 \<Rightarrow> 'f \<Rightarrow> u64 \<Rightarrow> u64" where
  "classifyCapacity fl members memPct budget =
     (let capacity =
            (if (ucast members :: u64) = 0
             then (let pct = (if fl_notPositive fl memPct then fl_default fl else memPct)
                   in if 0 < budget then fl_share fl budget pct div classifyPerEntryBytes else 0)
             else ucast members)
      in if capacity < classifyMinMembers then classifyMinMembers else capacity)"

definition clamp :: "u64 \<Rightarrow> u64 \<Rightarrow> u64 \<Rightarrow> u64" where
  "clamp lo hi x = (let y = (if x < lo then lo else x) in if hi < y then hi else y)"

definition classifyTableSizing :: "'f floats \<Rightarrow> u32 \<Rightarrow> 'f \<Rightarrow> u64 \<Rightarrow> (u32 \<times> u32) option" where
  "classifyTableSizing fl members memPct budget =
     (let capacity = classifyCapacity fl members memPct budget
      in case nextPow2 capacity of None \<Rightarrow> None
         | Some nb \<Rightarrow>
             Some (ucast (clamp classifyMinBuckets classifyMaxBuckets nb),
                   ucast (clamp classifyMinMem classifyMaxMem
                     (capacity * classifyPerEntryBytes * classifyHeadroomNum div classifyHeadroomDen))))"

subsection \<open>The inputs\<close>

definition envUint :: "(string \<Rightarrow> string) \<Rightarrow> string \<Rightarrow> u64 \<Rightarrow> u64" where
  "envUint getenv key dflt =
     (let v = TrimSpace (getenv key) in if v \<noteq> [] then (case ParseUint 64 v of Some n \<Rightarrow> of_nat n | None \<Rightarrow> dflt) else dflt)"

definition envFloat :: "'f floats \<Rightarrow> (string \<Rightarrow> string) \<Rightarrow> string \<Rightarrow> 'f \<Rightarrow> 'f" where
  "envFloat fl getenv key dflt =
     (let v = TrimSpace (getenv key) in if v \<noteq> [] then (case fl_parseFloat fl v of Some f \<Rightarrow> f | None \<Rightarrow> dflt) else dflt)"

definition readCgroupLimit :: "(string \<Rightarrow> string option) \<Rightarrow> string \<Rightarrow> u64 option" where
  "readCgroupLimit readFile path =
     (case readFile path of None \<Rightarrow> None
      | Some b \<Rightarrow>
          (let s = TrimSpace b
           in if s = [] \<or> s = ''max'' then None
              else (case ParseUint 64 s of None \<Rightarrow> None | Some v \<Rightarrow> if 2 ^ 62 \<le> v then None else Some (of_nat v))))"

fun memTotal :: "string list \<Rightarrow> u64" where
  "memTotal [] = 0"
| "memTotal (line # ls) =
     (if HasPrefix line ''MemTotal:''
      then (case Fields line of
              _ # kb # _ \<Rightarrow> (case ParseUint 64 kb of Some n \<Rightarrow> of_nat n * 1024 | None \<Rightarrow> memTotal ls)
            | _ \<Rightarrow> memTotal ls)
      else memTotal ls)"

definition procMemTotalBytes :: "(string \<Rightarrow> string option) \<Rightarrow> u64" where
  "procMemTotalBytes readFile = (case readFile ''/proc/meminfo'' of None \<Rightarrow> 0 | Some b \<Rightarrow> memTotal (Split b CHR 0x0A))"

definition memoryBudget :: "(string \<Rightarrow> string option) \<Rightarrow> u64" where
  "memoryBudget readFile =
     fold (\<lambda>p budget. case readCgroupLimit readFile p of Some v \<Rightarrow> if v < budget then v else budget | None \<Rightarrow> budget)
       [''/sys/fs/cgroup/memory.max'', ''/sys/fs/cgroup/memory/memory.limit_in_bytes''] (procMemTotalBytes readFile)"

definition classifyAutoSizing :: "'f floats \<Rightarrow> (string \<Rightarrow> string) \<Rightarrow> (string \<Rightarrow> string option) \<Rightarrow> (u32 \<times> u32) option" where
  "classifyAutoSizing fl getenv readFile =
     classifyTableSizing fl (ucast (envUint getenv ''BWPOOL_CLASSIFY_MEMBERS'' 0)) (envFloat fl getenv ''BWPOOL_CLASSIFY_MEM_PCT'' (fl_zero fl))
       (memoryBudget readFile)"

definition ClassifySessionBudget :: "'f floats \<Rightarrow> (string \<Rightarrow> string) \<Rightarrow> (string \<Rightarrow> string option) \<Rightarrow> u64" where
  "ClassifySessionBudget fl getenv readFile =
     classifyCapacity fl (ucast (envUint getenv ''BWPOOL_CLASSIFY_MEMBERS'' 0)) (envFloat fl getenv ''BWPOOL_CLASSIFY_MEM_PCT'' (fl_zero fl))
       (memoryBudget readFile)"

subsection \<open>The loop returns\<close>

lemma pow2Loop_returns: "n \<le> 2 ^ 63 \<Longrightarrow> k \<le> 63 \<Longrightarrow> \<exists>j. k \<le> j \<and> j \<le> 63 \<and> pow2Loop n (2 ^ k) = Some (2 ^ j) \<and> n \<le> 2 ^ j \<and> (j = k \<or> 2 ^ (j - 1) < n)"
proof (induction "63 - k" arbitrary: k)
  case 0
  then have "k = 63" by simp
  with 0 show ?case by (subst pow2Loop.simps) auto
next
  case (Suc d)
  show ?case
  proof (cases "2 ^ k < n")
    case True
    have k: "Suc k \<le> 63" using Suc.hyps(2) by simp
    have "d = 63 - Suc k" using Suc.hyps(2) by simp
    from Suc.hyps(1) [OF this Suc.prems(1) k] obtain j where j: "Suc k \<le> j" "j \<le> 63" "pow2Loop n (2 ^ Suc k) = Some (2 ^ j)" "n \<le> 2 ^ j" "j = Suc k \<or> 2 ^ (j - 1) < n"
      by auto
    moreover have "push_bit 1 (2 ^ k :: u64) = 2 * 2 ^ k" by (simp add: push_bit_eq_mult mult.commute)
    ultimately show ?thesis using True by (subst pow2Loop.simps) (auto simp: mult.commute intro!: exI [of _ j])
  next
    case False
    then show ?thesis using Suc.prems by (subst pow2Loop.simps) (auto intro!: exI [of _ k])
  qed
qed

lemma nextPow2_returns:
  assumes "n \<le> 2 ^ 63"
  shows "\<exists>j \<le> 63. nextPow2 n = Some (2 ^ j) \<and> n \<le> 2 ^ j \<and> (j = 0 \<or> 2 ^ (j - 1) < n)"
proof (cases "n = 0")
  case True
  then show ?thesis by (intro exI [of _ 0]) (simp add: nextPow2_def)
next
  case False
  then show ?thesis using pow2Loop_returns [OF assms, of 0] by (auto simp: nextPow2_def)
qed

lemma clamp_bounds: "lo \<le> hi \<Longrightarrow> lo \<le> clamp lo hi x \<and> clamp lo hi x \<le> hi"
  by (auto simp: clamp_def Let_def)

lemma unat_pow2: "j < 64 \<Longrightarrow> unat (2 ^ j :: u64) = 2 ^ j"
proof -
  assume "j < 64"
  then have "unat (of_nat (2 ^ j) :: u64) = 2 ^ j"
    using power_strict_increasing [of j 64 "2 :: nat"] by (simp add: unsigned_of_nat take_bit_eq_mod del: of_nat_power)
  then show ?thesis by simp
qed

lemma clamp_pow2:
  "j \<le> 63 \<Longrightarrow> \<exists>i. 12 \<le> i \<and> i \<le> 21 \<and> clamp classifyMinBuckets classifyMaxBuckets (2 ^ j) = 2 ^ i"
proof -
  assume j: "j \<le> 63"
  have e: "(2 ^ j :: u64) < 2 ^ k \<longleftrightarrow> j < k" if "k \<le> 63" for k
    using j that by (simp add: word_less_nat_alt unat_pow2)
  show ?thesis
  proof (intro exI conjI)
    show "12 \<le> max 12 (min 21 j)" "max 12 (min 21 j) \<le> 21" by auto
    show "clamp classifyMinBuckets classifyMaxBuckets (2 ^ j) = (2 :: u64) ^ max 12 (min 21 j)"
      using e [of 12] e [of 21] e [of 22] j
      by (auto simp: clamp_def Let_def classifyMinBuckets_def classifyMaxBuckets_def max_def min_def not_less le_less_Suc_eq)
  qed
qed

subsection \<open>What the sizes promise\<close>

lemma capacity_bounds: "3000 \<le> unat (classifyCapacity fl members pct budget)" "unat (classifyCapacity fl members pct budget) < 2 ^ 57"
proof -
  have d: "unat (x div classifyPerEntryBytes) < 2 ^ 57" for x :: u64
    using unsigned_less [where 'a = nat, of x] by (simp add: unat_div_distrib classifyPerEntryBytes_def)
  have m: "unat (ucast members :: u64) < 2 ^ 57" using unsigned_less [where 'a = nat, of members] by (simp add: unsigned_ucast_eq take_bit_eq_mod)
  have s: "unat classifyMinMembers = 3000" by (simp add: classifyMinMembers_def)
  show "3000 \<le> unat (classifyCapacity fl members pct budget)"
    by (auto simp: classifyCapacity_def Let_def word_less_nat_alt s not_less split: if_splits)
  show "unat (classifyCapacity fl members pct budget) < 2 ^ 57"
    using d m by (auto simp: classifyCapacity_def Let_def s)
qed

lemma unat_ucast32: "(x :: u64) \<le> 0xFFFFFFFF \<Longrightarrow> unat (ucast x :: u32) = unat x"
  by (simp add: unsigned_ucast_eq take_bit_eq_mod word_le_nat_alt)

lemma unat_clamp: "lo \<le> hi \<Longrightarrow> unat (clamp lo hi x) = min (unat hi) (max (unat lo) (unat x))"
  by (auto simp: clamp_def Let_def word_less_nat_alt word_le_nat_alt min_def max_def)

text \<open>C40: Sizing a classify table always returns (the loop of \<open>nextPow2\<close> ends), whatever the configured capacity,
  percentage and memory: the number of buckets is a power of two from 4096 to 2M, the heap lies between 16 MiB and
  the 32-bit limit of 3.5 GiB, and unless the multiplication by the entry size and the headroom wraps, it is one and
  a half times 128 bytes for each member of the capacity, cut to those limits.\<close>

theorem classify_sizing_bounds:
  "\<exists>nb mem. classifyTableSizing fl members pct budget = Some (nb, mem) \<and>
     (\<exists>i. 12 \<le> i \<and> i \<le> 21 \<and> unat nb = 2 ^ i) \<and> 2 ^ 24 \<le> unat mem \<and> unat mem \<le> 0xE0000000 \<and>
     (unat (classifyCapacity fl members pct budget) * 384 \<ge> 2 ^ 64 \<or>
      unat mem = min 0xE0000000 (max (2 ^ 24) (unat (classifyCapacity fl members pct budget) * 192)))"
proof -
  define cap where "cap = classifyCapacity fl members pct budget"
  define m where "m = cap * classifyPerEntryBytes * classifyHeadroomNum div classifyHeadroomDen"
  have "cap \<le> 2 ^ 63" using capacity_bounds(2) [of fl members pct budget] unfolding cap_def by (simp add: word_le_nat_alt)
  then obtain j where j: "j \<le> 63" "nextPow2 cap = Some (2 ^ j)" using nextPow2_returns by blast
  obtain i where i: "12 \<le> i" "i \<le> 21" "clamp classifyMinBuckets classifyMaxBuckets (2 ^ j) = 2 ^ i" using clamp_pow2 [OF j(1)] by blast
  have "(2 :: nat) ^ i \<le> 2 ^ 21" using i(2) by (rule power_increasing) simp
  then have "(2 :: u64) ^ i \<le> 0xFFFFFFFF" using i(2) by (simp add: word_le_nat_alt unat_pow2)
  then have nb: "unat (ucast (clamp classifyMinBuckets classifyMaxBuckets (2 ^ j)) :: u32) = 2 ^ i"
    using i by (simp add: unat_ucast32 unat_pow2)
  have cl: "unat (clamp classifyMinMem classifyMaxMem m) = min 0xE0000000 (max (2 ^ 24) (unat m))"
    using unat_clamp [of classifyMinMem classifyMaxMem m] by (simp add: classifyMinMem_def classifyMaxMem_def)
  then have "clamp classifyMinMem classifyMaxMem m \<le> 0xFFFFFFFF" by (simp add: word_le_nat_alt)
  then have mem: "unat (ucast (clamp classifyMinMem classifyMaxMem m) :: u32) = min 0xE0000000 (max (2 ^ 24) (unat m))"
    using cl by (simp add: unat_ucast32)
  have wrap: "unat m = unat cap * 192" if "unat cap * 384 < 2 ^ 64"
  proof -
    have "unat (cap * 384) = unat cap * 384" using that by (simp add: unat_word_ariths)
    then show ?thesis by (simp add: m_def sizing_consts unat_div_distrib mult.assoc)
  qed
  have "classifyTableSizing fl members pct budget =
      Some (ucast (clamp classifyMinBuckets classifyMaxBuckets (2 ^ j)), ucast (clamp classifyMinMem classifyMaxMem m))"
    using j(2) by (simp add: classifyTableSizing_def Let_def cap_def m_def)
  moreover have "unat cap * 384 \<ge> 2 ^ 64 \<or> unat m = unat cap * 192" using wrap by (cases "unat cap * 384 < 2 ^ 64") auto
  ultimately show ?thesis using nb mem i unfolding cap_def by auto
qed

text \<open>The heap is cut to the 32-bit limit and the reported budget is not: a capacity of 32M members is reported
  although the heap then holds at most 28M entries of 128 bytes.\<close>

lemma budget_exceeds_heap:
  "classifyCapacity fl 0x2000000 pct budget = 0x2000000"
  "\<exists>nb. classifyTableSizing fl 0x2000000 pct budget = Some (nb, 0xE0000000) \<and> unat (0xE0000000 :: u32) div 128 < unat (0x2000000 :: u64)"
proof -
  show cap: "classifyCapacity fl 0x2000000 pct budget = 0x2000000" by (simp add: classifyCapacity_def classifyMinMembers_def)
  obtain nb mem where t: "classifyTableSizing fl 0x2000000 pct budget = Some (nb, mem)"
    and "unat mem = min 0xE0000000 (max (2 ^ 24) (unat (0x2000000 :: u64) * 192))"
    using nextPow2_returns [of "0x2000000"] cap by (auto simp: classifyTableSizing_def clamp_def sizing_consts)
  then have "mem = 0xE0000000" by (simp add: word_unat_eq_iff)
  with t show "\<exists>nb. classifyTableSizing fl 0x2000000 pct budget = Some (nb, 0xE0000000) \<and> unat (0xE0000000 :: u32) div 128 < unat (0x2000000 :: u64)"
    by simp
qed

end
