(* ===== verification/Vpp_Codec.thy ===== *)
theory Vpp_Codec
  imports Netip
begin

text \<open>
  The codec buffer of govpp (\<open>go.fd.io/govpp/codec\<close>), which the generated messages of \<open>internal/binapi\<close> are written with.
  It is not part of the repository: a \<open>codec\<close> is a parameter whose fields are the operations of its \<open>Buffer\<close>; \<open>None\<close> is
  the panic of an access past the end of the buffer. The locale \<open>govpp_codec\<close> states what is documented of them: a
  position that every operation advances, network byte order for the integers, a fixed field of \<open>n\<close> bytes or a length
  prefix for a string. \<open>encodes\<close> and \<open>decodes\<close> say which bytes an operation writes or reads, and compose along the
  field lists of \<open>Marshal\<close> and \<open>Unmarshal\<close>. \<open>ref_codec\<close> is an executable buffer on which the locale is interpreted.
\<close>

record 'b codec =
  cd_NewBuffer :: "bytes \<Rightarrow> 'b"
  cd_Bytes :: "'b \<Rightarrow> bytes"
  cd_EncodeBool :: "bool \<Rightarrow> 'b \<Rightarrow> 'b option"
  cd_EncodeUint8 :: "u8 \<Rightarrow> 'b \<Rightarrow> 'b option"
  cd_EncodeUint16 :: "u16 \<Rightarrow> 'b \<Rightarrow> 'b option"
  cd_EncodeUint32 :: "u32 \<Rightarrow> 'b \<Rightarrow> 'b option"
  cd_EncodeUint64 :: "u64 \<Rightarrow> 'b \<Rightarrow> 'b option"
  cd_EncodeInt16 :: "u16 \<Rightarrow> 'b \<Rightarrow> 'b option"
  cd_EncodeInt32 :: "u32 \<Rightarrow> 'b \<Rightarrow> 'b option"
  cd_EncodeString :: "string \<Rightarrow> nat \<Rightarrow> 'b \<Rightarrow> 'b option"
  cd_EncodeBytes :: "bytes \<Rightarrow> nat \<Rightarrow> 'b \<Rightarrow> 'b option"
  cd_DecodeBool :: "'b \<Rightarrow> (bool \<times> 'b) option"
  cd_DecodeUint8 :: "'b \<Rightarrow> (u8 \<times> 'b) option"
  cd_DecodeUint16 :: "'b \<Rightarrow> (u16 \<times> 'b) option"
  cd_DecodeUint32 :: "'b \<Rightarrow> (u32 \<times> 'b) option"
  cd_DecodeUint64 :: "'b \<Rightarrow> (u64 \<times> 'b) option"
  cd_DecodeInt16 :: "'b \<Rightarrow> (u16 \<times> 'b) option"
  cd_DecodeInt32 :: "'b \<Rightarrow> (u32 \<times> 'b) option"
  cd_DecodeString :: "nat \<Rightarrow> 'b \<Rightarrow> (string \<times> 'b) option"
  cd_DecodeBytes :: "nat \<Rightarrow> 'b \<Rightarrow> (bytes \<times> 'b) option"

subsection \<open>The shape of a generated \<open>Marshal\<close> and \<open>Unmarshal\<close>\<close>

text \<open>\<open>encodeAll\<close> runs the \<open>Encode\<close> calls of a body in order; \<open>readField\<close> is one \<open>Decode\<close> call followed by the rest of the
  body, which ends in \<open>done\<close> with the message read.\<close>

primrec encodeAll :: "('b \<Rightarrow> 'b option) list \<Rightarrow> 'b \<Rightarrow> 'b option" where
  "encodeAll [] b = Some b"
| "encodeAll (f # fs) b = Option.bind (f b) (encodeAll fs)"

definition readField :: "('b \<Rightarrow> ('a \<times> 'b) option) \<Rightarrow> ('a \<Rightarrow> 'b \<Rightarrow> ('m \<times> 'b) option) \<Rightarrow> 'b \<Rightarrow> ('m \<times> 'b) option" where
  "readField d k b = (case d b of None \<Rightarrow> None | Some (x, b') \<Rightarrow> k x b')"

definition fieldsRead :: "'m \<Rightarrow> 'b \<Rightarrow> ('m \<times> 'b) option" where
  "fieldsRead m b = Some (m, b)"

primrec decodeEach :: "('b \<Rightarrow> ('a \<times> 'b) option) \<Rightarrow> nat \<Rightarrow> 'b \<Rightarrow> ('a list \<times> 'b) option" where
  "decodeEach d 0 b = Some ([], b)"
| "decodeEach d (Suc n) b =
     (case d b of None \<Rightarrow> None
      | Some (x, b') \<Rightarrow> (case decodeEach d n b' of None \<Rightarrow> None | Some (xs, b'') \<Rightarrow> Some (x # xs, b'')))"

text \<open>The element the encoding loops pick: \<open>var x T; if i < len(xs) { x = xs[i] }\<close>.\<close>

definition elemOrZero :: "'a::zero list \<Rightarrow> nat \<Rightarrow> 'a" where
  "elemOrZero xs i = (if i < length xs then xs ! i else 0)"

definition marshalFields :: "'b codec \<Rightarrow> nat \<Rightarrow> bytes option \<Rightarrow> ('b \<Rightarrow> 'b option) list \<Rightarrow> bytes option" where
  "marshalFields cd sz b fs =
     map_option (cd_Bytes cd) (encodeAll fs (cd_NewBuffer cd (case b of None \<Rightarrow> replicate sz 0 | Some b \<Rightarrow> b)))"

definition unmarshalFields :: "'b codec \<Rightarrow> bytes \<Rightarrow> ('b \<Rightarrow> ('m \<times> 'b) option) \<Rightarrow> 'm option" where
  "unmarshalFields cd b d = map_option fst (d (cd_NewBuffer cd b))"

subsection \<open>Which bytes an operation writes and reads\<close>

text \<open>\<open>view\<close> is the whole content of a buffer and the position in it. An encoder writes into a part that is still zero.\<close>

definition encodes :: "('b \<Rightarrow> bytes \<times> nat) \<Rightarrow> ('b \<Rightarrow> 'b option) \<Rightarrow> bytes \<Rightarrow> bool" where
  "encodes view e bs \<longleftrightarrow> (\<forall>b pre n. view b = (pre @ replicate (length bs + n) 0, length pre) \<longrightarrow>
     (\<exists>b'. e b = Some b' \<and> view b' = (pre @ bs @ replicate n 0, length pre + length bs)))"

definition decodes :: "('b \<Rightarrow> bytes \<times> nat) \<Rightarrow> ('b \<Rightarrow> ('a \<times> 'b) option) \<Rightarrow> bytes \<Rightarrow> 'a \<Rightarrow> bool" where
  "decodes view d bs x \<longleftrightarrow> (\<forall>b pre post. view b = (pre @ bs @ post, length pre) \<longrightarrow>
     (\<exists>b'. d b = Some (x, b') \<and> view b' = (pre @ bs @ post, length pre + length bs)))"

definition strBytes :: "string \<Rightarrow> bytes" where
  "strBytes s = map of_char s"

text \<open>The bytes of a string in a field of \<open>n\<close> bytes, and of one with a length prefix.\<close>

definition fixedBytes :: "nat \<Rightarrow> string \<Rightarrow> bytes" where
  "fixedBytes n s = strBytes s @ replicate (n - length s) 0"

definition prefixedBytes :: "string \<Rightarrow> bytes" where
  "prefixedBytes s = be_bytes 4 (of_nat (length s) :: u32) @ strBytes s"

definition fixed_ok :: "nat \<Rightarrow> string \<Rightarrow> bool" where
  "fixed_ok n s \<longleftrightarrow> length s \<le> n \<and> CHR 0x00 \<notin> set s"

definition boolByte :: "bool \<Rightarrow> u8" where
  "boolByte x = (if x then 1 else 0)"

lemma strBytes_length [simp]: "length (strBytes s) = length s"
  by (simp add: strBytes_def)

lemma fixedBytes_length: "length s \<le> n \<Longrightarrow> length (fixedBytes n s) = n"
  by (simp add: fixedBytes_def)

lemma encodesD:
  "encodes view e bs \<Longrightarrow> view b = (pre @ replicate (length bs + n) 0, length pre) \<Longrightarrow>
     \<exists>b'. e b = Some b' \<and> view b' = (pre @ bs @ replicate n 0, length pre + length bs)"
  by (simp add: encodes_def)

lemma decodesD:
  "decodes view d bs x \<Longrightarrow> view b = (pre @ bs @ post, length pre) \<Longrightarrow>
     \<exists>b'. d b = Some (x, b') \<and> view b' = (pre @ bs @ post, length pre + length bs)"
  by (simp add: decodes_def)

lemma encodes_nil: "encodes view (encodeAll []) []"
  by (simp add: encodes_def)

lemma encodes_cons:
  assumes "encodes view f bs" and "encodes view (encodeAll fs) cs"
  shows "encodes view (encodeAll (f # fs)) (bs @ cs)"
  unfolding encodes_def
proof (intro allI impI)
  fix b pre n assume "view b = (pre @ replicate (length (bs @ cs) + n) 0, length pre)"
  then obtain b1 where b1: "f b = Some b1" "view b1 = ((pre @ bs) @ replicate (length cs + n) 0, length (pre @ bs))"
    using encodesD [OF assms(1), of b pre "length cs + n"] by (auto simp: add.assoc)
  then obtain b2 where "encodeAll fs b1 = Some b2" "view b2 = ((pre @ bs) @ cs @ replicate n 0, length (pre @ bs) + length cs)"
    using encodesD [OF assms(2)] by blast
  then show "\<exists>b'. encodeAll (f # fs) b = Some b' \<and> view b' = (pre @ (bs @ cs) @ replicate n 0, length pre + length (bs @ cs))"
    using b1 by simp
qed

lemma encodes_all: "\<forall>x \<in> set xs. encodes view (f x) (g x) \<Longrightarrow> encodes view (encodeAll (map f xs)) (concat (map g xs))"
  by (induction xs) (simp_all add: encodes_nil encodes_cons del: encodeAll.simps)

lemma encodes_loop:
  assumes "\<forall>x \<in> set xs. encodes view (f x) (g x)" and "length xs = n"
  shows "encodes view (encodeAll (map (\<lambda>i. f (elemOrZero xs i)) [0..<n])) (concat (map g xs))"
proof -
  have "map (\<lambda>i. f (elemOrZero xs i)) [0..<n] = map f xs"
    using assms(2) by (auto simp: elemOrZero_def intro!: nth_equalityI)
  then show ?thesis using encodes_all [OF assms(1)] by simp
qed

lemma decodes_done: "x = y \<Longrightarrow> decodes view (fieldsRead x) [] y"
  by (simp add: decodes_def fieldsRead_def)

lemma decodes_read:
  assumes "decodes view d bs x" and "decodes view (k x) cs y"
  shows "decodes view (readField d k) (bs @ cs) y"
  unfolding decodes_def
proof (intro allI impI)
  fix b pre post assume "view b = (pre @ (bs @ cs) @ post, length pre)"
  then obtain b1 where b1: "d b = Some (x, b1)" "view b1 = ((pre @ bs) @ cs @ post, length (pre @ bs))"
    using decodesD [OF assms(1), of b pre "cs @ post"] by auto
  then obtain b2 where "k x b1 = Some (y, b2)" "view b2 = ((pre @ bs) @ cs @ post, length (pre @ bs) + length cs)"
    using decodesD [OF assms(2)] by blast
  then show "\<exists>b'. readField d k b = Some (y, b') \<and> view b' = (pre @ (bs @ cs) @ post, length pre + length (bs @ cs))"
    using b1 by (simp add: readField_def)
qed

lemma decodeEach_read: "decodeEach d (Suc n) = readField d (\<lambda>x. readField (decodeEach d n) (\<lambda>xs. fieldsRead (x # xs)))"
  by (rule ext) (simp add: readField_def fieldsRead_def split: option.splits prod.splits)

lemma decodes_each:
  "length xs = n \<Longrightarrow> \<forall>x \<in> set xs. decodes view d (g x) x \<Longrightarrow> decodes view (decodeEach d n) (concat (map g xs)) xs"
proof (induction xs arbitrary: n)
  case Nil
  then show ?case by (simp add: decodes_def)
next
  case (Cons x xs)
  then obtain k where k: "n = Suc k" "length xs = k" by auto
  have "decodes view (readField d (\<lambda>x. readField (decodeEach d k) (\<lambda>xs. fieldsRead (x # xs)))) (g x @ concat (map g xs) @ []) (x # xs)"
    using Cons k by (intro decodes_read decodes_done refl) auto
  then show ?case by (simp add: k(1) decodeEach_read del: decodeEach.simps)
qed

text \<open>A message is exact on the wire when \<open>Marshal\<close> fills precisely \<open>Size\<close> bytes, whether it allocates the buffer or is given
  a zeroed one, and \<open>Unmarshal\<close> reads the message back.\<close>

definition wire_exact :: "(bytes option \<Rightarrow> bytes option) \<Rightarrow> nat \<Rightarrow> (bytes \<Rightarrow> 'm option) \<Rightarrow> 'm \<Rightarrow> bool" where
  "wire_exact marshal sz unmarshal m \<longleftrightarrow>
     (\<exists>bs. marshal None = Some bs \<and> marshal (Some (replicate sz 0)) = Some bs \<and> length bs = sz \<and> unmarshal bs = Some m)"

locale govpp_codec =
  fixes cd :: "'b codec" and view :: "'b \<Rightarrow> bytes \<times> nat"
  assumes NewBuffer: "view (cd_NewBuffer cd bs) = (bs, 0)"
    and Bytes: "cd_Bytes cd b = fst (view b)"
    and EncodeBool: "encodes view (cd_EncodeBool cd x) [boolByte x]"
    and EncodeUint8: "encodes view (cd_EncodeUint8 cd v8) [v8]"
    and EncodeUint16: "encodes view (cd_EncodeUint16 cd v16) (be_bytes 2 v16)"
    and EncodeUint32: "encodes view (cd_EncodeUint32 cd v32) (be_bytes 4 v32)"
    and EncodeUint64: "encodes view (cd_EncodeUint64 cd v64) (be_bytes 8 v64)"
    and EncodeInt16: "encodes view (cd_EncodeInt16 cd v16) (be_bytes 2 v16)"
    and EncodeInt32: "encodes view (cd_EncodeInt32 cd v32) (be_bytes 4 v32)"
    and EncodeFixed: "0 < n \<Longrightarrow> length s \<le> n \<Longrightarrow> encodes view (cd_EncodeString cd s n) (fixedBytes n s)"
    and EncodePrefixed: "length s < 2 ^ 32 \<Longrightarrow> encodes view (cd_EncodeString cd s 0) (prefixedBytes s)"
    and EncodeBytes: "n = 0 \<or> n = length bs \<Longrightarrow> encodes view (cd_EncodeBytes cd bs n) bs"
    and DecodeBool: "decodes view (cd_DecodeBool cd) [boolByte x] x"
    and DecodeUint8: "decodes view (cd_DecodeUint8 cd) [v8] v8"
    and DecodeUint16: "decodes view (cd_DecodeUint16 cd) (be_bytes 2 v16) v16"
    and DecodeUint32: "decodes view (cd_DecodeUint32 cd) (be_bytes 4 v32) v32"
    and DecodeUint64: "decodes view (cd_DecodeUint64 cd) (be_bytes 8 v64) v64"
    and DecodeInt16: "decodes view (cd_DecodeInt16 cd) (be_bytes 2 v16) v16"
    and DecodeInt32: "decodes view (cd_DecodeInt32 cd) (be_bytes 4 v32) v32"
    and DecodeFixed: "0 < n \<Longrightarrow> fixed_ok n s \<Longrightarrow> decodes view (cd_DecodeString cd n) (fixedBytes n s) s"
    and DecodePrefixed: "length s < 2 ^ 32 \<Longrightarrow> decodes view (cd_DecodeString cd 0) (prefixedBytes s) s"
    and DecodeBytes: "n = length bs \<Longrightarrow> decodes view (cd_DecodeBytes cd n) bs bs"
begin

lemmas encoders = EncodeBool EncodeUint8 EncodeUint16 EncodeUint32 EncodeUint64 EncodeInt16 EncodeInt32 EncodeFixed
  EncodePrefixed EncodeBytes encodes_cons encodes_nil

lemmas decoders = DecodeBool DecodeUint8 DecodeUint16 DecodeUint32 DecodeUint64 DecodeInt16 DecodeInt32 DecodeFixed
  DecodePrefixed DecodeBytes decodes_read decodes_done

lemma wire_exactI:
  assumes "encodes view (encodeAll fs) bs" and "decodes view d bs m" and "length bs = sz"
  shows "wire_exact (\<lambda>b. marshalFields cd sz b fs) sz (\<lambda>b. unmarshalFields cd b d) m"
proof -
  obtain b' where enc: "encodeAll fs (cd_NewBuffer cd (replicate sz 0)) = Some b'" and b': "fst (view b') = bs"
    using encodesD [OF assms(1), of "cd_NewBuffer cd (replicate sz 0)" "[]" 0] assms(3) by (auto simp: NewBuffer)
  obtain b'' where "d (cd_NewBuffer cd bs) = Some (m, b'')"
    using decodesD [OF assms(2), of "cd_NewBuffer cd bs" "[]" "[]"] by (auto simp: NewBuffer)
  then show ?thesis
    using enc b' assms(3) by (simp add: wire_exact_def marshalFields_def unmarshalFields_def Bytes)
qed

end

subsection \<open>A reference buffer\<close>

definition ref_write :: "bytes \<Rightarrow> nat \<Rightarrow> bytes \<times> nat \<Rightarrow> (bytes \<times> nat) option" where
  "ref_write bs n b = (case b of (d, p) \<Rightarrow>
     if p + n \<le> length d then Some (take p d @ take n bs @ drop (p + min n (length bs)) d, p + n) else None)"

definition ref_read :: "(bytes \<Rightarrow> 'a) \<Rightarrow> nat \<Rightarrow> bytes \<times> nat \<Rightarrow> ('a \<times> (bytes \<times> nat)) option" where
  "ref_read f n b = (case b of (d, p) \<Rightarrow> if p + n \<le> length d then Some (f (take n (drop p d)), (d, p + n)) else None)"

definition ref_word :: "bytes \<Rightarrow> 'a::len word" where
  "ref_word bs = of_nat (be_nat bs)"

definition ref_string :: "bytes \<Rightarrow> string" where
  "ref_string bs = map (\<lambda>b. char_of (unat b)) bs"

definition ref_codec :: "(bytes \<times> nat) codec" where
  "ref_codec = \<lparr>cd_NewBuffer = \<lambda>bs. (bs, 0), cd_Bytes = fst,
     cd_EncodeBool = \<lambda>x. ref_write [boolByte x] 1, cd_EncodeUint8 = \<lambda>v. ref_write [v] 1,
     cd_EncodeUint16 = \<lambda>v. ref_write (be_bytes 2 v) 2, cd_EncodeUint32 = \<lambda>v. ref_write (be_bytes 4 v) 4,
     cd_EncodeUint64 = \<lambda>v. ref_write (be_bytes 8 v) 8, cd_EncodeInt16 = \<lambda>v. ref_write (be_bytes 2 v) 2,
     cd_EncodeInt32 = \<lambda>v. ref_write (be_bytes 4 v) 4,
     cd_EncodeString = \<lambda>s n. if n = 0 then ref_write (prefixedBytes s) (4 + length s) else ref_write (strBytes s) n,
     cd_EncodeBytes = \<lambda>bs n. ref_write bs (if n = 0 then length bs else n),
     cd_DecodeBool = ref_read (\<lambda>bs. hd bs \<noteq> 0) 1, cd_DecodeUint8 = ref_read hd 1, cd_DecodeUint16 = ref_read ref_word 2,
     cd_DecodeUint32 = ref_read ref_word 4, cd_DecodeUint64 = ref_read ref_word 8, cd_DecodeInt16 = ref_read ref_word 2,
     cd_DecodeInt32 = ref_read ref_word 4,
     cd_DecodeString = \<lambda>n b. if n = 0 then (case ref_read be_nat 4 b of None \<Rightarrow> None | Some (k, b') \<Rightarrow> ref_read ref_string k b')
       else ref_read (\<lambda>bs. ref_string (takeWhile (\<lambda>x. x \<noteq> 0) bs)) n b,
     cd_DecodeBytes = ref_read id\<rparr>"

lemma ref_write_encodes: "length bs = n \<Longrightarrow> encodes id (ref_write bs n) bs"
  by (simp add: encodes_def ref_write_def)

lemma ref_read_decodes: "length bs = n \<Longrightarrow> f bs = x \<Longrightarrow> decodes id (ref_read f n) bs x"
  by (auto simp: decodes_def ref_read_def)

lemma ref_word_be: "2 ^ LENGTH('a) \<le> (256::nat) ^ n \<Longrightarrow> ref_word (be_bytes n (w :: 'a::len word)) = w"
  using less_le_trans [OF unsigned_less [where 'a = nat, of w]] by (simp add: ref_word_def be_nat_be_bytes)

lemma of_char_byte: "(of_char c :: u8) = of_nat (of_char c)" and unat_of_char [simp]: "unat (of_char c :: u8) = of_char c"
proof -
  show e: "(of_char c :: u8) = of_nat (of_char c)" by (simp add: of_char_def horner_sum_simps)
  have "(of_char c :: nat) < 256" by simp
  then show "unat (of_char c :: u8) = of_char c" unfolding e by (simp add: unat_of_nat)
qed

lemma ref_string_bytes [simp]: "ref_string (strBytes s) = s"
  by (induction s) (simp_all add: ref_string_def strBytes_def)

lemma char_of_nat_zero: "char_of (0 :: nat) = CHR 0x00"
  by (simp add: char_of_def)

lemma strBytes_nonzero: "CHR 0x00 \<notin> set s \<Longrightarrow> x \<in> set (strBytes s) \<Longrightarrow> x \<noteq> 0"
  by (auto simp: strBytes_def) (metis char_of_char char_of_nat_zero unat_of_char unsigned_0)

lemma ref_fixed: "CHR 0x00 \<notin> set s \<Longrightarrow> takeWhile (\<lambda>x. x \<noteq> 0) (fixedBytes n s) = strBytes s"
  by (auto simp: fixedBytes_def takeWhile_append2 strBytes_nonzero takeWhile_replicate)

interpretation refcodec: govpp_codec ref_codec id
proof
  show "encodes id (cd_EncodeString ref_codec s n) (fixedBytes n s)" if "0 < n" "length s \<le> n" for n s
    using that by (auto simp: ref_codec_def encodes_def ref_write_def fixedBytes_def replicate_add)
  show "decodes id (cd_DecodeString ref_codec 0) (prefixedBytes s) s" if "length s < 2 ^ 32" for s
  proof -
    have k: "be_nat (be_bytes 4 (of_nat (length s) :: u32)) = length s"
      using that by (simp add: be_nat_be_bytes unat_of_nat)
    show ?thesis
      unfolding decodes_def
    proof (intro allI impI)
      fix b :: "bytes \<times> nat" and pre post assume "id b = (pre @ prefixedBytes s @ post, length pre)"
      then show "\<exists>b'. cd_DecodeString ref_codec 0 b = Some (s, b') \<and> id b' = (pre @ prefixedBytes s @ post, length pre + length (prefixedBytes s))"
        using k by (simp add: ref_codec_def ref_read_def prefixedBytes_def)
    qed
  qed
  show "decodes id (cd_DecodeString ref_codec n) (fixedBytes n s) s" if "0 < n" "fixed_ok n s" for n s
    using that ref_read_decodes [of "fixedBytes n s" n "\<lambda>bs. ref_string (takeWhile (\<lambda>x. x \<noteq> 0) bs)" s]
    by (simp add: ref_codec_def fixed_ok_def fixedBytes_length ref_fixed decodes_def)
qed (auto simp: ref_codec_def ref_word_be boolByte_def prefixedBytes_def intro!: ref_write_encodes ref_read_decodes)

end
