(* ===== verification/Vpp_Messages.thy ===== *)
theory Vpp_Messages
  imports Vpp_Codec
begin

text \<open>
  The generated VPP messages (\<open>internal/binapi\<close>) the agent sends and receives,
       each with its struct (\<open>wire_X\<close>: every field, an
  enum at the width of its Go type, a \<open>[n]uint8\<close> as a byte list), its name, CRC and kind (\<open>X_id\<close>),
       \<open>Size\<close>, \<open>Marshal\<close>
  and \<open>Unmarshal\<close>, the calls in the order of the bodies. A signed integer is the word of its bits. \<open>X_fits\<close>
  says which values of the struct a message can carry exactly: a fixed string field has room and holds no NUL, a length field is the
  length of its slice.
\<close>

datatype msg_type = RequestMessage | ReplyMessage

record msg_id =
  mi_Name :: string
  mi_Crc :: string
  mi_Type :: msg_type

record wire_Sse2QosAction =
  Sse2QosAction_Type :: u8
  Sse2QosAction_Dscp :: u8

record wire_PolicerConfig =
  PolicerConfig_Cir :: u32
  PolicerConfig_Eir :: u32
  PolicerConfig_Cb :: u64
  PolicerConfig_Eb :: u64
  PolicerConfig_RateType :: u8
  PolicerConfig_RoundType :: u8
  PolicerConfig_Type :: u8
  PolicerConfig_ColorAware :: bool
  PolicerConfig_ConformAction :: wire_Sse2QosAction
  PolicerConfig_ExceedAction :: wire_Sse2QosAction
  PolicerConfig_ViolateAction :: wire_Sse2QosAction

subsection \<open>\<open>policer/policer.ba.go\<close>\<close>

record wire_PolicerAdd =
  PolicerAdd_Name :: string
  PolicerAdd_Infos :: wire_PolicerConfig

definition PolicerAdd_id :: msg_id where
  "PolicerAdd_id = \<lparr>mi_Name = ''policer_add'', mi_Crc = ''4d949e35'', mi_Type = RequestMessage\<rparr>"

definition PolicerAdd_Size :: "wire_PolicerAdd \<Rightarrow> nat" where
  "PolicerAdd_Size m = 64 + 4 + 4 + 8 + 8 + 1 + 1 + 1 + 1 + 1 + 1 + 1 + 1 + 1 + 1"

definition PolicerAdd_Marshal ::
  "'b codec \<Rightarrow> wire_PolicerAdd \<Rightarrow> bytes option \<Rightarrow> bytes option" where
  "PolicerAdd_Marshal cd m = (\<lambda>b. marshalFields cd (PolicerAdd_Size m) b
     [cd_EncodeString cd (PolicerAdd_Name m) 64,
      cd_EncodeUint32 cd (PolicerConfig_Cir (PolicerAdd_Infos m)),
      cd_EncodeUint32 cd (PolicerConfig_Eir (PolicerAdd_Infos m)),
      cd_EncodeUint64 cd (PolicerConfig_Cb (PolicerAdd_Infos m)),
      cd_EncodeUint64 cd (PolicerConfig_Eb (PolicerAdd_Infos m)),
      cd_EncodeUint8 cd (PolicerConfig_RateType (PolicerAdd_Infos m)),
      cd_EncodeUint8 cd (PolicerConfig_RoundType (PolicerAdd_Infos m)),
      cd_EncodeUint8 cd (PolicerConfig_Type (PolicerAdd_Infos m)),
      cd_EncodeBool cd (PolicerConfig_ColorAware (PolicerAdd_Infos m)),
      cd_EncodeUint8 cd (Sse2QosAction_Type (PolicerConfig_ConformAction (PolicerAdd_Infos m))),
      cd_EncodeUint8 cd (Sse2QosAction_Dscp (PolicerConfig_ConformAction (PolicerAdd_Infos m))),
      cd_EncodeUint8 cd (Sse2QosAction_Type (PolicerConfig_ExceedAction (PolicerAdd_Infos m))),
      cd_EncodeUint8 cd (Sse2QosAction_Dscp (PolicerConfig_ExceedAction (PolicerAdd_Infos m))),
      cd_EncodeUint8 cd (Sse2QosAction_Type (PolicerConfig_ViolateAction (PolicerAdd_Infos m))),
      cd_EncodeUint8 cd (Sse2QosAction_Dscp (PolicerConfig_ViolateAction (PolicerAdd_Infos m)))])"

definition PolicerAdd_Unmarshal :: "'b codec \<Rightarrow> bytes \<Rightarrow> wire_PolicerAdd option" where
  "PolicerAdd_Unmarshal cd = (\<lambda>b. unmarshalFields cd b (
     readField (cd_DecodeString cd 64) (\<lambda>xName.
     readField (cd_DecodeUint32 cd) (\<lambda>xInfosCir.
     readField (cd_DecodeUint32 cd) (\<lambda>xInfosEir.
     readField (cd_DecodeUint64 cd) (\<lambda>xInfosCb.
     readField (cd_DecodeUint64 cd) (\<lambda>xInfosEb.
     readField (cd_DecodeUint8 cd) (\<lambda>xInfosRateType.
     readField (cd_DecodeUint8 cd) (\<lambda>xInfosRoundType.
     readField (cd_DecodeUint8 cd) (\<lambda>xInfosType.
     readField (cd_DecodeBool cd) (\<lambda>xInfosColorAware.
     readField (cd_DecodeUint8 cd) (\<lambda>xInfosConformActionType.
     readField (cd_DecodeUint8 cd) (\<lambda>xInfosConformActionDscp.
     readField (cd_DecodeUint8 cd) (\<lambda>xInfosExceedActionType.
     readField (cd_DecodeUint8 cd) (\<lambda>xInfosExceedActionDscp.
     readField (cd_DecodeUint8 cd) (\<lambda>xInfosViolateActionType.
     readField (cd_DecodeUint8 cd) (\<lambda>xInfosViolateActionDscp.
     fieldsRead \<lparr>PolicerAdd_Name = xName, PolicerAdd_Infos = \<lparr>PolicerConfig_Cir = xInfosCir,
       PolicerConfig_Eir = xInfosEir, PolicerConfig_Cb = xInfosCb, PolicerConfig_Eb = xInfosEb,
       PolicerConfig_RateType = xInfosRateType, PolicerConfig_RoundType = xInfosRoundType, PolicerConfig_Type = xInfosType,
       PolicerConfig_ColorAware = xInfosColorAware,
       PolicerConfig_ConformAction = \<lparr>Sse2QosAction_Type = xInfosConformActionType,
       Sse2QosAction_Dscp = xInfosConformActionDscp\<rparr>,
       PolicerConfig_ExceedAction = \<lparr>Sse2QosAction_Type = xInfosExceedActionType,
       Sse2QosAction_Dscp = xInfosExceedActionDscp\<rparr>,
       PolicerConfig_ViolateAction = \<lparr>Sse2QosAction_Type = xInfosViolateActionType,
       Sse2QosAction_Dscp = xInfosViolateActionDscp\<rparr>\<rparr>\<rparr>)))))))))))))))))"

record wire_PolicerAddReply =
  PolicerAddReply_Retval :: u32
  PolicerAddReply_PolicerIndex :: u32

definition PolicerAddReply_id :: msg_id where
  "PolicerAddReply_id = \<lparr>mi_Name = ''policer_add_reply'', mi_Crc = ''a177cef2'', mi_Type = ReplyMessage\<rparr>"

definition PolicerAddReply_Size :: "wire_PolicerAddReply \<Rightarrow> nat" where
  "PolicerAddReply_Size m = 4 + 4"

definition PolicerAddReply_Marshal ::
  "'b codec \<Rightarrow> wire_PolicerAddReply \<Rightarrow> bytes option \<Rightarrow> bytes option" where
  "PolicerAddReply_Marshal cd m = (\<lambda>b. marshalFields cd (PolicerAddReply_Size m) b
     [cd_EncodeInt32 cd (PolicerAddReply_Retval m),
      cd_EncodeUint32 cd (PolicerAddReply_PolicerIndex m)])"

definition PolicerAddReply_Unmarshal :: "'b codec \<Rightarrow> bytes \<Rightarrow> wire_PolicerAddReply option" where
  "PolicerAddReply_Unmarshal cd = (\<lambda>b. unmarshalFields cd b (
     readField (cd_DecodeInt32 cd) (\<lambda>xRetval.
     readField (cd_DecodeUint32 cd) (\<lambda>xPolicerIndex.
     fieldsRead \<lparr>PolicerAddReply_Retval = xRetval, PolicerAddReply_PolicerIndex = xPolicerIndex\<rparr>))))"

record wire_PolicerUpdate =
  PolicerUpdate_PolicerIndex :: u32
  PolicerUpdate_Infos :: wire_PolicerConfig

definition PolicerUpdate_id :: msg_id where
  "PolicerUpdate_id = \<lparr>mi_Name = ''policer_update'', mi_Crc = ''fd039ef0'', mi_Type = RequestMessage\<rparr>"

definition PolicerUpdate_Size :: "wire_PolicerUpdate \<Rightarrow> nat" where
  "PolicerUpdate_Size m = 4 + 4 + 4 + 8 + 8 + 1 + 1 + 1 + 1 + 1 + 1 + 1 + 1 + 1 + 1"

definition PolicerUpdate_Marshal ::
  "'b codec \<Rightarrow> wire_PolicerUpdate \<Rightarrow> bytes option \<Rightarrow> bytes option" where
  "PolicerUpdate_Marshal cd m = (\<lambda>b. marshalFields cd (PolicerUpdate_Size m) b
     [cd_EncodeUint32 cd (PolicerUpdate_PolicerIndex m),
      cd_EncodeUint32 cd (PolicerConfig_Cir (PolicerUpdate_Infos m)),
      cd_EncodeUint32 cd (PolicerConfig_Eir (PolicerUpdate_Infos m)),
      cd_EncodeUint64 cd (PolicerConfig_Cb (PolicerUpdate_Infos m)),
      cd_EncodeUint64 cd (PolicerConfig_Eb (PolicerUpdate_Infos m)),
      cd_EncodeUint8 cd (PolicerConfig_RateType (PolicerUpdate_Infos m)),
      cd_EncodeUint8 cd (PolicerConfig_RoundType (PolicerUpdate_Infos m)),
      cd_EncodeUint8 cd (PolicerConfig_Type (PolicerUpdate_Infos m)),
      cd_EncodeBool cd (PolicerConfig_ColorAware (PolicerUpdate_Infos m)),
      cd_EncodeUint8 cd (Sse2QosAction_Type (PolicerConfig_ConformAction (PolicerUpdate_Infos m))),
      cd_EncodeUint8 cd (Sse2QosAction_Dscp (PolicerConfig_ConformAction (PolicerUpdate_Infos m))),
      cd_EncodeUint8 cd (Sse2QosAction_Type (PolicerConfig_ExceedAction (PolicerUpdate_Infos m))),
      cd_EncodeUint8 cd (Sse2QosAction_Dscp (PolicerConfig_ExceedAction (PolicerUpdate_Infos m))),
      cd_EncodeUint8 cd (Sse2QosAction_Type (PolicerConfig_ViolateAction (PolicerUpdate_Infos m))),
      cd_EncodeUint8 cd (Sse2QosAction_Dscp (PolicerConfig_ViolateAction (PolicerUpdate_Infos m)))])"

definition PolicerUpdate_Unmarshal :: "'b codec \<Rightarrow> bytes \<Rightarrow> wire_PolicerUpdate option" where
  "PolicerUpdate_Unmarshal cd = (\<lambda>b. unmarshalFields cd b (
     readField (cd_DecodeUint32 cd) (\<lambda>xPolicerIndex.
     readField (cd_DecodeUint32 cd) (\<lambda>xInfosCir.
     readField (cd_DecodeUint32 cd) (\<lambda>xInfosEir.
     readField (cd_DecodeUint64 cd) (\<lambda>xInfosCb.
     readField (cd_DecodeUint64 cd) (\<lambda>xInfosEb.
     readField (cd_DecodeUint8 cd) (\<lambda>xInfosRateType.
     readField (cd_DecodeUint8 cd) (\<lambda>xInfosRoundType.
     readField (cd_DecodeUint8 cd) (\<lambda>xInfosType.
     readField (cd_DecodeBool cd) (\<lambda>xInfosColorAware.
     readField (cd_DecodeUint8 cd) (\<lambda>xInfosConformActionType.
     readField (cd_DecodeUint8 cd) (\<lambda>xInfosConformActionDscp.
     readField (cd_DecodeUint8 cd) (\<lambda>xInfosExceedActionType.
     readField (cd_DecodeUint8 cd) (\<lambda>xInfosExceedActionDscp.
     readField (cd_DecodeUint8 cd) (\<lambda>xInfosViolateActionType.
     readField (cd_DecodeUint8 cd) (\<lambda>xInfosViolateActionDscp.
     fieldsRead \<lparr>PolicerUpdate_PolicerIndex = xPolicerIndex, PolicerUpdate_Infos = \<lparr>PolicerConfig_Cir = xInfosCir,
       PolicerConfig_Eir = xInfosEir, PolicerConfig_Cb = xInfosCb, PolicerConfig_Eb = xInfosEb,
       PolicerConfig_RateType = xInfosRateType, PolicerConfig_RoundType = xInfosRoundType, PolicerConfig_Type = xInfosType,
       PolicerConfig_ColorAware = xInfosColorAware,
       PolicerConfig_ConformAction = \<lparr>Sse2QosAction_Type = xInfosConformActionType,
       Sse2QosAction_Dscp = xInfosConformActionDscp\<rparr>,
       PolicerConfig_ExceedAction = \<lparr>Sse2QosAction_Type = xInfosExceedActionType,
       Sse2QosAction_Dscp = xInfosExceedActionDscp\<rparr>,
       PolicerConfig_ViolateAction = \<lparr>Sse2QosAction_Type = xInfosViolateActionType,
       Sse2QosAction_Dscp = xInfosViolateActionDscp\<rparr>\<rparr>\<rparr>)))))))))))))))))"

record wire_PolicerUpdateReply =
  PolicerUpdateReply_Retval :: u32

definition PolicerUpdateReply_id :: msg_id where
  "PolicerUpdateReply_id = \<lparr>mi_Name = ''policer_update_reply'', mi_Crc = ''e8d4e804'', mi_Type = ReplyMessage\<rparr>"

definition PolicerUpdateReply_Size :: "wire_PolicerUpdateReply \<Rightarrow> nat" where
  "PolicerUpdateReply_Size m = 4"

definition PolicerUpdateReply_Marshal ::
  "'b codec \<Rightarrow> wire_PolicerUpdateReply \<Rightarrow> bytes option \<Rightarrow> bytes option" where
  "PolicerUpdateReply_Marshal cd m = (\<lambda>b. marshalFields cd (PolicerUpdateReply_Size m) b
     [cd_EncodeInt32 cd (PolicerUpdateReply_Retval m)])"

definition PolicerUpdateReply_Unmarshal :: "'b codec \<Rightarrow> bytes \<Rightarrow> wire_PolicerUpdateReply option" where
  "PolicerUpdateReply_Unmarshal cd = (\<lambda>b. unmarshalFields cd b (
     readField (cd_DecodeInt32 cd) (\<lambda>xRetval.
     fieldsRead \<lparr>PolicerUpdateReply_Retval = xRetval\<rparr>)))"

record wire_PolicerDel =
  PolicerDel_PolicerIndex :: u32

definition PolicerDel_id :: msg_id where
  "PolicerDel_id = \<lparr>mi_Name = ''policer_del'', mi_Crc = ''7ff7912e'', mi_Type = RequestMessage\<rparr>"

definition PolicerDel_Size :: "wire_PolicerDel \<Rightarrow> nat" where
  "PolicerDel_Size m = 4"

definition PolicerDel_Marshal ::
  "'b codec \<Rightarrow> wire_PolicerDel \<Rightarrow> bytes option \<Rightarrow> bytes option" where
  "PolicerDel_Marshal cd m = (\<lambda>b. marshalFields cd (PolicerDel_Size m) b
     [cd_EncodeUint32 cd (PolicerDel_PolicerIndex m)])"

definition PolicerDel_Unmarshal :: "'b codec \<Rightarrow> bytes \<Rightarrow> wire_PolicerDel option" where
  "PolicerDel_Unmarshal cd = (\<lambda>b. unmarshalFields cd b (
     readField (cd_DecodeUint32 cd) (\<lambda>xPolicerIndex.
     fieldsRead \<lparr>PolicerDel_PolicerIndex = xPolicerIndex\<rparr>)))"

record wire_PolicerDelReply =
  PolicerDelReply_Retval :: u32

definition PolicerDelReply_id :: msg_id where
  "PolicerDelReply_id = \<lparr>mi_Name = ''policer_del_reply'', mi_Crc = ''e8d4e804'', mi_Type = ReplyMessage\<rparr>"

definition PolicerDelReply_Size :: "wire_PolicerDelReply \<Rightarrow> nat" where
  "PolicerDelReply_Size m = 4"

definition PolicerDelReply_Marshal ::
  "'b codec \<Rightarrow> wire_PolicerDelReply \<Rightarrow> bytes option \<Rightarrow> bytes option" where
  "PolicerDelReply_Marshal cd m = (\<lambda>b. marshalFields cd (PolicerDelReply_Size m) b
     [cd_EncodeInt32 cd (PolicerDelReply_Retval m)])"

definition PolicerDelReply_Unmarshal :: "'b codec \<Rightarrow> bytes \<Rightarrow> wire_PolicerDelReply option" where
  "PolicerDelReply_Unmarshal cd = (\<lambda>b. unmarshalFields cd b (
     readField (cd_DecodeInt32 cd) (\<lambda>xRetval.
     fieldsRead \<lparr>PolicerDelReply_Retval = xRetval\<rparr>)))"

record wire_PolicerBindV2 =
  PolicerBindV2_PolicerIndex :: u32
  PolicerBindV2_WorkerIndex :: u32
  PolicerBindV2_BindEnable :: bool

definition PolicerBindV2_id :: msg_id where
  "PolicerBindV2_id = \<lparr>mi_Name = ''policer_bind_v2'', mi_Crc = ''f87bd3c0'', mi_Type = RequestMessage\<rparr>"

definition PolicerBindV2_Size :: "wire_PolicerBindV2 \<Rightarrow> nat" where
  "PolicerBindV2_Size m = 4 + 4 + 1"

definition PolicerBindV2_Marshal ::
  "'b codec \<Rightarrow> wire_PolicerBindV2 \<Rightarrow> bytes option \<Rightarrow> bytes option" where
  "PolicerBindV2_Marshal cd m = (\<lambda>b. marshalFields cd (PolicerBindV2_Size m) b
     [cd_EncodeUint32 cd (PolicerBindV2_PolicerIndex m),
      cd_EncodeUint32 cd (PolicerBindV2_WorkerIndex m),
      cd_EncodeBool cd (PolicerBindV2_BindEnable m)])"

definition PolicerBindV2_Unmarshal :: "'b codec \<Rightarrow> bytes \<Rightarrow> wire_PolicerBindV2 option" where
  "PolicerBindV2_Unmarshal cd = (\<lambda>b. unmarshalFields cd b (
     readField (cd_DecodeUint32 cd) (\<lambda>xPolicerIndex.
     readField (cd_DecodeUint32 cd) (\<lambda>xWorkerIndex.
     readField (cd_DecodeBool cd) (\<lambda>xBindEnable.
     fieldsRead \<lparr>PolicerBindV2_PolicerIndex = xPolicerIndex, PolicerBindV2_WorkerIndex = xWorkerIndex,
       PolicerBindV2_BindEnable = xBindEnable\<rparr>)))))"

record wire_PolicerBindV2Reply =
  PolicerBindV2Reply_Retval :: u32

definition PolicerBindV2Reply_id :: msg_id where
  "PolicerBindV2Reply_id = \<lparr>mi_Name = ''policer_bind_v2_reply'', mi_Crc = ''e8d4e804'', mi_Type = ReplyMessage\<rparr>"

definition PolicerBindV2Reply_Size :: "wire_PolicerBindV2Reply \<Rightarrow> nat" where
  "PolicerBindV2Reply_Size m = 4"

definition PolicerBindV2Reply_Marshal ::
  "'b codec \<Rightarrow> wire_PolicerBindV2Reply \<Rightarrow> bytes option \<Rightarrow> bytes option" where
  "PolicerBindV2Reply_Marshal cd m = (\<lambda>b. marshalFields cd (PolicerBindV2Reply_Size m) b
     [cd_EncodeInt32 cd (PolicerBindV2Reply_Retval m)])"

definition PolicerBindV2Reply_Unmarshal :: "'b codec \<Rightarrow> bytes \<Rightarrow> wire_PolicerBindV2Reply option" where
  "PolicerBindV2Reply_Unmarshal cd = (\<lambda>b. unmarshalFields cd b (
     readField (cd_DecodeInt32 cd) (\<lambda>xRetval.
     fieldsRead \<lparr>PolicerBindV2Reply_Retval = xRetval\<rparr>)))"

record wire_PolicerAddDel =
  PolicerAddDel_IsAdd :: bool
  PolicerAddDel_Name :: string
  PolicerAddDel_Cir :: u32
  PolicerAddDel_Eir :: u32
  PolicerAddDel_Cb :: u64
  PolicerAddDel_Eb :: u64
  PolicerAddDel_RateType :: u8
  PolicerAddDel_RoundType :: u8
  PolicerAddDel_Type :: u8
  PolicerAddDel_ColorAware :: bool
  PolicerAddDel_ConformAction :: wire_Sse2QosAction
  PolicerAddDel_ExceedAction :: wire_Sse2QosAction
  PolicerAddDel_ViolateAction :: wire_Sse2QosAction

definition PolicerAddDel_id :: msg_id where
  "PolicerAddDel_id = \<lparr>mi_Name = ''policer_add_del'', mi_Crc = ''2b31dd38'', mi_Type = RequestMessage\<rparr>"

definition PolicerAddDel_Size :: "wire_PolicerAddDel \<Rightarrow> nat" where
  "PolicerAddDel_Size m = 1 + 64 + 4 + 4 + 8 + 8 + 1 + 1 + 1 + 1 + 1 + 1 + 1 + 1 + 1 + 1"

definition PolicerAddDel_Marshal ::
  "'b codec \<Rightarrow> wire_PolicerAddDel \<Rightarrow> bytes option \<Rightarrow> bytes option" where
  "PolicerAddDel_Marshal cd m = (\<lambda>b. marshalFields cd (PolicerAddDel_Size m) b
     [cd_EncodeBool cd (PolicerAddDel_IsAdd m),
      cd_EncodeString cd (PolicerAddDel_Name m) 64,
      cd_EncodeUint32 cd (PolicerAddDel_Cir m),
      cd_EncodeUint32 cd (PolicerAddDel_Eir m),
      cd_EncodeUint64 cd (PolicerAddDel_Cb m),
      cd_EncodeUint64 cd (PolicerAddDel_Eb m),
      cd_EncodeUint8 cd (PolicerAddDel_RateType m),
      cd_EncodeUint8 cd (PolicerAddDel_RoundType m),
      cd_EncodeUint8 cd (PolicerAddDel_Type m),
      cd_EncodeBool cd (PolicerAddDel_ColorAware m),
      cd_EncodeUint8 cd (Sse2QosAction_Type (PolicerAddDel_ConformAction m)),
      cd_EncodeUint8 cd (Sse2QosAction_Dscp (PolicerAddDel_ConformAction m)),
      cd_EncodeUint8 cd (Sse2QosAction_Type (PolicerAddDel_ExceedAction m)),
      cd_EncodeUint8 cd (Sse2QosAction_Dscp (PolicerAddDel_ExceedAction m)),
      cd_EncodeUint8 cd (Sse2QosAction_Type (PolicerAddDel_ViolateAction m)),
      cd_EncodeUint8 cd (Sse2QosAction_Dscp (PolicerAddDel_ViolateAction m))])"

definition PolicerAddDel_Unmarshal :: "'b codec \<Rightarrow> bytes \<Rightarrow> wire_PolicerAddDel option" where
  "PolicerAddDel_Unmarshal cd = (\<lambda>b. unmarshalFields cd b (
     readField (cd_DecodeBool cd) (\<lambda>xIsAdd.
     readField (cd_DecodeString cd 64) (\<lambda>xName.
     readField (cd_DecodeUint32 cd) (\<lambda>xCir.
     readField (cd_DecodeUint32 cd) (\<lambda>xEir.
     readField (cd_DecodeUint64 cd) (\<lambda>xCb.
     readField (cd_DecodeUint64 cd) (\<lambda>xEb.
     readField (cd_DecodeUint8 cd) (\<lambda>xRateType.
     readField (cd_DecodeUint8 cd) (\<lambda>xRoundType.
     readField (cd_DecodeUint8 cd) (\<lambda>xType.
     readField (cd_DecodeBool cd) (\<lambda>xColorAware.
     readField (cd_DecodeUint8 cd) (\<lambda>xConformActionType.
     readField (cd_DecodeUint8 cd) (\<lambda>xConformActionDscp.
     readField (cd_DecodeUint8 cd) (\<lambda>xExceedActionType.
     readField (cd_DecodeUint8 cd) (\<lambda>xExceedActionDscp.
     readField (cd_DecodeUint8 cd) (\<lambda>xViolateActionType.
     readField (cd_DecodeUint8 cd) (\<lambda>xViolateActionDscp.
     fieldsRead \<lparr>PolicerAddDel_IsAdd = xIsAdd, PolicerAddDel_Name = xName, PolicerAddDel_Cir = xCir,
       PolicerAddDel_Eir = xEir, PolicerAddDel_Cb = xCb, PolicerAddDel_Eb = xEb, PolicerAddDel_RateType = xRateType,
       PolicerAddDel_RoundType = xRoundType, PolicerAddDel_Type = xType, PolicerAddDel_ColorAware = xColorAware,
       PolicerAddDel_ConformAction = \<lparr>Sse2QosAction_Type = xConformActionType,
       Sse2QosAction_Dscp = xConformActionDscp\<rparr>,
       PolicerAddDel_ExceedAction = \<lparr>Sse2QosAction_Type = xExceedActionType,
       Sse2QosAction_Dscp = xExceedActionDscp\<rparr>,
       PolicerAddDel_ViolateAction = \<lparr>Sse2QosAction_Type = xViolateActionType,
       Sse2QosAction_Dscp = xViolateActionDscp\<rparr>\<rparr>))))))))))))))))))"

record wire_PolicerAddDelReply =
  PolicerAddDelReply_Retval :: u32
  PolicerAddDelReply_PolicerIndex :: u32

definition PolicerAddDelReply_id :: msg_id where
  "PolicerAddDelReply_id = \<lparr>mi_Name = ''policer_add_del_reply'', mi_Crc = ''a177cef2'', mi_Type = ReplyMessage\<rparr>"

definition PolicerAddDelReply_Size :: "wire_PolicerAddDelReply \<Rightarrow> nat" where
  "PolicerAddDelReply_Size m = 4 + 4"

definition PolicerAddDelReply_Marshal ::
  "'b codec \<Rightarrow> wire_PolicerAddDelReply \<Rightarrow> bytes option \<Rightarrow> bytes option" where
  "PolicerAddDelReply_Marshal cd m = (\<lambda>b. marshalFields cd (PolicerAddDelReply_Size m) b
     [cd_EncodeInt32 cd (PolicerAddDelReply_Retval m),
      cd_EncodeUint32 cd (PolicerAddDelReply_PolicerIndex m)])"

definition PolicerAddDelReply_Unmarshal :: "'b codec \<Rightarrow> bytes \<Rightarrow> wire_PolicerAddDelReply option" where
  "PolicerAddDelReply_Unmarshal cd = (\<lambda>b. unmarshalFields cd b (
     readField (cd_DecodeInt32 cd) (\<lambda>xRetval.
     readField (cd_DecodeUint32 cd) (\<lambda>xPolicerIndex.
     fieldsRead \<lparr>PolicerAddDelReply_Retval = xRetval, PolicerAddDelReply_PolicerIndex = xPolicerIndex\<rparr>))))"

record wire_PolicerDump =
  PolicerDump_MatchNameValid :: bool
  PolicerDump_MatchName :: string

definition PolicerDump_id :: msg_id where
  "PolicerDump_id = \<lparr>mi_Name = ''policer_dump'', mi_Crc = ''35f1ae0f'', mi_Type = RequestMessage\<rparr>"

definition PolicerDump_Size :: "wire_PolicerDump \<Rightarrow> nat" where
  "PolicerDump_Size m = 1 + 64"

definition PolicerDump_Marshal ::
  "'b codec \<Rightarrow> wire_PolicerDump \<Rightarrow> bytes option \<Rightarrow> bytes option" where
  "PolicerDump_Marshal cd m = (\<lambda>b. marshalFields cd (PolicerDump_Size m) b
     [cd_EncodeBool cd (PolicerDump_MatchNameValid m),
      cd_EncodeString cd (PolicerDump_MatchName m) 64])"

definition PolicerDump_Unmarshal :: "'b codec \<Rightarrow> bytes \<Rightarrow> wire_PolicerDump option" where
  "PolicerDump_Unmarshal cd = (\<lambda>b. unmarshalFields cd b (
     readField (cd_DecodeBool cd) (\<lambda>xMatchNameValid.
     readField (cd_DecodeString cd 64) (\<lambda>xMatchName.
     fieldsRead \<lparr>PolicerDump_MatchNameValid = xMatchNameValid, PolicerDump_MatchName = xMatchName\<rparr>))))"

record wire_PolicerDetails =
  PolicerDetails_Name :: string
  PolicerDetails_Cir :: u32
  PolicerDetails_Eir :: u32
  PolicerDetails_Cb :: u64
  PolicerDetails_Eb :: u64
  PolicerDetails_RateType :: u8
  PolicerDetails_RoundType :: u8
  PolicerDetails_Type :: u8
  PolicerDetails_ConformAction :: wire_Sse2QosAction
  PolicerDetails_ExceedAction :: wire_Sse2QosAction
  PolicerDetails_ViolateAction :: wire_Sse2QosAction
  PolicerDetails_SingleRate :: bool
  PolicerDetails_ColorAware :: bool
  PolicerDetails_Scale :: u32
  PolicerDetails_CirTokensPerPeriod :: u32
  PolicerDetails_PirTokensPerPeriod :: u32
  PolicerDetails_CurrentLimit :: u32
  PolicerDetails_CurrentBucket :: u32
  PolicerDetails_ExtendedLimit :: u32
  PolicerDetails_ExtendedBucket :: u32
  PolicerDetails_LastUpdateTime :: u64

definition PolicerDetails_id :: msg_id where
  "PolicerDetails_id = \<lparr>mi_Name = ''policer_details'', mi_Crc = ''72d0e248'', mi_Type = ReplyMessage\<rparr>"

definition PolicerDetails_Size :: "wire_PolicerDetails \<Rightarrow> nat" where
  "PolicerDetails_Size m = 64 + 4 + 4 + 8 + 8 + 1 + 1 + 1 + 1 + 1 + 1 + 1 + 1 + 1 + 1 + 1 + 4 + 4 + 4 + 4 + 4 + 4 + 4 + 8"

definition PolicerDetails_Marshal ::
  "'b codec \<Rightarrow> wire_PolicerDetails \<Rightarrow> bytes option \<Rightarrow> bytes option" where
  "PolicerDetails_Marshal cd m = (\<lambda>b. marshalFields cd (PolicerDetails_Size m) b
     [cd_EncodeString cd (PolicerDetails_Name m) 64,
      cd_EncodeUint32 cd (PolicerDetails_Cir m),
      cd_EncodeUint32 cd (PolicerDetails_Eir m),
      cd_EncodeUint64 cd (PolicerDetails_Cb m),
      cd_EncodeUint64 cd (PolicerDetails_Eb m),
      cd_EncodeUint8 cd (PolicerDetails_RateType m),
      cd_EncodeUint8 cd (PolicerDetails_RoundType m),
      cd_EncodeUint8 cd (PolicerDetails_Type m),
      cd_EncodeUint8 cd (Sse2QosAction_Type (PolicerDetails_ConformAction m)),
      cd_EncodeUint8 cd (Sse2QosAction_Dscp (PolicerDetails_ConformAction m)),
      cd_EncodeUint8 cd (Sse2QosAction_Type (PolicerDetails_ExceedAction m)),
      cd_EncodeUint8 cd (Sse2QosAction_Dscp (PolicerDetails_ExceedAction m)),
      cd_EncodeUint8 cd (Sse2QosAction_Type (PolicerDetails_ViolateAction m)),
      cd_EncodeUint8 cd (Sse2QosAction_Dscp (PolicerDetails_ViolateAction m)),
      cd_EncodeBool cd (PolicerDetails_SingleRate m),
      cd_EncodeBool cd (PolicerDetails_ColorAware m),
      cd_EncodeUint32 cd (PolicerDetails_Scale m),
      cd_EncodeUint32 cd (PolicerDetails_CirTokensPerPeriod m),
      cd_EncodeUint32 cd (PolicerDetails_PirTokensPerPeriod m),
      cd_EncodeUint32 cd (PolicerDetails_CurrentLimit m),
      cd_EncodeUint32 cd (PolicerDetails_CurrentBucket m),
      cd_EncodeUint32 cd (PolicerDetails_ExtendedLimit m),
      cd_EncodeUint32 cd (PolicerDetails_ExtendedBucket m),
      cd_EncodeUint64 cd (PolicerDetails_LastUpdateTime m)])"

definition PolicerDetails_Unmarshal :: "'b codec \<Rightarrow> bytes \<Rightarrow> wire_PolicerDetails option" where
  "PolicerDetails_Unmarshal cd = (\<lambda>b. unmarshalFields cd b (
     readField (cd_DecodeString cd 64) (\<lambda>xName.
     readField (cd_DecodeUint32 cd) (\<lambda>xCir.
     readField (cd_DecodeUint32 cd) (\<lambda>xEir.
     readField (cd_DecodeUint64 cd) (\<lambda>xCb.
     readField (cd_DecodeUint64 cd) (\<lambda>xEb.
     readField (cd_DecodeUint8 cd) (\<lambda>xRateType.
     readField (cd_DecodeUint8 cd) (\<lambda>xRoundType.
     readField (cd_DecodeUint8 cd) (\<lambda>xType.
     readField (cd_DecodeUint8 cd) (\<lambda>xConformActionType.
     readField (cd_DecodeUint8 cd) (\<lambda>xConformActionDscp.
     readField (cd_DecodeUint8 cd) (\<lambda>xExceedActionType.
     readField (cd_DecodeUint8 cd) (\<lambda>xExceedActionDscp.
     readField (cd_DecodeUint8 cd) (\<lambda>xViolateActionType.
     readField (cd_DecodeUint8 cd) (\<lambda>xViolateActionDscp.
     readField (cd_DecodeBool cd) (\<lambda>xSingleRate.
     readField (cd_DecodeBool cd) (\<lambda>xColorAware.
     readField (cd_DecodeUint32 cd) (\<lambda>xScale.
     readField (cd_DecodeUint32 cd) (\<lambda>xCirTokensPerPeriod.
     readField (cd_DecodeUint32 cd) (\<lambda>xPirTokensPerPeriod.
     readField (cd_DecodeUint32 cd) (\<lambda>xCurrentLimit.
     readField (cd_DecodeUint32 cd) (\<lambda>xCurrentBucket.
     readField (cd_DecodeUint32 cd) (\<lambda>xExtendedLimit.
     readField (cd_DecodeUint32 cd) (\<lambda>xExtendedBucket.
     readField (cd_DecodeUint64 cd) (\<lambda>xLastUpdateTime.
     fieldsRead \<lparr>PolicerDetails_Name = xName, PolicerDetails_Cir = xCir, PolicerDetails_Eir = xEir,
       PolicerDetails_Cb = xCb, PolicerDetails_Eb = xEb, PolicerDetails_RateType = xRateType,
       PolicerDetails_RoundType = xRoundType, PolicerDetails_Type = xType,
       PolicerDetails_ConformAction = \<lparr>Sse2QosAction_Type = xConformActionType,
       Sse2QosAction_Dscp = xConformActionDscp\<rparr>,
       PolicerDetails_ExceedAction = \<lparr>Sse2QosAction_Type = xExceedActionType,
       Sse2QosAction_Dscp = xExceedActionDscp\<rparr>,
       PolicerDetails_ViolateAction = \<lparr>Sse2QosAction_Type = xViolateActionType,
       Sse2QosAction_Dscp = xViolateActionDscp\<rparr>, PolicerDetails_SingleRate = xSingleRate,
       PolicerDetails_ColorAware = xColorAware, PolicerDetails_Scale = xScale,
       PolicerDetails_CirTokensPerPeriod = xCirTokensPerPeriod, PolicerDetails_PirTokensPerPeriod = xPirTokensPerPeriod,
       PolicerDetails_CurrentLimit = xCurrentLimit, PolicerDetails_CurrentBucket = xCurrentBucket,
       PolicerDetails_ExtendedLimit = xExtendedLimit, PolicerDetails_ExtendedBucket = xExtendedBucket,
       PolicerDetails_LastUpdateTime = xLastUpdateTime\<rparr>))))))))))))))))))))))))))"

subsection \<open>\<open>classify/classify.ba.go\<close>\<close>

record wire_ClassifyAddDelTable =
  ClassifyAddDelTable_IsAdd :: bool
  ClassifyAddDelTable_DelChain :: bool
  ClassifyAddDelTable_TableIndex :: u32
  ClassifyAddDelTable_Nbuckets :: u32
  ClassifyAddDelTable_MemorySize :: u32
  ClassifyAddDelTable_SkipNVectors :: u32
  ClassifyAddDelTable_MatchNVectors :: u32
  ClassifyAddDelTable_NextTableIndex :: u32
  ClassifyAddDelTable_MissNextIndex :: u32
  ClassifyAddDelTable_CurrentDataFlag :: u8
  ClassifyAddDelTable_CurrentDataOffset :: u16
  ClassifyAddDelTable_MaskLen :: u32
  ClassifyAddDelTable_Mask :: bytes

definition ClassifyAddDelTable_id :: msg_id where
  "ClassifyAddDelTable_id = \<lparr>mi_Name = ''classify_add_del_table'', mi_Crc = ''6849e39e'', mi_Type = RequestMessage\<rparr>"

definition ClassifyAddDelTable_Size :: "wire_ClassifyAddDelTable \<Rightarrow> nat" where
  "ClassifyAddDelTable_Size m = 1 + 1 + 4 + 4 + 4 + 4 + 4 + 4 + 4 + 1 + 2 + 4 + 1 * length (ClassifyAddDelTable_Mask m)"

definition ClassifyAddDelTable_Marshal ::
  "'b codec \<Rightarrow> wire_ClassifyAddDelTable \<Rightarrow> bytes option \<Rightarrow> bytes option" where
  "ClassifyAddDelTable_Marshal cd m = (\<lambda>b. marshalFields cd (ClassifyAddDelTable_Size m) b
     [cd_EncodeBool cd (ClassifyAddDelTable_IsAdd m),
      cd_EncodeBool cd (ClassifyAddDelTable_DelChain m),
      cd_EncodeUint32 cd (ClassifyAddDelTable_TableIndex m),
      cd_EncodeUint32 cd (ClassifyAddDelTable_Nbuckets m),
      cd_EncodeUint32 cd (ClassifyAddDelTable_MemorySize m),
      cd_EncodeUint32 cd (ClassifyAddDelTable_SkipNVectors m),
      cd_EncodeUint32 cd (ClassifyAddDelTable_MatchNVectors m),
      cd_EncodeUint32 cd (ClassifyAddDelTable_NextTableIndex m),
      cd_EncodeUint32 cd (ClassifyAddDelTable_MissNextIndex m),
      cd_EncodeUint8 cd (ClassifyAddDelTable_CurrentDataFlag m),
      cd_EncodeInt16 cd (ClassifyAddDelTable_CurrentDataOffset m),
      cd_EncodeUint32 cd (of_nat (length (ClassifyAddDelTable_Mask m))),
      cd_EncodeBytes cd (ClassifyAddDelTable_Mask m) 0])"

definition ClassifyAddDelTable_Unmarshal :: "'b codec \<Rightarrow> bytes \<Rightarrow> wire_ClassifyAddDelTable option" where
  "ClassifyAddDelTable_Unmarshal cd = (\<lambda>b. unmarshalFields cd b (
     readField (cd_DecodeBool cd) (\<lambda>xIsAdd.
     readField (cd_DecodeBool cd) (\<lambda>xDelChain.
     readField (cd_DecodeUint32 cd) (\<lambda>xTableIndex.
     readField (cd_DecodeUint32 cd) (\<lambda>xNbuckets.
     readField (cd_DecodeUint32 cd) (\<lambda>xMemorySize.
     readField (cd_DecodeUint32 cd) (\<lambda>xSkipNVectors.
     readField (cd_DecodeUint32 cd) (\<lambda>xMatchNVectors.
     readField (cd_DecodeUint32 cd) (\<lambda>xNextTableIndex.
     readField (cd_DecodeUint32 cd) (\<lambda>xMissNextIndex.
     readField (cd_DecodeUint8 cd) (\<lambda>xCurrentDataFlag.
     readField (cd_DecodeInt16 cd) (\<lambda>xCurrentDataOffset.
     readField (cd_DecodeUint32 cd) (\<lambda>xMaskLen.
     readField (cd_DecodeBytes cd (unat xMaskLen)) (\<lambda>xMask.
     fieldsRead \<lparr>ClassifyAddDelTable_IsAdd = xIsAdd, ClassifyAddDelTable_DelChain = xDelChain,
       ClassifyAddDelTable_TableIndex = xTableIndex, ClassifyAddDelTable_Nbuckets = xNbuckets,
       ClassifyAddDelTable_MemorySize = xMemorySize, ClassifyAddDelTable_SkipNVectors = xSkipNVectors,
       ClassifyAddDelTable_MatchNVectors = xMatchNVectors, ClassifyAddDelTable_NextTableIndex = xNextTableIndex,
       ClassifyAddDelTable_MissNextIndex = xMissNextIndex, ClassifyAddDelTable_CurrentDataFlag = xCurrentDataFlag,
       ClassifyAddDelTable_CurrentDataOffset = xCurrentDataOffset, ClassifyAddDelTable_MaskLen = xMaskLen,
       ClassifyAddDelTable_Mask = xMask\<rparr>)))))))))))))))"

record wire_ClassifyAddDelTableReply =
  ClassifyAddDelTableReply_Retval :: u32
  ClassifyAddDelTableReply_NewTableIndex :: u32
  ClassifyAddDelTableReply_SkipNVectors :: u32
  ClassifyAddDelTableReply_MatchNVectors :: u32

definition ClassifyAddDelTableReply_id :: msg_id where
  "ClassifyAddDelTableReply_id = \<lparr>mi_Name = ''classify_add_del_table_reply'', mi_Crc = ''05486349'',
       mi_Type = ReplyMessage\<rparr>"

definition ClassifyAddDelTableReply_Size :: "wire_ClassifyAddDelTableReply \<Rightarrow> nat" where
  "ClassifyAddDelTableReply_Size m = 4 + 4 + 4 + 4"

definition ClassifyAddDelTableReply_Marshal ::
  "'b codec \<Rightarrow> wire_ClassifyAddDelTableReply \<Rightarrow> bytes option \<Rightarrow> bytes option" where
  "ClassifyAddDelTableReply_Marshal cd m = (\<lambda>b. marshalFields cd (ClassifyAddDelTableReply_Size m) b
     [cd_EncodeInt32 cd (ClassifyAddDelTableReply_Retval m),
      cd_EncodeUint32 cd (ClassifyAddDelTableReply_NewTableIndex m),
      cd_EncodeUint32 cd (ClassifyAddDelTableReply_SkipNVectors m),
      cd_EncodeUint32 cd (ClassifyAddDelTableReply_MatchNVectors m)])"

definition ClassifyAddDelTableReply_Unmarshal :: "'b codec \<Rightarrow> bytes \<Rightarrow> wire_ClassifyAddDelTableReply option" where
  "ClassifyAddDelTableReply_Unmarshal cd = (\<lambda>b. unmarshalFields cd b (
     readField (cd_DecodeInt32 cd) (\<lambda>xRetval.
     readField (cd_DecodeUint32 cd) (\<lambda>xNewTableIndex.
     readField (cd_DecodeUint32 cd) (\<lambda>xSkipNVectors.
     readField (cd_DecodeUint32 cd) (\<lambda>xMatchNVectors.
     fieldsRead \<lparr>ClassifyAddDelTableReply_Retval = xRetval, ClassifyAddDelTableReply_NewTableIndex = xNewTableIndex,
       ClassifyAddDelTableReply_SkipNVectors = xSkipNVectors,
       ClassifyAddDelTableReply_MatchNVectors = xMatchNVectors\<rparr>))))))"

record wire_ClassifyAddDelSession =
  ClassifyAddDelSession_IsAdd :: bool
  ClassifyAddDelSession_TableIndex :: u32
  ClassifyAddDelSession_HitNextIndex :: u32
  ClassifyAddDelSession_OpaqueIndex :: u32
  ClassifyAddDelSession_Advance :: u32
  ClassifyAddDelSession_Action :: u8
  ClassifyAddDelSession_Metadata :: u32
  ClassifyAddDelSession_MatchLen :: u32
  ClassifyAddDelSession_Match :: bytes

definition ClassifyAddDelSession_id :: msg_id where
  "ClassifyAddDelSession_id = \<lparr>mi_Name = ''classify_add_del_session'', mi_Crc = ''f20879f0'', mi_Type = RequestMessage\<rparr>"

definition ClassifyAddDelSession_Size :: "wire_ClassifyAddDelSession \<Rightarrow> nat" where
  "ClassifyAddDelSession_Size m = 1 + 4 + 4 + 4 + 4 + 1 + 4 + 4 + 1 * length (ClassifyAddDelSession_Match m)"

definition ClassifyAddDelSession_Marshal ::
  "'b codec \<Rightarrow> wire_ClassifyAddDelSession \<Rightarrow> bytes option \<Rightarrow> bytes option" where
  "ClassifyAddDelSession_Marshal cd m = (\<lambda>b. marshalFields cd (ClassifyAddDelSession_Size m) b
     [cd_EncodeBool cd (ClassifyAddDelSession_IsAdd m),
      cd_EncodeUint32 cd (ClassifyAddDelSession_TableIndex m),
      cd_EncodeUint32 cd (ClassifyAddDelSession_HitNextIndex m),
      cd_EncodeUint32 cd (ClassifyAddDelSession_OpaqueIndex m),
      cd_EncodeInt32 cd (ClassifyAddDelSession_Advance m),
      cd_EncodeUint8 cd (ClassifyAddDelSession_Action m),
      cd_EncodeUint32 cd (ClassifyAddDelSession_Metadata m),
      cd_EncodeUint32 cd (of_nat (length (ClassifyAddDelSession_Match m))),
      cd_EncodeBytes cd (ClassifyAddDelSession_Match m) 0])"

definition ClassifyAddDelSession_Unmarshal :: "'b codec \<Rightarrow> bytes \<Rightarrow> wire_ClassifyAddDelSession option" where
  "ClassifyAddDelSession_Unmarshal cd = (\<lambda>b. unmarshalFields cd b (
     readField (cd_DecodeBool cd) (\<lambda>xIsAdd.
     readField (cd_DecodeUint32 cd) (\<lambda>xTableIndex.
     readField (cd_DecodeUint32 cd) (\<lambda>xHitNextIndex.
     readField (cd_DecodeUint32 cd) (\<lambda>xOpaqueIndex.
     readField (cd_DecodeInt32 cd) (\<lambda>xAdvance.
     readField (cd_DecodeUint8 cd) (\<lambda>xAction.
     readField (cd_DecodeUint32 cd) (\<lambda>xMetadata.
     readField (cd_DecodeUint32 cd) (\<lambda>xMatchLen.
     readField (cd_DecodeBytes cd (unat xMatchLen)) (\<lambda>xMatch.
     fieldsRead \<lparr>ClassifyAddDelSession_IsAdd = xIsAdd, ClassifyAddDelSession_TableIndex = xTableIndex,
       ClassifyAddDelSession_HitNextIndex = xHitNextIndex, ClassifyAddDelSession_OpaqueIndex = xOpaqueIndex,
       ClassifyAddDelSession_Advance = xAdvance, ClassifyAddDelSession_Action = xAction,
       ClassifyAddDelSession_Metadata = xMetadata, ClassifyAddDelSession_MatchLen = xMatchLen,
       ClassifyAddDelSession_Match = xMatch\<rparr>)))))))))))"

record wire_ClassifyAddDelSessionReply =
  ClassifyAddDelSessionReply_Retval :: u32

definition ClassifyAddDelSessionReply_id :: msg_id where
  "ClassifyAddDelSessionReply_id = \<lparr>mi_Name = ''classify_add_del_session_reply'', mi_Crc = ''e8d4e804'',
       mi_Type = ReplyMessage\<rparr>"

definition ClassifyAddDelSessionReply_Size :: "wire_ClassifyAddDelSessionReply \<Rightarrow> nat" where
  "ClassifyAddDelSessionReply_Size m = 4"

definition ClassifyAddDelSessionReply_Marshal ::
  "'b codec \<Rightarrow> wire_ClassifyAddDelSessionReply \<Rightarrow> bytes option \<Rightarrow> bytes option" where
  "ClassifyAddDelSessionReply_Marshal cd m = (\<lambda>b. marshalFields cd (ClassifyAddDelSessionReply_Size m) b
     [cd_EncodeInt32 cd (ClassifyAddDelSessionReply_Retval m)])"

definition ClassifyAddDelSessionReply_Unmarshal :: "'b codec \<Rightarrow> bytes \<Rightarrow> wire_ClassifyAddDelSessionReply option" where
  "ClassifyAddDelSessionReply_Unmarshal cd = (\<lambda>b. unmarshalFields cd b (
     readField (cd_DecodeInt32 cd) (\<lambda>xRetval.
     fieldsRead \<lparr>ClassifyAddDelSessionReply_Retval = xRetval\<rparr>)))"

datatype wire_ClassifyTableIds = wire_ClassifyTableIds

definition ClassifyTableIds_id :: msg_id where
  "ClassifyTableIds_id = \<lparr>mi_Name = ''classify_table_ids'', mi_Crc = ''51077d14'', mi_Type = RequestMessage\<rparr>"

definition ClassifyTableIds_Size :: "wire_ClassifyTableIds \<Rightarrow> nat" where
  "ClassifyTableIds_Size m = 0"

definition ClassifyTableIds_Marshal ::
  "'b codec \<Rightarrow> wire_ClassifyTableIds \<Rightarrow> bytes option \<Rightarrow> bytes option" where
  "ClassifyTableIds_Marshal cd m = (\<lambda>b. marshalFields cd (ClassifyTableIds_Size m) b
     [])"

definition ClassifyTableIds_Unmarshal :: "'b codec \<Rightarrow> bytes \<Rightarrow> wire_ClassifyTableIds option" where
  "ClassifyTableIds_Unmarshal cd = (\<lambda>b. Some wire_ClassifyTableIds)"

record wire_ClassifyTableIdsReply =
  ClassifyTableIdsReply_Retval :: u32
  ClassifyTableIdsReply_Count :: u32
  ClassifyTableIdsReply_Ids :: "u32 list"

definition ClassifyTableIdsReply_id :: msg_id where
  "ClassifyTableIdsReply_id = \<lparr>mi_Name = ''classify_table_ids_reply'', mi_Crc = ''d1d20e1d'', mi_Type = ReplyMessage\<rparr>"

definition ClassifyTableIdsReply_Size :: "wire_ClassifyTableIdsReply \<Rightarrow> nat" where
  "ClassifyTableIdsReply_Size m = 4 + 4 + 4 * length (ClassifyTableIdsReply_Ids m)"

definition ClassifyTableIdsReply_Marshal ::
  "'b codec \<Rightarrow> wire_ClassifyTableIdsReply \<Rightarrow> bytes option \<Rightarrow> bytes option" where
  "ClassifyTableIdsReply_Marshal cd m = (\<lambda>b. marshalFields cd (ClassifyTableIdsReply_Size m) b
     [cd_EncodeInt32 cd (ClassifyTableIdsReply_Retval m),
      cd_EncodeUint32 cd (of_nat (length (ClassifyTableIdsReply_Ids m))),
      encodeAll (map (\<lambda>i. cd_EncodeUint32 cd (elemOrZero (ClassifyTableIdsReply_Ids m) i)) [0..<length (ClassifyTableIdsReply_Ids m)])])"

definition ClassifyTableIdsReply_Unmarshal :: "'b codec \<Rightarrow> bytes \<Rightarrow> wire_ClassifyTableIdsReply option" where
  "ClassifyTableIdsReply_Unmarshal cd = (\<lambda>b. unmarshalFields cd b (
     readField (cd_DecodeInt32 cd) (\<lambda>xRetval.
     readField (cd_DecodeUint32 cd) (\<lambda>xCount.
     readField (decodeEach (cd_DecodeUint32 cd) (unat xCount)) (\<lambda>xIds.
     fieldsRead \<lparr>ClassifyTableIdsReply_Retval = xRetval, ClassifyTableIdsReply_Count = xCount,
       ClassifyTableIdsReply_Ids = xIds\<rparr>)))))"

record wire_ClassifyTableInfo =
  ClassifyTableInfo_TableID :: u32

definition ClassifyTableInfo_id :: msg_id where
  "ClassifyTableInfo_id = \<lparr>mi_Name = ''classify_table_info'', mi_Crc = ''0cca2cd9'', mi_Type = RequestMessage\<rparr>"

definition ClassifyTableInfo_Size :: "wire_ClassifyTableInfo \<Rightarrow> nat" where
  "ClassifyTableInfo_Size m = 4"

definition ClassifyTableInfo_Marshal ::
  "'b codec \<Rightarrow> wire_ClassifyTableInfo \<Rightarrow> bytes option \<Rightarrow> bytes option" where
  "ClassifyTableInfo_Marshal cd m = (\<lambda>b. marshalFields cd (ClassifyTableInfo_Size m) b
     [cd_EncodeUint32 cd (ClassifyTableInfo_TableID m)])"

definition ClassifyTableInfo_Unmarshal :: "'b codec \<Rightarrow> bytes \<Rightarrow> wire_ClassifyTableInfo option" where
  "ClassifyTableInfo_Unmarshal cd = (\<lambda>b. unmarshalFields cd b (
     readField (cd_DecodeUint32 cd) (\<lambda>xTableID.
     fieldsRead \<lparr>ClassifyTableInfo_TableID = xTableID\<rparr>)))"

record wire_ClassifyTableInfoReply =
  ClassifyTableInfoReply_Retval :: u32
  ClassifyTableInfoReply_TableID :: u32
  ClassifyTableInfoReply_Nbuckets :: u32
  ClassifyTableInfoReply_MatchNVectors :: u32
  ClassifyTableInfoReply_SkipNVectors :: u32
  ClassifyTableInfoReply_ActiveSessions :: u32
  ClassifyTableInfoReply_NextTableIndex :: u32
  ClassifyTableInfoReply_MissNextIndex :: u32
  ClassifyTableInfoReply_MaskLength :: u32
  ClassifyTableInfoReply_Mask :: bytes

definition ClassifyTableInfoReply_id :: msg_id where
  "ClassifyTableInfoReply_id = \<lparr>mi_Name = ''classify_table_info_reply'', mi_Crc = ''4a573c0e'', mi_Type = ReplyMessage\<rparr>"

definition ClassifyTableInfoReply_Size :: "wire_ClassifyTableInfoReply \<Rightarrow> nat" where
  "ClassifyTableInfoReply_Size m = 4 + 4 + 4 + 4 + 4 + 4 + 4 + 4 + 4 + 1 * length (ClassifyTableInfoReply_Mask m)"

definition ClassifyTableInfoReply_Marshal ::
  "'b codec \<Rightarrow> wire_ClassifyTableInfoReply \<Rightarrow> bytes option \<Rightarrow> bytes option" where
  "ClassifyTableInfoReply_Marshal cd m = (\<lambda>b. marshalFields cd (ClassifyTableInfoReply_Size m) b
     [cd_EncodeInt32 cd (ClassifyTableInfoReply_Retval m),
      cd_EncodeUint32 cd (ClassifyTableInfoReply_TableID m),
      cd_EncodeUint32 cd (ClassifyTableInfoReply_Nbuckets m),
      cd_EncodeUint32 cd (ClassifyTableInfoReply_MatchNVectors m),
      cd_EncodeUint32 cd (ClassifyTableInfoReply_SkipNVectors m),
      cd_EncodeUint32 cd (ClassifyTableInfoReply_ActiveSessions m),
      cd_EncodeUint32 cd (ClassifyTableInfoReply_NextTableIndex m),
      cd_EncodeUint32 cd (ClassifyTableInfoReply_MissNextIndex m),
      cd_EncodeUint32 cd (of_nat (length (ClassifyTableInfoReply_Mask m))),
      cd_EncodeBytes cd (ClassifyTableInfoReply_Mask m) 0])"

definition ClassifyTableInfoReply_Unmarshal :: "'b codec \<Rightarrow> bytes \<Rightarrow> wire_ClassifyTableInfoReply option" where
  "ClassifyTableInfoReply_Unmarshal cd = (\<lambda>b. unmarshalFields cd b (
     readField (cd_DecodeInt32 cd) (\<lambda>xRetval.
     readField (cd_DecodeUint32 cd) (\<lambda>xTableID.
     readField (cd_DecodeUint32 cd) (\<lambda>xNbuckets.
     readField (cd_DecodeUint32 cd) (\<lambda>xMatchNVectors.
     readField (cd_DecodeUint32 cd) (\<lambda>xSkipNVectors.
     readField (cd_DecodeUint32 cd) (\<lambda>xActiveSessions.
     readField (cd_DecodeUint32 cd) (\<lambda>xNextTableIndex.
     readField (cd_DecodeUint32 cd) (\<lambda>xMissNextIndex.
     readField (cd_DecodeUint32 cd) (\<lambda>xMaskLength.
     readField (cd_DecodeBytes cd (unat xMaskLength)) (\<lambda>xMask.
     fieldsRead \<lparr>ClassifyTableInfoReply_Retval = xRetval, ClassifyTableInfoReply_TableID = xTableID,
       ClassifyTableInfoReply_Nbuckets = xNbuckets, ClassifyTableInfoReply_MatchNVectors = xMatchNVectors,
       ClassifyTableInfoReply_SkipNVectors = xSkipNVectors, ClassifyTableInfoReply_ActiveSessions = xActiveSessions,
       ClassifyTableInfoReply_NextTableIndex = xNextTableIndex, ClassifyTableInfoReply_MissNextIndex = xMissNextIndex,
       ClassifyTableInfoReply_MaskLength = xMaskLength, ClassifyTableInfoReply_Mask = xMask\<rparr>))))))))))))"

record wire_ClassifySessionDump =
  ClassifySessionDump_TableID :: u32

definition ClassifySessionDump_id :: msg_id where
  "ClassifySessionDump_id = \<lparr>mi_Name = ''classify_session_dump'', mi_Crc = ''0cca2cd9'', mi_Type = RequestMessage\<rparr>"

definition ClassifySessionDump_Size :: "wire_ClassifySessionDump \<Rightarrow> nat" where
  "ClassifySessionDump_Size m = 4"

definition ClassifySessionDump_Marshal ::
  "'b codec \<Rightarrow> wire_ClassifySessionDump \<Rightarrow> bytes option \<Rightarrow> bytes option" where
  "ClassifySessionDump_Marshal cd m = (\<lambda>b. marshalFields cd (ClassifySessionDump_Size m) b
     [cd_EncodeUint32 cd (ClassifySessionDump_TableID m)])"

definition ClassifySessionDump_Unmarshal :: "'b codec \<Rightarrow> bytes \<Rightarrow> wire_ClassifySessionDump option" where
  "ClassifySessionDump_Unmarshal cd = (\<lambda>b. unmarshalFields cd b (
     readField (cd_DecodeUint32 cd) (\<lambda>xTableID.
     fieldsRead \<lparr>ClassifySessionDump_TableID = xTableID\<rparr>)))"

record wire_ClassifySessionDetails =
  ClassifySessionDetails_Retval :: u32
  ClassifySessionDetails_TableID :: u32
  ClassifySessionDetails_HitNextIndex :: u32
  ClassifySessionDetails_Advance :: u32
  ClassifySessionDetails_OpaqueIndex :: u32
  ClassifySessionDetails_MatchLength :: u32
  ClassifySessionDetails_Match :: bytes

definition ClassifySessionDetails_id :: msg_id where
  "ClassifySessionDetails_id = \<lparr>mi_Name = ''classify_session_details'', mi_Crc = ''60e3ef94'', mi_Type = ReplyMessage\<rparr>"

definition ClassifySessionDetails_Size :: "wire_ClassifySessionDetails \<Rightarrow> nat" where
  "ClassifySessionDetails_Size m = 4 + 4 + 4 + 4 + 4 + 4 + 1 * length (ClassifySessionDetails_Match m)"

definition ClassifySessionDetails_Marshal ::
  "'b codec \<Rightarrow> wire_ClassifySessionDetails \<Rightarrow> bytes option \<Rightarrow> bytes option" where
  "ClassifySessionDetails_Marshal cd m = (\<lambda>b. marshalFields cd (ClassifySessionDetails_Size m) b
     [cd_EncodeInt32 cd (ClassifySessionDetails_Retval m),
      cd_EncodeUint32 cd (ClassifySessionDetails_TableID m),
      cd_EncodeUint32 cd (ClassifySessionDetails_HitNextIndex m),
      cd_EncodeInt32 cd (ClassifySessionDetails_Advance m),
      cd_EncodeUint32 cd (ClassifySessionDetails_OpaqueIndex m),
      cd_EncodeUint32 cd (of_nat (length (ClassifySessionDetails_Match m))),
      cd_EncodeBytes cd (ClassifySessionDetails_Match m) 0])"

definition ClassifySessionDetails_Unmarshal :: "'b codec \<Rightarrow> bytes \<Rightarrow> wire_ClassifySessionDetails option" where
  "ClassifySessionDetails_Unmarshal cd = (\<lambda>b. unmarshalFields cd b (
     readField (cd_DecodeInt32 cd) (\<lambda>xRetval.
     readField (cd_DecodeUint32 cd) (\<lambda>xTableID.
     readField (cd_DecodeUint32 cd) (\<lambda>xHitNextIndex.
     readField (cd_DecodeInt32 cd) (\<lambda>xAdvance.
     readField (cd_DecodeUint32 cd) (\<lambda>xOpaqueIndex.
     readField (cd_DecodeUint32 cd) (\<lambda>xMatchLength.
     readField (cd_DecodeBytes cd (unat xMatchLength)) (\<lambda>xMatch.
     fieldsRead \<lparr>ClassifySessionDetails_Retval = xRetval, ClassifySessionDetails_TableID = xTableID,
       ClassifySessionDetails_HitNextIndex = xHitNextIndex, ClassifySessionDetails_Advance = xAdvance,
       ClassifySessionDetails_OpaqueIndex = xOpaqueIndex, ClassifySessionDetails_MatchLength = xMatchLength,
       ClassifySessionDetails_Match = xMatch\<rparr>)))))))))"

record wire_PolicerClassifySetInterface =
  PolicerClassifySetInterface_SwIfIndex :: u32
  PolicerClassifySetInterface_IP4TableIndex :: u32
  PolicerClassifySetInterface_IP6TableIndex :: u32
  PolicerClassifySetInterface_L2TableIndex :: u32
  PolicerClassifySetInterface_IsAdd :: bool

definition PolicerClassifySetInterface_id :: msg_id where
  "PolicerClassifySetInterface_id = \<lparr>mi_Name = ''policer_classify_set_interface'', mi_Crc = ''de7ad708'',
       mi_Type = RequestMessage\<rparr>"

definition PolicerClassifySetInterface_Size :: "wire_PolicerClassifySetInterface \<Rightarrow> nat" where
  "PolicerClassifySetInterface_Size m = 4 + 4 + 4 + 4 + 1"

definition PolicerClassifySetInterface_Marshal ::
  "'b codec \<Rightarrow> wire_PolicerClassifySetInterface \<Rightarrow> bytes option \<Rightarrow> bytes option" where
  "PolicerClassifySetInterface_Marshal cd m = (\<lambda>b. marshalFields cd (PolicerClassifySetInterface_Size m) b
     [cd_EncodeUint32 cd (PolicerClassifySetInterface_SwIfIndex m),
      cd_EncodeUint32 cd (PolicerClassifySetInterface_IP4TableIndex m),
      cd_EncodeUint32 cd (PolicerClassifySetInterface_IP6TableIndex m),
      cd_EncodeUint32 cd (PolicerClassifySetInterface_L2TableIndex m),
      cd_EncodeBool cd (PolicerClassifySetInterface_IsAdd m)])"

definition PolicerClassifySetInterface_Unmarshal :: "'b codec \<Rightarrow> bytes \<Rightarrow> wire_PolicerClassifySetInterface option" where
  "PolicerClassifySetInterface_Unmarshal cd = (\<lambda>b. unmarshalFields cd b (
     readField (cd_DecodeUint32 cd) (\<lambda>xSwIfIndex.
     readField (cd_DecodeUint32 cd) (\<lambda>xIP4TableIndex.
     readField (cd_DecodeUint32 cd) (\<lambda>xIP6TableIndex.
     readField (cd_DecodeUint32 cd) (\<lambda>xL2TableIndex.
     readField (cd_DecodeBool cd) (\<lambda>xIsAdd.
     fieldsRead \<lparr>PolicerClassifySetInterface_SwIfIndex = xSwIfIndex,
       PolicerClassifySetInterface_IP4TableIndex = xIP4TableIndex, PolicerClassifySetInterface_IP6TableIndex = xIP6TableIndex,
       PolicerClassifySetInterface_L2TableIndex = xL2TableIndex, PolicerClassifySetInterface_IsAdd = xIsAdd\<rparr>)))))))"

record wire_PolicerClassifySetInterfaceReply =
  PolicerClassifySetInterfaceReply_Retval :: u32

definition PolicerClassifySetInterfaceReply_id :: msg_id where
  "PolicerClassifySetInterfaceReply_id = \<lparr>mi_Name = ''policer_classify_set_interface_reply'', mi_Crc = ''e8d4e804'',
       mi_Type = ReplyMessage\<rparr>"

definition PolicerClassifySetInterfaceReply_Size :: "wire_PolicerClassifySetInterfaceReply \<Rightarrow> nat" where
  "PolicerClassifySetInterfaceReply_Size m = 4"

definition PolicerClassifySetInterfaceReply_Marshal ::
  "'b codec \<Rightarrow> wire_PolicerClassifySetInterfaceReply \<Rightarrow> bytes option \<Rightarrow> bytes option" where
  "PolicerClassifySetInterfaceReply_Marshal cd m = (\<lambda>b. marshalFields cd (PolicerClassifySetInterfaceReply_Size m) b
     [cd_EncodeInt32 cd (PolicerClassifySetInterfaceReply_Retval m)])"

definition PolicerClassifySetInterfaceReply_Unmarshal :: "'b codec \<Rightarrow> bytes \<Rightarrow> wire_PolicerClassifySetInterfaceReply option" where
  "PolicerClassifySetInterfaceReply_Unmarshal cd = (\<lambda>b. unmarshalFields cd b (
     readField (cd_DecodeInt32 cd) (\<lambda>xRetval.
     fieldsRead \<lparr>PolicerClassifySetInterfaceReply_Retval = xRetval\<rparr>)))"

record wire_PolicerClassifyDump =
  PolicerClassifyDump_Type :: u8
  PolicerClassifyDump_SwIfIndex :: u32

definition PolicerClassifyDump_id :: msg_id where
  "PolicerClassifyDump_id = \<lparr>mi_Name = ''policer_classify_dump'', mi_Crc = ''56cbb5fb'', mi_Type = RequestMessage\<rparr>"

definition PolicerClassifyDump_Size :: "wire_PolicerClassifyDump \<Rightarrow> nat" where
  "PolicerClassifyDump_Size m = 1 + 4"

definition PolicerClassifyDump_Marshal ::
  "'b codec \<Rightarrow> wire_PolicerClassifyDump \<Rightarrow> bytes option \<Rightarrow> bytes option" where
  "PolicerClassifyDump_Marshal cd m = (\<lambda>b. marshalFields cd (PolicerClassifyDump_Size m) b
     [cd_EncodeUint8 cd (PolicerClassifyDump_Type m),
      cd_EncodeUint32 cd (PolicerClassifyDump_SwIfIndex m)])"

definition PolicerClassifyDump_Unmarshal :: "'b codec \<Rightarrow> bytes \<Rightarrow> wire_PolicerClassifyDump option" where
  "PolicerClassifyDump_Unmarshal cd = (\<lambda>b. unmarshalFields cd b (
     readField (cd_DecodeUint8 cd) (\<lambda>xType.
     readField (cd_DecodeUint32 cd) (\<lambda>xSwIfIndex.
     fieldsRead \<lparr>PolicerClassifyDump_Type = xType, PolicerClassifyDump_SwIfIndex = xSwIfIndex\<rparr>))))"

record wire_PolicerClassifyDetails =
  PolicerClassifyDetails_SwIfIndex :: u32
  PolicerClassifyDetails_TableIndex :: u32

definition PolicerClassifyDetails_id :: msg_id where
  "PolicerClassifyDetails_id = \<lparr>mi_Name = ''policer_classify_details'', mi_Crc = ''dfd08765'', mi_Type = ReplyMessage\<rparr>"

definition PolicerClassifyDetails_Size :: "wire_PolicerClassifyDetails \<Rightarrow> nat" where
  "PolicerClassifyDetails_Size m = 4 + 4"

definition PolicerClassifyDetails_Marshal ::
  "'b codec \<Rightarrow> wire_PolicerClassifyDetails \<Rightarrow> bytes option \<Rightarrow> bytes option" where
  "PolicerClassifyDetails_Marshal cd m = (\<lambda>b. marshalFields cd (PolicerClassifyDetails_Size m) b
     [cd_EncodeUint32 cd (PolicerClassifyDetails_SwIfIndex m),
      cd_EncodeUint32 cd (PolicerClassifyDetails_TableIndex m)])"

definition PolicerClassifyDetails_Unmarshal :: "'b codec \<Rightarrow> bytes \<Rightarrow> wire_PolicerClassifyDetails option" where
  "PolicerClassifyDetails_Unmarshal cd = (\<lambda>b. unmarshalFields cd b (
     readField (cd_DecodeUint32 cd) (\<lambda>xSwIfIndex.
     readField (cd_DecodeUint32 cd) (\<lambda>xTableIndex.
     fieldsRead \<lparr>PolicerClassifyDetails_SwIfIndex = xSwIfIndex, PolicerClassifyDetails_TableIndex = xTableIndex\<rparr>))))"

subsection \<open>\<open>probe/probe.ba.go\<close>\<close>

record wire_ProbeClassifyLookup =
  ProbeClassifyLookup_TableID :: u32
  ProbeClassifyLookup_KeyLen :: u32
  ProbeClassifyLookup_MatchLen :: u32
  ProbeClassifyLookup_Match :: bytes

definition ProbeClassifyLookup_id :: msg_id where
  "ProbeClassifyLookup_id = \<lparr>mi_Name = ''probe_classify_lookup'', mi_Crc = ''63ac8370'', mi_Type = RequestMessage\<rparr>"

definition ProbeClassifyLookup_Size :: "wire_ProbeClassifyLookup \<Rightarrow> nat" where
  "ProbeClassifyLookup_Size m = 4 + 4 + 4 + 1 * length (ProbeClassifyLookup_Match m)"

definition ProbeClassifyLookup_Marshal ::
  "'b codec \<Rightarrow> wire_ProbeClassifyLookup \<Rightarrow> bytes option \<Rightarrow> bytes option" where
  "ProbeClassifyLookup_Marshal cd m = (\<lambda>b. marshalFields cd (ProbeClassifyLookup_Size m) b
     [cd_EncodeUint32 cd (ProbeClassifyLookup_TableID m),
      cd_EncodeUint32 cd (ProbeClassifyLookup_KeyLen m),
      cd_EncodeUint32 cd (of_nat (length (ProbeClassifyLookup_Match m))),
      cd_EncodeBytes cd (ProbeClassifyLookup_Match m) 0])"

definition ProbeClassifyLookup_Unmarshal :: "'b codec \<Rightarrow> bytes \<Rightarrow> wire_ProbeClassifyLookup option" where
  "ProbeClassifyLookup_Unmarshal cd = (\<lambda>b. unmarshalFields cd b (
     readField (cd_DecodeUint32 cd) (\<lambda>xTableID.
     readField (cd_DecodeUint32 cd) (\<lambda>xKeyLen.
     readField (cd_DecodeUint32 cd) (\<lambda>xMatchLen.
     readField (cd_DecodeBytes cd (unat xMatchLen)) (\<lambda>xMatch.
     fieldsRead \<lparr>ProbeClassifyLookup_TableID = xTableID, ProbeClassifyLookup_KeyLen = xKeyLen,
       ProbeClassifyLookup_MatchLen = xMatchLen, ProbeClassifyLookup_Match = xMatch\<rparr>))))))"

record wire_ProbeClassifyLookupReply =
  ProbeClassifyLookupReply_Retval :: u32
  ProbeClassifyLookupReply_Count :: u32
  ProbeClassifyLookupReply_Hits :: "u32 list"

definition ProbeClassifyLookupReply_id :: msg_id where
  "ProbeClassifyLookupReply_id = \<lparr>mi_Name = ''probe_classify_lookup_reply'', mi_Crc = ''c98ec7b7'',
       mi_Type = ReplyMessage\<rparr>"

definition ProbeClassifyLookupReply_Size :: "wire_ProbeClassifyLookupReply \<Rightarrow> nat" where
  "ProbeClassifyLookupReply_Size m = 4 + 4 + 4 * length (ProbeClassifyLookupReply_Hits m)"

definition ProbeClassifyLookupReply_Marshal ::
  "'b codec \<Rightarrow> wire_ProbeClassifyLookupReply \<Rightarrow> bytes option \<Rightarrow> bytes option" where
  "ProbeClassifyLookupReply_Marshal cd m = (\<lambda>b. marshalFields cd (ProbeClassifyLookupReply_Size m) b
     [cd_EncodeInt32 cd (ProbeClassifyLookupReply_Retval m),
      cd_EncodeUint32 cd (of_nat (length (ProbeClassifyLookupReply_Hits m))),
      encodeAll (map (\<lambda>i. cd_EncodeUint32 cd (elemOrZero (ProbeClassifyLookupReply_Hits m) i)) [0..<length (ProbeClassifyLookupReply_Hits m)])])"

definition ProbeClassifyLookupReply_Unmarshal :: "'b codec \<Rightarrow> bytes \<Rightarrow> wire_ProbeClassifyLookupReply option" where
  "ProbeClassifyLookupReply_Unmarshal cd = (\<lambda>b. unmarshalFields cd b (
     readField (cd_DecodeInt32 cd) (\<lambda>xRetval.
     readField (cd_DecodeUint32 cd) (\<lambda>xCount.
     readField (decodeEach (cd_DecodeUint32 cd) (unat xCount)) (\<lambda>xHits.
     fieldsRead \<lparr>ProbeClassifyLookupReply_Retval = xRetval, ProbeClassifyLookupReply_Count = xCount,
       ProbeClassifyLookupReply_Hits = xHits\<rparr>)))))"

subsection \<open>\<open>interface/interface.ba.go\<close>\<close>

record wire_SwInterfaceDump =
  SwInterfaceDump_SwIfIndex :: u32
  SwInterfaceDump_NameFilterValid :: bool
  SwInterfaceDump_NameFilter :: string

definition SwInterfaceDump_id :: msg_id where
  "SwInterfaceDump_id = \<lparr>mi_Name = ''sw_interface_dump'', mi_Crc = ''aa610c27'', mi_Type = RequestMessage\<rparr>"

definition SwInterfaceDump_Size :: "wire_SwInterfaceDump \<Rightarrow> nat" where
  "SwInterfaceDump_Size m = 4 + 1 + 4 + length (SwInterfaceDump_NameFilter m)"

definition SwInterfaceDump_Marshal ::
  "'b codec \<Rightarrow> wire_SwInterfaceDump \<Rightarrow> bytes option \<Rightarrow> bytes option" where
  "SwInterfaceDump_Marshal cd m = (\<lambda>b. marshalFields cd (SwInterfaceDump_Size m) b
     [cd_EncodeUint32 cd (SwInterfaceDump_SwIfIndex m),
      cd_EncodeBool cd (SwInterfaceDump_NameFilterValid m),
      cd_EncodeString cd (SwInterfaceDump_NameFilter m) 0])"

definition SwInterfaceDump_Unmarshal :: "'b codec \<Rightarrow> bytes \<Rightarrow> wire_SwInterfaceDump option" where
  "SwInterfaceDump_Unmarshal cd = (\<lambda>b. unmarshalFields cd b (
     readField (cd_DecodeUint32 cd) (\<lambda>xSwIfIndex.
     readField (cd_DecodeBool cd) (\<lambda>xNameFilterValid.
     readField (cd_DecodeString cd 0) (\<lambda>xNameFilter.
     fieldsRead \<lparr>SwInterfaceDump_SwIfIndex = xSwIfIndex, SwInterfaceDump_NameFilterValid = xNameFilterValid,
       SwInterfaceDump_NameFilter = xNameFilter\<rparr>)))))"

record wire_SwInterfaceDetails =
  SwInterfaceDetails_SwIfIndex :: u32
  SwInterfaceDetails_SupSwIfIndex :: u32
  SwInterfaceDetails_L2Address :: bytes
  SwInterfaceDetails_Flags :: u32
  SwInterfaceDetails_Type :: u32
  SwInterfaceDetails_LinkDuplex :: u32
  SwInterfaceDetails_LinkSpeed :: u32
  SwInterfaceDetails_LinkMtu :: u16
  SwInterfaceDetails_Mtu :: "u32 list"
  SwInterfaceDetails_SubID :: u32
  SwInterfaceDetails_SubNumberOfTags :: u8
  SwInterfaceDetails_SubOuterVlanID :: u16
  SwInterfaceDetails_SubInnerVlanID :: u16
  SwInterfaceDetails_SubIfFlags :: u32
  SwInterfaceDetails_VtrOp :: u32
  SwInterfaceDetails_VtrPushDot1q :: u32
  SwInterfaceDetails_VtrTag1 :: u32
  SwInterfaceDetails_VtrTag2 :: u32
  SwInterfaceDetails_OuterTag :: u16
  SwInterfaceDetails_BDmac :: bytes
  SwInterfaceDetails_BSmac :: bytes
  SwInterfaceDetails_BVlanid :: u16
  SwInterfaceDetails_ISid :: u32
  SwInterfaceDetails_InterfaceName :: string
  SwInterfaceDetails_InterfaceDevType :: string
  SwInterfaceDetails_Tag :: string

definition SwInterfaceDetails_id :: msg_id where
  "SwInterfaceDetails_id = \<lparr>mi_Name = ''sw_interface_details'', mi_Crc = ''6c221fc7'', mi_Type = ReplyMessage\<rparr>"

definition SwInterfaceDetails_Size :: "wire_SwInterfaceDetails \<Rightarrow> nat" where
  "SwInterfaceDetails_Size m = 4 + 4 + 1 * 6 + 4 + 4 + 4 + 4 + 2 + 4 * 4 + 4 + 1 + 2 + 2 + 4 + 4 + 4 + 4 + 4 + 2 + 1 * 6 + 1 * 6 +
       2 + 4 + 64 + 64 + 64"

definition SwInterfaceDetails_Marshal ::
  "'b codec \<Rightarrow> wire_SwInterfaceDetails \<Rightarrow> bytes option \<Rightarrow> bytes option" where
  "SwInterfaceDetails_Marshal cd m = (\<lambda>b. marshalFields cd (SwInterfaceDetails_Size m) b
     [cd_EncodeUint32 cd (SwInterfaceDetails_SwIfIndex m),
      cd_EncodeUint32 cd (SwInterfaceDetails_SupSwIfIndex m),
      cd_EncodeBytes cd (SwInterfaceDetails_L2Address m) 6,
      cd_EncodeUint32 cd (SwInterfaceDetails_Flags m),
      cd_EncodeUint32 cd (SwInterfaceDetails_Type m),
      cd_EncodeUint32 cd (SwInterfaceDetails_LinkDuplex m),
      cd_EncodeUint32 cd (SwInterfaceDetails_LinkSpeed m),
      cd_EncodeUint16 cd (SwInterfaceDetails_LinkMtu m),
      encodeAll (map (\<lambda>i. cd_EncodeUint32 cd (elemOrZero (SwInterfaceDetails_Mtu m) i)) [0..<4]),
      cd_EncodeUint32 cd (SwInterfaceDetails_SubID m),
      cd_EncodeUint8 cd (SwInterfaceDetails_SubNumberOfTags m),
      cd_EncodeUint16 cd (SwInterfaceDetails_SubOuterVlanID m),
      cd_EncodeUint16 cd (SwInterfaceDetails_SubInnerVlanID m),
      cd_EncodeUint32 cd (SwInterfaceDetails_SubIfFlags m),
      cd_EncodeUint32 cd (SwInterfaceDetails_VtrOp m),
      cd_EncodeUint32 cd (SwInterfaceDetails_VtrPushDot1q m),
      cd_EncodeUint32 cd (SwInterfaceDetails_VtrTag1 m),
      cd_EncodeUint32 cd (SwInterfaceDetails_VtrTag2 m),
      cd_EncodeUint16 cd (SwInterfaceDetails_OuterTag m),
      cd_EncodeBytes cd (SwInterfaceDetails_BDmac m) 6,
      cd_EncodeBytes cd (SwInterfaceDetails_BSmac m) 6,
      cd_EncodeUint16 cd (SwInterfaceDetails_BVlanid m),
      cd_EncodeUint32 cd (SwInterfaceDetails_ISid m),
      cd_EncodeString cd (SwInterfaceDetails_InterfaceName m) 64,
      cd_EncodeString cd (SwInterfaceDetails_InterfaceDevType m) 64,
      cd_EncodeString cd (SwInterfaceDetails_Tag m) 64])"

definition SwInterfaceDetails_Unmarshal :: "'b codec \<Rightarrow> bytes \<Rightarrow> wire_SwInterfaceDetails option" where
  "SwInterfaceDetails_Unmarshal cd = (\<lambda>b. unmarshalFields cd b (
     readField (cd_DecodeUint32 cd) (\<lambda>xSwIfIndex.
     readField (cd_DecodeUint32 cd) (\<lambda>xSupSwIfIndex.
     readField (cd_DecodeBytes cd 6) (\<lambda>xL2Address.
     readField (cd_DecodeUint32 cd) (\<lambda>xFlags.
     readField (cd_DecodeUint32 cd) (\<lambda>xType.
     readField (cd_DecodeUint32 cd) (\<lambda>xLinkDuplex.
     readField (cd_DecodeUint32 cd) (\<lambda>xLinkSpeed.
     readField (cd_DecodeUint16 cd) (\<lambda>xLinkMtu.
     readField (decodeEach (cd_DecodeUint32 cd) 4) (\<lambda>xMtu.
     readField (cd_DecodeUint32 cd) (\<lambda>xSubID.
     readField (cd_DecodeUint8 cd) (\<lambda>xSubNumberOfTags.
     readField (cd_DecodeUint16 cd) (\<lambda>xSubOuterVlanID.
     readField (cd_DecodeUint16 cd) (\<lambda>xSubInnerVlanID.
     readField (cd_DecodeUint32 cd) (\<lambda>xSubIfFlags.
     readField (cd_DecodeUint32 cd) (\<lambda>xVtrOp.
     readField (cd_DecodeUint32 cd) (\<lambda>xVtrPushDot1q.
     readField (cd_DecodeUint32 cd) (\<lambda>xVtrTag1.
     readField (cd_DecodeUint32 cd) (\<lambda>xVtrTag2.
     readField (cd_DecodeUint16 cd) (\<lambda>xOuterTag.
     readField (cd_DecodeBytes cd 6) (\<lambda>xBDmac.
     readField (cd_DecodeBytes cd 6) (\<lambda>xBSmac.
     readField (cd_DecodeUint16 cd) (\<lambda>xBVlanid.
     readField (cd_DecodeUint32 cd) (\<lambda>xISid.
     readField (cd_DecodeString cd 64) (\<lambda>xInterfaceName.
     readField (cd_DecodeString cd 64) (\<lambda>xInterfaceDevType.
     readField (cd_DecodeString cd 64) (\<lambda>xTag.
     fieldsRead \<lparr>SwInterfaceDetails_SwIfIndex = xSwIfIndex, SwInterfaceDetails_SupSwIfIndex = xSupSwIfIndex,
       SwInterfaceDetails_L2Address = xL2Address, SwInterfaceDetails_Flags = xFlags, SwInterfaceDetails_Type = xType,
       SwInterfaceDetails_LinkDuplex = xLinkDuplex, SwInterfaceDetails_LinkSpeed = xLinkSpeed,
       SwInterfaceDetails_LinkMtu = xLinkMtu, SwInterfaceDetails_Mtu = xMtu, SwInterfaceDetails_SubID = xSubID,
       SwInterfaceDetails_SubNumberOfTags = xSubNumberOfTags, SwInterfaceDetails_SubOuterVlanID = xSubOuterVlanID,
       SwInterfaceDetails_SubInnerVlanID = xSubInnerVlanID, SwInterfaceDetails_SubIfFlags = xSubIfFlags,
       SwInterfaceDetails_VtrOp = xVtrOp, SwInterfaceDetails_VtrPushDot1q = xVtrPushDot1q, SwInterfaceDetails_VtrTag1 = xVtrTag1,
       SwInterfaceDetails_VtrTag2 = xVtrTag2, SwInterfaceDetails_OuterTag = xOuterTag, SwInterfaceDetails_BDmac = xBDmac,
       SwInterfaceDetails_BSmac = xBSmac, SwInterfaceDetails_BVlanid = xBVlanid, SwInterfaceDetails_ISid = xISid,
       SwInterfaceDetails_InterfaceName = xInterfaceName, SwInterfaceDetails_InterfaceDevType = xInterfaceDevType,
       SwInterfaceDetails_Tag = xTag\<rparr>))))))))))))))))))))))))))))"

subsection \<open>What a message can carry\<close>

definition PolicerAdd_fits :: "wire_PolicerAdd \<Rightarrow> bool" where
  "PolicerAdd_fits m \<longleftrightarrow> fixed_ok 64 (PolicerAdd_Name m)"

definition PolicerAddDel_fits :: "wire_PolicerAddDel \<Rightarrow> bool" where
  "PolicerAddDel_fits m \<longleftrightarrow> fixed_ok 64 (PolicerAddDel_Name m)"

definition PolicerDump_fits :: "wire_PolicerDump \<Rightarrow> bool" where
  "PolicerDump_fits m \<longleftrightarrow> fixed_ok 64 (PolicerDump_MatchName m)"

definition PolicerDetails_fits :: "wire_PolicerDetails \<Rightarrow> bool" where
  "PolicerDetails_fits m \<longleftrightarrow> fixed_ok 64 (PolicerDetails_Name m)"

definition ClassifyAddDelTable_fits :: "wire_ClassifyAddDelTable \<Rightarrow> bool" where
  "ClassifyAddDelTable_fits m \<longleftrightarrow> ClassifyAddDelTable_MaskLen m = of_nat (length (ClassifyAddDelTable_Mask m)) \<and>
       length (ClassifyAddDelTable_Mask m) < 2 ^ 32"

definition ClassifyAddDelSession_fits :: "wire_ClassifyAddDelSession \<Rightarrow> bool" where
  "ClassifyAddDelSession_fits m \<longleftrightarrow> ClassifyAddDelSession_MatchLen m = of_nat (length (ClassifyAddDelSession_Match m)) \<and>
       length (ClassifyAddDelSession_Match m) < 2 ^ 32"

definition ClassifyTableIdsReply_fits :: "wire_ClassifyTableIdsReply \<Rightarrow> bool" where
  "ClassifyTableIdsReply_fits m \<longleftrightarrow> ClassifyTableIdsReply_Count m = of_nat (length (ClassifyTableIdsReply_Ids m)) \<and>
       length (ClassifyTableIdsReply_Ids m) < 2 ^ 32"

definition ClassifyTableInfoReply_fits :: "wire_ClassifyTableInfoReply \<Rightarrow> bool" where
  "ClassifyTableInfoReply_fits m \<longleftrightarrow> ClassifyTableInfoReply_MaskLength m = of_nat (length (ClassifyTableInfoReply_Mask m)) \<and>
       length (ClassifyTableInfoReply_Mask m) < 2 ^ 32"

definition ClassifySessionDetails_fits :: "wire_ClassifySessionDetails \<Rightarrow> bool" where
  "ClassifySessionDetails_fits m \<longleftrightarrow> ClassifySessionDetails_MatchLength m = of_nat (length (ClassifySessionDetails_Match m)) \<and>
       length (ClassifySessionDetails_Match m) < 2 ^ 32"

definition ProbeClassifyLookup_fits :: "wire_ProbeClassifyLookup \<Rightarrow> bool" where
  "ProbeClassifyLookup_fits m \<longleftrightarrow> ProbeClassifyLookup_MatchLen m = of_nat (length (ProbeClassifyLookup_Match m)) \<and>
       length (ProbeClassifyLookup_Match m) < 2 ^ 32"

definition ProbeClassifyLookupReply_fits :: "wire_ProbeClassifyLookupReply \<Rightarrow> bool" where
  "ProbeClassifyLookupReply_fits m \<longleftrightarrow> ProbeClassifyLookupReply_Count m = of_nat (length (ProbeClassifyLookupReply_Hits m)) \<and>
       length (ProbeClassifyLookupReply_Hits m) < 2 ^ 32"

definition SwInterfaceDump_fits :: "wire_SwInterfaceDump \<Rightarrow> bool" where
  "SwInterfaceDump_fits m \<longleftrightarrow> length (SwInterfaceDump_NameFilter m) < 2 ^ 32"

definition SwInterfaceDetails_fits :: "wire_SwInterfaceDetails \<Rightarrow> bool" where
  "SwInterfaceDetails_fits m \<longleftrightarrow> length (SwInterfaceDetails_L2Address m) = 6 \<and>
       length (SwInterfaceDetails_Mtu m) = 4 \<and> length (SwInterfaceDetails_BDmac m) = 6 \<and>
       length (SwInterfaceDetails_BSmac m) = 6 \<and> fixed_ok 64 (SwInterfaceDetails_InterfaceName m) \<and>
       fixed_ok 64 (SwInterfaceDetails_InterfaceDevType m) \<and> fixed_ok 64 (SwInterfaceDetails_Tag m)"

subsection \<open>Every message is exact on the wire\<close>

lemma be_concat_length [simp]: "length (concat (map (be_bytes n) xs)) = n * length xs"
  by (induction xs) simp_all

context govpp_codec
begin

lemma EncodeUint32s:
  "length xs = n \<Longrightarrow> encodes view (encodeAll (map (\<lambda>i. cd_EncodeUint32 cd (elemOrZero xs i)) [0..<n])) (concat (map (be_bytes 4) xs))"
  by (rule encodes_loop) (simp_all add: EncodeUint32)

lemma DecodeUint32s: "length xs = n \<Longrightarrow> decodes view (decodeEach (cd_DecodeUint32 cd) n) (concat (map (be_bytes 4) xs)) xs"
  by (rule decodes_each) (simp_all add: DecodeUint32)

lemmas codecs = PolicerAdd_Marshal_def PolicerAdd_Unmarshal_def PolicerAddReply_Marshal_def
  PolicerAddReply_Unmarshal_def PolicerUpdate_Marshal_def PolicerUpdate_Unmarshal_def PolicerUpdateReply_Marshal_def
  PolicerUpdateReply_Unmarshal_def PolicerDel_Marshal_def PolicerDel_Unmarshal_def PolicerDelReply_Marshal_def
  PolicerDelReply_Unmarshal_def PolicerBindV2_Marshal_def PolicerBindV2_Unmarshal_def PolicerBindV2Reply_Marshal_def
  PolicerBindV2Reply_Unmarshal_def PolicerAddDel_Marshal_def PolicerAddDel_Unmarshal_def PolicerAddDelReply_Marshal_def
  PolicerAddDelReply_Unmarshal_def PolicerDump_Marshal_def PolicerDump_Unmarshal_def PolicerDetails_Marshal_def
  PolicerDetails_Unmarshal_def ClassifyAddDelTable_Marshal_def ClassifyAddDelTable_Unmarshal_def
  ClassifyAddDelTableReply_Marshal_def ClassifyAddDelTableReply_Unmarshal_def ClassifyAddDelSession_Marshal_def
  ClassifyAddDelSession_Unmarshal_def ClassifyAddDelSessionReply_Marshal_def ClassifyAddDelSessionReply_Unmarshal_def
  ClassifyTableIdsReply_Marshal_def ClassifyTableIdsReply_Unmarshal_def ClassifyTableInfo_Marshal_def
  ClassifyTableInfo_Unmarshal_def ClassifyTableInfoReply_Marshal_def ClassifyTableInfoReply_Unmarshal_def
  ClassifySessionDump_Marshal_def ClassifySessionDump_Unmarshal_def ClassifySessionDetails_Marshal_def
  ClassifySessionDetails_Unmarshal_def PolicerClassifySetInterface_Marshal_def PolicerClassifySetInterface_Unmarshal_def
  PolicerClassifySetInterfaceReply_Marshal_def PolicerClassifySetInterfaceReply_Unmarshal_def
  PolicerClassifyDump_Marshal_def PolicerClassifyDump_Unmarshal_def PolicerClassifyDetails_Marshal_def
  PolicerClassifyDetails_Unmarshal_def ProbeClassifyLookup_Marshal_def ProbeClassifyLookup_Unmarshal_def
  ProbeClassifyLookupReply_Marshal_def ProbeClassifyLookupReply_Unmarshal_def SwInterfaceDump_Marshal_def
  SwInterfaceDump_Unmarshal_def SwInterfaceDetails_Marshal_def SwInterfaceDetails_Unmarshal_def

lemmas fits = PolicerAdd_fits_def PolicerAddDel_fits_def PolicerDump_fits_def PolicerDetails_fits_def
  ClassifyAddDelTable_fits_def ClassifyAddDelSession_fits_def ClassifyTableIdsReply_fits_def
  ClassifyTableInfoReply_fits_def ClassifySessionDetails_fits_def ProbeClassifyLookup_fits_def
  ProbeClassifyLookupReply_fits_def SwInterfaceDump_fits_def SwInterfaceDetails_fits_def

lemmas sizes = PolicerAdd_Size_def PolicerAddReply_Size_def PolicerUpdate_Size_def PolicerUpdateReply_Size_def
  PolicerDel_Size_def PolicerDelReply_Size_def PolicerBindV2_Size_def PolicerBindV2Reply_Size_def PolicerAddDel_Size_def
  PolicerAddDelReply_Size_def PolicerDump_Size_def PolicerDetails_Size_def ClassifyAddDelTable_Size_def
  ClassifyAddDelTableReply_Size_def ClassifyAddDelSession_Size_def ClassifyAddDelSessionReply_Size_def
  ClassifyTableIdsReply_Size_def ClassifyTableInfo_Size_def ClassifyTableInfoReply_Size_def ClassifySessionDump_Size_def
  ClassifySessionDetails_Size_def PolicerClassifySetInterface_Size_def PolicerClassifySetInterfaceReply_Size_def
  PolicerClassifyDump_Size_def PolicerClassifyDetails_Size_def ProbeClassifyLookup_Size_def
  ProbeClassifyLookupReply_Size_def SwInterfaceDump_Size_def SwInterfaceDetails_Size_def

lemma messages:
  shows PolicerAdd_wire: "PolicerAdd_fits m0 \<Longrightarrow> wire_exact (PolicerAdd_Marshal cd m0) (PolicerAdd_Size m0) (PolicerAdd_Unmarshal cd) m0"
    and PolicerAddReply_wire: "wire_exact (PolicerAddReply_Marshal cd m1) (PolicerAddReply_Size m1) (PolicerAddReply_Unmarshal cd) m1"
    and PolicerUpdate_wire: "wire_exact (PolicerUpdate_Marshal cd m2) (PolicerUpdate_Size m2) (PolicerUpdate_Unmarshal cd) m2"
    and PolicerUpdateReply_wire: "wire_exact (PolicerUpdateReply_Marshal cd m3) (PolicerUpdateReply_Size m3) (PolicerUpdateReply_Unmarshal cd) m3"
    and PolicerDel_wire: "wire_exact (PolicerDel_Marshal cd m4) (PolicerDel_Size m4) (PolicerDel_Unmarshal cd) m4"
    and PolicerDelReply_wire: "wire_exact (PolicerDelReply_Marshal cd m5) (PolicerDelReply_Size m5) (PolicerDelReply_Unmarshal cd) m5"
    and PolicerBindV2_wire: "wire_exact (PolicerBindV2_Marshal cd m6) (PolicerBindV2_Size m6) (PolicerBindV2_Unmarshal cd) m6"
    and PolicerBindV2Reply_wire: "wire_exact (PolicerBindV2Reply_Marshal cd m7) (PolicerBindV2Reply_Size m7) (PolicerBindV2Reply_Unmarshal cd) m7"
    and PolicerAddDel_wire: "PolicerAddDel_fits m8 \<Longrightarrow> wire_exact (PolicerAddDel_Marshal cd m8) (PolicerAddDel_Size m8) (PolicerAddDel_Unmarshal cd) m8"
    and PolicerAddDelReply_wire: "wire_exact (PolicerAddDelReply_Marshal cd m9) (PolicerAddDelReply_Size m9) (PolicerAddDelReply_Unmarshal cd) m9"
    and PolicerDump_wire: "PolicerDump_fits m10 \<Longrightarrow> wire_exact (PolicerDump_Marshal cd m10) (PolicerDump_Size m10) (PolicerDump_Unmarshal cd) m10"
    and PolicerDetails_wire: "PolicerDetails_fits m11 \<Longrightarrow> wire_exact (PolicerDetails_Marshal cd m11) (PolicerDetails_Size m11) (PolicerDetails_Unmarshal cd) m11"
    and ClassifyAddDelTable_wire: "ClassifyAddDelTable_fits m12 \<Longrightarrow> wire_exact (ClassifyAddDelTable_Marshal cd m12) (ClassifyAddDelTable_Size m12) (ClassifyAddDelTable_Unmarshal cd) m12"
    and ClassifyAddDelTableReply_wire: "wire_exact (ClassifyAddDelTableReply_Marshal cd m13) (ClassifyAddDelTableReply_Size m13) (ClassifyAddDelTableReply_Unmarshal cd) m13"
    and ClassifyAddDelSession_wire: "ClassifyAddDelSession_fits m14 \<Longrightarrow> wire_exact (ClassifyAddDelSession_Marshal cd m14) (ClassifyAddDelSession_Size m14) (ClassifyAddDelSession_Unmarshal cd) m14"
    and ClassifyAddDelSessionReply_wire: "wire_exact (ClassifyAddDelSessionReply_Marshal cd m15) (ClassifyAddDelSessionReply_Size m15) (ClassifyAddDelSessionReply_Unmarshal cd) m15"
    and ClassifyTableIdsReply_wire: "ClassifyTableIdsReply_fits m16 \<Longrightarrow> wire_exact (ClassifyTableIdsReply_Marshal cd m16) (ClassifyTableIdsReply_Size m16) (ClassifyTableIdsReply_Unmarshal cd) m16"
    and ClassifyTableInfo_wire: "wire_exact (ClassifyTableInfo_Marshal cd m17) (ClassifyTableInfo_Size m17) (ClassifyTableInfo_Unmarshal cd) m17"
    and ClassifyTableInfoReply_wire: "ClassifyTableInfoReply_fits m18 \<Longrightarrow> wire_exact (ClassifyTableInfoReply_Marshal cd m18) (ClassifyTableInfoReply_Size m18) (ClassifyTableInfoReply_Unmarshal cd) m18"
    and ClassifySessionDump_wire: "wire_exact (ClassifySessionDump_Marshal cd m19) (ClassifySessionDump_Size m19) (ClassifySessionDump_Unmarshal cd) m19"
    and ClassifySessionDetails_wire: "ClassifySessionDetails_fits m20 \<Longrightarrow> wire_exact (ClassifySessionDetails_Marshal cd m20) (ClassifySessionDetails_Size m20) (ClassifySessionDetails_Unmarshal cd) m20"
    and PolicerClassifySetInterface_wire: "wire_exact (PolicerClassifySetInterface_Marshal cd m21) (PolicerClassifySetInterface_Size m21) (PolicerClassifySetInterface_Unmarshal cd) m21"
    and PolicerClassifySetInterfaceReply_wire: "wire_exact (PolicerClassifySetInterfaceReply_Marshal cd m22) (PolicerClassifySetInterfaceReply_Size m22) (PolicerClassifySetInterfaceReply_Unmarshal cd) m22"
    and PolicerClassifyDump_wire: "wire_exact (PolicerClassifyDump_Marshal cd m23) (PolicerClassifyDump_Size m23) (PolicerClassifyDump_Unmarshal cd) m23"
    and PolicerClassifyDetails_wire: "wire_exact (PolicerClassifyDetails_Marshal cd m24) (PolicerClassifyDetails_Size m24) (PolicerClassifyDetails_Unmarshal cd) m24"
    and ProbeClassifyLookup_wire: "ProbeClassifyLookup_fits m25 \<Longrightarrow> wire_exact (ProbeClassifyLookup_Marshal cd m25) (ProbeClassifyLookup_Size m25) (ProbeClassifyLookup_Unmarshal cd) m25"
    and ProbeClassifyLookupReply_wire: "ProbeClassifyLookupReply_fits m26 \<Longrightarrow> wire_exact (ProbeClassifyLookupReply_Marshal cd m26) (ProbeClassifyLookupReply_Size m26) (ProbeClassifyLookupReply_Unmarshal cd) m26"
    and SwInterfaceDump_wire: "SwInterfaceDump_fits m27 \<Longrightarrow> wire_exact (SwInterfaceDump_Marshal cd m27) (SwInterfaceDump_Size m27) (SwInterfaceDump_Unmarshal cd) m27"
    and SwInterfaceDetails_wire: "SwInterfaceDetails_fits m28 \<Longrightarrow> wire_exact (SwInterfaceDetails_Marshal cd m28) (SwInterfaceDetails_Size m28) (SwInterfaceDetails_Unmarshal cd) m28"
  unfolding codecs fits
  by (rule wire_exactI,
      (rule EncodeUint32s DecodeUint32s encoders decoders |
       (simp add: sizes fixedBytes_length fixed_ok_def prefixedBytes_def unat_of_nat; fail))+)+

end

end
