(* ===== verification/Vpp_Wire.thy ===== *)
theory Vpp_Wire
  imports Vpp_Messages Vpp_Ref
begin

text \<open>
  The agent's requests as bytes. \<open>binapi_msg\<close> is the interface \<open>api.Message\<close> over the messages of \<open>Vpp_Messages\<close>;
  \<open>messages_exact_on_wire\<close> shows that each of them crosses the codec unchanged. \<open>reqMsg\<close> is the message of a request of
  \<open>Vpp_Api\<close>, with Go's zero values in the fields the agent leaves out, \<open>reqOf\<close> its reading by the fields' documented meaning, and
  \<open>over_wire\<close> a channel whose requests travel as bytes. \<open>operations_over_the_wire\<close>: no operation of \<open>vpp/policer.go\<close>,
  \<open>vpp/classify.go\<close> or \<open>vpp/iface.go\<close> can tell the difference.
\<close>

subsection \<open>Messages\<close>

datatype binapi_msg =
    MsgPolicerAdd wire_PolicerAdd
  | MsgPolicerAddReply wire_PolicerAddReply
  | MsgPolicerUpdate wire_PolicerUpdate
  | MsgPolicerUpdateReply wire_PolicerUpdateReply
  | MsgPolicerDel wire_PolicerDel
  | MsgPolicerDelReply wire_PolicerDelReply
  | MsgPolicerBindV2 wire_PolicerBindV2
  | MsgPolicerBindV2Reply wire_PolicerBindV2Reply
  | MsgPolicerAddDel wire_PolicerAddDel
  | MsgPolicerAddDelReply wire_PolicerAddDelReply
  | MsgPolicerDump wire_PolicerDump
  | MsgPolicerDetails wire_PolicerDetails
  | MsgClassifyAddDelTable wire_ClassifyAddDelTable
  | MsgClassifyAddDelTableReply wire_ClassifyAddDelTableReply
  | MsgClassifyAddDelSession wire_ClassifyAddDelSession
  | MsgClassifyAddDelSessionReply wire_ClassifyAddDelSessionReply
  | MsgClassifyTableIds wire_ClassifyTableIds
  | MsgClassifyTableIdsReply wire_ClassifyTableIdsReply
  | MsgClassifyTableInfo wire_ClassifyTableInfo
  | MsgClassifyTableInfoReply wire_ClassifyTableInfoReply
  | MsgClassifySessionDump wire_ClassifySessionDump
  | MsgClassifySessionDetails wire_ClassifySessionDetails
  | MsgPolicerClassifySetInterface wire_PolicerClassifySetInterface
  | MsgPolicerClassifySetInterfaceReply wire_PolicerClassifySetInterfaceReply
  | MsgPolicerClassifyDump wire_PolicerClassifyDump
  | MsgPolicerClassifyDetails wire_PolicerClassifyDetails
  | MsgProbeClassifyLookup wire_ProbeClassifyLookup
  | MsgProbeClassifyLookupReply wire_ProbeClassifyLookupReply
  | MsgSwInterfaceDump wire_SwInterfaceDump
  | MsgSwInterfaceDetails wire_SwInterfaceDetails

fun msgId :: "binapi_msg \<Rightarrow> msg_id" where
  "msgId (MsgPolicerAdd m) = PolicerAdd_id"
| "msgId (MsgPolicerAddReply m) = PolicerAddReply_id"
| "msgId (MsgPolicerUpdate m) = PolicerUpdate_id"
| "msgId (MsgPolicerUpdateReply m) = PolicerUpdateReply_id"
| "msgId (MsgPolicerDel m) = PolicerDel_id"
| "msgId (MsgPolicerDelReply m) = PolicerDelReply_id"
| "msgId (MsgPolicerBindV2 m) = PolicerBindV2_id"
| "msgId (MsgPolicerBindV2Reply m) = PolicerBindV2Reply_id"
| "msgId (MsgPolicerAddDel m) = PolicerAddDel_id"
| "msgId (MsgPolicerAddDelReply m) = PolicerAddDelReply_id"
| "msgId (MsgPolicerDump m) = PolicerDump_id"
| "msgId (MsgPolicerDetails m) = PolicerDetails_id"
| "msgId (MsgClassifyAddDelTable m) = ClassifyAddDelTable_id"
| "msgId (MsgClassifyAddDelTableReply m) = ClassifyAddDelTableReply_id"
| "msgId (MsgClassifyAddDelSession m) = ClassifyAddDelSession_id"
| "msgId (MsgClassifyAddDelSessionReply m) = ClassifyAddDelSessionReply_id"
| "msgId (MsgClassifyTableIds m) = ClassifyTableIds_id"
| "msgId (MsgClassifyTableIdsReply m) = ClassifyTableIdsReply_id"
| "msgId (MsgClassifyTableInfo m) = ClassifyTableInfo_id"
| "msgId (MsgClassifyTableInfoReply m) = ClassifyTableInfoReply_id"
| "msgId (MsgClassifySessionDump m) = ClassifySessionDump_id"
| "msgId (MsgClassifySessionDetails m) = ClassifySessionDetails_id"
| "msgId (MsgPolicerClassifySetInterface m) = PolicerClassifySetInterface_id"
| "msgId (MsgPolicerClassifySetInterfaceReply m) = PolicerClassifySetInterfaceReply_id"
| "msgId (MsgPolicerClassifyDump m) = PolicerClassifyDump_id"
| "msgId (MsgPolicerClassifyDetails m) = PolicerClassifyDetails_id"
| "msgId (MsgProbeClassifyLookup m) = ProbeClassifyLookup_id"
| "msgId (MsgProbeClassifyLookupReply m) = ProbeClassifyLookupReply_id"
| "msgId (MsgSwInterfaceDump m) = SwInterfaceDump_id"
| "msgId (MsgSwInterfaceDetails m) = SwInterfaceDetails_id"

fun msg_Size :: "binapi_msg \<Rightarrow> nat" where
  "msg_Size (MsgPolicerAdd m) = PolicerAdd_Size m"
| "msg_Size (MsgPolicerAddReply m) = PolicerAddReply_Size m"
| "msg_Size (MsgPolicerUpdate m) = PolicerUpdate_Size m"
| "msg_Size (MsgPolicerUpdateReply m) = PolicerUpdateReply_Size m"
| "msg_Size (MsgPolicerDel m) = PolicerDel_Size m"
| "msg_Size (MsgPolicerDelReply m) = PolicerDelReply_Size m"
| "msg_Size (MsgPolicerBindV2 m) = PolicerBindV2_Size m"
| "msg_Size (MsgPolicerBindV2Reply m) = PolicerBindV2Reply_Size m"
| "msg_Size (MsgPolicerAddDel m) = PolicerAddDel_Size m"
| "msg_Size (MsgPolicerAddDelReply m) = PolicerAddDelReply_Size m"
| "msg_Size (MsgPolicerDump m) = PolicerDump_Size m"
| "msg_Size (MsgPolicerDetails m) = PolicerDetails_Size m"
| "msg_Size (MsgClassifyAddDelTable m) = ClassifyAddDelTable_Size m"
| "msg_Size (MsgClassifyAddDelTableReply m) = ClassifyAddDelTableReply_Size m"
| "msg_Size (MsgClassifyAddDelSession m) = ClassifyAddDelSession_Size m"
| "msg_Size (MsgClassifyAddDelSessionReply m) = ClassifyAddDelSessionReply_Size m"
| "msg_Size (MsgClassifyTableIds m) = ClassifyTableIds_Size m"
| "msg_Size (MsgClassifyTableIdsReply m) = ClassifyTableIdsReply_Size m"
| "msg_Size (MsgClassifyTableInfo m) = ClassifyTableInfo_Size m"
| "msg_Size (MsgClassifyTableInfoReply m) = ClassifyTableInfoReply_Size m"
| "msg_Size (MsgClassifySessionDump m) = ClassifySessionDump_Size m"
| "msg_Size (MsgClassifySessionDetails m) = ClassifySessionDetails_Size m"
| "msg_Size (MsgPolicerClassifySetInterface m) = PolicerClassifySetInterface_Size m"
| "msg_Size (MsgPolicerClassifySetInterfaceReply m) = PolicerClassifySetInterfaceReply_Size m"
| "msg_Size (MsgPolicerClassifyDump m) = PolicerClassifyDump_Size m"
| "msg_Size (MsgPolicerClassifyDetails m) = PolicerClassifyDetails_Size m"
| "msg_Size (MsgProbeClassifyLookup m) = ProbeClassifyLookup_Size m"
| "msg_Size (MsgProbeClassifyLookupReply m) = ProbeClassifyLookupReply_Size m"
| "msg_Size (MsgSwInterfaceDump m) = SwInterfaceDump_Size m"
| "msg_Size (MsgSwInterfaceDetails m) = SwInterfaceDetails_Size m"

fun msg_Marshal :: "'b codec \<Rightarrow> binapi_msg \<Rightarrow> bytes option \<Rightarrow> bytes option" where
  "msg_Marshal cd (MsgPolicerAdd m) = PolicerAdd_Marshal cd m"
| "msg_Marshal cd (MsgPolicerAddReply m) = PolicerAddReply_Marshal cd m"
| "msg_Marshal cd (MsgPolicerUpdate m) = PolicerUpdate_Marshal cd m"
| "msg_Marshal cd (MsgPolicerUpdateReply m) = PolicerUpdateReply_Marshal cd m"
| "msg_Marshal cd (MsgPolicerDel m) = PolicerDel_Marshal cd m"
| "msg_Marshal cd (MsgPolicerDelReply m) = PolicerDelReply_Marshal cd m"
| "msg_Marshal cd (MsgPolicerBindV2 m) = PolicerBindV2_Marshal cd m"
| "msg_Marshal cd (MsgPolicerBindV2Reply m) = PolicerBindV2Reply_Marshal cd m"
| "msg_Marshal cd (MsgPolicerAddDel m) = PolicerAddDel_Marshal cd m"
| "msg_Marshal cd (MsgPolicerAddDelReply m) = PolicerAddDelReply_Marshal cd m"
| "msg_Marshal cd (MsgPolicerDump m) = PolicerDump_Marshal cd m"
| "msg_Marshal cd (MsgPolicerDetails m) = PolicerDetails_Marshal cd m"
| "msg_Marshal cd (MsgClassifyAddDelTable m) = ClassifyAddDelTable_Marshal cd m"
| "msg_Marshal cd (MsgClassifyAddDelTableReply m) = ClassifyAddDelTableReply_Marshal cd m"
| "msg_Marshal cd (MsgClassifyAddDelSession m) = ClassifyAddDelSession_Marshal cd m"
| "msg_Marshal cd (MsgClassifyAddDelSessionReply m) = ClassifyAddDelSessionReply_Marshal cd m"
| "msg_Marshal cd (MsgClassifyTableIds m) = ClassifyTableIds_Marshal cd m"
| "msg_Marshal cd (MsgClassifyTableIdsReply m) = ClassifyTableIdsReply_Marshal cd m"
| "msg_Marshal cd (MsgClassifyTableInfo m) = ClassifyTableInfo_Marshal cd m"
| "msg_Marshal cd (MsgClassifyTableInfoReply m) = ClassifyTableInfoReply_Marshal cd m"
| "msg_Marshal cd (MsgClassifySessionDump m) = ClassifySessionDump_Marshal cd m"
| "msg_Marshal cd (MsgClassifySessionDetails m) = ClassifySessionDetails_Marshal cd m"
| "msg_Marshal cd (MsgPolicerClassifySetInterface m) = PolicerClassifySetInterface_Marshal cd m"
| "msg_Marshal cd (MsgPolicerClassifySetInterfaceReply m) = PolicerClassifySetInterfaceReply_Marshal cd m"
| "msg_Marshal cd (MsgPolicerClassifyDump m) = PolicerClassifyDump_Marshal cd m"
| "msg_Marshal cd (MsgPolicerClassifyDetails m) = PolicerClassifyDetails_Marshal cd m"
| "msg_Marshal cd (MsgProbeClassifyLookup m) = ProbeClassifyLookup_Marshal cd m"
| "msg_Marshal cd (MsgProbeClassifyLookupReply m) = ProbeClassifyLookupReply_Marshal cd m"
| "msg_Marshal cd (MsgSwInterfaceDump m) = SwInterfaceDump_Marshal cd m"
| "msg_Marshal cd (MsgSwInterfaceDetails m) = SwInterfaceDetails_Marshal cd m"

fun msg_fits :: "binapi_msg \<Rightarrow> bool" where
  "msg_fits (MsgPolicerAdd m) = PolicerAdd_fits m"
| "msg_fits (MsgPolicerAddReply m) = True"
| "msg_fits (MsgPolicerUpdate m) = True"
| "msg_fits (MsgPolicerUpdateReply m) = True"
| "msg_fits (MsgPolicerDel m) = True"
| "msg_fits (MsgPolicerDelReply m) = True"
| "msg_fits (MsgPolicerBindV2 m) = True"
| "msg_fits (MsgPolicerBindV2Reply m) = True"
| "msg_fits (MsgPolicerAddDel m) = PolicerAddDel_fits m"
| "msg_fits (MsgPolicerAddDelReply m) = True"
| "msg_fits (MsgPolicerDump m) = PolicerDump_fits m"
| "msg_fits (MsgPolicerDetails m) = PolicerDetails_fits m"
| "msg_fits (MsgClassifyAddDelTable m) = ClassifyAddDelTable_fits m"
| "msg_fits (MsgClassifyAddDelTableReply m) = True"
| "msg_fits (MsgClassifyAddDelSession m) = ClassifyAddDelSession_fits m"
| "msg_fits (MsgClassifyAddDelSessionReply m) = True"
| "msg_fits (MsgClassifyTableIds m) = True"
| "msg_fits (MsgClassifyTableIdsReply m) = ClassifyTableIdsReply_fits m"
| "msg_fits (MsgClassifyTableInfo m) = True"
| "msg_fits (MsgClassifyTableInfoReply m) = ClassifyTableInfoReply_fits m"
| "msg_fits (MsgClassifySessionDump m) = True"
| "msg_fits (MsgClassifySessionDetails m) = ClassifySessionDetails_fits m"
| "msg_fits (MsgPolicerClassifySetInterface m) = True"
| "msg_fits (MsgPolicerClassifySetInterfaceReply m) = True"
| "msg_fits (MsgPolicerClassifyDump m) = True"
| "msg_fits (MsgPolicerClassifyDetails m) = True"
| "msg_fits (MsgProbeClassifyLookup m) = ProbeClassifyLookup_fits m"
| "msg_fits (MsgProbeClassifyLookupReply m) = ProbeClassifyLookupReply_fits m"
| "msg_fits (MsgSwInterfaceDump m) = SwInterfaceDump_fits m"
| "msg_fits (MsgSwInterfaceDetails m) = SwInterfaceDetails_fits m"

text \<open>The registry of \<open>api.RegisterMessage\<close>: the type a payload is read into is found by the message's name.\<close>

definition registry :: "'b codec \<Rightarrow> (string \<times> (bytes \<Rightarrow> binapi_msg option)) list" where
  "registry cd =
     [(mi_Name PolicerAdd_id, \<lambda>b. map_option MsgPolicerAdd (PolicerAdd_Unmarshal cd b)),
      (mi_Name PolicerAddReply_id, \<lambda>b. map_option MsgPolicerAddReply (PolicerAddReply_Unmarshal cd b)),
      (mi_Name PolicerUpdate_id, \<lambda>b. map_option MsgPolicerUpdate (PolicerUpdate_Unmarshal cd b)),
      (mi_Name PolicerUpdateReply_id, \<lambda>b. map_option MsgPolicerUpdateReply (PolicerUpdateReply_Unmarshal cd b)),
      (mi_Name PolicerDel_id, \<lambda>b. map_option MsgPolicerDel (PolicerDel_Unmarshal cd b)),
      (mi_Name PolicerDelReply_id, \<lambda>b. map_option MsgPolicerDelReply (PolicerDelReply_Unmarshal cd b)),
      (mi_Name PolicerBindV2_id, \<lambda>b. map_option MsgPolicerBindV2 (PolicerBindV2_Unmarshal cd b)),
      (mi_Name PolicerBindV2Reply_id, \<lambda>b. map_option MsgPolicerBindV2Reply (PolicerBindV2Reply_Unmarshal cd b)),
      (mi_Name PolicerAddDel_id, \<lambda>b. map_option MsgPolicerAddDel (PolicerAddDel_Unmarshal cd b)),
      (mi_Name PolicerAddDelReply_id, \<lambda>b. map_option MsgPolicerAddDelReply (PolicerAddDelReply_Unmarshal cd b)),
      (mi_Name PolicerDump_id, \<lambda>b. map_option MsgPolicerDump (PolicerDump_Unmarshal cd b)),
      (mi_Name PolicerDetails_id, \<lambda>b. map_option MsgPolicerDetails (PolicerDetails_Unmarshal cd b)),
      (mi_Name ClassifyAddDelTable_id, \<lambda>b. map_option MsgClassifyAddDelTable (ClassifyAddDelTable_Unmarshal cd b)),
      (mi_Name ClassifyAddDelTableReply_id, \<lambda>b. map_option MsgClassifyAddDelTableReply (ClassifyAddDelTableReply_Unmarshal cd b)),
      (mi_Name ClassifyAddDelSession_id, \<lambda>b. map_option MsgClassifyAddDelSession (ClassifyAddDelSession_Unmarshal cd b)),
      (mi_Name ClassifyAddDelSessionReply_id, \<lambda>b. map_option MsgClassifyAddDelSessionReply (ClassifyAddDelSessionReply_Unmarshal cd b)),
      (mi_Name ClassifyTableIds_id, \<lambda>b. map_option MsgClassifyTableIds (ClassifyTableIds_Unmarshal cd b)),
      (mi_Name ClassifyTableIdsReply_id, \<lambda>b. map_option MsgClassifyTableIdsReply (ClassifyTableIdsReply_Unmarshal cd b)),
      (mi_Name ClassifyTableInfo_id, \<lambda>b. map_option MsgClassifyTableInfo (ClassifyTableInfo_Unmarshal cd b)),
      (mi_Name ClassifyTableInfoReply_id, \<lambda>b. map_option MsgClassifyTableInfoReply (ClassifyTableInfoReply_Unmarshal cd b)),
      (mi_Name ClassifySessionDump_id, \<lambda>b. map_option MsgClassifySessionDump (ClassifySessionDump_Unmarshal cd b)),
      (mi_Name ClassifySessionDetails_id, \<lambda>b. map_option MsgClassifySessionDetails (ClassifySessionDetails_Unmarshal cd b)),
      (mi_Name PolicerClassifySetInterface_id, \<lambda>b. map_option MsgPolicerClassifySetInterface (PolicerClassifySetInterface_Unmarshal cd b)),
      (mi_Name PolicerClassifySetInterfaceReply_id, \<lambda>b. map_option MsgPolicerClassifySetInterfaceReply (PolicerClassifySetInterfaceReply_Unmarshal cd b)),
      (mi_Name PolicerClassifyDump_id, \<lambda>b. map_option MsgPolicerClassifyDump (PolicerClassifyDump_Unmarshal cd b)),
      (mi_Name PolicerClassifyDetails_id, \<lambda>b. map_option MsgPolicerClassifyDetails (PolicerClassifyDetails_Unmarshal cd b)),
      (mi_Name ProbeClassifyLookup_id, \<lambda>b. map_option MsgProbeClassifyLookup (ProbeClassifyLookup_Unmarshal cd b)),
      (mi_Name ProbeClassifyLookupReply_id, \<lambda>b. map_option MsgProbeClassifyLookupReply (ProbeClassifyLookupReply_Unmarshal cd b)),
      (mi_Name SwInterfaceDump_id, \<lambda>b. map_option MsgSwInterfaceDump (SwInterfaceDump_Unmarshal cd b)),
      (mi_Name SwInterfaceDetails_id, \<lambda>b. map_option MsgSwInterfaceDetails (SwInterfaceDetails_Unmarshal cd b))]"

definition msg_Unmarshal :: "'b codec \<Rightarrow> string \<Rightarrow> bytes \<Rightarrow> binapi_msg option" where
  "msg_Unmarshal cd name = (case map_of (registry cd) name of None \<Rightarrow> (\<lambda>_. None) | Some f \<Rightarrow> f)"

lemmas msg_ids = PolicerAdd_id_def PolicerAddReply_id_def PolicerUpdate_id_def PolicerUpdateReply_id_def PolicerDel_id_def
  PolicerDelReply_id_def PolicerBindV2_id_def PolicerBindV2Reply_id_def PolicerAddDel_id_def PolicerAddDelReply_id_def
  PolicerDump_id_def PolicerDetails_id_def ClassifyAddDelTable_id_def ClassifyAddDelTableReply_id_def
  ClassifyAddDelSession_id_def ClassifyAddDelSessionReply_id_def ClassifyTableIds_id_def ClassifyTableIdsReply_id_def
  ClassifyTableInfo_id_def ClassifyTableInfoReply_id_def ClassifySessionDump_id_def ClassifySessionDetails_id_def
  PolicerClassifySetInterface_id_def PolicerClassifySetInterfaceReply_id_def PolicerClassifyDump_id_def
  PolicerClassifyDetails_id_def ProbeClassifyLookup_id_def ProbeClassifyLookupReply_id_def SwInterfaceDump_id_def
  SwInterfaceDetails_id_def

lemma wire_exact_map: "wire_exact mar n unm m \<Longrightarrow> wire_exact mar n (\<lambda>b. map_option f (unm b)) (f m)"
  by (auto simp: wire_exact_def)

context govpp_codec
begin

lemma ClassifyTableIds_wire: "wire_exact (ClassifyTableIds_Marshal cd m) (ClassifyTableIds_Size m) (ClassifyTableIds_Unmarshal cd) m"
  using wire_exactI [OF encodes_nil decodes_done, of m m 0]
  by (cases m) (simp add: wire_exact_def ClassifyTableIds_Marshal_def ClassifyTableIds_Size_def ClassifyTableIds_Unmarshal_def)

lemmas wires = messages ClassifyTableIds_wire

lemma message_wire: "msg_fits m \<Longrightarrow> wire_exact (msg_Marshal cd m) (msg_Size m) (msg_Unmarshal cd (mi_Name (msgId m))) m"
  by (cases m; simp add: msg_Unmarshal_def registry_def msg_ids; intro wire_exact_map wires; assumption?)

end
subsection \<open>The agent's requests\<close>

text \<open>The values of the enums of \<open>policer_types.ba.go\<close> and \<open>classify.ba.go\<close>.\<close>

fun actionCode :: "Sse2QosActionType \<Rightarrow> u8" where
  "actionCode SSE2_QOS_ACTION_API_DROP = 0"
| "actionCode SSE2_QOS_ACTION_API_TRANSMIT = 1"
| "actionCode SSE2_QOS_ACTION_API_MARK_AND_TRANSMIT = 2"

fun rateCode :: "Sse2QosRateType \<Rightarrow> u8" where
  "rateCode SSE2_QOS_RATE_API_KBPS = 0"
| "rateCode SSE2_QOS_RATE_API_PPS = 1"

fun roundCode :: "Sse2QosRoundType \<Rightarrow> u8" where
  "roundCode SSE2_QOS_ROUND_API_TO_CLOSEST = 0"

fun typeCode :: "Sse2QosPolicerType \<Rightarrow> u8" where
  "typeCode SSE2_QOS_POLICER_TYPE_API_1R2C = 0"

fun classifyTableCode :: "Family \<Rightarrow> u8" where
  "classifyTableCode FamilyIPv4 = 0"
| "classifyTableCode FamilyIPv6 = 1"

definition decodeEnum :: "('e \<Rightarrow> u8) \<Rightarrow> 'e list \<Rightarrow> u8 \<Rightarrow> 'e option" where
  "decodeEnum code es x = find (\<lambda>e. code e = x) es"

definition wireAction :: "Sse2QosActionType \<Rightarrow> wire_Sse2QosAction" where
  "wireAction a = \<lparr>Sse2QosAction_Type = actionCode a, Sse2QosAction_Dscp = 0\<rparr>"

definition wireConfig :: "PolicerConfig \<Rightarrow> wire_PolicerConfig" where
  "wireConfig c = \<lparr>PolicerConfig_Cir = pc_Cir c, PolicerConfig_Eir = pc_Eir c, PolicerConfig_Cb = pc_Cb c, PolicerConfig_Eb = pc_Eb c,
     PolicerConfig_RateType = rateCode (pc_RateType c), PolicerConfig_RoundType = roundCode (pc_RoundType c),
     PolicerConfig_Type = typeCode (pc_Type c), PolicerConfig_ColorAware = pc_ColorAware c,
     PolicerConfig_ConformAction = wireAction (pc_ConformAction c), PolicerConfig_ExceedAction = wireAction (pc_ExceedAction c),
     PolicerConfig_ViolateAction = wireAction (pc_ViolateAction c)\<rparr>"

definition readAction :: "wire_Sse2QosAction \<Rightarrow> Sse2QosActionType option" where
  "readAction a = decodeEnum actionCode
     [SSE2_QOS_ACTION_API_DROP, SSE2_QOS_ACTION_API_TRANSMIT, SSE2_QOS_ACTION_API_MARK_AND_TRANSMIT] (Sse2QosAction_Type a)"

definition readConfig :: "wire_PolicerConfig \<Rightarrow> PolicerConfig option" where
  "readConfig w =
     (case (decodeEnum rateCode [SSE2_QOS_RATE_API_KBPS, SSE2_QOS_RATE_API_PPS] (PolicerConfig_RateType w),
            decodeEnum roundCode [SSE2_QOS_ROUND_API_TO_CLOSEST] (PolicerConfig_RoundType w),
            decodeEnum typeCode [SSE2_QOS_POLICER_TYPE_API_1R2C] (PolicerConfig_Type w),
            readAction (PolicerConfig_ConformAction w), readAction (PolicerConfig_ExceedAction w), readAction (PolicerConfig_ViolateAction w)) of
        (Some rate, Some round, Some type, Some conform, Some exceed, Some violate) \<Rightarrow>
          Some \<lparr>pc_Cir = PolicerConfig_Cir w, pc_Eir = PolicerConfig_Eir w, pc_Cb = PolicerConfig_Cb w, pc_Eb = PolicerConfig_Eb w,
            pc_RateType = rate, pc_RoundType = round, pc_Type = type, pc_ColorAware = PolicerConfig_ColorAware w,
            pc_ConformAction = conform, pc_ExceedAction = exceed, pc_ViolateAction = violate\<rparr>
      | _ \<Rightarrow> None)"

text \<open>The struct literals of the wrappers: a field that is not named has Go's zero value.\<close>

fun reqMsg :: "vpp_req \<Rightarrow> binapi_msg" where
  "reqMsg (PolicerAdd name cfg) = MsgPolicerAdd \<lparr>PolicerAdd_Name = name, PolicerAdd_Infos = wireConfig cfg\<rparr>"
| "reqMsg (PolicerUpdate i cfg) = MsgPolicerUpdate \<lparr>PolicerUpdate_PolicerIndex = i, PolicerUpdate_Infos = wireConfig cfg\<rparr>"
| "reqMsg (PolicerDel i) = MsgPolicerDel \<lparr>PolicerDel_PolicerIndex = i\<rparr>"
| "reqMsg (PolicerBindV2 i w b) = MsgPolicerBindV2 \<lparr>PolicerBindV2_PolicerIndex = i, PolicerBindV2_WorkerIndex = w, PolicerBindV2_BindEnable = b\<rparr>"
| "reqMsg (PolicerAddDel b name) = MsgPolicerAddDel \<lparr>PolicerAddDel_IsAdd = b, PolicerAddDel_Name = name, PolicerAddDel_Cir = 0,
     PolicerAddDel_Eir = 0, PolicerAddDel_Cb = 0, PolicerAddDel_Eb = 0, PolicerAddDel_RateType = 0, PolicerAddDel_RoundType = 0,
     PolicerAddDel_Type = 0, PolicerAddDel_ColorAware = False,
     PolicerAddDel_ConformAction = \<lparr>Sse2QosAction_Type = 0, Sse2QosAction_Dscp = 0\<rparr>,
     PolicerAddDel_ExceedAction = \<lparr>Sse2QosAction_Type = 0, Sse2QosAction_Dscp = 0\<rparr>,
     PolicerAddDel_ViolateAction = \<lparr>Sse2QosAction_Type = 0, Sse2QosAction_Dscp = 0\<rparr>\<rparr>"
| "reqMsg PolicerDump = MsgPolicerDump \<lparr>PolicerDump_MatchNameValid = False, PolicerDump_MatchName = []\<rparr>"
| "reqMsg (ReqClassifyAddDelTable t) = MsgClassifyAddDelTable \<lparr>ClassifyAddDelTable_IsAdd = cat_IsAdd t, ClassifyAddDelTable_DelChain = False,
     ClassifyAddDelTable_TableIndex = cat_TableIndex t, ClassifyAddDelTable_Nbuckets = cat_Nbuckets t,
     ClassifyAddDelTable_MemorySize = cat_MemorySize t, ClassifyAddDelTable_SkipNVectors = cat_SkipNVectors t,
     ClassifyAddDelTable_MatchNVectors = cat_MatchNVectors t, ClassifyAddDelTable_NextTableIndex = cat_NextTableIndex t,
     ClassifyAddDelTable_MissNextIndex = cat_MissNextIndex t, ClassifyAddDelTable_CurrentDataFlag = 0,
     ClassifyAddDelTable_CurrentDataOffset = 0, ClassifyAddDelTable_MaskLen = cat_MaskLen t, ClassifyAddDelTable_Mask = cat_Mask t\<rparr>"
| "reqMsg (ReqClassifyAddDelSession s) = MsgClassifyAddDelSession \<lparr>ClassifyAddDelSession_IsAdd = cas_IsAdd s,
     ClassifyAddDelSession_TableIndex = cas_TableIndex s, ClassifyAddDelSession_HitNextIndex = cas_HitNextIndex s,
     ClassifyAddDelSession_OpaqueIndex = cas_OpaqueIndex s, ClassifyAddDelSession_Advance = 0, ClassifyAddDelSession_Action = 0,
     ClassifyAddDelSession_Metadata = 0, ClassifyAddDelSession_MatchLen = cas_MatchLen s, ClassifyAddDelSession_Match = cas_Match s\<rparr>"
| "reqMsg ClassifyTableIds = MsgClassifyTableIds wire_ClassifyTableIds"
| "reqMsg (ClassifyTableInfo t) = MsgClassifyTableInfo \<lparr>ClassifyTableInfo_TableID = t\<rparr>"
| "reqMsg (ClassifySessionDump t) = MsgClassifySessionDump \<lparr>ClassifySessionDump_TableID = t\<rparr>"
| "reqMsg (ProbeClassifyLookup t k n m) = MsgProbeClassifyLookup \<lparr>ProbeClassifyLookup_TableID = t, ProbeClassifyLookup_KeyLen = k,
     ProbeClassifyLookup_MatchLen = n, ProbeClassifyLookup_Match = m\<rparr>"
| "reqMsg (PolicerClassifySetInterface i t4 t6 l2 b) = MsgPolicerClassifySetInterface \<lparr>PolicerClassifySetInterface_SwIfIndex = i,
     PolicerClassifySetInterface_IP4TableIndex = t4, PolicerClassifySetInterface_IP6TableIndex = t6,
     PolicerClassifySetInterface_L2TableIndex = l2, PolicerClassifySetInterface_IsAdd = b\<rparr>"
| "reqMsg (PolicerClassifyDump f) = MsgPolicerClassifyDump \<lparr>PolicerClassifyDump_Type = classifyTableCode f, PolicerClassifyDump_SwIfIndex = 0\<rparr>"
| "reqMsg SwInterfaceDump = MsgSwInterfaceDump \<lparr>SwInterfaceDump_SwIfIndex = NoTable, SwInterfaceDump_NameFilterValid = False,
     SwInterfaceDump_NameFilter = []\<rparr>"

fun reqOf :: "binapi_msg \<Rightarrow> vpp_req option" where
  "reqOf (MsgPolicerAdd m) = map_option (PolicerAdd (PolicerAdd_Name m)) (readConfig (PolicerAdd_Infos m))"
| "reqOf (MsgPolicerUpdate m) = map_option (PolicerUpdate (PolicerUpdate_PolicerIndex m)) (readConfig (PolicerUpdate_Infos m))"
| "reqOf (MsgPolicerDel m) = Some (PolicerDel (PolicerDel_PolicerIndex m))"
| "reqOf (MsgPolicerBindV2 m) = Some (PolicerBindV2 (PolicerBindV2_PolicerIndex m) (PolicerBindV2_WorkerIndex m) (PolicerBindV2_BindEnable m))"
| "reqOf (MsgPolicerAddDel m) = Some (PolicerAddDel (PolicerAddDel_IsAdd m) (PolicerAddDel_Name m))"
| "reqOf (MsgPolicerDump m) = Some PolicerDump"
| "reqOf (MsgClassifyAddDelTable m) = Some (ReqClassifyAddDelTable \<lparr>cat_IsAdd = ClassifyAddDelTable_IsAdd m,
     cat_TableIndex = ClassifyAddDelTable_TableIndex m, cat_Nbuckets = ClassifyAddDelTable_Nbuckets m,
     cat_MemorySize = ClassifyAddDelTable_MemorySize m, cat_SkipNVectors = ClassifyAddDelTable_SkipNVectors m,
     cat_MatchNVectors = ClassifyAddDelTable_MatchNVectors m, cat_NextTableIndex = ClassifyAddDelTable_NextTableIndex m,
     cat_MissNextIndex = ClassifyAddDelTable_MissNextIndex m, cat_MaskLen = ClassifyAddDelTable_MaskLen m, cat_Mask = ClassifyAddDelTable_Mask m\<rparr>)"
| "reqOf (MsgClassifyAddDelSession m) = Some (ReqClassifyAddDelSession \<lparr>cas_IsAdd = ClassifyAddDelSession_IsAdd m,
     cas_TableIndex = ClassifyAddDelSession_TableIndex m, cas_HitNextIndex = ClassifyAddDelSession_HitNextIndex m,
     cas_OpaqueIndex = ClassifyAddDelSession_OpaqueIndex m, cas_MatchLen = ClassifyAddDelSession_MatchLen m, cas_Match = ClassifyAddDelSession_Match m\<rparr>)"
| "reqOf (MsgClassifyTableIds m) = Some ClassifyTableIds"
| "reqOf (MsgClassifyTableInfo m) = Some (ClassifyTableInfo (ClassifyTableInfo_TableID m))"
| "reqOf (MsgClassifySessionDump m) = Some (ClassifySessionDump (ClassifySessionDump_TableID m))"
| "reqOf (MsgProbeClassifyLookup m) = Some (ProbeClassifyLookup (ProbeClassifyLookup_TableID m) (ProbeClassifyLookup_KeyLen m)
     (ProbeClassifyLookup_MatchLen m) (ProbeClassifyLookup_Match m))"
| "reqOf (MsgPolicerClassifySetInterface m) = Some (PolicerClassifySetInterface (PolicerClassifySetInterface_SwIfIndex m)
     (PolicerClassifySetInterface_IP4TableIndex m) (PolicerClassifySetInterface_IP6TableIndex m)
     (PolicerClassifySetInterface_L2TableIndex m) (PolicerClassifySetInterface_IsAdd m))"
| "reqOf (MsgPolicerClassifyDump m) = map_option PolicerClassifyDump (decodeEnum classifyTableCode [FamilyIPv4, FamilyIPv6] (PolicerClassifyDump_Type m))"
| "reqOf (MsgSwInterfaceDump m) = Some SwInterfaceDump"
| "reqOf _ = None"

lemma readConfig_wireConfig [simp]: "readConfig (wireConfig c) = Some c"
  by (cases "pc_RateType c"; cases "pc_ConformAction c"; cases "pc_ExceedAction c"; cases "pc_ViolateAction c"; cases "pc_RoundType c"; cases "pc_Type c")
    (simp_all add: readConfig_def wireConfig_def readAction_def wireAction_def decodeEnum_def)

lemma reqOf_reqMsg [simp]: "reqOf (reqMsg r) = Some r"
proof (cases r)
  case (PolicerClassifyDump f)
  then show ?thesis by (cases f) (simp_all add: decodeEnum_def)
qed simp_all

subsection \<open>A channel that carries bytes\<close>

text \<open>The request is marshalled, read back by the name of its message, and served by \<open>ch\<close>.\<close>

definition over_wire :: "'b codec \<Rightarrow> 'v channel \<Rightarrow> 'v channel" where
  "over_wire cd ch r v =
     (case msg_Marshal cd (reqMsg r) None of None \<Rightarrow> (Inl 0, v)
      | Some bs \<Rightarrow> (case Option.bind (msg_Unmarshal cd (mi_Name (msgId (reqMsg r))) bs) reqOf of
           None \<Rightarrow> (Inl 0, v) | Some r' \<Rightarrow> ch r' v))"

lemma fits_dumps [simp]:
  "PolicerDump_fits \<lparr>PolicerDump_MatchNameValid = b, PolicerDump_MatchName = []\<rparr>"
  "SwInterfaceDump_fits \<lparr>SwInterfaceDump_SwIfIndex = i, SwInterfaceDump_NameFilterValid = b, SwInterfaceDump_NameFilter = []\<rparr>"
  by (simp_all add: PolicerDump_fits_def SwInterfaceDump_fits_def fixed_ok_def)

lemma sessionMatch_length: "sessionMatch ms p = Inr m \<Longrightarrow> length m \<le> 64"
  by (auto simp: sessionMatch_def layout_def addrField_def copy_at_def ethHdrLen_def vec_def As4_length Let_def split: if_splits option.splits)

lemma lookupBuf_length: "lookupBuf ms ps k = Inr (n, buf) \<Longrightarrow> length buf \<le> 64 * length ps"
proof (induction ps arbitrary: k n buf)
  case (Cons p ps)
  then obtain m buf' where "sessionMatch ms p = Inr m" "lookupBuf ms ps (length m) = Inr (n, buf')" "buf = m @ buf'"
    by (auto split: sum.splits)
  then show ?case using Cons.IH sessionMatch_length by (fastforce dest!: sessionMatch_length)
qed simp

lemma tableMask_length: "tableMask ms = (s, n, m) \<Longrightarrow> length m \<le> 64"
  by (auto simp: tableMask_def layout_def addrField_def copy_at_def netmask_def ethHdrLen_def vec_def Let_def split: if_splits)

context govpp_codec
begin

lemma over_wire_fits: "msg_fits (reqMsg r) \<Longrightarrow> over_wire cd ch r = ch r"
  using message_wire [of "reqMsg r"] by (intro ext) (auto simp: over_wire_def wire_exact_def)

lemma exec_over_wire [simp]: "msg_fits (reqMsg r) \<Longrightarrow> exec (over_wire cd ch) r = exec ch r"
  by (rule ext) (simp add: exec_def over_wire_fits)

lemma dumpAll_over_wire [simp]: "msg_fits (reqMsg r) \<Longrightarrow> dumpAll (over_wire cd ch) r = dumpAll ch r"
  by (intro ext) (simp add: dumpAll_def)

lemma session_over_wire: "session (over_wire cd ch) b t mk p h = session ch b t mk p h"
proof (cases "specOf mk")
  case (Inr ms)
  show ?thesis
  proof (cases "sessionMatch ms p")
    case match: (Inr m)
    then have "length m < 2 ^ 32" using sessionMatch_length [OF match] by simp
    then show ?thesis using Inr match by (simp add: session_def ClassifyAddDelSession_fits_def)
  qed (use Inr in \<open>simp add: session_def\<close>)
qed (simp add: session_def)

lemma DelSessionByKey_over_wire:
  assumes "length key < 2 ^ 31"
  shows "DelSessionByKey (over_wire cd ch) t mk key = DelSessionByKey ch t mk key"
proof (cases "specOf mk")
  case (Inr ms)
  have "skipBytes ms \<le> 32" by (auto simp: skipBytes_def layout_def addrField_def ethHdrLen_def vec_def)
  then show ?thesis using assms
    by (simp add: DelSessionByKey_req [OF Inr] sessionReq_def ClassifyAddDelSession_fits_def)
qed (simp add: DelSessionByKey_def)

lemma AddTable_over_wire: "AddTable (over_wire cd ch) spec = AddTable ch spec"
proof (cases "specOf (tsp_Mask spec)")
  case (Inr ms)
  obtain s n m where m: "tableMask ms = (s, n, m)" by (cases "tableMask ms")
  then have "length m < 2 ^ 32" using tableMask_length [OF m] by simp
  then show ?thesis using Inr m by (simp add: AddTable_def ClassifyAddDelTable_fits_def Let_def)
qed (simp add: AddTable_def)

lemma chain_over_wire: "LinkTable (over_wire cd ch) t n = LinkTable ch t n" "DeleteTable (over_wire cd ch) t = DeleteTable ch t"
  by (simp_all add: LinkTable_def DeleteTable_def ClassifyAddDelTable_fits_def)

lemma FindTablesByMask_over_wire: "FindTablesByMask (over_wire cd ch) = FindTablesByMask ch"
  by (simp add: FindTablesByMask_def Classify_TableInfo_def cong: vpp_rep.case_cong)

lemma lookupChunks_over_wire: "lookupChunks (over_wire cd ch) t ms ps = lookupChunks ch t ms ps"
proof (induction ps rule: length_induct)
  case (1 ps)
  show ?case
  proof (cases "ps = [] \<or> isl (lookupBuf ms (take 1024 ps) 0)")
    case True
    then show ?thesis by (subst lookupChunks.simps, subst lookupChunks.simps [of ch t ms ps]) (auto simp: isl_def)
  next
    case False
    then obtain k buf where kb: "lookupBuf ms (take 1024 ps) 0 = Inr (k, buf)" by (cases "lookupBuf ms (take 1024 ps) 0") auto
    have "length buf \<le> 64 * length (take 1024 ps)" by (rule lookupBuf_length [OF kb])
    then have "length buf < 2 ^ 32" by simp
    moreover have "lookupChunks (over_wire cd ch) t ms (drop 1024 ps) = lookupChunks ch t ms (drop 1024 ps)"
      using 1 False by simp
    ultimately show ?thesis
      using kb by (subst lookupChunks.simps, subst lookupChunks.simps [of ch t ms ps]) (simp add: ProbeClassifyLookup_fits_def cong: vpp_rep.case_cong if_cong)
  qed
qed

end

context govpp_codec
begin

lemma policers_over_wire:
  "fixed_ok 64 (ps_Name s) \<Longrightarrow> Policers_Add c (over_wire cd ch) s = Policers_Add c ch s"
  "Policers_Update c (over_wire cd ch) i s = Policers_Update c ch i s"
  "Policers_Delete (over_wire cd ch) i = Policers_Delete ch i"
  "fixed_ok 64 name \<Longrightarrow> Policers_DeleteByName (over_wire cd ch) name = Policers_DeleteByName ch name"
  "Policers_Dump (over_wire cd ch) = Policers_Dump ch"
  by (simp_all add: Policers_Add_def Policers_Update_def Policers_Delete_def Policers_DeleteByName_def Policers_Dump_def Policers_bind_def
      PolicerAdd_fits_def PolicerAddDel_fits_def cong: vpp_rep.case_cong sum.case_cong if_cong)

lemma LookupHits_over_wire: "LookupHits (over_wire cd ch) t mk ps = LookupHits ch t mk ps"
  by (simp add: LookupHits_def lookupChunks_over_wire cong: sum.case_cong if_cong)

lemma dumps_over_wire:
  "DumpSessions (over_wire cd ch) t = DumpSessions ch t" "DumpPolicerClassify (over_wire cd ch) f = DumpPolicerClassify ch f"
  "SetPolicerInterface (over_wire cd ch) i t4 t6 b = SetPolicerInterface ch i t4 t6 b"
  "Interfaces_List (over_wire cd ch) = Interfaces_List ch"
  by (simp_all add: DumpSessions_def DumpPolicerClassify_def SetPolicerInterface_def Interfaces_List_def)

lemmas operations = AddTable_over_wire chain_over_wire session_over_wire DelSessionByKey_over_wire FindTablesByMask_over_wire
  LookupHits_over_wire policers_over_wire dumps_over_wire

end

subsection \<open>Results\<close>

text \<open>C9: every message the agent exchanges with VPP crosses the codec exactly. For a message whose strings fit their fields and
  whose length fields are the lengths of their slices, \<open>Marshal\<close> succeeds, produces exactly \<open>Size\<close> bytes (so the buffer
  neither overruns nor keeps a tail), and \<open>Unmarshal\<close> of the type registered under the message's name gives the message back, for
  all thirty requests, replies and details messages.\<close>

theorem messages_exact_on_wire:
  assumes "govpp_codec cd view" and "msg_fits m"
  shows "\<exists>bs. msg_Marshal cd m None = Some bs \<and> length bs = msg_Size m \<and> msg_Unmarshal cd (mi_Name (msgId m)) bs = Some m"
  using govpp_codec.message_wire [OF assms] by (auto simp: wire_exact_def)

definition ex_session_msg :: wire_ClassifyAddDelSession where
  "ex_session_msg = \<lparr>ClassifyAddDelSession_IsAdd = True, ClassifyAddDelSession_TableIndex = 3, ClassifyAddDelSession_HitNextIndex = 7,
     ClassifyAddDelSession_OpaqueIndex = NoTable, ClassifyAddDelSession_Advance = 0, ClassifyAddDelSession_Action = 0,
     ClassifyAddDelSession_Metadata = 0, ClassifyAddDelSession_MatchLen = 2, ClassifyAddDelSession_Match = [1, 2]\<rparr>"

theorem messages_exact_on_wire_witness:
  "\<exists>bs. msg_Marshal ref_codec (MsgClassifyAddDelSession ex_session_msg) None = Some bs \<and> length bs = 28 \<and>
     msg_Unmarshal ref_codec ''classify_add_del_session'' bs = Some (MsgClassifyAddDelSession ex_session_msg)"
  using messages_exact_on_wire [OF refcodec.govpp_codec_axioms, of "MsgClassifyAddDelSession ex_session_msg"]
  by (simp add: ClassifyAddDelSession_fits_def ex_session_msg_def ClassifyAddDelSession_Size_def ClassifyAddDelSession_id_def)

text \<open>C8: carrying the requests as bytes changes no operation. Over a channel that marshals every request and serves what the
  other side reads, each operation of the classify, policer and interface wrappers does exactly what it does over the channel itself:
  no field the agent sets is lost, reordered or truncated. The names of policers have to fit VPP's 64-byte field, and a session key
  the 32-bit length.\<close>

theorem operations_over_the_wire:
  assumes "govpp_codec cd view" and "fixed_ok 64 (ps_Name s)" and "fixed_ok 64 name" and "length key < 2 ^ 31"
  shows "AddTable (over_wire cd ch) spec = AddTable ch spec \<and>
    LinkTable (over_wire cd ch) t n = LinkTable ch t n \<and> DeleteTable (over_wire cd ch) t = DeleteTable ch t \<and>
    AddSession (over_wire cd ch) t mk p h = AddSession ch t mk p h \<and>
    DelSession (over_wire cd ch) t mk p = DelSession ch t mk p \<and>
    DelSessionByKey (over_wire cd ch) t mk key = DelSessionByKey ch t mk key \<and>
    FindTablesByMask (over_wire cd ch) = FindTablesByMask ch \<and> DumpSessions (over_wire cd ch) t = DumpSessions ch t \<and>
    LookupHits (over_wire cd ch) t mk ps = LookupHits ch t mk ps \<and>
    SetPolicerInterface (over_wire cd ch) i t4 t6 b = SetPolicerInterface ch i t4 t6 b \<and>
    DumpPolicerClassify (over_wire cd ch) f = DumpPolicerClassify ch f \<and>
    Policers_Add c (over_wire cd ch) s = Policers_Add c ch s \<and> Policers_Update c (over_wire cd ch) i s = Policers_Update c ch i s \<and>
    Policers_Delete (over_wire cd ch) i = Policers_Delete ch i \<and>
    Policers_DeleteByName (over_wire cd ch) name = Policers_DeleteByName ch name \<and>
    Policers_Dump (over_wire cd ch) = Policers_Dump ch \<and> Interfaces_List (over_wire cd ch) = Interfaces_List ch"
  using assms(2-4)
  by (simp add: govpp_codec.operations [OF assms(1)] AddSession_def DelSession_def)

theorem operations_over_the_wire_witness:
  "fixed_ok 64 (ps_Name ex_pps) \<and> fixed_ok 64 ''pool-9-in'' \<and>
   (\<forall>c. Policers_Add c (over_wire ref_codec ref_channel) ex_pps = Policers_Add c ref_channel ex_pps) \<and>
   AddSession (over_wire ref_codec ref_channel) 3 MaskIP4Dst32 (Prefix (IPv4 5) 32) 7 = AddSession ref_channel 3 MaskIP4Dst32 (Prefix (IPv4 5) 32) 7"
proof -
  have ok: "fixed_ok 64 (ps_Name ex_pps)" "fixed_ok 64 ''pool-9-in''" by (simp_all add: fixed_ok_def ex_pps_def)
  show ?thesis
    using operations_over_the_wire [OF refcodec.govpp_codec_axioms ok, where key = "[]" and ch = ref_channel and t = 3 and
        mk = MaskIP4Dst32 and p = "Prefix (IPv4 5) 32" and h = 7] ok by simp
qed

end
