(* ===== verification/Spec2Isabelle.thy ===== *)
theory Spec2Isabelle
  imports Agent_Main Bird_Routes Grpc_Client Sizing Vpp_Wire
begin

text \<open>
  \<^bold>\<open>A verification of the edge agent\<close>

  The edge agent (\<open>src/cmd/edge-agent\<close>, \<open>src/internal\<close>) receives the desired state of one edge from a controller and
  materializes it in two places: VPP (rate limiters and the classify sessions that steer traffic into them) and BIRD
  (anchor routes and FlowSpec redirects). It reports health back. Its promise is that both places follow the desired
  state, that a lost controller or a failing call never makes it do something else, and that what it reports is what
  it sees. This development models that code and proves the promise piece by piece.

  \<^bold>\<open>Foundations\<close>

  \<^item> \<open>Prelude\<close>: errors as values, actions on a state that may fail and keep their effects, Go maps as association
    lists whose iteration order is an argument, and the loop rules the components share.
  \<^item> \<open>Netip\<close>, \<open>Netip_Parse\<close>, \<open>Go_Strings\<close>: what the code uses of \<open>net/netip\<close>, \<open>strings\<close>, \<open>strconv\<close> and \<open>fmt\<close>; parsing a
    printed prefix gives the prefix back.
  \<^item> \<open>Contract\<close>: the types of the module \<open>sbw-contract\<close>, which is not part of the repository. Its functions are the
    fields of the parameter \<open>contract_fns\<close>.

  \<^bold>\<open>The desired state\<close>

  \<^item> \<open>Desired_Store\<close> (\<open>agent/desiredstore.go\<close>): full pushes, merged deltas, the watermark that rejects stale
    snapshots, fail-static serving. \<open>Merge\<close> refines an abstract per-pool replacement and never duplicates a prefix.
  \<^item> \<open>Delta_Sequencer\<close> (\<open>agent/deltaseq.go\<close>): the reorder buffer. \<open>drain\<close> is a \<open>partial_function\<close>, since it
    loops until the chain breaks; \<open>drain_returns\<close> shows that it always returns, and the buffer is bounded.

  \<^bold>\<open>VPP\<close>

  \<^item> \<open>Vpp_Api\<close>, \<open>Vpp_Policer\<close>, \<open>Vpp_Classify\<close> (\<open>vpp/exec.go\<close>, \<open>iface.go\<close>, \<open>policer.go\<close>, \<open>classify.go\<close>): every request
    over a channel that is a parameter, with the byte layouts of masks and session keys and the unit conversions at
    their machine widths.
  \<^item> \<open>Vpp_Codec\<close>, \<open>Vpp_Messages\<close>, \<open>Vpp_Wire\<close> (\<open>binapi\<close>): the requests, replies and details messages as bytes, over govpp's
    codec buffer, whose documented operations are the locale \<open>govpp_codec\<close>. Every message fills exactly its \<open>Size\<close> and
    reads back as itself, and the operations of \<open>vpp\<close> cannot tell a channel of bytes from one of requests.
  \<^item> \<open>Vpp_Spec\<close>: what the agent relies on. \<open>vpp_channel\<close> states VPP's documented effect of each request on an
    abstract view; the contracts \<open>policer_api\<close> and \<open>classify_api\<close> follow by sublocale. \<open>Vpp_Ref\<close> is an executable
    VPP on which \<open>vpp_channel\<close> is interpreted and the witnesses run.
  \<^item> \<open>Classify_Diff\<close>, \<open>Reconcile\<close>, \<open>Reconcile_Pass\<close>, \<open>Convergence\<close> (\<open>agent/classifydiff.go\<close>, \<open>agent/reconcile.go\<close>):
    the full pass. A pass that reports no error has made the managed policers, sessions and interface bindings the
    desired ones; a failing pass publishes nothing; a collapse to the empty state is deferred once.
  \<^item> \<open>Delta\<close>, \<open>Delta_Equiv\<close> (\<open>agent/delta.go\<close>): the incremental path, and its equivalence with a full pass over the
    merged state when the data plane is in sync; \<open>moved_member_loses_session\<close> is the case outside the hypothesis.
  \<^item> \<open>Vpp_Conn\<close> (\<open>vpp/conn.go\<close>, \<open>messages.go\<close>): the options, the connection's state machine, its watch loop and its
    signals; \<open>Connect\<close> is ready only when every required message is compatible. \<open>Vpp_Ping\<close> (\<open>vpp/ping.go\<close>): the CLI ping
    and the reading of its statistics line. \<open>Sizing\<close>
    (\<open>agent/classifysizing.go\<close>): the size of the tables; the loop of \<open>nextPow2\<close> is a \<open>partial_function\<close> that is
    shown to return for every capacity the code computes.

  \<^bold>\<open>The agent\<close>

  \<^item> \<open>Agent_Loop\<close> (\<open>main.go\<close>, \<open>Reconciler.Run\<close>): the handlers of pushes and deltas and the event loop, as a step function
    over events that carry what a step reads from outside. Streams of deltas, in order or reordered within the
    buffer, keep the data plane in sync; queues stay bounded; nothing touches VPP before the first push.
  \<^item> \<open>Grpc_Client\<close> (\<open>grpcclient/client.go\<close>): chunked snapshots, dispatch, registration, the subscription with its
    retries. \<open>gatherChunks\<close> is a \<open>partial_function\<close> because its 32-bit counter could wrap; \<open>gatherChunks_returns\<close>
    shows that it returns. The locale \<open>handlers_keep\<close> is interpreted on the agent's own handlers.
  \<^item> \<open>Liveness\<close>, \<open>Report\<close>, \<open>Metering\<close> (\<open>phase.go\<close>, \<open>health.go\<close>, \<open>faultsensor.go\<close>, \<open>vpp_liveness.go\<close>, \<open>probe.go\<close>,
    \<open>report.go\<close>, \<open>metering.go\<close>, \<open>vpp/stats.go\<close>): verdicts as functions of histories of samples, the report with its
    fault overlay and its deferred wake-ups, and exact counters.
  \<^item> \<open>Fault_Uplink\<close> (\<open>runHealthTransitionReports\<close> and the hooks of \<open>main.go\<close>): the connection, the heartbeat watchdog, the
    loop that turns their transitions into report wake-ups, and the reporter, interleaved.
  \<^item> \<open>Kafka_Sink\<close>, \<open>Metrics\<close> (\<open>kafkasink\<close>, \<open>metrics\<close>): the options of the producer and the records of a metering tick,
    with the per-pool order they keep; the collectors and what each recording method writes.
  \<^item> \<open>Config\<close> (\<open>agent/config.go\<close>): defaults, overrides and validation over the contract module's readers.
    \<open>Agent_Main\<close> (\<open>main.go\<close>): start-up and its failures, the choice of the BIRD path, the canary, the watchdog, probe
    and metering set-ups, the observers of a pass in the order they are registered, the phase ticker, the chaos hook.

  \<^bold>\<open>BIRD\<close>

  \<^item> \<open>Bird_Wire\<close>, \<open>Bird_Client\<close>, \<open>Bird_Feed\<close> (\<open>birdfeed\<close>, \<open>redirectec\<close>): the socket feed. Frames round-trip through a
    decoder of the documented format; the buffered client implements \<open>feed_sink\<close>; after any history of failures a
    pass that reports success has made BIRD's table the desired one, a pass on a working socket succeeds, and a
    failure leaves a retry pending. BIRD's side of the socket is the contract \<open>api_proto\<close>, interpreted on a reference.
  \<^item> \<open>Bird_Cli\<close>, \<open>Bird_Render\<close>, \<open>Bird_Include\<close> (\<open>bird\<close>, \<open>anchors\<close>, \<open>flowspec\<close>, \<open>agent/birdapply.go\<close>, the canary of
    \<open>main.go\<close>): the legacy path. The reply reader is exact for BIRD's line protocol and ends on every input; the
    self-reconnecting client never wedges and makes a restart of BIRD invisible (\<open>bird_daemon\<close>); renderers are
    canonical and succeed exactly on clean sets; unless an answer of BIRD or a write was lost since its last accepted
    reload, the include files are what BIRD runs (\<open>include_file\<close>, \<open>synced_include\<close>, \<open>two_includes\<close>, interpreted on the
    self-reconnecting client over a BIRD with two files, and on a BIRD whose answers may be lost). \<open>Bird_Routes\<close> adds \<open>ShowRouteExported\<close>.

  \<^bold>\<open>Both planes\<close>

  This theory composes the VPP path and the BIRD feed: \<open>edge_recovers\<close> follows a restart of VPP through the reset, the
  full pass and the feed.

  \<^bold>\<open>Assumptions\<close>

  Hypotheses of the properties are of three kinds: a component outside the repository behaves as documented (VPP:
  \<open>vpp_channel\<close>; govpp's buffer: \<open>govpp_codec\<close>; BIRD: \<open>api_proto\<close>, \<open>bird_daemon\<close>, \<open>synced_include\<close>; the contract module), map iterations are
  permutations (\<open>range_order\<close>, \<open>orders_ok\<close>), and the desired state is one the controller renders (\<open>desired_ok\<close>). Calls may
  fail: every call to VPP, every write to BIRD's socket and to the disk, every command to BIRD, and every batch given to
  Kafka. Of BIRD's \<open>configure\<close> it is assumed that an accepted reload loads the files and that a refusal (a
  \<open>CommandError\<close>) keeps the previous configuration; after a lost answer BIRD may run either, which is the \<open>doubt\<close> of
  \<open>Bird_Include\<close>.

  A full pass trusts the indices the reconciler tracks, and for a policer it does not track it learns the index from
  the sessions in VPP. So the convergence of a pass is stated from \<open>pass_ready\<close>: tracked indices are right, and a
  session of a member whose pool is untracked hits its own pool's policer. A fresh agent on a fresh VPP is ready, a pass
  without error leaves the agent ready for every next desired state (\<open>pass_leaves_ready\<close>), and
  \<open>moved_member_misattributed\<close> shows what happens outside it: an agent that restarts after a member has changed pools
  learns the wrong index and reports success. Likewise a delta is equivalent to a full pass only if it moves no member
  between pools (\<open>delta_fits\<close>). Time
  is an integer that events carry, in milliseconds; the durations of \<open>Config\<close>, \<open>Vpp_Conn\<close> and \<open>Agent_Main\<close> are in
  nanoseconds, as in the code. Concurrency is interleaving: a step is one iteration of a
  goroutine's \<open>select\<close> or one call under a lock.

  \<^bold>\<open>Not modelled\<close>

  The generated messages of \<open>binapi\<close> the agent does not exchange, with their enum names and \<open>String\<close> methods, logging, flag parsing, the HTTP server of the metrics and the
  start of goroutines in \<open>main.go\<close>, the dialling and the protobuf codec of the controller's gRPC stream. The Kafka,
  Prometheus and govpp clients, the file system, the floating-point product of \<open>Sizing\<close> and \<open>fmt\<close>'s quoting are
  parameters.
\<close>

subsection \<open>Both planes after a restart of VPP\<close>

text \<open>A VPP that has just started holds nothing of ours; a pass after \<open>Reset\<close> is ready for it, and for any well-formed VPP
  whose sessions point at their own policers.\<close>

definition vpp_fresh :: "vpp_view \<Rightarrow> bool" where
  "vpp_fresh V \<longleftrightarrow> (\<forall>n. vv_pol V n = None) \<and> (\<forall>t. vv_tab V t = None)"

definition vpp_clean :: "EdgeDesiredState \<Rightarrow> vpp_view \<Rightarrow> bool" where
  "vpp_clean st V \<longleftrightarrow> view_wf V \<and> one_table V \<and> sessions_attributed V (es_ClassifySessions st)"

lemma fresh_is_clean: "vpp_fresh V \<Longrightarrow> vpp_clean st V"
  by (auto simp: vpp_fresh_def vpp_clean_def view_wf_def one_table_def table_of_def sessions_attributed_def)

lemma pass_ready_reset: "vpp_clean st V \<Longrightarrow> pass_ready st V ((Reset r)\<lparr>rc_applying := b\<rparr>)"
  unfolding vpp_clean_def pass_ready_def by (auto simp: idx_ok_def Reset_def intro: sessions_attributed_subset)

lemma reconnect_pass:
  assumes "vpp_channel ch vw" and "orders_ok ro" and "desired_ok c st" and "Desired (ag_store a) = Some st" and "\<not> deferred st (ag_recon a)"
    and "vpp_clean st (vw (ag_vpp a))" and "agent_step c a (EvReconnect ro (Inr ch)) a'"
    and "fst (runOnce c ro (Inr ch) (Some st) (Reset (ag_recon a), ag_vpp a)) = Some (st, res, None)"
  shows "Desired (ag_store a') = Some st \<and> policers_converged c st (vw (ag_vpp a)) (vw (ag_vpp a')) (ag_recon a') \<and>
    sessions_converged st (vw (ag_vpp a')) \<and> bindings_converged (rc_policerIfaces (ag_recon a)) (vw (ag_vpp a')) \<and>
    appliedGen a' = es_Generation st"
proof -
  let ?r = "(Reset (ag_recon a))\<lparr>rc_applying := True\<rparr>"
  obtain out r' v' where rec: "Reconcile c ro (Inr ch) st (?r, ag_vpp a) = (out, (r', v'))" by (metis prod.exhaust)
  have "out = (res, None)" using assms(8) rec by (cases out) (simp add: runOnce_def)
  then have ok: "Reconcile c ro (Inr ch) st (?r, ag_vpp a) = ((res, None), (r', v'))" using rec by simp
  have a': "a' = a\<lparr>ag_recon := r'\<lparr>rc_applying := False\<rparr>, ag_vpp := v'\<rparr>"
    using assms(4,7) ok by (auto elim!: agent_stepE simp: runPass_def onRecon_def runOnce_def)
  have "\<not> deferred st ?r" using assms(5) by (simp add: deferred_def Reset_def)
  from Reconcile_pass [OF assms(1-3) pass_ready_reset [OF assms(6)] this ok] show ?thesis
    using assms(4) by (simp add: a' policers_converged_def appliedGen_def LastAppliedGeneration_def Reset_def)
qed

text \<open>C1: an edge recovers from a VPP restart. Whatever the agent had tracked before, when the reconnect signal is served
  (the caches are reset and a full pass runs) and that pass reports no error, VPP again has every policer, every session
  and every binding of the state the store serves; and when the feed's pass for that state succeeds, after any
  history of its socket and whatever BIRD held when it accepted the connection, BIRD has exactly the anchors and
  redirects of the same state. The restarted VPP may hold anything well-formed in which the sessions of the desired
  members it already holds hit their own pool's policer; a fresh one holds nothing.\<close>

theorem edge_recovers:
  assumes "vpp_channel ch vw" and "orders_ok ro" and "desired_ok c st" and "Desired (ag_store a) = Some st" and "\<not> deferred st (ag_recon a)"
    and "vpp_clean st (vw (ag_vpp a))" and "agent_step c a (EvReconnect ro (Inr ch)) a'"
    and "fst (runOnce c ro (Inr ch) (Some st) (Reset (ag_recon a), ag_vpp a)) = Some (st, res, None)"
    and "api_proto recv routes stale" and "\<forall>ev \<in> set es. event_ok ev" and "feed_env_ok env" and "feedable st"
    and "feed_apply (client_sink net) env st (feed_run (client_sink net) peerClose es (NewFeed mo, NewClient)) = (None, (f, cl))"
  shows "Desired (ag_store a') = Some st \<and> policers_converged c st (vw (ag_vpp a)) (vw (ag_vpp a')) (ag_recon a') \<and>
    sessions_converged st (vw (ag_vpp a')) \<and> bindings_converged (rc_policerIfaces (ag_recon a)) (vw (ag_vpp a')) \<and>
    appliedGen a' = es_Generation st \<and> routes (fold recv (splitFrames (bc_sent cl)) b) = bird_table st"
  using reconnect_pass [OF assms(1-8)] feed_apply_table [OF assms(9-13)] by simp

definition ex_both :: EdgeDesiredState where
  "ex_both = ex_state\<lparr>es_Anchors := es_Anchors ex_feed_state, es_FlowRedirects := es_FlowRedirects ex_feed_state, es_RedirectNextHop := IPv4 5\<rparr>"

definition ex_restarted :: "ref_vpp agent" where
  "ex_restarted = \<lparr>ag_store = snd (Accept 0 ex_both NewDesiredStore), ag_recon = ex_recon, ag_vpp = ex_vpp, ag_pending = [], ag_bird = Some False\<rparr>"

definition ex_net_up :: net where
  "ex_net_up = ex_net\<lparr>nt_dial := (\<lambda>_. None)\<rparr>"

lemma ex_restart_pass:
  "\<exists>res. fst (runOnce ex_contract ex_orders (Inr ref_channel) (Some ex_both) (Reset (ag_recon ex_restarted), ag_vpp ex_restarted)) = Some (ex_both, res, None)"
proof -
  have "map_option (\<lambda>(_, _, e). e) (fst (runOnce ex_contract ex_orders (Inr ref_channel) (Some ex_both) (Reset (ag_recon ex_restarted), ag_vpp ex_restarted))) = Some None"
    by code_simp
  then show ?thesis by (auto simp: runOnce_def split: prod.splits)
qed

theorem edge_recovers_witness:
  "\<exists>a' f cl. agent_step ex_contract ex_restarted (EvReconnect ex_orders (Inr ref_channel)) a' \<and>
     sessions_converged ex_both (ref_view (ag_vpp a')) \<and> bindings_converged [''eth0''] (ref_view (ag_vpp a')) \<and>
     feed_apply (client_sink ex_net_up) ex_env ex_both (feed_run (client_sink ex_net_up) peerClose [] (NewFeed 2, NewClient)) = (None, (f, cl)) \<and>
     ref_routes (fold ref_recv (splitFrames (bc_sent cl)) ([([1, 32, 0, 0, 0, 1], [])], [])) = bird_table ex_both"
proof -
  let ?a' = "runPass ex_contract ex_orders (Inr ref_channel) (onRecon Reset ex_restarted)"
  let ?fs = "feed_run (client_sink ex_net_up) peerClose [] (NewFeed 2, NewClient)"
  obtain res where pass: "fst (runOnce ex_contract ex_orders (Inr ref_channel) (Some ex_both) (Reset (ag_recon ex_restarted), ag_vpp ex_restarted)) = Some (ex_both, res, None)"
    using ex_restart_pass by blast
  have d: "desired_ok ex_contract ex_both" using ex_desired_ok by (simp add: desired_ok_def ex_both_def)
  have st: "Desired (ag_store ex_restarted) = Some ex_both" by (simp add: ex_restarted_def Desired_def Accept_def NewDesiredStore_def)
  have nd: "\<not> deferred ex_both (ag_recon ex_restarted)"
    using ex_not_deferred by (simp add: deferred_def ex_restarted_def ex_both_def desiredEmpty_def)
  have cln: "vpp_clean ex_both (ref_view (ag_vpp ex_restarted))"
    using ex_pass_ready by (auto simp: vpp_clean_def pass_ready_def untracked_def ex_restarted_def ex_both_def ex_recon_def SetPolicerInterfaces_def Reconcile.New_def ex_state_def)
  have fd: "feedable ex_both" using ex_feedable by (simp add: feedable_def ex_both_def)
  have "healthy_from ex_net_up (snd ?fs)" by (simp add: healthy_from_def feed_run_def NewClient_def ex_net_up_def ex_net_def)
  moreover have "nextHopsOk ex_both" by (simp add: nextHopsOk_def haveV6_def ex_both_def ex_feed_state_def)
  ultimately obtain f cl where r: "feed_apply (client_sink ex_net_up) ex_env ex_both ?fs = (None, (f, cl))"
    using healthy_apply [of ex_net_up "snd ?fs" ex_both ex_env ex_env "fst ?fs"] ex_env_ok by auto
  have "rc_policerIfaces (ag_recon ex_restarted) = [''eth0'']" by (simp add: ex_restarted_def ex_recon_def SetPolicerInterfaces_def)
  with edge_recovers [OF ref.vpp_channel_axioms ex_orders_ok d st nd cln agent_step.reconnect pass ref_proto.api_proto_axioms _ ex_env_ok fd r] r
  show ?thesis using agent_step.reconnect [of ex_contract ex_restarted ex_orders "Inr ref_channel"] by fastforce
qed

end
